(* ===== verification/Prelude.thy ===== *)
theory Prelude
  imports Complex_Main "HOL-Library.Multiset" "HOL-Library.Sublist" "HOL-Library.List_Lexorder"
    "HOL-Library.Product_Lexorder"
begin

text \<open>
  What every component shares: Python's \<open>str\<close> as a list of code points, the few \<open>str\<close>
  methods the back end calls (\<open>strip\<close>, \<open>rstrip\<close>, \<open>join\<close>), Python's notion of a
  white-space character (the one \<open>str.isspace\<close> and the regular expression class \<open>\s\<close> use),
  outcomes of code that may raise, and generic lemmas on lists and on stable sorting.

  A Python \<open>float\<close> is a rational here, and every arithmetic operation on floats goes through a
  rounding parameter \<open>fl\<close>: IEEE arithmetic delivers the rounding of the exact result, and no
  property below depends on which rounding is used unless it says so.
\<close>

named_theorems py_text \<open>facts on Python strings used by the text components\<close>

subsection \<open>Strings as code points\<close>

type_synonym codepoint = nat
type_synonym ustring = "codepoint list"
type_synonym rounding = "rat \<Rightarrow> rat"

definition lit :: "string \<Rightarrow> ustring" where
  "lit s = map of_char s"

text \<open>\<open>Py_UNICODE_ISSPACE\<close>: the white-space characters of \<open>str.isspace\<close>, \<open>str.strip\<close>,
  \<open>str.split\<close> and \<open>\s\<close> on text patterns.\<close>

definition is_space :: "codepoint \<Rightarrow> bool" where
  "is_space c \<longleftrightarrow>
     (9 \<le> c \<and> c \<le> 13) \<or> (28 \<le> c \<and> c \<le> 32) \<or> c = 133 \<or> c = 160 \<or> c = 5760
     \<or> (8192 \<le> c \<and> c \<le> 8202) \<or> c = 8232 \<or> c = 8233 \<or> c = 8239 \<or> c = 8287 \<or> c = 12288"

definition lstrip :: "ustring \<Rightarrow> ustring" where
  "lstrip s = dropWhile is_space s"

definition rstrip :: "ustring \<Rightarrow> ustring" where
  "rstrip s = rev (dropWhile is_space (rev s))"

definition strip :: "ustring \<Rightarrow> ustring" where
  "strip s = rstrip (lstrip s)"

fun join :: "ustring \<Rightarrow> ustring list \<Rightarrow> ustring" where
  "join sep [] = []"
| "join sep [x] = x"
| "join sep (x # y # ys) = x @ sep @ join sep (y # ys)"

text \<open>The characters a reader sees: everything but white space.\<close>

definition visible :: "ustring \<Rightarrow> ustring" where
  "visible s = filter (\<lambda>c. \<not> is_space c) s"

lemma visible_Nil [simp, py_text]: "visible [] = []"
  by (simp add: visible_def)

lemma visible_append [simp, py_text]: "visible (a @ b) = visible a @ visible b"
  by (simp add: visible_def)

lemma visible_concat: "visible (concat xss) = concat (map visible xss)"
  by (induction xss) auto

lemma visible_all_space: "list_all is_space s \<Longrightarrow> visible s = []"
  by (auto simp: visible_def filter_empty_conv list_all_iff)

lemma visible_eq_Nil_iff: "visible s = [] \<longleftrightarrow> (\<forall>c \<in> set s. is_space c)"
  by (auto simp: visible_def filter_empty_conv)

lemma takeWhile_dropWhile_rev:
  "rev (dropWhile P (rev s)) @ rev (takeWhile P (rev s)) = s"
  by (metis rev_append rev_rev_ident takeWhile_dropWhile_id)

lemma visible_rev: "visible (rev s) = rev (visible s)"
  by (simp add: visible_def rev_filter)

lemma visible_dropWhile_space: "visible (dropWhile is_space s) = visible s"
  by (induction s) (auto simp: visible_def)

lemma visible_lstrip [simp, py_text]: "visible (lstrip s) = visible s"
  by (simp add: lstrip_def visible_dropWhile_space)

lemma visible_rstrip [simp, py_text]: "visible (rstrip s) = visible s"
  by (simp add: rstrip_def visible_rev visible_dropWhile_space)

lemma visible_strip [simp, py_text]: "visible (strip s) = visible s"
  by (simp add: strip_def)

lemma subseq_dropWhile: "subseq (dropWhile P s) s"
  by (metis list_emb_append2 subseq_order.refl takeWhile_dropWhile_id)

lemma subseq_rstrip: "subseq (rstrip s) s"
proof -
  have "subseq (rstrip s @ []) (rstrip s @ rev (takeWhile is_space (rev s)))"
    by (subst subseq_append') simp
  then show ?thesis
    by (simp add: rstrip_def takeWhile_dropWhile_rev)
qed

lemma subseq_strip: "subseq (strip s) s"
  using subseq_order.trans [OF subseq_rstrip [of "lstrip s"], of s] subseq_dropWhile [of is_space s]
  by (simp add: strip_def lstrip_def)

lemma length_strip_le: "length (strip s) \<le> length s"
  by (rule list_emb_length [OF subseq_strip])

lemma strip_eq_Nil_iff: "strip s = [] \<longleftrightarrow> visible s = []"
proof -
  have "strip s = [] \<Longrightarrow> visible s = []"
    by (metis visible_Nil visible_strip)
  moreover have "visible s = [] \<Longrightarrow> dropWhile is_space s = []"
    by (simp add: visible_eq_Nil_iff)
  then have "visible s = [] \<Longrightarrow> strip s = []"
    by (auto simp: strip_def rstrip_def lstrip_def dest: set_dropWhileD)
  ultimately show ?thesis by blast
qed

lemma strip_Nil [simp]: "strip [] = []"
  by (simp add: strip_def rstrip_def lstrip_def)

lemma lstrip_fixed: "s = [] \<or> \<not> is_space (hd s) \<Longrightarrow> lstrip s = s"
  by (cases s) (auto simp: lstrip_def)

lemma hd_rstrip: "rstrip s \<noteq> [] \<Longrightarrow> hd (rstrip s) = hd s"
  by (metis rstrip_def takeWhile_dropWhile_rev hd_append2)

lemma dropWhile_space_Nil: "visible s = [] \<Longrightarrow> dropWhile is_space s = []"
  by (simp add: visible_eq_Nil_iff)

lemma strip_ends:
  assumes "strip s \<noteq> []"
  shows "\<not> is_space (hd (strip s))" and "\<not> is_space (last (strip s))"
proof -
  let ?l = "dropWhile is_space s"
  have ne: "?l \<noteq> []"
    using assms by (auto simp: strip_def rstrip_def lstrip_def dest: set_dropWhileD)
  have "hd (strip s) = hd ?l"
    using assms hd_rstrip [of ?l] by (simp add: strip_def lstrip_def)
  then show "\<not> is_space (hd (strip s))"
    using hd_dropWhile [OF ne] by simp
  let ?r = "dropWhile is_space (rev ?l)"
  have "?r \<noteq> []" using assms by (simp add: strip_def rstrip_def lstrip_def)
  then have "\<not> is_space (hd ?r)" by (rule hd_dropWhile)
  with \<open>?r \<noteq> []\<close> show "\<not> is_space (last (strip s))"
    by (simp add: strip_def rstrip_def lstrip_def last_rev)
qed

lemma rstrip_fixed: "s = [] \<or> \<not> is_space (last s) \<Longrightarrow> rstrip s = s"
  by (cases s rule: rev_cases) (auto simp: rstrip_def)

lemma strip_idem [simp]: "strip (strip s) = strip s"
proof (cases "strip s = []")
  case False
  have "lstrip (strip s) = strip s"
    using strip_ends(1) [OF False] by (intro lstrip_fixed) simp
  moreover have "rstrip (strip s) = strip s"
    using strip_ends(2) [OF False] by (intro rstrip_fixed) simp
  ultimately show ?thesis by (simp add: strip_def [of "strip s"])
qed simp

lemma visible_join:
  assumes "visible sep = []"
  shows "visible (join sep xs) = concat (map visible xs)"
  using assms by (induction sep xs rule: join.induct) auto

lemma join_Cons_split: "\<exists>rest. join sep (x # xs) = x @ rest"
  by (cases xs) auto

lemma join_append_single:
  "join sep (xs @ [y]) = (if xs = [] then y else join sep xs @ sep @ y)"
proof (induction sep xs rule: join.induct)
  case (3 sep x y ys)
  then show ?case by auto
qed auto

subsection \<open>Outcomes\<close>

text \<open>Code that may raise returns \<open>Inl\<close> of the exception or \<open>Inr\<close> of the value.\<close>

definition raised :: "'e + 'a \<Rightarrow> bool" where
  "raised r \<longleftrightarrow> (case r of Inl _ \<Rightarrow> True | Inr _ \<Rightarrow> False)"

lemma raised_simps [simp]: "raised (Inl e)" "\<not> raised (Inr v)"
  by (auto simp: raised_def)

subsection \<open>Lists\<close>

lemma sorted_sort_key: "sorted (map f (sort_key f xs))"
  by (rule sorted_sort_key)

lemma take_subset: "set (take n xs) \<subseteq> set xs"
  by (rule set_take_subset)

lemma sum_list_of_nat_nonneg: "(\<And>x. x \<in> set xs \<Longrightarrow> (0::int) \<le> x) \<Longrightarrow> 0 \<le> sum_list xs"
  by (induction xs) auto

lemma map_of_distinct_filter:
  "distinct (map fst xs) \<Longrightarrow> map_of (filter (\<lambda>kv. P (fst kv)) xs) k = (if P k then map_of xs k else None)"
  by (induction xs) (auto split: option.splits simp: map_of_eq_None_iff rev_image_eqI)

text \<open>Python slices \<open>xs[:n]\<close> and \<open>xs[-n:]\<close>; a negative bound counts from the end.\<close>

definition slice_to :: "int \<Rightarrow> 'a list \<Rightarrow> 'a list" where
  "slice_to n xs = (if 0 \<le> n then take (nat n) xs else take (nat (int (length xs) + n)) xs)"

definition last_n :: "nat \<Rightarrow> 'a list \<Rightarrow> 'a list" where
  "last_n n xs = drop (length xs - n) xs"

lemma slice_to_prefix: "prefix (slice_to n xs) xs"
  by (simp add: slice_to_def take_is_prefix)

lemma length_slice_to: "0 \<le> n \<Longrightarrow> int (length (slice_to n xs)) \<le> n"
  by (simp add: slice_to_def)

lemma slice_to_map: "slice_to n (map f xs) = map f (slice_to n xs)"
  by (simp add: slice_to_def take_map)

definition or_else :: "'a option \<Rightarrow> 'a \<Rightarrow> 'a" where
  "or_else v d = (case v of None \<Rightarrow> d | Some x \<Rightarrow> x)"

lemma or_else_simps [simp]: "or_else None d = d" "or_else (Some x) d = x"
  by (simp_all add: or_else_def)

text \<open>Removal of repeated elements, the first occurrence staying where it is.\<close>

fun dedup :: "'a list \<Rightarrow> 'a list \<Rightarrow> 'a list" where
  "dedup seen [] = []"
| "dedup seen (x # xs) = (if x \<in> set seen then dedup seen xs else x # dedup (x # seen) xs)"

lemma set_dedup: "set (dedup seen xs) = set xs - set seen"
  by (induction seen xs rule: dedup.induct) auto

lemma distinct_dedup: "distinct (dedup seen xs)"
  by (induction seen xs rule: dedup.induct) (auto simp: set_dedup)

lemma subseq_dedup: "subseq (dedup seen xs) xs"
  by (induction seen xs rule: dedup.induct) auto

lemma length_dedup: "length (dedup seen xs) \<le> length xs"
  by (rule list_emb_length [OF subseq_dedup])

lemma dedup_cong: "set s = set t \<Longrightarrow> dedup s xs = dedup t xs"
  by (induction s xs arbitrary: t rule: dedup.induct) auto

lemma dedup_take_prefix: "prefix (dedup seen (take n xs)) (dedup seen xs)"
proof (induction seen xs arbitrary: n rule: dedup.induct)
  case (2 seen x xs)
  then show ?case by (cases n) auto
qed simp

subsection \<open>Decimal numerals\<close>

text \<open>\<open>str(n)\<close> of a natural number.\<close>

fun decimal :: "nat \<Rightarrow> ustring" where
  "decimal n = (if n < 10 then [48 + n] else decimal (n div 10) @ [48 + n mod 10])"

declare decimal.simps [simp del]

fun undecimal :: "nat \<Rightarrow> ustring \<Rightarrow> nat" where
  "undecimal acc [] = acc"
| "undecimal acc (c # cs) = undecimal (10 * acc + (c - 48)) cs"

lemma undecimal_append: "undecimal acc (xs @ ys) = undecimal (undecimal acc xs) ys"
  by (induction acc xs rule: undecimal.induct) auto

lemma undecimal_decimal [simp]: "undecimal 0 (decimal n) = n"
proof (induction n rule: decimal.induct)
  case (1 n)
  then show ?case
    by (cases "n < 10") (simp_all add: decimal.simps [of n] undecimal_append)
qed

lemma decimal_inject [simp]: "decimal m = decimal n \<longleftrightarrow> m = n"
  by (metis undecimal_decimal)

lemma decimal_digits: "c \<in> set (decimal n) \<Longrightarrow> 48 \<le> c \<and> c \<le> 57"
proof (induction n rule: decimal.induct)
  case (1 n)
  then show ?case
    by (cases "n < 10") (auto simp: decimal.simps [of n])
qed

lemma decimal_nonempty [simp]: "decimal n \<noteq> []"
  by (subst decimal.simps) simp

text \<open>\<open>str(n)\<close> of an integer.\<close>

definition int_str :: "int \<Rightarrow> ustring" where
  "int_str n = (if n < 0 then 45 # decimal (nat (- n)) else decimal (nat n))"

end
