(* ===== verification/Tokens.thy ===== *)
theory Tokens
  imports Prelude
begin

text \<open>
  \<open>backend/etl/tokens.py\<close>: the token estimate that the chunker, the context selection and the
  quota reservation all share. The chunker takes any counter; the lemmas at the end collect what
  the default one promises: it is monotone under taking sub-sequences and subadditive.
\<close>

definition cjk_ranges :: "(codepoint \<times> codepoint) list" where
  "cjk_ranges =
    [(0x3000, 0x303F), (0x3040, 0x30FF), (0x3400, 0x4DBF), (0x4E00, 0x9FFF),
     (0xAC00, 0xD7AF), (0xF900, 0xFAFF), (0xFF00, 0xFFEF)]"

definition chars_per_token :: nat where
  "chars_per_token = 4"

definition is_cjk :: "codepoint \<Rightarrow> bool" where
  "is_cjk code \<longleftrightarrow> list_ex (\<lambda>(start, stop). start \<le> code \<and> code \<le> stop) cjk_ranges"

definition estimate_tokens :: "ustring \<Rightarrow> nat" where
  "estimate_tokens t =
     (if t = [] then 0
      else let cjk = length (filter is_cjk t); others = length t - cjk
           in cjk + nat \<lceil>of_nat others / (of_nat chars_per_token :: rat)\<rceil>)"

lemma ceiling_quarter: "nat \<lceil>of_nat n / (of_nat chars_per_token :: rat)\<rceil> = (n + 3) div 4"
proof -
  have "\<lceil>of_int (int n) / (of_int 4 :: rat)\<rceil> = - (- int n div 4)"
    by (rule ceiling_divide_eq_div)
  then show ?thesis by (simp add: chars_per_token_def)
qed

lemma estimate_tokens_alt:
  "estimate_tokens s = length (filter is_cjk s) + (length (filter (\<lambda>c. \<not> is_cjk c) s) + 3) div 4"
proof -
  have "length s - length (filter is_cjk s) = length (filter (\<lambda>c. \<not> is_cjk c) s)"
    using sum_length_filter_compl [of is_cjk s] by simp
  then show ?thesis
    by (auto simp: estimate_tokens_def Let_def ceiling_quarter)
qed

lemma estimate_tokens_Nil [simp]: "estimate_tokens [] = 0"
  by (simp add: estimate_tokens_def)

lemma estimate_tokens_append_le:
  "estimate_tokens (a @ b) \<le> estimate_tokens a + estimate_tokens b"
  by (simp add: estimate_tokens_alt)

lemma estimate_tokens_subseq_mono:
  assumes "subseq a b"
  shows "estimate_tokens a \<le> estimate_tokens b"
proof -
  have "length (filter P a) \<le> length (filter P b)" for P
    by (rule list_emb_length [OF subseq_filter [OF assms]])
  from this [of is_cjk] this [of "\<lambda>c. \<not> is_cjk c"] show ?thesis
    by (simp add: estimate_tokens_alt)
qed

lemma estimate_tokens_le_length: "estimate_tokens s \<le> length s"
  using sum_length_filter_compl [of is_cjk s] by (simp add: estimate_tokens_alt)

lemma length_le_estimate_tokens: "length s \<le> 4 * estimate_tokens s"
  using sum_length_filter_compl [of is_cjk s] by (simp add: estimate_tokens_alt)

lemma estimate_tokens_strip_le: "estimate_tokens (strip s) \<le> estimate_tokens s"
  by (rule estimate_tokens_subseq_mono [OF subseq_strip])

end
