(* ===== verification/DocModel.thy ===== *)
theory DocModel
  imports Tokens
begin

text \<open>
  \<open>backend/etl/extract/model.py\<close> and \<open>backend/etl/extract/markdown.py\<close>: the one data
  structure every loader produces (a list of typed blocks with their position) and its Markdown
  serialisation, which the chunker works on. Lemmas: a rendered table has one line per row plus
  the separator, and no cell can break out of its line or open a new column.
\<close>

subsection \<open>JSON values\<close>

text \<open>The values \<open>json.loads\<close> returns. An object is the list of its items in insertion order.\<close>

datatype json =
    JNull
  | JBool bool
  | JInt int
  | JFloat rat
  | JStr ustring
  | JList "json list"
  | JObj "(ustring \<times> json) list"

definition jget :: "(ustring \<times> json) list \<Rightarrow> string \<Rightarrow> json option" where
  "jget obj key = map_of obj (lit key)"

subsection \<open>Blocks\<close>

datatype block_type = PARAGRAPH | HEADING | TABLE | CODE | CAPTION

record block_meta =
  order :: int
  bpage :: "int option"
  bheading_path :: "ustring list"

record block =
  btype :: block_type
  btext :: ustring
  bmeta :: block_meta

record extracted_doc =
  blocks :: "block list"
  doc_meta :: "(ustring \<times> json) list"

subsection \<open>Markdown\<close>

definition newline :: codepoint where
  "newline = 10"

definition block_separator :: ustring where
  "block_separator = [newline, newline]"

definition max_heading_depth :: nat where
  "max_heading_depth = 6"

definition block_to_markdown :: "block \<Rightarrow> ustring" where
  "block_to_markdown b =
     (case btype b of
        HEADING \<Rightarrow>
          (let depth = min (length (bheading_path (bmeta b)) + 1) max_heading_depth
           in replicate depth (of_char (CHR ''#'')) @ lit '' '' @ btext b)
      | TABLE \<Rightarrow> btext b
      | CODE \<Rightarrow> lit ''```'' @ [newline] @ btext b @ [newline] @ lit ''```''
      | CAPTION \<Rightarrow> lit ''*'' @ btext b @ lit ''*''
      | PARAGRAPH \<Rightarrow> btext b)"

definition to_markdown :: "extracted_doc \<Rightarrow> ustring" where
  "to_markdown doc = join block_separator (map block_to_markdown (blocks doc))"

text \<open>\<open>cell.replace("|", ...).replace("\n", "<br>").strip()\<close>; replacing a one-character
  pattern rewrites the string character by character.\<close>

definition replace_char :: "codepoint \<Rightarrow> ustring \<Rightarrow> ustring \<Rightarrow> ustring" where
  "replace_char c r s = concat (map (\<lambda>x. if x = c then r else [x]) s)"

definition pipe :: codepoint where
  "pipe = 124"

definition backslash :: codepoint where
  "backslash = 92"

definition escape_cell :: "ustring \<Rightarrow> ustring" where
  "escape_cell cell =
     strip (replace_char newline (lit ''<br>'') (replace_char pipe [backslash, pipe] cell))"

definition table_line :: "ustring list \<Rightarrow> ustring" where
  "table_line cells = lit ''| '' @ join (lit '' | '') cells @ lit '' |''"

fun rows_to_markdown_table :: "ustring list list \<Rightarrow> ustring" where
  "rows_to_markdown_table [] = []"
| "rows_to_markdown_table (row # rows) =
     (let width = Max (set (map length (row # rows)));
          padded = map (\<lambda>r. map escape_cell r @ replicate (width - length r) []) (row # rows);
          table_lines = table_line (hd padded) # table_line (replicate width (lit ''---''))
                        # map table_line (tl padded)
      in join [newline] table_lines)"

subsection \<open>Lemmas\<close>

lemma heading_markdown_nonempty: "btype b = HEADING \<Longrightarrow> block_to_markdown b \<noteq> []"
  by (simp add: block_to_markdown_def Let_def lit_def)

lemma replace_char_absent: "c \<notin> set r \<Longrightarrow> c \<notin> set (replace_char c r s)"
  by (auto simp: replace_char_def split: if_splits)

lemma lit_ascii_no_newline: "newline \<notin> set (lit ''<br>'')"
  by (simp add: newline_def lit_def)

lemma set_strip_subset: "set (strip s) \<subseteq> set s"
  by (auto simp: strip_def rstrip_def lstrip_def dest!: set_dropWhileD)

lemma escape_cell_single_line: "newline \<notin> set (escape_cell cell)"
  using replace_char_absent [OF lit_ascii_no_newline] set_strip_subset
  unfolding escape_cell_def by blast

definition newline_count :: "ustring \<Rightarrow> nat" where
  "newline_count s = count_list s newline"

lemma newline_count_append [simp]: "newline_count (a @ b) = newline_count a + newline_count b"
  by (simp add: newline_count_def)

lemma newline_count_zero: "newline \<notin> set s \<Longrightarrow> newline_count s = 0"
  by (simp add: newline_count_def)

lemma newline_count_join_line:
  "newline_count sep = 0 \<Longrightarrow> (\<And>c. c \<in> set cells \<Longrightarrow> newline_count c = 0)
   \<Longrightarrow> newline_count (join sep cells) = 0"
  by (induction sep cells rule: join.induct) (auto simp: newline_count_def)

lemma newline_count_table_line:
  assumes "\<And>c. c \<in> set cells \<Longrightarrow> newline_count c = 0"
  shows "newline_count (table_line cells) = 0"
proof -
  have "newline_count (lit ''| '') = 0" "newline_count (lit '' |'') = 0"
    "newline_count (lit '' | '') = 0"
    by (simp_all add: newline_count_def lit_def newline_def)
  with assms show ?thesis by (simp add: table_line_def newline_count_join_line)
qed

lemma newline_count_join_lines:
  "(\<And>l. l \<in> set ls \<Longrightarrow> newline_count l = 0)
   \<Longrightarrow> newline_count (join [newline] ls) = length ls - 1"
proof (induction "[newline]" ls rule: join.induct)
  case (3 x y ys)
  then show ?case by (simp add: newline_count_def)
qed (auto simp: newline_count_def)

text \<open>Every pipe directly follows a backslash; the flag says whether the character before the
  list was one.\<close>

fun pipes_escaped :: "bool \<Rightarrow> ustring \<Rightarrow> bool" where
  "pipes_escaped after_backslash [] \<longleftrightarrow> True"
| "pipes_escaped after_backslash (c # cs) \<longleftrightarrow>
     (c = pipe \<longrightarrow> after_backslash) \<and> pipes_escaped (c = backslash) cs"

lemma pipes_escaped_append:
  "pipes_escaped b (xs @ ys) \<longleftrightarrow>
     pipes_escaped b xs \<and> pipes_escaped (if xs = [] then b else last xs = backslash) ys"
  by (induction xs arbitrary: b) auto

lemma pipes_escaped_True_mono: "pipes_escaped b s \<Longrightarrow> pipes_escaped True s"
  by (cases s) auto

lemma pipes_escaped_no_pipe: "pipe \<notin> set s \<Longrightarrow> pipes_escaped b s"
  by (induction s arbitrary: b) auto

lemma pipes_escaped_replace_pipe: "pipes_escaped b (replace_char pipe [backslash, pipe] s)"
  by (induction s arbitrary: b) (auto simp: replace_char_def pipe_def backslash_def)

lemma pipes_escaped_replace_other:
  assumes "pipe \<notin> set r" and "r \<noteq> []" and "c \<noteq> pipe" and "c \<noteq> backslash"
  shows "pipes_escaped b s \<Longrightarrow> pipes_escaped b (replace_char c r s)"
proof (induction s arbitrary: b)
  case (Cons x xs)
  have IH: "pipes_escaped (x = backslash) (replace_char c r xs)"
    using Cons by simp
  have eq: "replace_char c r (x # xs) = (if x = c then r else [x]) @ replace_char c r xs"
    by (simp add: replace_char_def)
  show ?case
  proof (cases "x = c")
    case True
    have "pipes_escaped False (replace_char c r xs)"
      using IH True assms(4) by simp
    then have "pipes_escaped (last r = backslash) (replace_char c r xs)"
      by (cases "last r = backslash") (auto intro: pipes_escaped_True_mono)
    then have "pipes_escaped b (r @ replace_char c r xs)"
      using assms by (simp add: pipes_escaped_append pipes_escaped_no_pipe)
    then show ?thesis using True eq by simp
  next
    case False
    then show ?thesis using Cons.prems IH by (simp add: eq)
  qed
qed (simp add: replace_char_def)

lemma pipes_escaped_suffix: "pipes_escaped b (p @ s) \<Longrightarrow> p \<noteq> [] \<Longrightarrow> pipes_escaped (last p = backslash) s"
  by (simp add: pipes_escaped_append)

lemma pipes_escaped_lstrip: "pipes_escaped b s \<Longrightarrow> pipes_escaped b (lstrip s)"
proof -
  assume a: "pipes_escaped b s"
  let ?p = "takeWhile is_space s"
  have s: "?p @ lstrip s = s" by (simp add: lstrip_def)
  show ?thesis
  proof (cases "?p = []")
    case True
    then show ?thesis using a s by simp
  next
    case False
    have "is_space (last ?p)"
      using set_takeWhileD last_in_set [OF False] by fast
    then have "last ?p \<noteq> backslash" by (auto simp: is_space_def backslash_def)
    moreover have "pipes_escaped (last ?p = backslash) (lstrip s)"
      using a s False by (metis pipes_escaped_suffix)
    ultimately show ?thesis
      by (cases b) (auto intro: pipes_escaped_True_mono)
  qed
qed

lemma pipes_escaped_rstrip: "pipes_escaped b s \<Longrightarrow> pipes_escaped b (rstrip s)"
  using takeWhile_dropWhile_rev [of is_space s]
  by (metis pipes_escaped_append rstrip_def)

lemma escape_cell_pipes: "pipes_escaped False (escape_cell cell)"
proof -
  have "pipe \<notin> set (lit ''<br>'')" "lit ''<br>'' \<noteq> []"
    by (simp_all add: lit_def pipe_def)
  then have "pipes_escaped False
     (replace_char newline (lit ''<br>'') (replace_char pipe [backslash, pipe] cell))"
    by (intro pipes_escaped_replace_other pipes_escaped_replace_pipe)
       (simp_all add: newline_def pipe_def backslash_def)
  then show ?thesis
    by (simp add: escape_cell_def strip_def pipes_escaped_lstrip pipes_escaped_rstrip)
qed

subsection \<open>Properties\<close>

lemma newline_count_padded_row:
  "newline_count (table_line (map escape_cell r @ replicate k [])) = 0"
  by (rule newline_count_table_line)
     (auto simp: newline_count_zero escape_cell_single_line newline_count_def [of "[]"])

text \<open>A table block is one Markdown table whatever its cells hold: \<open>rows_to_markdown_table\<close>
  renders every row, the header separator included, on exactly one line (so a table of n rows has
  n newlines), because \<open>escape_cell\<close> leaves no line break in a cell, and no cell can open a
  column of its own, because every pipe it keeps directly follows a backslash.\<close>

theorem table_one_line_per_row:
  "newline_count (rows_to_markdown_table rows) = length rows
   \<and> newline \<notin> set (escape_cell cell) \<and> pipes_escaped False (escape_cell cell)"
proof (cases rows)
  case (Cons row rs)
  let ?w = "Max (set (map length rows))"
  let ?line = "\<lambda>r. table_line (map escape_cell r @ replicate (?w - length r) [])"
  have sep: "newline_count (table_line (replicate ?w (lit ''---''))) = 0"
    by (rule newline_count_table_line) (auto simp: newline_count_def lit_def newline_def)
  have "newline_count (join [newline]
      (?line row # table_line (replicate ?w (lit ''---'')) # map ?line rs)) = length rows"
    using sep by (subst newline_count_join_lines) (auto simp: newline_count_padded_row Cons)
  then show ?thesis
    by (simp add: Cons Let_def comp_def escape_cell_single_line escape_cell_pipes)
qed (simp add: newline_count_def escape_cell_single_line escape_cell_pipes)

end
