(* ===== verification/Sentences.thy ===== *)
theory Sentences
  imports DocModel
begin

text \<open>
  The sentence splitter and the hard splitter of \<open>backend/etl/chunk.py\<close>. \<open>re.split\<close> with the
  pattern \<open>_SENTENCE_BOUNDARY\<close> is modelled as the scan the regular expression engine makes: at
  each position the three alternatives in their order, an empty match allowed unless the
  previous match was empty and ended here, and the captured separator returned between the two
  texts it separates. The main fact is that nothing is lost: the sentences concatenate to the text.
\<close>

subsection \<open>The boundary pattern\<close>

definition after_full_stop :: "codepoint list" where
  "after_full_stop = [12290, 65281, 65311, 65307, 33, 63, 59]"

definition after_period :: "codepoint list" where
  "after_period = [46, 33, 63]"

definition boundary_match :: "codepoint option \<Rightarrow> bool \<Rightarrow> ustring \<Rightarrow> nat option" where
  "boundary_match prev must_advance rest =
     (let spaces = length (takeWhile is_space rest);
          newlines = length (takeWhile (\<lambda>c. c = newline) rest);
          looks_behind = (\<lambda>cs. case prev of None \<Rightarrow> False | Some c \<Rightarrow> c \<in> set cs)
      in if looks_behind after_full_stop \<and> \<not> (must_advance \<and> spaces = 0) then Some spaces
         else if looks_behind after_period \<and> 1 \<le> spaces then Some spaces
         else if 1 \<le> newlines then Some newlines
         else None)"

lemma length_takeWhile_le: "length (takeWhile P xs) \<le> length xs"
  by (induction xs) auto

lemma boundary_match_le: "boundary_match prev m rest = Some n \<Longrightarrow> n \<le> length rest"
  by (auto simp: boundary_match_def Let_def length_takeWhile_le split: if_splits)

lemma boundary_match_advances: "boundary_match prev True rest = Some n \<Longrightarrow> 0 < n"
  by (auto simp: boundary_match_def Let_def split: if_splits)

text \<open>\<open>split_scan prev must_advance cur rest\<close>: \<open>cur\<close> is the text since the last match.\<close>

function split_scan :: "codepoint option \<Rightarrow> bool \<Rightarrow> ustring \<Rightarrow> ustring \<Rightarrow> ustring list" where
  "split_scan prev must_advance cur rest =
     (case boundary_match prev must_advance rest of
        Some n \<Rightarrow>
          cur # take n rest
          # split_scan (if n = 0 then prev else Some (rest ! (n - 1))) (n = 0) [] (drop n rest)
      | None \<Rightarrow>
          (case rest of
             [] \<Rightarrow> [cur]
           | c # cs \<Rightarrow> split_scan (Some c) False (cur @ [c]) cs))"
  by pat_completeness auto
termination
proof (relation "measure (\<lambda>(prev, m, cur, rest). 2 * length rest + (if m then 0 else 1))", goal_cases)
  case 1
  show ?case by simp
next
  case (2 prev m cur rest c cs)
  then show ?case by simp
next
  case (3 prev m cur rest n)
  then show ?case
    using boundary_match_le [of prev m rest n] boundary_match_advances [of prev rest n]
    by (cases m; cases n) auto
qed

declare split_scan.simps [simp del]

definition re_split :: "ustring \<Rightarrow> ustring list" where
  "re_split t = split_scan None False [] t"

lemma concat_split_scan: "concat (split_scan prev m cur rest) = cur @ rest"
proof (induction prev m cur rest rule: split_scan.induct)
  case (1 prev m cur rest)
  show ?case
  proof (cases "boundary_match prev m rest")
    case None
    then show ?thesis
      using 1 by (subst split_scan.simps) (auto split: list.splits)
  next
    case (Some n)
    then show ?thesis
      using "1.IH"(2) [OF Some] by (subst split_scan.simps) simp
  qed
qed

lemma concat_re_split: "concat (re_split t) = t"
  by (simp add: re_split_def concat_split_scan)

subsection \<open>Sentences\<close>

fun merge_pieces :: "ustring list \<Rightarrow> ustring list \<Rightarrow> ustring \<Rightarrow> ustring list" where
  "merge_pieces [] sents pending =
     (if pending \<noteq> [] \<and> sents \<noteq> [] then butlast sents @ [last sents @ pending]
      else if pending \<noteq> [] then sents @ [pending]
      else sents)"
| "merge_pieces (piece # pieces) sents pending =
     (if piece = [] then merge_pieces pieces sents pending
      else if strip piece \<noteq> [] then merge_pieces pieces (sents @ [pending @ piece]) []
      else if sents \<noteq> [] then merge_pieces pieces (butlast sents @ [last sents @ piece]) pending
      else merge_pieces pieces sents (pending @ piece))"

definition sentences :: "ustring \<Rightarrow> ustring list" where
  "sentences t =
     (let sents = merge_pieces (re_split t) [] [] in if sents = [] then [t] else sents)"

lemma concat_snoc_last: "sents \<noteq> [] \<Longrightarrow> concat (butlast sents) @ last sents = concat sents"
  by (induction sents) auto

lemma concat_merge_pieces:
  "sents = [] \<or> pending = []
   \<Longrightarrow> concat (merge_pieces pieces sents pending) = concat sents @ pending @ concat pieces"
proof (induction pieces sents pending rule: merge_pieces.induct)
  case (2 piece pieces sents pending)
  then show ?case by (auto simp: concat_snoc_last simp flip: append_assoc)
qed (auto simp: concat_snoc_last simp flip: append_assoc)

lemma sentences_concat: "concat (sentences t) = t"
  using concat_merge_pieces [of "[]" "[]" "re_split t"]
  by (auto simp: sentences_def Let_def concat_re_split)

lemma sentences_nonempty: "sentences t \<noteq> []"
  by (simp add: sentences_def Let_def)

subsection \<open>Hard split\<close>

text \<open>\<open>[text[start : start + step] for start in range(0, len(text), step)]\<close>\<close>

function slices :: "nat \<Rightarrow> ustring \<Rightarrow> ustring list" where
  "slices step t = (if t = [] \<or> step = 0 then [] else take step t # slices step (drop step t))"
  by pat_completeness auto
termination
  by (relation "measure (\<lambda>(step, t). length t)") auto

declare slices.simps [simp del]

definition split_step :: "rounding \<Rightarrow> nat \<Rightarrow> int \<Rightarrow> nat \<Rightarrow> nat" where
  "split_step fl len budget tokens =
     (let ratio = fl (of_nat (max tokens 1) / of_nat len);
          chars = fl (of_int budget / ratio)
      in nat (max (if 0 \<le> chars then \<lfloor>chars\<rfloor> else \<lceil>chars\<rceil>) 1))"

definition hard_split :: "(ustring \<Rightarrow> nat) \<Rightarrow> rounding \<Rightarrow> ustring \<Rightarrow> int \<Rightarrow> ustring list" where
  "hard_split cnt fl t budget =
     (if t = [] then [] else slices (split_step fl (length t) budget (cnt t)) t)"

lemma split_step_pos: "0 < split_step fl len budget tokens"
  by (simp add: split_step_def Let_def)

lemma concat_slices: "0 < step \<Longrightarrow> concat (slices step t) = t"
proof (induction step t rule: slices.induct)
  case (1 step t)
  then show ?case
    by (cases "t = []") (simp_all add: slices.simps [of step t] slices.simps [of step "[]"])
qed

lemma slices_length: "s \<in> set (slices step t) \<Longrightarrow> s \<noteq> [] \<and> length s \<le> step"
proof (induction step t rule: slices.induct)
  case (1 step t)
  show ?case
  proof (cases "t = [] \<or> step = 0")
    case True
    with 1(2) show ?thesis by (simp add: slices.simps [of step t])
  next
    case False
    with 1 show ?thesis by (auto simp: slices.simps [of step t])
  qed
qed

lemma hard_split_concat: "concat (hard_split cnt fl t budget) = t"
  by (simp add: hard_split_def concat_slices split_step_pos)

lemma hard_split_pieces:
  "s \<in> set (hard_split cnt fl t budget)
   \<Longrightarrow> s \<noteq> [] \<and> length s \<le> split_step fl (length t) budget (cnt t)"
  by (auto simp: hard_split_def dest: slices_length split: if_splits)

subsection \<open>Properties\<close>

text \<open>Cutting a text up loses nothing and adds nothing: the sentences \<open>_sentences\<close> returns,
  separators included, concatenate to the text, there is always at least one, and the slices of
  the hard split concatenate to the sentence that was too long, whatever the budget, the token
  counter and the float rounding.\<close>

theorem splitting_is_lossless:
  "concat (sentences t) = t \<and> sentences t \<noteq> [] \<and> concat (hard_split cnt fl t budget) = t"
  by (simp add: sentences_concat sentences_nonempty hard_split_concat)

text \<open>The hard split converts the budget into a number of characters with the average cost of the
  sentence, so a slice of a mixed text may cost more than the budget: eight Latin letters and four
  ideographs cost 6, the step for a budget of 2 is 4 characters, and the last slice costs 4.\<close>

lemma hard_split_over_budget:
  "map estimate_tokens (hard_split estimate_tokens (\<lambda>x. x) (replicate 8 97 @ replicate 4 20013) 2)
   = [1, 1, 4]"
proof -
  let ?t = "replicate 8 97 @ replicate 4 20013"
  have "estimate_tokens ?t = 6" by (simp add: estimate_tokens_alt is_cjk_def cjk_ranges_def)
  then have "split_step (\<lambda>x. x) (length ?t) 2 (estimate_tokens ?t) = 4"
    by (simp add: split_step_def Let_def)
  then have "hard_split estimate_tokens (\<lambda>x. x) ?t 2 =
      [replicate 4 97, replicate 4 97, replicate 4 20013]"
    by (simp add: hard_split_def slices.simps [of 4 "replicate 8 _ @ _"] slices.simps [of 4 "replicate 4 _ @ _"]
          slices.simps [of 4 "replicate 4 _"] slices.simps [of 4 "[]"])
  then show ?thesis by (simp add: estimate_tokens_alt is_cjk_def cjk_ranges_def)
qed

end
