(* ===== verification/Chunker.thy ===== *)
theory Chunker
  imports Sentences
begin

text \<open>
  \<open>backend/etl/chunk.py\<close>: the recursive chunker. \<open>builder\<close> is the state of the class \<open>_Builder\<close>;
  each of its methods is one definition here, the loops over sentences and pieces being
  recursive functions. The token counter and the float rounding are parameters. Lemmas: sequence
  numbers, which characters reach a chunk, atomic blocks, the section boundary.
\<close>

record chunk_config =
  target_tokens :: int
  overlap_tokens :: int

record text_chunk =
  seq :: nat
  ctext :: ustring
  token_count :: nat
  cpage :: "int option"
  cheading_path :: "ustring list"

type_synonym token_counter = "ustring \<Rightarrow> nat"

subsection \<open>The builder\<close>

record builder =
  config :: chunk_config
  chunks :: "text_chunk list"
  heading_markdown :: "ustring option"
  heading_path :: "ustring list"
  parts :: "ustring list"
  page :: "int option"
  carry :: ustring

definition new_builder :: "chunk_config \<Rightarrow> builder" where
  "new_builder cfg =
     \<lparr>config = cfg, chunks = [], heading_markdown = None, heading_path = [], parts = [],
      page = None, carry = []\<rparr>"

definition truthy :: "ustring option \<Rightarrow> ustring list" where
  "truthy s = (case s of None \<Rightarrow> [] | Some t \<Rightarrow> if t = [] then [] else [t])"

definition joined :: "builder \<Rightarrow> ustring list \<Rightarrow> ustring" where
  "joined b ps = join block_separator (truthy (heading_markdown b) @ truthy (Some (carry b)) @ ps)"

definition fits :: "token_counter \<Rightarrow> builder \<Rightarrow> ustring \<Rightarrow> bool" where
  "fits cnt b t \<longleftrightarrow> int (cnt t) \<le> target_tokens (config b)"

definition emit :: "token_counter \<Rightarrow> ustring \<Rightarrow> int option \<Rightarrow> builder \<Rightarrow> builder" where
  "emit cnt t pg b =
     (let body = strip t in
      if body = [] then b
      else b\<lparr>chunks := chunks b @
               [\<lparr>seq = length (chunks b), ctext = body, token_count = cnt body, cpage = pg,
                 cheading_path = heading_path b\<rparr>]\<rparr>)"

fun tail_pick :: "token_counter \<Rightarrow> int \<Rightarrow> ustring list \<Rightarrow> ustring list \<Rightarrow> ustring list" where
  "tail_pick cnt budget [] picked = picked"
| "tail_pick cnt budget (sentence # rest) picked =
     (if budget < int (cnt (concat (sentence # picked))) then picked
      else tail_pick cnt budget rest (sentence # picked))"

definition overlap_tail :: "token_counter \<Rightarrow> builder \<Rightarrow> ustring \<Rightarrow> ustring" where
  "overlap_tail cnt b t =
     (let budget = overlap_tokens (config b) in
      if budget \<le> 0 then []
      else strip (concat (tail_pick cnt budget (rev (sentences t)) [])))"

definition flush :: "token_counter \<Rightarrow> builder \<Rightarrow> builder" where
  "flush cnt b =
     (if parts b = [] then b
      else let body = joined b (parts b);
               b1 = b\<lparr>carry := overlap_tail cnt b (join block_separator (parts b)), parts := []\<rparr>;
               b2 = emit cnt body (page b1) b1
           in b2\<lparr>page := None\<rparr>)"

definition budget_for_body :: "token_counter \<Rightarrow> builder \<Rightarrow> int" where
  "budget_for_body cnt b =
     (let overhead = (if truthy (heading_markdown b) \<noteq> [] \<or> carry b \<noteq> []
                      then int (cnt (joined b [])) else 0)
      in max (target_tokens (config b) - overhead) 1)"

fun split_loop ::
  "token_counter \<Rightarrow> rounding \<Rightarrow> int \<Rightarrow> ustring list \<Rightarrow> ustring list \<Rightarrow> ustring \<Rightarrow> ustring list" where
  "split_loop cnt fl budget [] pieces buffer =
     (if buffer \<noteq> [] then pieces @ [buffer] else pieces)"
| "split_loop cnt fl budget (sentence # rest) pieces buffer =
     (if int (cnt (buffer @ sentence)) \<le> budget
      then split_loop cnt fl budget rest pieces (buffer @ sentence)
      else let pieces1 = (if buffer \<noteq> [] then pieces @ [buffer] else pieces) in
           if int (cnt sentence) \<le> budget
           then split_loop cnt fl budget rest pieces1 sentence
           else split_loop cnt fl budget rest (pieces1 @ hard_split cnt fl sentence budget) [])"

definition split_to_fit :: "token_counter \<Rightarrow> rounding \<Rightarrow> builder \<Rightarrow> ustring \<Rightarrow> ustring list" where
  "split_to_fit cnt fl b t =
     (let pieces = split_loop cnt fl (budget_for_body cnt b) (sentences t) [] []
      in map rstrip (filter (\<lambda>p. strip p \<noteq> []) pieces))"

definition start_section :: "token_counter \<Rightarrow> block \<Rightarrow> builder \<Rightarrow> builder" where
  "start_section cnt blk b =
     (flush cnt b)\<lparr>carry := [], heading_markdown := Some (block_to_markdown blk),
        heading_path := bheading_path (bmeta blk) @ [btext blk], page := bpage (bmeta blk)\<rparr>"

definition add_atomic :: "token_counter \<Rightarrow> block \<Rightarrow> builder \<Rightarrow> builder" where
  "add_atomic cnt blk b =
     emit cnt (block_to_markdown blk) (bpage (bmeta blk)) ((flush cnt b)\<lparr>carry := []\<rparr>)"

definition page_or :: "int option \<Rightarrow> builder \<Rightarrow> builder" where
  "page_or pg b = (if page b = None then b\<lparr>page := pg\<rparr> else b)"

fun add_pieces :: "token_counter \<Rightarrow> int option \<Rightarrow> ustring list \<Rightarrow> builder \<Rightarrow> builder" where
  "add_pieces cnt pg [] b = b"
| "add_pieces cnt pg (piece # rest) b =
     (let b1 = page_or pg b in
      if fits cnt b1 (joined b1 (parts b1 @ [piece]))
      then add_pieces cnt pg rest (b1\<lparr>parts := parts b1 @ [piece]\<rparr>)
      else let b2 = (flush cnt b1)\<lparr>page := pg\<rparr>
           in add_pieces cnt pg rest (b2\<lparr>parts := parts b2 @ [piece]\<rparr>))"

definition add_text :: "token_counter \<Rightarrow> rounding \<Rightarrow> block \<Rightarrow> builder \<Rightarrow> builder" where
  "add_text cnt fl blk b =
     (let t = block_to_markdown blk in
      if strip t = [] then b
      else let b1 = page_or (bpage (bmeta blk)) b in
           if fits cnt b1 (joined b1 (parts b1 @ [t])) then b1\<lparr>parts := parts b1 @ [t]\<rparr>
           else let b2 = flush cnt b1
                in add_pieces cnt (bpage (bmeta blk)) (split_to_fit cnt fl b2 t) b2)"

definition add_block :: "token_counter \<Rightarrow> rounding \<Rightarrow> block \<Rightarrow> builder \<Rightarrow> builder" where
  "add_block cnt fl blk b =
     (case btype blk of
        HEADING \<Rightarrow> start_section cnt blk b
      | TABLE \<Rightarrow> add_atomic cnt blk b
      | CODE \<Rightarrow> add_atomic cnt blk b
      | PARAGRAPH \<Rightarrow> add_text cnt fl blk b
      | CAPTION \<Rightarrow> add_text cnt fl blk b)"

definition finish :: "token_counter \<Rightarrow> builder \<Rightarrow> text_chunk list" where
  "finish cnt b = chunks (flush cnt b)"

definition add_blocks :: "token_counter \<Rightarrow> rounding \<Rightarrow> block list \<Rightarrow> builder \<Rightarrow> builder" where
  "add_blocks cnt fl bs b = fold (add_block cnt fl) bs b"

definition chunk_document ::
  "token_counter \<Rightarrow> rounding \<Rightarrow> chunk_config \<Rightarrow> extracted_doc \<Rightarrow> text_chunk list" where
  "chunk_document cnt fl cfg doc = finish cnt (add_blocks cnt fl (blocks doc) (new_builder cfg))"


subsection \<open>What every emitted chunk satisfies\<close>

text \<open>
  The chunk list only ever grows, by \<open>emit\<close>. The interface below is the contract of that log: a
  predicate that holds of the empty log and survives one more chunk holds of every document.
\<close>

definition next_chunk ::
  "token_counter \<Rightarrow> text_chunk list \<Rightarrow> ustring \<Rightarrow> int option \<Rightarrow> ustring list \<Rightarrow> text_chunk" where
  "next_chunk cnt cs t pg hp =
     \<lparr>seq = length cs, ctext = strip t, token_count = cnt (strip t), cpage = pg,
      cheading_path = hp\<rparr>"

lemma chunks_emit:
  "chunks (emit cnt t pg b) =
     (if strip t = [] then chunks b else chunks b @ [next_chunk cnt (chunks b) t pg (heading_path b)])"
  by (simp add: emit_def next_chunk_def Let_def)

lemma emit_fields [simp]:
  "config (emit cnt t pg b) = config b" "heading_markdown (emit cnt t pg b) = heading_markdown b"
  "heading_path (emit cnt t pg b) = heading_path b" "parts (emit cnt t pg b) = parts b"
  "page (emit cnt t pg b) = page b" "carry (emit cnt t pg b) = carry b"
  by (simp_all add: emit_def Let_def)

lemma flush_fields [simp]:
  "config (flush cnt b) = config b" "heading_markdown (flush cnt b) = heading_markdown b"
  "heading_path (flush cnt b) = heading_path b" "parts (flush cnt b) = []"
  by (simp_all add: flush_def Let_def)

lemma chunks_flush:
  "chunks (flush cnt b) =
     (if parts b = [] then chunks b
      else chunks (emit cnt (joined b (parts b)) (page b) b))"
  by (simp add: flush_def Let_def chunks_emit)

lemma page_or_fields [simp]:
  "config (page_or pg b) = config b" "heading_markdown (page_or pg b) = heading_markdown b"
  "heading_path (page_or pg b) = heading_path b" "parts (page_or pg b) = parts b"
  "chunks (page_or pg b) = chunks b" "carry (page_or pg b) = carry b"
  by (simp_all add: page_or_def)

locale chunk_log =
  fixes cnt :: token_counter and I :: "text_chunk list \<Rightarrow> bool"
  assumes log_empty: "I []"
    and log_grows: "I cs \<Longrightarrow> strip t \<noteq> [] \<Longrightarrow> I (cs @ [next_chunk cnt cs t pg hp])"
begin

lemma log_emit: "I (chunks b) \<Longrightarrow> I (chunks (emit cnt t pg b))"
  by (simp add: chunks_emit log_grows)

lemma log_flush: "I (chunks b) \<Longrightarrow> I (chunks (flush cnt b))"
  by (simp add: chunks_flush log_emit)

lemma log_add_pieces: "I (chunks b) \<Longrightarrow> I (chunks (add_pieces cnt pg ps b))"
  by (induction ps arbitrary: b) (simp_all add: Let_def log_flush)

lemma log_add_block: "I (chunks b) \<Longrightarrow> I (chunks (add_block cnt fl blk b))"
  by (cases "btype blk")
     (simp_all add: add_block_def start_section_def add_atomic_def add_text_def Let_def
        log_flush log_emit log_add_pieces)

lemma log_add_blocks: "I (chunks b) \<Longrightarrow> I (chunks (add_blocks cnt fl bs b))"
  unfolding add_blocks_def by (induction bs arbitrary: b) (simp_all add: log_add_block)

lemma log_document: "I (chunk_document cnt fl cfg doc)"
  by (simp add: chunk_document_def finish_def log_flush log_add_blocks new_builder_def log_empty)

end

interpretation numbered: chunk_log cnt "\<lambda>cs. map seq cs = [0..<length cs]" for cnt
  by unfold_locales (simp_all add: next_chunk_def)

interpretation well_formed: chunk_log cnt
  "\<lambda>cs. \<forall>c \<in> set cs. ctext c \<noteq> [] \<and> strip (ctext c) = ctext c \<and> token_count c = cnt (ctext c)" for cnt
  by unfold_locales (auto simp: next_chunk_def)

subsection \<open>No visible character is lost\<close>

definition held :: "builder \<Rightarrow> ustring" where
  "held b = concat (map (\<lambda>c. visible (ctext c)) (chunks b)) @ concat (map visible (parts b))"

lemma visible_block_separator [simp]: "visible block_separator = []"
  by (simp add: block_separator_def newline_def visible_def is_space_def)

lemma visible_joined:
  "visible (joined b ps) =
     concat (map visible (truthy (heading_markdown b) @ truthy (Some (carry b)))) @
     concat (map visible ps)"
  by (simp add: joined_def visible_join)

lemma held_emit:
  "concat (map (\<lambda>c. visible (ctext c)) (chunks (emit cnt t pg b))) =
   concat (map (\<lambda>c. visible (ctext c)) (chunks b)) @ visible t"
  by (auto simp: chunks_emit next_chunk_def strip_eq_Nil_iff)

lemma subseq_append_mono: "subseq a b \<Longrightarrow> subseq c d \<Longrightarrow> subseq (a @ c) (b @ d)"
  by (rule list_emb_append_mono)

lemma held_flush: "subseq (held b) (held (flush cnt b))"
proof (cases "parts b = []")
  case False
  have "subseq (concat (map visible (parts b))) (visible (joined b (parts b)))"
    unfolding visible_joined by (rule list_emb_append2) simp
  with False show ?thesis
    by (auto simp: held_def chunks_flush held_emit intro!: subseq_append_mono)
qed (simp add: flush_def)

lemma held_push: "held (b\<lparr>parts := parts b @ [t]\<rparr>) = held b @ visible t"
  by (simp add: held_def)

lemma held_page_or [simp]: "held (page_or pg b) = held b"
  by (simp add: held_def)

lemma held_page [simp]: "held (b\<lparr>page := pg\<rparr>) = held b"
  by (simp add: held_def)

lemma held_add_pieces:
  "subseq (held b @ concat (map visible ps)) (held (add_pieces cnt pg ps b))"
proof (induction ps arbitrary: b)
  case (Cons p ps)
  let ?b1 = "page_or pg b"
  let ?step = "if fits cnt ?b1 (joined ?b1 (parts ?b1 @ [p]))
     then ?b1\<lparr>parts := parts ?b1 @ [p]\<rparr>
     else (let b2 = (flush cnt ?b1)\<lparr>page := pg\<rparr> in b2\<lparr>parts := parts b2 @ [p]\<rparr>)"
  have "subseq (held b @ visible p) (held ?step)"
  proof (cases "fits cnt ?b1 (joined ?b1 (parts ?b1 @ [p]))")
    case True
    then show ?thesis using held_push [of ?b1 p] by simp
  next
    case False
    have "subseq (held b @ visible p) (held (flush cnt ?b1) @ visible p)"
      using held_flush [of ?b1 cnt] by (intro subseq_append_mono) simp_all
    then show ?thesis
      using False held_push [of "(flush cnt ?b1)\<lparr>page := pg\<rparr>" p] by (simp add: Let_def)
  qed
  then have "subseq ((held b @ visible p) @ concat (map visible ps)) (held ?step @ concat (map visible ps))"
    by (intro subseq_append_mono) simp_all
  also have "subseq (held ?step @ concat (map visible ps)) (held (add_pieces cnt pg (p # ps) b))"
    using Cons.IH [of ?step] by (simp add: Let_def split: if_splits)
  finally show ?case by simp
qed simp

lemma concat_split_loop:
  "concat (split_loop cnt fl budget ss pieces buffer) = concat pieces @ buffer @ concat ss"
  by (induction cnt fl budget ss pieces buffer rule: split_loop.induct)
     (auto simp: Let_def hard_split_concat)

lemma visible_filter_blank: "concat (map visible (filter (\<lambda>p. strip p \<noteq> []) ps)) = concat (map visible ps)"
  by (induction ps) (auto simp: strip_eq_Nil_iff)

lemma visible_split_to_fit: "concat (map visible (split_to_fit cnt fl b t)) = visible t"
proof -
  have "concat (map visible (split_to_fit cnt fl b t)) =
        visible (concat (split_loop cnt fl (budget_for_body cnt b) (sentences t) [] []))"
    by (simp add: split_to_fit_def Let_def comp_def visible_filter_blank visible_concat)
  then show ?thesis by (simp add: concat_split_loop sentences_concat)
qed

lemma held_add_text: "subseq (held b @ visible (block_to_markdown blk)) (held (add_text cnt fl blk b))"
proof -
  let ?t = "block_to_markdown blk" and ?b1 = "page_or (bpage (bmeta blk)) b"
  consider "strip ?t = []" | "strip ?t \<noteq> []" "fits cnt ?b1 (joined ?b1 (parts ?b1 @ [?t]))"
    | "strip ?t \<noteq> []" "\<not> fits cnt ?b1 (joined ?b1 (parts ?b1 @ [?t]))" by blast
  then show ?thesis
  proof cases
    case 1
    then show ?thesis by (simp add: add_text_def strip_eq_Nil_iff)
  next
    case 2
    then show ?thesis using held_push [of ?b1 ?t] by (simp add: add_text_def Let_def)
  next
    case 3
    let ?ps = "split_to_fit cnt fl (flush cnt ?b1) ?t"
    have "subseq (held b @ visible ?t) (held (flush cnt ?b1) @ concat (map visible ?ps))"
      using held_flush [of ?b1 cnt]
      by (intro subseq_append_mono) (simp_all add: visible_split_to_fit)
    also have "subseq \<dots> (held (add_pieces cnt (bpage (bmeta blk)) ?ps (flush cnt ?b1)))"
      by (rule held_add_pieces)
    finally show ?thesis using 3 by (simp add: add_text_def Let_def)
  qed
qed

definition body_text :: "block list \<Rightarrow> ustring" where
  "body_text bs =
     concat (map (\<lambda>b. if btype b = HEADING then [] else visible (block_to_markdown b)) bs)"

lemma held_start_section: "subseq (held b) (held (start_section cnt blk b))"
proof -
  have "held (start_section cnt blk b) = held (flush cnt b)"
    by (simp add: held_def start_section_def)
  then show ?thesis using held_flush [of b cnt] by simp
qed

lemma held_add_atomic:
  "subseq (held b @ visible (block_to_markdown blk)) (held (add_atomic cnt blk b))"
proof -
  have "held (add_atomic cnt blk b) = held (flush cnt b) @ visible (block_to_markdown blk)"
    by (simp add: held_def add_atomic_def held_emit)
  then show ?thesis using held_flush [of b cnt] by (simp add: subseq_append_mono)
qed

lemma held_add_block:
  "subseq (held b @ body_text [blk]) (held (add_block cnt fl blk b))"
  using held_start_section held_add_atomic held_add_text
  by (cases "btype blk") (simp_all add: add_block_def body_text_def)

lemma held_add_blocks: "subseq (held b @ body_text bs) (held (add_blocks cnt fl bs b))"
proof (induction bs arbitrary: b)
  case Nil
  then show ?case by (simp add: body_text_def add_blocks_def)
next
  case (Cons blk bs)
  have "subseq ((held b @ body_text [blk]) @ body_text bs) (held (add_block cnt fl blk b) @ body_text bs)"
    by (intro subseq_append_mono held_add_block) simp
  also have "subseq \<dots> (held (add_blocks cnt fl bs (add_block cnt fl blk b)))"
    by (rule Cons.IH)
  finally show ?case by (simp add: body_text_def add_blocks_def)
qed

lemma chunks_hold_body:
  "subseq (body_text (blocks doc))
     (concat (map (\<lambda>c. visible (ctext c)) (chunk_document cnt fl cfg doc)))"
proof -
  let ?b = "add_blocks cnt fl (blocks doc) (new_builder cfg)"
  have "subseq (body_text (blocks doc)) (held ?b)"
    using held_add_blocks [of "new_builder cfg"] by (simp add: held_def new_builder_def)
  also have "subseq \<dots> (held (flush cnt ?b))" by (rule held_flush)
  finally show ?thesis by (simp add: chunk_document_def finish_def held_def)
qed


subsection \<open>A heading is a hard boundary\<close>

text \<open>\<open>with_history cs b\<close>: the builder \<open>b\<close> as it is when the chunks \<open>cs\<close> were emitted before.
  No operation looks at the chunks already emitted, except to number the next one.\<close>

definition renumber :: "nat \<Rightarrow> text_chunk \<Rightarrow> text_chunk" where
  "renumber k c = c\<lparr>seq := k + seq c\<rparr>"

definition with_history :: "text_chunk list \<Rightarrow> builder \<Rightarrow> builder" where
  "with_history cs b = b\<lparr>chunks := cs @ map (renumber (length cs)) (chunks b)\<rparr>"

lemma with_history_fields [simp]:
  "config (with_history cs b) = config b"
  "heading_markdown (with_history cs b) = heading_markdown b"
  "heading_path (with_history cs b) = heading_path b" "parts (with_history cs b) = parts b"
  "page (with_history cs b) = page b" "carry (with_history cs b) = carry b"
  "chunks (with_history cs b) = cs @ map (renumber (length cs)) (chunks b)"
  by (simp_all add: with_history_def)

lemma with_history_updates [simp]:
  "(with_history cs b)\<lparr>parts := ps\<rparr> = with_history cs (b\<lparr>parts := ps\<rparr>)"
  "(with_history cs b)\<lparr>page := pg\<rparr> = with_history cs (b\<lparr>page := pg\<rparr>)"
  "(with_history cs b)\<lparr>carry := t\<rparr> = with_history cs (b\<lparr>carry := t\<rparr>)"
  "(with_history cs b)\<lparr>heading_markdown := h\<rparr> = with_history cs (b\<lparr>heading_markdown := h\<rparr>)"
  "(with_history cs b)\<lparr>heading_path := hp\<rparr> = with_history cs (b\<lparr>heading_path := hp\<rparr>)"
  by (simp_all add: with_history_def)

lemma history_reads [simp]:
  "joined (with_history cs b) ps = joined b ps"
  "fits cnt (with_history cs b) t = fits cnt b t"
  "overlap_tail cnt (with_history cs b) t = overlap_tail cnt b t"
  "budget_for_body cnt (with_history cs b) = budget_for_body cnt b"
  by (simp_all add: joined_def fits_def overlap_tail_def budget_for_body_def cong: if_cong)

lemma history_emit [simp]:
  "emit cnt t pg (with_history cs b) = with_history cs (emit cnt t pg b)"
  by (simp add: emit_def with_history_def renumber_def Let_def)

lemma history_flush [simp]: "flush cnt (with_history cs b) = with_history cs (flush cnt b)"
  by (simp add: flush_def Let_def)

lemma history_page_or [simp]: "page_or pg (with_history cs b) = with_history cs (page_or pg b)"
  by (simp add: page_or_def)

lemma history_split [simp]: "split_to_fit cnt fl (with_history cs b) t = split_to_fit cnt fl b t"
  by (simp add: split_to_fit_def)

lemma history_add_pieces [simp]:
  "add_pieces cnt pg ps (with_history cs b) = with_history cs (add_pieces cnt pg ps b)"
  by (induction ps arbitrary: b) (simp_all add: Let_def)

lemma history_add_block [simp]:
  "add_block cnt fl blk (with_history cs b) = with_history cs (add_block cnt fl blk b)"
  by (cases "btype blk")
     (simp_all add: add_block_def start_section_def add_atomic_def add_text_def Let_def)

lemma history_add_blocks:
  "add_blocks cnt fl bs (with_history cs b) = with_history cs (add_blocks cnt fl bs b)"
  unfolding add_blocks_def by (induction bs arbitrary: b) simp_all

lemma history_split_off: "b = with_history (chunks b) (b\<lparr>chunks := []\<rparr>)"
  by (simp add: with_history_def)

lemma add_pieces_config [simp]: "config (add_pieces cnt pg ps b) = config b"
  by (induction ps arbitrary: b) (simp_all add: Let_def)

lemma add_block_config: "config (add_block cnt fl blk b) = config b"
  by (cases "btype blk")
     (simp_all add: add_block_def start_section_def add_atomic_def add_text_def Let_def)

lemma add_blocks_config: "config (add_blocks cnt fl bs b) = config b"
  unfolding add_blocks_def by (induction bs arbitrary: b) (simp_all add: add_block_config)

lemma add_blocks_append: "add_blocks cnt fl (xs @ ys) b = add_blocks cnt fl ys (add_blocks cnt fl xs b)"
  by (simp add: add_blocks_def)

lemma start_section_fresh:
  "start_section cnt h b =
     with_history (chunks (flush cnt b)) (start_section cnt h (new_builder (config b)))"
  by (simp add: start_section_def with_history_def new_builder_def flush_def Let_def emit_def)

lemma finish_with_history:
  "finish cnt (with_history cs b) = cs @ map (renumber (length cs)) (finish cnt b)"
  by (simp add: finish_def)

definition chunk_blocks :: "token_counter \<Rightarrow> rounding \<Rightarrow> chunk_config \<Rightarrow> block list \<Rightarrow> text_chunk list" where
  "chunk_blocks cnt fl cfg bs = finish cnt (add_blocks cnt fl bs (new_builder cfg))"

lemma chunk_document_blocks: "chunk_document cnt fl cfg doc = chunk_blocks cnt fl cfg (blocks doc)"
  by (simp add: chunk_document_def chunk_blocks_def)

lemma chunk_blocks_section:
  assumes "btype h = HEADING"
  shows "chunk_blocks cnt fl cfg (xs @ h # ys) =
    chunk_blocks cnt fl cfg xs @
    map (renumber (length (chunk_blocks cnt fl cfg xs))) (chunk_blocks cnt fl cfg (h # ys))"
proof -
  let ?b = "add_blocks cnt fl xs (new_builder cfg)"
  let ?cs = "chunk_blocks cnt fl cfg xs"
  have "config ?b = cfg" by (simp add: add_blocks_config new_builder_def)
  then have "add_block cnt fl h ?b = with_history ?cs (add_block cnt fl h (new_builder cfg))"
    using assms start_section_fresh [of cnt h ?b]
    by (simp add: add_block_def chunk_blocks_def finish_def)
  then have "add_blocks cnt fl (xs @ h # ys) (new_builder cfg) =
      with_history ?cs (add_blocks cnt fl (h # ys) (new_builder cfg))"
    using history_add_blocks [unfolded add_blocks_def] by (simp add: add_blocks_def)
  then show ?thesis by (simp add: chunk_blocks_def finish_with_history)
qed

subsection \<open>Tables and code are never cut or mixed\<close>

lemma chunk_blocks_atomic:
  assumes "btype blk \<in> {TABLE, CODE}" and "strip (block_to_markdown blk) \<noteq> []"
  shows "\<exists>hp post. chunk_blocks cnt fl cfg (xs @ blk # ys) =
    chunk_blocks cnt fl cfg xs @
    [next_chunk cnt (chunk_blocks cnt fl cfg xs) (block_to_markdown blk) (bpage (bmeta blk)) hp] @ post"
proof -
  let ?b = "add_blocks cnt fl xs (new_builder cfg)"
  let ?b1 = "add_block cnt fl blk ?b"
  have 1: "chunks ?b1 = chunk_blocks cnt fl cfg xs @
     [next_chunk cnt (chunk_blocks cnt fl cfg xs) (block_to_markdown blk) (bpage (bmeta blk))
        (heading_path ?b)]"
    using assms by (auto simp: add_block_def add_atomic_def chunks_emit chunk_blocks_def finish_def)
  have "chunk_blocks cnt fl cfg (xs @ blk # ys) = finish cnt (add_blocks cnt fl ys ?b1)"
    by (simp add: chunk_blocks_def add_blocks_append) (simp add: add_blocks_def)
  also have "\<dots> = finish cnt (add_blocks cnt fl ys (with_history (chunks ?b1) (?b1\<lparr>chunks := []\<rparr>)))"
    by (rule arg_cong [where f = "\<lambda>b. finish cnt (add_blocks cnt fl ys b)", OF history_split_off])
  also have "\<dots> = chunks ?b1 @
     map (renumber (length (chunks ?b1))) (finish cnt (add_blocks cnt fl ys (?b1\<lparr>chunks := []\<rparr>)))"
    by (simp only: history_add_blocks finish_with_history)
  finally show ?thesis using 1 by auto
qed

subsection \<open>The overlap\<close>

lemma tail_pick_budget:
  "int (cnt (concat picked)) \<le> budget
   \<Longrightarrow> int (cnt (concat (tail_pick cnt budget ss picked))) \<le> budget"
  by (induction cnt budget ss picked rule: tail_pick.induct) auto

lemma overlap_tail_budget:
  "int (estimate_tokens (overlap_tail estimate_tokens b t)) \<le> max 0 (overlap_tokens (config b))"
proof (cases "overlap_tokens (config b) \<le> 0")
  case False
  let ?ps = "tail_pick estimate_tokens (overlap_tokens (config b)) (rev (sentences t)) []"
  have "int (estimate_tokens (concat ?ps)) \<le> overlap_tokens (config b)"
    using False tail_pick_budget [of estimate_tokens "[]" "overlap_tokens (config b)"] by simp
  then show ?thesis
    using estimate_tokens_strip_le [of "concat ?ps"] False
    by (simp add: overlap_tail_def Let_def)
qed (simp add: overlap_tail_def)

subsection \<open>Properties\<close>

text \<open>The chunks of a document are numbered 0, 1, 2, ... in the order they are emitted, and each
  holds a non-empty text without surrounding white space together with its true token count.\<close>

theorem chunks_numbered_and_well_formed:
  "map seq (chunk_document cnt fl cfg doc) = [0..<length (chunk_document cnt fl cfg doc)]
   \<and> list_all (\<lambda>c. ctext c \<noteq> [] \<and> strip (ctext c) = ctext c \<and> token_count c = cnt (ctext c))
       (chunk_document cnt fl cfg doc)"
  using numbered.log_document well_formed.log_document by (auto simp: list_all_iff)

text \<open>C1. No body text is lost: the visible characters of all paragraphs, captions, tables and code
  blocks, in document order, are a sub-sequence of the visible characters of the chunks in chunk
  order. (The chunks also repeat the section heading and the overlap.)\<close>

theorem chunking_keeps_every_character:
  "subseq (body_text (blocks doc))
     (concat (map (\<lambda>c. visible (ctext c)) (chunk_document cnt fl cfg doc)))"
  by (rule chunks_hold_body)

text \<open>A heading is a hard boundary: chunking a document with a heading in it is chunking what is
  before the heading and, on its own, what starts with it, with the sequence numbers of the
  second part shifted. No text and no overlap crosses a section.\<close>

theorem heading_splits_document:
  assumes "btype h = HEADING"
  shows "chunk_document cnt fl cfg \<lparr>blocks = xs @ h # ys, doc_meta = m\<rparr> =
    chunk_document cnt fl cfg \<lparr>blocks = xs, doc_meta = m\<rparr> @
    map (renumber (length (chunk_document cnt fl cfg \<lparr>blocks = xs, doc_meta = m\<rparr>)))
      (chunk_document cnt fl cfg \<lparr>blocks = h # ys, doc_meta = m\<rparr>)"
  using chunk_blocks_section [OF assms] by (simp add: chunk_document_blocks)

definition sample_block :: "block_type \<Rightarrow> string \<Rightarrow> block" where
  "sample_block t s = \<lparr>btype = t, btext = lit s, bmeta = \<lparr>order = 0, bpage = Some 1, bheading_path = []\<rparr>\<rparr>"

definition sample_config :: chunk_config where
  "sample_config = \<lparr>target_tokens = 100, overlap_tokens = 10\<rparr>"

theorem heading_splits_document_witness:
  "chunk_document length id sample_config
     \<lparr>blocks = [sample_block PARAGRAPH ''a''] @ sample_block HEADING ''h'' # [sample_block PARAGRAPH ''b''],
      doc_meta = []\<rparr> =
   chunk_document length id sample_config \<lparr>blocks = [sample_block PARAGRAPH ''a''], doc_meta = []\<rparr> @
   map (renumber (length (chunk_document length id sample_config
           \<lparr>blocks = [sample_block PARAGRAPH ''a''], doc_meta = []\<rparr>)))
     (chunk_document length id sample_config
        \<lparr>blocks = sample_block HEADING ''h'' # [sample_block PARAGRAPH ''b''], doc_meta = []\<rparr>)"
  by (rule heading_splits_document) (simp add: sample_block_def)

text \<open>Tables and code blocks are never cut and never share a chunk: such a block becomes one
  chunk whose text is its whole Markdown, numbered after all the chunks of what precedes it.\<close>

theorem atomic_block_is_one_chunk:
  assumes "btype blk \<in> {TABLE, CODE}" and "strip (block_to_markdown blk) \<noteq> []"
  shows "\<exists>hp post. chunk_document cnt fl cfg \<lparr>blocks = xs @ blk # ys, doc_meta = m\<rparr> =
    (let before = chunk_document cnt fl cfg \<lparr>blocks = xs, doc_meta = m\<rparr>
     in before @ [\<lparr>seq = length before, ctext = strip (block_to_markdown blk),
                   token_count = cnt (strip (block_to_markdown blk)), cpage = bpage (bmeta blk),
                   cheading_path = hp\<rparr>] @ post)"
  using chunk_blocks_atomic [OF assms] by (simp add: chunk_document_blocks next_chunk_def Let_def)

theorem atomic_block_is_one_chunk_witness:
  "\<exists>hp post. chunk_document length id sample_config
      \<lparr>blocks = [sample_block PARAGRAPH ''a''] @ sample_block CODE ''x'' # [], doc_meta = []\<rparr> =
    (let before = chunk_document length id sample_config
           \<lparr>blocks = [sample_block PARAGRAPH ''a''], doc_meta = []\<rparr>
     in before @ [\<lparr>seq = length before, ctext = strip (block_to_markdown (sample_block CODE ''x'')),
          token_count = length (strip (block_to_markdown (sample_block CODE ''x''))),
          cpage = bpage (bmeta (sample_block CODE ''x'')), cheading_path = hp\<rparr>] @ post)"
proof (rule atomic_block_is_one_chunk)
  show "strip (block_to_markdown (sample_block CODE ''x'')) \<noteq> []"
    by (simp add: strip_eq_Nil_iff sample_block_def block_to_markdown_def lit_def visible_def
          is_space_def)
qed (simp add: sample_block_def)

end
