(* ===== verification/Artifacts.thy ===== *)
theory Artifacts
  imports DocModel
begin

text \<open>
  \<open>backend/etl/artifacts.py\<close>: the JSON artifact between the stages of the ingestion. Reading is
  dynamically typed in the source (no field is checked beyond what the constructors need), so a
  block read back is a \<open>raw_block\<close> whose fields are JSON values. \<open>json.loads\<close> and \<open>json.dumps\<close>
  are parameters; the model works on the values they read and write.
\<close>

subsection \<open>Dynamic Python on JSON values\<close>

datatype py_exn = KeyError | TypeError | ValueError | AttributeError

definition exn_name :: "py_exn \<Rightarrow> string" where
  "exn_name e =
     (case e of KeyError \<Rightarrow> ''KeyError'' | TypeError \<Rightarrow> ''TypeError'' | ValueError \<Rightarrow> ''ValueError''
      | AttributeError \<Rightarrow> ''AttributeError'')"

definition numeric_value :: "json \<Rightarrow> rat option" where
  "numeric_value j =
     (case j of JBool b \<Rightarrow> Some (if b then 1 else 0) | JInt i \<Rightarrow> Some (of_int i) | JFloat r \<Rightarrow> Some r
      | _ \<Rightarrow> None)"

definition same_key :: "json \<Rightarrow> json \<Rightarrow> bool" where
  "same_key a b =
     (case (numeric_value a, numeric_value b) of (Some x, Some y) \<Rightarrow> x = y | _ \<Rightarrow> a = b)"

text \<open>\<open>value[key]\<close> for a string key, and iteration over a value.\<close>

definition py_item :: "json \<Rightarrow> string \<Rightarrow> py_exn + json" where
  "py_item j key =
     (case j of
        JObj obj \<Rightarrow> (case jget obj key of None \<Rightarrow> Inl KeyError | Some v \<Rightarrow> Inr v)
      | _ \<Rightarrow> Inl TypeError)"

definition py_iter :: "json \<Rightarrow> py_exn + json list" where
  "py_iter j =
     (case j of
        JList xs \<Rightarrow> Inr xs
      | JStr s \<Rightarrow> Inr (map (\<lambda>c. JStr [c]) s)
      | JObj obj \<Rightarrow> Inr (map (\<lambda>kv. JStr (fst kv)) obj)
      | _ \<Rightarrow> Inl TypeError)"

definition then_py :: "'e + 'a \<Rightarrow> ('a \<Rightarrow> 'e + 'b) \<Rightarrow> 'e + 'b" where
  "then_py r k = (case r of Inl e \<Rightarrow> Inl e | Inr v \<Rightarrow> k v)"

fun py_all :: "('a \<Rightarrow> 'e + 'b) \<Rightarrow> 'a list \<Rightarrow> 'e + 'b list" where
  "py_all f [] = Inr []"
| "py_all f (x # xs) =
     then_py (f x) (\<lambda>y. then_py (py_all f xs) (\<lambda>ys. Inr (y # ys)))"

definition hashable :: "json \<Rightarrow> bool" where
  "hashable j = (case j of JList _ \<Rightarrow> False | JObj _ \<Rightarrow> False | _ \<Rightarrow> True)"

definition dict_pair :: "json \<Rightarrow> py_exn + (json \<times> json)" where
  "dict_pair j =
     then_py (py_iter j) (\<lambda>xs.
       case xs of
         [k, v] \<Rightarrow> if hashable k then Inr (k, v) else Inl TypeError
       | _ \<Rightarrow> Inl ValueError)"

fun dict_put :: "json \<Rightarrow> json \<Rightarrow> (json \<times> json) list \<Rightarrow> (json \<times> json) list" where
  "dict_put k v [] = [(k, v)]"
| "dict_put k v ((k', v') # kvs) =
     (if same_key k k' then (k', v) # kvs else (k', v') # dict_put k v kvs)"

text \<open>\<open>dict(value)\<close>\<close>

definition py_dict :: "json \<Rightarrow> py_exn + (json \<times> json) list" where
  "py_dict j =
     (case j of
        JObj obj \<Rightarrow> Inr (map (\<lambda>(k, v). (JStr k, v)) obj)
      | _ \<Rightarrow> then_py (py_iter j) (\<lambda>xs. then_py (py_all dict_pair xs)
               (\<lambda>kvs. Inr (fold (\<lambda>(k, v). dict_put k v) kvs []))))"

subsection \<open>Writing and reading\<close>

definition format_version :: int where
  "format_version = 1"

definition block_type_name :: "block_type \<Rightarrow> string" where
  "block_type_name t =
     (case t of PARAGRAPH \<Rightarrow> ''paragraph'' | HEADING \<Rightarrow> ''heading'' | TABLE \<Rightarrow> ''table''
      | CODE \<Rightarrow> ''code'' | CAPTION \<Rightarrow> ''caption'')"

definition parse_block_type :: "json \<Rightarrow> py_exn + block_type" where
  "parse_block_type j =
     (case find (\<lambda>t. j = JStr (lit (block_type_name t))) [PARAGRAPH, HEADING, TABLE, CODE, CAPTION] of
        None \<Rightarrow> Inl ValueError | Some t \<Rightarrow> Inr t)"

record raw_block =
  raw_type :: block_type
  raw_text :: json
  raw_order :: json
  raw_page :: json
  raw_heading_path :: "json list"

record raw_doc =
  raw_blocks :: "raw_block list"
  raw_meta :: "(json \<times> json) list"

definition page_json :: "int option \<Rightarrow> json" where
  "page_json p = (case p of None \<Rightarrow> JNull | Some n \<Rightarrow> JInt n)"

definition block_payload :: "block \<Rightarrow> json" where
  "block_payload b =
     JObj [(lit ''type'', JStr (lit (block_type_name (btype b)))),
           (lit ''text'', JStr (btext b)),
           (lit ''order'', JInt (order (bmeta b))),
           (lit ''page'', page_json (bpage (bmeta b))),
           (lit ''heading_path'', JList (map JStr (bheading_path (bmeta b))))]"

definition doc_payload :: "extracted_doc \<Rightarrow> json" where
  "doc_payload doc =
     JObj [(lit ''format_version'', JInt format_version),
           (lit ''doc_meta'', JObj (doc_meta doc)),
           (lit ''blocks'', JList (map block_payload (blocks doc)))]"

definition to_json :: "(json \<Rightarrow> 'text) \<Rightarrow> extracted_doc \<Rightarrow> 'text" where
  "to_json dumps doc = dumps (doc_payload doc)"

definition read_block :: "json \<Rightarrow> py_exn + raw_block" where
  "read_block item =
     then_py (then_py (py_item item ''type'') parse_block_type) (\<lambda>t.
     then_py (py_item item ''text'') (\<lambda>tx.
     then_py (py_item item ''order'') (\<lambda>ord.
     then_py (py_item item ''page'') (\<lambda>pg.
     then_py (then_py (py_item item ''heading_path'') py_iter) (\<lambda>hp.
       Inr \<lparr>raw_type = t, raw_text = tx, raw_order = ord, raw_page = pg, raw_heading_path = hp\<rparr>)))))"

datatype artifact_error =
    ExtractionFailed string
  | Escaped py_exn

definition failed_with :: "py_exn + 'a \<Rightarrow> artifact_error + 'a" where
  "failed_with r = (case r of Inl e \<Rightarrow> Inl (ExtractionFailed (exn_name e)) | Inr v \<Rightarrow> Inr v)"

definition check_version :: "json \<Rightarrow> artifact_error + unit" where
  "check_version payload =
     (case payload of
        JObj obj \<Rightarrow>
          (case jget obj ''format_version'' of
             Some v \<Rightarrow>
               if same_key v (JInt format_version) then Inr ()
               else Inl (ExtractionFailed ''artifact_version_mismatch'')
           | None \<Rightarrow> Inl (ExtractionFailed ''artifact_version_mismatch''))
      | _ \<Rightarrow> Inl (ExtractionFailed (exn_name AttributeError)))"

text \<open>\<open>loads\<close> gives the name of the exception it raises, or the value. The last line of the source
  is outside the \<open>try\<close>: what it raises escapes unchanged.\<close>

definition from_json :: "('text \<Rightarrow> string + json) \<Rightarrow> 'text \<Rightarrow> artifact_error + raw_doc" where
  "from_json loads text =
     (case loads text of
        Inl e \<Rightarrow> Inl (ExtractionFailed e)
      | Inr payload \<Rightarrow>
          then_py (check_version payload) (\<lambda>_.
          then_py (failed_with (then_py (then_py (py_item payload ''blocks'') py_iter)
                     (py_all read_block))) (\<lambda>bs.
            (case then_py (py_item payload ''doc_meta'') py_dict of
               Inl e \<Rightarrow> Inl (Escaped e)
             | Inr m \<Rightarrow> Inr \<lparr>raw_blocks = bs, raw_meta = m\<rparr>))))"

subsection \<open>Round trip\<close>

text \<open>The document as Python values.\<close>

definition raw_of_block :: "block \<Rightarrow> raw_block" where
  "raw_of_block b =
     \<lparr>raw_type = btype b, raw_text = JStr (btext b), raw_order = JInt (order (bmeta b)),
      raw_page = page_json (bpage (bmeta b)), raw_heading_path = map JStr (bheading_path (bmeta b))\<rparr>"

definition raw_of_doc :: "extracted_doc \<Rightarrow> raw_doc" where
  "raw_of_doc doc =
     \<lparr>raw_blocks = map raw_of_block (blocks doc),
      raw_meta = map (\<lambda>(k, v). (JStr k, v)) (doc_meta doc)\<rparr>"

lemma then_py_simps [simp]: "then_py (Inl e) k = Inl e" "then_py (Inr v) k = k v"
  by (simp_all add: then_py_def)

lemma parse_block_type_name [simp]: "parse_block_type (JStr (lit (block_type_name t))) = Inr t"
  by (cases t) (simp_all add: parse_block_type_def block_type_name_def lit_def)

lemma read_block_payload [simp]: "read_block (block_payload b) = Inr (raw_of_block b)"
  by (simp add: read_block_def block_payload_def py_item_def jget_def lit_def [of "_ # _"]
        py_iter_def raw_of_block_def)

lemma py_all_Inr: "(\<And>x. x \<in> set xs \<Longrightarrow> f x = Inr (g x)) \<Longrightarrow> py_all f xs = Inr (map g xs)"
  by (induction xs) auto

lemma from_json_payload:
  assumes "loads text = Inr (doc_payload doc)"
  shows "from_json loads text = Inr (raw_of_doc doc)"
proof -
  have "py_all read_block (map block_payload bs) = Inr (map raw_of_block bs)" for bs
    by (induction bs) simp_all
  with assms show ?thesis
    by (simp add: from_json_def doc_payload_def check_version_def py_item_def jget_def lit_def
          same_key_def numeric_value_def py_iter_def py_dict_def failed_with_def raw_of_doc_def)
qed

subsection \<open>Properties\<close>

text \<open>C35. The artifact round trip: reading back what was written gives the same blocks (type, text,
  order, page, heading path) in the same order and the same metadata, provided \<open>json.loads\<close>
  reads what \<open>json.dumps\<close> wrote of that payload.\<close>

theorem artifact_round_trip:
  assumes "loads (dumps (doc_payload doc)) = Inr (doc_payload doc)"
  shows "from_json loads (to_json dumps doc) = Inr (raw_of_doc doc)"
  using from_json_payload [of loads "dumps (doc_payload doc)" doc] assms by (simp add: to_json_def)

theorem artifact_round_trip_witness:
  "from_json Inr (to_json (\<lambda>j. j)
      \<lparr>blocks = [\<lparr>btype = TABLE, btext = [97], bmeta = \<lparr>order = 0, bpage = Some 2, bheading_path = [[98]]\<rparr>\<rparr>],
       doc_meta = [(lit ''lang'', JStr (lit ''en''))]\<rparr>) =
   Inr (raw_of_doc
      \<lparr>blocks = [\<lparr>btype = TABLE, btext = [97], bmeta = \<lparr>order = 0, bpage = Some 2, bheading_path = [[98]]\<rparr>\<rparr>],
       doc_meta = [(lit ''lang'', JStr (lit ''en''))]\<rparr>)"
  by (rule artifact_round_trip) simp

text \<open>An artifact without \<open>doc_meta\<close> is not reported as unreadable: the \<open>KeyError\<close> of the last line
  escapes, so the caller that re-runs the stage on \<open>ExtractionFailedError\<close> does not see one.\<close>

lemma missing_doc_meta_escapes:
  "from_json Inr (JObj [(lit ''format_version'', JInt 1), (lit ''blocks'', JList [])]) =
   Inl (Escaped KeyError)"
  by (simp add: from_json_def check_version_def py_item_def jget_def lit_def same_key_def
        numeric_value_def format_version_def py_iter_def failed_with_def)

end
