(* ===== verification/Cleaner.thy ===== *)
theory Cleaner
  imports DocModel "HOL-Library.AList"
begin

text \<open>
  \<open>backend/etl/clean.py\<close>: removal of page headers and unreadable blocks, white-space
  normalisation and the language label. \<open>unicodedata.category\<close> and the language classifier are
  parameters (\<open>category\<close>, \<open>classify\<close>). Lemmas: which texts count as a page header, the
  accounting of the blocks, and that a kept block differs from its source in white space and
  zero-width characters only.
\<close>

subsection \<open>Normalisation\<close>

definition invisible :: "codepoint list" where
  "invisible = [0x200B, 0x200C, 0x200D, 0x2060, 0xFEFF, 0xAD]"

definition remove_invisible :: "ustring \<Rightarrow> ustring" where
  "remove_invisible s = filter (\<lambda>c. c \<notin> set invisible) s"

definition is_blank :: "codepoint \<Rightarrow> bool" where
  "is_blank c \<longleftrightarrow> c = 32 \<or> c = 9"

text \<open>\<open>[ \t]+$\<close> in multi-line mode, replaced by nothing.\<close>

fun drop_trailing_space :: "ustring \<Rightarrow> ustring" where
  "drop_trailing_space [] = []"
| "drop_trailing_space (c # cs) =
     (if is_blank c \<and> (case dropWhile is_blank cs of [] \<Rightarrow> True | d # _ \<Rightarrow> d = newline)
      then drop_trailing_space cs else c # drop_trailing_space cs)"

text \<open>Three or more line breaks in a row become two; \<open>n\<close> is the length of the run so far.\<close>

fun squeeze_newlines :: "nat \<Rightarrow> ustring \<Rightarrow> ustring" where
  "squeeze_newlines n [] = []"
| "squeeze_newlines n (c # cs) =
     (if c = newline then (if n < 2 then c # squeeze_newlines (Suc n) cs else squeeze_newlines n cs)
      else c # squeeze_newlines 0 cs)"

definition normalize :: "ustring \<Rightarrow> ustring" where
  "normalize t = strip (squeeze_newlines 0 (drop_trailing_space (remove_invisible t)))"

fun split_words :: "ustring \<Rightarrow> ustring \<Rightarrow> ustring list" where
  "split_words cur [] = (if cur = [] then [] else [cur])"
| "split_words cur (c # cs) =
     (if is_space c then (if cur = [] then split_words [] cs else cur # split_words [] cs)
      else split_words (cur @ [c]) cs)"

definition normalize_for_match :: "ustring \<Rightarrow> ustring" where
  "normalize_for_match t = join (lit '' '') (split_words [] (remove_invisible t))"

subsection \<open>Page headers\<close>

definition header_max_tokens :: nat where
  "header_max_tokens = 16"

definition header_min_pages :: nat where
  "header_min_pages = 3"

definition note_page :: "block \<Rightarrow> (ustring \<times> int set) list \<Rightarrow> (ustring \<times> int set) list" where
  "note_page b seen =
     (case bpage (bmeta b) of
        None \<Rightarrow> seen
      | Some p \<Rightarrow>
          if btype b = TABLE then seen
          else let t = normalize_for_match (btext b) in
               if t = [] \<or> header_max_tokens < estimate_tokens t then seen
               else AList.map_default t {p} (insert p) seen)"

definition repeated_page_texts :: "extracted_doc \<Rightarrow> ustring list" where
  "repeated_page_texts doc =
     map fst (filter (\<lambda>(t, pages). header_min_pages \<le> card pages) (fold note_page (blocks doc) []))"

subsection \<open>Garbled text and language\<close>

type_synonym category = "codepoint \<Rightarrow> string"

definition replacement_char :: codepoint where
  "replacement_char = 0xFFFD"

definition garbled_ratio :: "rounding \<Rightarrow> rat" where
  "garbled_ratio fl = fl (3 / 10)"

definition is_bad_char :: "category \<Rightarrow> codepoint \<Rightarrow> bool" where
  "is_bad_char cat c \<longleftrightarrow> c = replacement_char \<or> cat c = ''Cc'' \<or> cat c = ''Cn''"

definition is_garbled :: "category \<Rightarrow> rounding \<Rightarrow> ustring \<Rightarrow> bool" where
  "is_garbled cat fl t =
     (if t = [] then True
      else let bad = length (filter (is_bad_char cat) t)
           in fl (of_nat bad / of_nat (length t)) > garbled_ratio fl)"

type_synonym classifier = "ustring \<Rightarrow> string \<times> rat"

definition min_confidence :: rat where
  "min_confidence = 1 / 2"

definition sample_chars :: nat where
  "sample_chars = 2000"

definition is_kana :: "codepoint \<Rightarrow> bool" where
  "is_kana c \<longleftrightarrow> 0x3040 \<le> c \<and> c \<le> 0x30FF"

definition is_hangul :: "codepoint \<Rightarrow> bool" where
  "is_hangul c \<longleftrightarrow> 0xAC00 \<le> c \<and> c \<le> 0xD7AF"

definition detect_language :: "classifier \<Rightarrow> block list \<Rightarrow> string" where
  "detect_language classify bs =
     (let sample = take sample_chars (join (lit '' '') (map btext bs)) in
      if strip sample = [] then ''und''
      else if list_ex is_kana sample then ''ja''
      else if list_ex is_hangul sample then ''ko''
      else case classify sample of
             (language, confidence) \<Rightarrow> if min_confidence \<le> confidence then language else ''und'')"

subsection \<open>Cleaning\<close>

record clean_stats =
  total_blocks :: int
  dropped_blocks :: nat
  removed_headers :: nat
  language :: string

definition high_drop_rate :: "rounding \<Rightarrow> rat" where
  "high_drop_rate fl = fl (1 / 5)"

definition drop_rate :: "rounding \<Rightarrow> clean_stats \<Rightarrow> rat" where
  "drop_rate fl s =
     (if total_blocks s \<noteq> 0 then fl (of_nat (dropped_blocks s) / of_int (total_blocks s)) else 0)"

definition quality_warning :: "rounding \<Rightarrow> clean_stats \<Rightarrow> bool" where
  "quality_warning fl s \<longleftrightarrow> high_drop_rate fl < drop_rate fl s"

record clean_state =
  kept :: "block list"
  dropped :: nat
  headers_removed :: nat

definition clean_block ::
  "category \<Rightarrow> rounding \<Rightarrow> ustring list \<Rightarrow> block \<Rightarrow> clean_state \<Rightarrow> clean_state" where
  "clean_block cat fl headers b st =
     (if normalize_for_match (btext b) \<in> set headers
      then st\<lparr>headers_removed := headers_removed st + 1\<rparr>
      else let t = (if btype b \<noteq> TABLE then normalize (btext b) else btext b) in
           if strip t = [] then st\<lparr>dropped := dropped st + 1\<rparr>
           else if btype b \<noteq> TABLE \<and> is_garbled cat fl t then st\<lparr>dropped := dropped st + 1\<rparr>
           else st\<lparr>kept := kept st @
                  [\<lparr>btype = btype b, btext = t,
                    bmeta = \<lparr>order = int (length (kept st)), bpage = bpage (bmeta b),
                             bheading_path = bheading_path (bmeta b)\<rparr>\<rparr>]\<rparr>)"

definition clean ::
  "category \<Rightarrow> rounding \<Rightarrow> classifier \<Rightarrow> extracted_doc \<Rightarrow> extracted_doc \<times> clean_stats" where
  "clean cat fl classify doc =
     (let headers = repeated_page_texts doc;
          st = fold (clean_block cat fl headers) (blocks doc)
                 \<lparr>kept = [], dropped = 0, headers_removed = 0\<rparr>;
          lang = detect_language classify (kept st);
          stats = \<lparr>total_blocks = int (length (blocks doc)) - int (headers_removed st),
                   dropped_blocks = dropped st, removed_headers = headers_removed st,
                   language = lang\<rparr>;
          m = AList.update (lit ''block_count'') (JInt (int (length (kept st))))
                (AList.update (lit ''language'') (JStr (lit lang)) (doc_meta doc))
      in (\<lparr>blocks = kept st, doc_meta = m\<rparr>, stats))"

subsection \<open>White space and zero-width characters only\<close>

text \<open>What a reader sees of a text: no white space and no zero-width character.\<close>

definition readable :: "ustring \<Rightarrow> ustring" where
  "readable s = filter (\<lambda>c. \<not> is_space c \<and> c \<notin> set invisible) s"

lemma readable_visible: "readable s = filter (\<lambda>c. c \<notin> set invisible) (visible s)"
  by (simp add: readable_def visible_def conj_commute)

lemma readable_remove_invisible: "readable (remove_invisible s) = readable s"
  by (simp add: readable_def remove_invisible_def) (metis (no_types, lifting))

lemma blank_is_space: "is_blank c \<Longrightarrow> is_space c"
  by (auto simp: is_blank_def is_space_def)

lemma newline_is_space: "is_space newline"
  by (simp add: newline_def is_space_def)

lemma visible_Cons: "visible (c # cs) = (if is_space c then visible cs else c # visible cs)"
  by (simp add: visible_def)

lemma visible_drop_trailing_space: "visible (drop_trailing_space s) = visible s"
  by (induction s rule: drop_trailing_space.induct) (auto simp: visible_Cons blank_is_space)

lemma visible_squeeze_newlines: "visible (squeeze_newlines n s) = visible s"
  by (induction n s rule: squeeze_newlines.induct) (auto simp: visible_Cons newline_is_space)

lemma readable_normalize: "readable (normalize s) = readable s"
proof -
  have "readable (normalize s) = readable (remove_invisible s)"
    by (simp add: readable_visible normalize_def visible_squeeze_newlines visible_drop_trailing_space)
  then show ?thesis by (simp add: readable_remove_invisible)
qed

subsection \<open>The page headers\<close>

definition header_candidate :: "block \<Rightarrow> ustring \<Rightarrow> int \<Rightarrow> bool" where
  "header_candidate b t p \<longleftrightarrow>
     bpage (bmeta b) = Some p \<and> btype b \<noteq> TABLE \<and> normalize_for_match (btext b) = t
     \<and> t \<noteq> [] \<and> estimate_tokens t \<le> header_max_tokens"

definition pages_with :: "block list \<Rightarrow> ustring \<Rightarrow> int set" where
  "pages_with bs t = {p. \<exists>b \<in> set bs. header_candidate b t p}"

lemma distinct_note_page: "distinct (map fst seen) \<Longrightarrow> distinct (map fst (note_page b seen))"
  by (simp add: note_page_def Let_def AList.distinct_map_default split: option.split)

lemma map_of_note_page:
  "map_of (note_page b seen) t =
     (if \<exists>p. header_candidate b t p
      then Some ({p. header_candidate b t p} \<union> (case map_of seen t of None \<Rightarrow> {} | Some ps \<Rightarrow> ps))
      else map_of seen t)"
  by (auto simp: note_page_def header_candidate_def Let_def AList.map_of_map_default
        split: option.splits)

lemma pages_with_snoc: "pages_with (bs @ [b]) t = pages_with bs t \<union> {p. header_candidate b t p}"
  by (auto simp: pages_with_def)

lemma map_of_fold_note_page:
  "distinct (map fst (fold note_page bs []))
   \<and> map_of (fold note_page bs []) t = (if pages_with bs t = {} then None else Some (pages_with bs t))"
proof (induction bs rule: rev_induct)
  case Nil
  then show ?case by (simp add: pages_with_def)
next
  case (snoc b bs)
  then show ?case
    by (auto simp: pages_with_snoc map_of_note_page distinct_note_page)
qed

lemma repeated_page_texts_iff:
  "t \<in> set (repeated_page_texts doc) \<longleftrightarrow> header_min_pages \<le> card (pages_with (blocks doc) t)"
proof -
  let ?al = "fold note_page (blocks doc) []"
  note facts = map_of_fold_note_page [of "blocks doc"]
  have d: "distinct (map fst ?al)" using facts by blast
  have "t \<in> set (repeated_page_texts doc) \<longleftrightarrow>
        (\<exists>ps. (t, ps) \<in> set ?al \<and> header_min_pages \<le> card ps)"
    by (force simp: repeated_page_texts_def)
  also have "\<dots> \<longleftrightarrow> (\<exists>ps. map_of ?al t = Some ps \<and> header_min_pages \<le> card ps)"
    using d by simp
  finally have "t \<in> set (repeated_page_texts doc) \<longleftrightarrow>
        (\<exists>ps. map_of ?al t = Some ps \<and> header_min_pages \<le> card ps)" .
  then show ?thesis using facts by (auto simp: header_min_pages_def)
qed

subsection \<open>The accounting\<close>

datatype fate = Header | Dropped | Kept ustring

definition block_fate :: "category \<Rightarrow> rounding \<Rightarrow> ustring list \<Rightarrow> block \<Rightarrow> fate" where
  "block_fate cat fl headers b =
     (let t = (if btype b \<noteq> TABLE then normalize (btext b) else btext b) in
      if normalize_for_match (btext b) \<in> set headers then Header
      else if strip t = [] \<or> btype b \<noteq> TABLE \<and> is_garbled cat fl t then Dropped
      else Kept t)"

definition survives :: "category \<Rightarrow> rounding \<Rightarrow> ustring list \<Rightarrow> block \<Rightarrow> bool" where
  "survives cat fl headers b \<longleftrightarrow> (case block_fate cat fl headers b of Kept _ \<Rightarrow> True | _ \<Rightarrow> False)"

text \<open>What must not change: type, readable text (the exact text of a table), page, heading path.\<close>

definition block_content :: "block \<Rightarrow> block_type \<times> ustring \<times> int option \<times> ustring list" where
  "block_content b =
     (btype b, if btype b = TABLE then btext b else readable (btext b), bpage (bmeta b),
      bheading_path (bmeta b))"

definition clean_state_ok :: "category \<Rightarrow> rounding \<Rightarrow> ustring list \<Rightarrow> block list \<Rightarrow> clean_state \<Rightarrow> bool" where
  "clean_state_ok cat fl hs bs st \<longleftrightarrow>
     map block_content (kept st) = map block_content (filter (survives cat fl hs) bs)
     \<and> map (\<lambda>b. order (bmeta b)) (kept st) = map int [0..<length (kept st)]
     \<and> length (kept st) + dropped st + headers_removed st = length bs
     \<and> headers_removed st = length (filter (\<lambda>b. normalize_for_match (btext b) \<in> set hs) bs)"

lemma clean_state_ok_step:
  "clean_state_ok cat fl hs bs st \<Longrightarrow> clean_state_ok cat fl hs (bs @ [b]) (clean_block cat fl hs b st)"
  by (auto simp: clean_state_ok_def clean_block_def survives_def block_fate_def Let_def
        block_content_def readable_normalize)

lemma clean_state_ok_fold:
  "clean_state_ok cat fl hs bs
     (fold (clean_block cat fl hs) bs \<lparr>kept = [], dropped = 0, headers_removed = 0\<rparr>)"
  by (induction bs rule: rev_induct) (simp_all add: clean_state_ok_step, simp add: clean_state_ok_def)

subsection \<open>Properties\<close>

text \<open>Cleaning keeps the surviving blocks in order and changes nothing a reader sees in them:
  type, page and heading path are the source's, tables keep their exact text, every other text
  differs in white space and zero-width characters only. The kept blocks are renumbered without
  holes, and every block of the source is counted exactly once as kept, dropped or header.\<close>

theorem clean_keeps_content:
  assumes "clean cat fl classify doc = (doc', s)"
  shows "map block_content (blocks doc') =
      map block_content (filter (survives cat fl (repeated_page_texts doc)) (blocks doc))
    \<and> map (\<lambda>b. order (bmeta b)) (blocks doc') = map int [0..<length (blocks doc')]
    \<and> length (blocks doc') + dropped_blocks s + removed_headers s = length (blocks doc)
    \<and> total_blocks s = int (length (blocks doc')) + int (dropped_blocks s)"
proof -
  have "clean_state_ok cat fl (repeated_page_texts doc) (blocks doc)
     \<lparr>kept = blocks doc', dropped = dropped_blocks s, headers_removed = removed_headers s\<rparr>
     \<and> total_blocks s = int (length (blocks doc)) - int (removed_headers s)"
    using assms clean_state_ok_fold [of cat fl "repeated_page_texts doc" "blocks doc"]
    by (auto simp: clean_def Let_def clean_state_ok_def)
  then show ?thesis by (auto simp: clean_state_ok_def)
qed

definition header_sample :: extracted_doc where
  "header_sample =
     \<lparr>blocks = map (\<lambda>p. \<lparr>btype = PARAGRAPH, btext = lit ''Confidential'',
                         bmeta = \<lparr>order = p, bpage = Some p, bheading_path = []\<rparr>\<rparr>) [1, 2, 3] @
               [\<lparr>btype = PARAGRAPH, btext = lit ''text  '', bmeta = \<lparr>order = 4, bpage = Some 3, bheading_path = []\<rparr>\<rparr>],
      doc_meta = []\<rparr>"

theorem clean_keeps_content_witness:
  "\<exists>doc' s. clean (\<lambda>_. ''Ll'') id (\<lambda>_. (''en'', 1)) header_sample = (doc', s)
    \<and> map block_content (blocks doc') =
      map block_content (filter (survives (\<lambda>_. ''Ll'') id (repeated_page_texts header_sample))
        (blocks header_sample))
    \<and> map (\<lambda>b. order (bmeta b)) (blocks doc') = map int [0..<length (blocks doc')]
    \<and> length (blocks doc') + dropped_blocks s + removed_headers s = length (blocks header_sample)
    \<and> total_blocks s = int (length (blocks doc')) + int (dropped_blocks s)"
  using clean_keeps_content [of "\<lambda>_. ''Ll''" id "\<lambda>_. (''en'', 1)" header_sample]
  by (metis (no_types, lifting) surj_pair)

text \<open>A text counts as a page header exactly when it is short (at most 16 tokens), not blank,
  and appears outside tables on at least three different pages; sources without page numbers
  therefore lose nothing to this rule.\<close>

theorem page_header_characterisation:
  "t \<in> set (repeated_page_texts doc) \<longleftrightarrow>
     3 \<le> card {p. \<exists>b \<in> set (blocks doc).
                  bpage (bmeta b) = Some p \<and> btype b \<noteq> TABLE \<and> normalize_for_match (btext b) = t
                  \<and> t \<noteq> [] \<and> estimate_tokens t \<le> 16}"
  by (simp add: repeated_page_texts_iff pages_with_def header_candidate_def header_min_pages_def
        header_max_tokens_def)

text \<open>A line break has the Unicode category Cc, so it counts as an unreadable character: a code
  block or list of short lines is dropped as garbled although every character of it is readable.\<close>

lemma short_lines_count_as_garbled:
  "cat 10 = ''Cc'' \<Longrightarrow> is_garbled cat (\<lambda>x. x) (lit ''a'' @ [10] @ lit ''b'' @ [10] @ lit ''c'')"
  by (simp add: is_garbled_def garbled_ratio_def is_bad_char_def lit_def Let_def)

end
