(* ===== verification/Pipeline.thy ===== *)
theory Pipeline
  imports Tokens "HOL-Library.AList"
begin

text \<open>
  \<open>backend/rag/pipeline.py\<close> and the shapes of \<open>backend/rag/retrievers/vector.py\<close>: the search query,
  reciprocal rank fusion, the two score gates and the selection of what enters the prompt.
  A chunk id is a UUID; its string order is the order of the 128-bit number. Lemmas: the fusion
  loop computes the reference \<open>rrf\<close> of each chunk; the selection is the longest affordable prefix.
\<close>

type_synonym uuid = nat

record retrieved_chunk =
  chunk_id :: uuid
  document_id :: uuid
  content :: ustring
  score :: rat
  rpage :: "int option"
  rheading_path :: "ustring list"
  document_name :: ustring
  doc_version :: int

definition normalise_query :: "ustring \<Rightarrow> ustring" where
  "normalise_query query = strip query"

definition build_search_query :: "ustring \<Rightarrow> ustring list \<Rightarrow> int \<Rightarrow> ustring" where
  "build_search_query question previous_questions history_turns =
     (let current = normalise_query question in
      if history_turns \<le> 0 then current
      else let recent = map normalise_query (last_n (nat history_turns) previous_questions)
           in strip (join [10] (filter (\<lambda>item. item \<noteq> []) recent @ [current])))"

subsection \<open>Fusion\<close>

text \<open>The three dictionaries of the loop. \<open>k\<close> is a natural number here (the parameter layer
  refuses the others), so \<open>k + rank\<close> is never zero.\<close>

record fusion =
  fscores :: "(uuid \<times> rat) list"
  fchunks :: "uuid \<Rightarrow> retrieved_chunk option"
  fbest :: "uuid \<Rightarrow> (nat \<times> nat) option"

definition add_rank ::
  "rounding \<Rightarrow> nat \<Rightarrow> nat \<Rightarrow> nat \<Rightarrow> retrieved_chunk \<Rightarrow> fusion \<Rightarrow> fusion" where
  "add_rank fl k index rank c st =
     (let key = chunk_id c in
      st\<lparr>fscores := AList.update key
           (fl (or_else (map_of (fscores st) key) 0 + fl (1 / of_nat (k + rank)))) (fscores st),
         fchunks := (case fchunks st key of None \<Rightarrow> (fchunks st)(key \<mapsto> c) | Some _ \<Rightarrow> fchunks st),
         fbest := (fbest st)(key \<mapsto> min (or_else (fbest st key) (rank, index)) (rank, index))\<rparr>)"

fun fuse_group ::
  "rounding \<Rightarrow> nat \<Rightarrow> nat \<Rightarrow> nat \<Rightarrow> uuid list \<Rightarrow> retrieved_chunk list \<Rightarrow> fusion \<Rightarrow> fusion" where
  "fuse_group fl k index rank seen [] st = st"
| "fuse_group fl k index rank seen (c # cs) st =
     (if chunk_id c \<in> set seen then fuse_group fl k index (Suc rank) seen cs st
      else fuse_group fl k index (Suc rank) (chunk_id c # seen) cs (add_rank fl k index rank c st))"

fun fuse_groups ::
  "rounding \<Rightarrow> nat \<Rightarrow> nat \<Rightarrow> retrieved_chunk list list \<Rightarrow> fusion \<Rightarrow> fusion" where
  "fuse_groups fl k index [] st = st"
| "fuse_groups fl k index (g # gs) st = fuse_groups fl k (Suc index) gs (fuse_group fl k index 1 [] g st)"

definition fusion_key :: "fusion \<Rightarrow> uuid \<Rightarrow> rat \<times> (nat \<times> nat) \<times> uuid" where
  "fusion_key st key =
     (- or_else (map_of (fscores st) key) 0, or_else (fbest st key) (0, 0), key)"

definition fuse_candidates ::
  "rounding \<Rightarrow> retrieved_chunk list list \<Rightarrow> nat \<Rightarrow> int \<Rightarrow> retrieved_chunk list" where
  "fuse_candidates fl groups k limit =
     (let st = fuse_groups fl k 0 groups \<lparr>fscores = [], fchunks = Map.empty, fbest = Map.empty\<rparr>;
          ordered = sort_key (fusion_key st) (map fst (fscores st))
      in map (\<lambda>key. (the (fchunks st key))\<lparr>score := or_else (map_of (fscores st) key) 0\<rparr>)
           (slice_to limit ordered))"

subsection \<open>Gates and selection\<close>

definition gate_by_score :: "rounding \<Rightarrow> retrieved_chunk list \<Rightarrow> rat \<Rightarrow> retrieved_chunk list" where
  "gate_by_score fl candidates min_score_ratio =
     (case candidates of
        [] \<Rightarrow> []
      | first # rest \<Rightarrow>
          if min_score_ratio \<le> 0 then candidates
          else if score first \<le> 0 then candidates
          else let floor_score = fl (score first * min_score_ratio)
               in first # filter (\<lambda>c. floor_score \<le> score c) rest)"

definition gate_by_absolute_score :: "retrieved_chunk list \<Rightarrow> rat \<Rightarrow> retrieved_chunk list" where
  "gate_by_absolute_score candidates threshold =
     (if threshold \<le> 0 then candidates else filter (\<lambda>c. threshold \<le> score c) candidates)"

fun select_loop :: "int \<Rightarrow> retrieved_chunk list \<Rightarrow> retrieved_chunk list \<Rightarrow> int \<Rightarrow> retrieved_chunk list" where
  "select_loop token_budget [] selected used = selected"
| "select_loop token_budget (c # cs) selected used =
     (let cost = int (estimate_tokens (content c)) in
      if selected \<noteq> [] \<and> token_budget < used + cost then selected
      else select_loop token_budget cs (selected @ [c]) (used + cost))"

definition select_context :: "retrieved_chunk list \<Rightarrow> int \<Rightarrow> int \<Rightarrow> retrieved_chunk list" where
  "select_context candidates max_chunks token_budget =
     select_loop token_budget (slice_to max_chunks candidates) [] 0"

subsection \<open>What the fusion computes\<close>

fun rank_of :: "nat \<Rightarrow> uuid \<Rightarrow> uuid list \<Rightarrow> nat option" where
  "rank_of r key [] = None"
| "rank_of r key (c # cs) = (if c = key then Some r else rank_of (Suc r) key cs)"

text \<open>The reference: the contributions of the groups in order, and the best rank with its group.\<close>

fun rrf :: "rounding \<Rightarrow> nat \<Rightarrow> uuid \<Rightarrow> uuid list list \<Rightarrow> rat option \<Rightarrow> rat option" where
  "rrf fl k key [] acc = acc"
| "rrf fl k key (g # gs) acc =
     rrf fl k key gs
       (case rank_of 1 key g of
          None \<Rightarrow> acc
        | Some r \<Rightarrow> Some (fl (or_else acc 0 + fl (1 / of_nat (k + r)))))"

fun best_rank :: "uuid \<Rightarrow> nat \<Rightarrow> uuid list list \<Rightarrow> (nat \<times> nat) option \<Rightarrow> (nat \<times> nat) option" where
  "best_rank key index [] acc = acc"
| "best_rank key index (g # gs) acc =
     best_rank key (Suc index) gs
       (case rank_of 1 key g of
          None \<Rightarrow> acc
        | Some r \<Rightarrow> Some (min (or_else acc (r, index)) (r, index)))"

lemma fuse_group_scores:
  "map_of (fscores (fuse_group fl k index rank seen g st)) key =
     (if key \<in> set seen then map_of (fscores st) key
      else case rank_of rank key (map chunk_id g) of
             None \<Rightarrow> map_of (fscores st) key
           | Some r \<Rightarrow> Some (fl (or_else (map_of (fscores st) key) 0 + fl (1 / of_nat (k + r)))))"
  by (induction fl k index rank seen g st rule: fuse_group.induct)
     (auto simp: add_rank_def Let_def AList.update_conv' split: option.splits)

lemma fuse_group_best:
  "fbest (fuse_group fl k index rank seen g st) key =
     (if key \<in> set seen then fbest st key
      else case rank_of rank key (map chunk_id g) of
             None \<Rightarrow> fbest st key
           | Some r \<Rightarrow> Some (min (or_else (fbest st key) (r, index)) (r, index)))"
  by (induction fl k index rank seen g st rule: fuse_group.induct)
     (auto simp: add_rank_def Let_def split: option.splits)

lemma fuse_groups_scores:
  "map_of (fscores (fuse_groups fl k index gs st)) key =
     rrf fl k key (map (map chunk_id) gs) (map_of (fscores st) key)"
  by (induction fl k index gs st rule: fuse_groups.induct) (simp_all add: fuse_group_scores)

lemma fuse_groups_best:
  "fbest (fuse_groups fl k index gs st) key =
     best_rank key index (map (map chunk_id) gs) (fbest st key)"
  by (induction fl k index gs st rule: fuse_groups.induct) (simp_all add: fuse_group_best)

definition fusion_ok :: "fusion \<Rightarrow> bool" where
  "fusion_ok st \<longleftrightarrow>
     distinct (map fst (fscores st)) \<and> dom (fchunks st) = fst ` set (fscores st)
     \<and> (\<forall>key c. fchunks st key = Some c \<longrightarrow> chunk_id c = key)"

lemma add_rank_ok: "fusion_ok st \<Longrightarrow> fusion_ok (add_rank fl k index rank c st)"
  by (cases "fchunks st (chunk_id c)")
     (auto simp: fusion_ok_def add_rank_def Let_def AList.distinct_update AList.dom_update
        intro!: set_eqI)

lemma fuse_group_ok: "fusion_ok st \<Longrightarrow> fusion_ok (fuse_group fl k index rank seen g st)"
  by (induction fl k index rank seen g st rule: fuse_group.induct) (simp_all add: add_rank_ok)

lemma fusion_ok_groups: "fusion_ok st \<Longrightarrow> fusion_ok (fuse_groups fl k index gs st)"
  by (induction fl k index gs st rule: fuse_groups.induct) (simp_all add: fuse_group_ok)

definition fused :: "rounding \<Rightarrow> nat \<Rightarrow> retrieved_chunk list list \<Rightarrow> fusion" where
  "fused fl k groups =
     fuse_groups fl k 0 groups \<lparr>fscores = [], fchunks = Map.empty, fbest = Map.empty\<rparr>"

lemma fused_ok: "fusion_ok (fused fl k groups)"
  unfolding fused_def by (rule fusion_ok_groups) (simp add: fusion_ok_def)

definition rrf_score :: "rounding \<Rightarrow> nat \<Rightarrow> uuid list list \<Rightarrow> uuid \<Rightarrow> rat" where
  "rrf_score fl k ids key = or_else (rrf fl k key ids None) 0"

definition rrf_key :: "rounding \<Rightarrow> nat \<Rightarrow> uuid list list \<Rightarrow> uuid \<Rightarrow> rat \<times> (nat \<times> nat) \<times> uuid" where
  "rrf_key fl k ids key =
     (- rrf_score fl k ids key, or_else (best_rank key 0 ids None) (0, 0), key)"

lemma fusion_key_fused: "fusion_key (fused fl k groups) = rrf_key fl k (map (map chunk_id) groups)"
  by (rule ext) (simp add: fusion_key_def rrf_key_def rrf_score_def fused_def fuse_groups_scores
      fuse_groups_best)

lemma rank_of_None: "rank_of r key ids = None \<longleftrightarrow> key \<notin> set ids"
  by (induction r key ids rule: rank_of.induct) auto

lemma rank_of_Some: "rank_of r key ids = Some q \<Longrightarrow> key \<in> set ids"
  by (metis option.distinct(1) rank_of_None)

lemma rrf_None: "rrf fl k key ids acc = None \<longleftrightarrow> acc = None \<and> key \<notin> \<Union> (set ` set ids)"
  by (induction fl k key ids acc rule: rrf.induct) (auto simp: rank_of_None dest: rank_of_Some split: option.splits)

lemma fused_keys: "fst ` set (fscores (fused fl k groups)) = (\<Union>g \<in> set groups. chunk_id ` set g)"
proof -
  have "key \<in> fst ` set (fscores (fused fl k groups)) \<longleftrightarrow>
        rrf fl k key (map (map chunk_id) groups) None \<noteq> None" for key
    using map_of_eq_None_iff [of "fscores (fused fl k groups)" key]
    by (auto simp: fused_def fuse_groups_scores)
  then have "key \<in> fst ` set (fscores (fused fl k groups)) \<longleftrightarrow>
      key \<in> (\<Union>g \<in> set groups. chunk_id ` set g)" for key
    by (simp add: rrf_None)
  then show ?thesis by (intro set_eqI) simp
qed

lemma sort_key_distinct_set:
  assumes "distinct xs" "distinct ys" "set xs = set ys" "inj_on f (set xs)"
  shows "sort_key f xs = sort_key f ys"
proof (rule properties_for_sort_key)
  have "mset xs = mset ys" using assms by (metis set_eq_iff_mset_eq_distinct)
  then show "mset (sort_key f ys) = mset xs" by simp
  show "sorted (map f (sort_key f ys))" by simp
  fix k assume k: "k \<in> set (sort_key f ys)"
  have *: "filter (\<lambda>x. f k = f x) zs = [k]" if "distinct zs" "set zs = set xs" for zs
  proof -
    have "filter (\<lambda>x. f k = f x) zs = filter (\<lambda>x. x = k) zs"
      using assms k that by (auto intro!: filter_cong dest: inj_onD)
    also have "\<dots> = [k]"
    proof -
      have "k \<in> set zs" using k assms that by simp
      with that(1) show ?thesis by (induction zs) (auto simp: filter_empty_conv)
    qed
    finally show ?thesis .
  qed
  show "filter (\<lambda>x. f k = f x) (sort_key f ys) = filter (\<lambda>x. f k = f x) xs"
    using * [of "sort_key f ys"] * [of xs] assms by simp
qed

lemma rrf_key_inj: "inj_on (rrf_key fl k ids) A"
  by (auto simp: inj_on_def rrf_key_def)

definition all_ids :: "retrieved_chunk list list \<Rightarrow> uuid list" where
  "all_ids groups = remdups (concat (map (map chunk_id) groups))"

definition rrf_order :: "rounding \<Rightarrow> nat \<Rightarrow> int \<Rightarrow> uuid list list \<Rightarrow> uuid list" where
  "rrf_order fl k limit ids = slice_to limit (sort_key (rrf_key fl k ids) (remdups (concat ids)))"

lemma fuse_candidates_fused:
  "fuse_candidates fl groups k limit =
     map (\<lambda>key. (the (fchunks (fused fl k groups) key))\<lparr>score := rrf_score fl k (map (map chunk_id) groups) key\<rparr>)
       (rrf_order fl k limit (map (map chunk_id) groups))"
proof -
  let ?ids = "map (map chunk_id) groups"
  let ?st = "fused fl k groups"
  have "sort_key (fusion_key ?st) (map fst (fscores ?st)) =
        sort_key (rrf_key fl k ?ids) (remdups (concat ?ids))"
    unfolding fusion_key_fused
    using fused_ok [of fl k groups] fused_keys [of fl k groups]
    by (intro sort_key_distinct_set rrf_key_inj) (auto simp: fusion_ok_def)
  moreover have "or_else (map_of (fscores ?st) key) 0 = rrf_score fl k ?ids key" for key
    by (simp add: fused_def fuse_groups_scores rrf_score_def)
  ultimately show ?thesis
    by (simp add: fuse_candidates_def fused_def rrf_order_def Let_def)
qed

lemma slice_to_subset: "set (slice_to n xs) \<subseteq> set xs"
  using slice_to_prefix [of n xs] by (rule set_mono_prefix)

lemma set_rrf_order: "set (rrf_order fl k limit ids) \<subseteq> set (concat ids)"
  using slice_to_subset [of limit "sort_key (rrf_key fl k ids) (remdups (concat ids))"]
  by (simp add: rrf_order_def)

lemma fuse_candidates_ids:
  "map chunk_id (fuse_candidates fl groups k limit) = rrf_order fl k limit (map (map chunk_id) groups)"
proof -
  have "chunk_id (the (fchunks (fused fl k groups) key)) = key"
    if "key \<in> set (rrf_order fl k limit (map (map chunk_id) groups))" for key
  proof -
    have "key \<in> fst ` set (fscores (fused fl k groups))"
      using that set_rrf_order [of fl k limit "map (map chunk_id) groups"]
      unfolding fused_keys by (simp add: subset_iff)
    then have "key \<in> dom (fchunks (fused fl k groups))"
      using fused_ok [of fl k groups] by (simp add: fusion_ok_def)
    then obtain c where "fchunks (fused fl k groups) key = Some c" by blast
    then show ?thesis using fused_ok [of fl k groups] by (simp add: fusion_ok_def)
  qed
  then show ?thesis
    unfolding fuse_candidates_fused by (auto simp: comp_def intro: map_idI)
qed

lemma fuse_candidates_scores:
  "map score (fuse_candidates fl groups k limit) =
     map (rrf_score fl k (map (map chunk_id) groups)) (rrf_order fl k limit (map (map chunk_id) groups))"
  by (simp add: fuse_candidates_fused)

lemma sorted_slice: "sorted (map f xs) \<Longrightarrow> sorted (map f (slice_to n xs))"
  by (auto simp: slice_to_def simp flip: take_map intro: sorted_wrt_take)

lemma rrf_order_sorted: "sorted (map (rrf_key fl k ids) (rrf_order fl k limit ids))"
  unfolding rrf_order_def by (rule sorted_slice) simp

lemma distinct_slice: "distinct xs \<Longrightarrow> distinct (slice_to n xs)"
  by (simp add: slice_to_def)

subsection \<open>The selection\<close>

definition cost :: "retrieved_chunk list \<Rightarrow> int" where
  "cost cs = (\<Sum>c\<leftarrow>cs. int (estimate_tokens (content c)))"

lemma cost_simps [simp]: "cost [] = 0" "cost (c # cs) = int (estimate_tokens (content c)) + cost cs"
  "cost (xs @ ys) = cost xs + cost ys"
  by (simp_all add: cost_def)

lemma cost_nonneg: "0 \<le> cost cs"
  by (induction cs) auto

lemma select_loop_prefix:
  "\<exists>n \<le> length cs. select_loop budget cs sel (cost sel) = sel @ take n cs
     \<and> (2 \<le> length sel + n \<and> 0 < n \<longrightarrow> cost (sel @ take n cs) \<le> budget)
     \<and> (n < length cs \<longrightarrow> sel @ take n cs \<noteq> [] \<and> budget < cost (sel @ take (Suc n) cs))"
proof (induction cs arbitrary: sel)
  case (Cons c cs)
  let ?c = "int (estimate_tokens (content c))"
  show ?case
  proof (cases "sel \<noteq> [] \<and> budget < cost sel + ?c")
    case True
    then show ?thesis by (intro exI [of _ 0]) (simp add: Let_def)
  next
    case False
    obtain n where n: "n \<le> length cs" "select_loop budget cs (sel @ [c]) (cost (sel @ [c])) = (sel @ [c]) @ take n cs"
      "2 \<le> length (sel @ [c]) + n \<and> 0 < n \<longrightarrow> cost ((sel @ [c]) @ take n cs) \<le> budget"
      "n < length cs \<longrightarrow> (sel @ [c]) @ take n cs \<noteq> [] \<and> budget < cost ((sel @ [c]) @ take (Suc n) cs)"
      using Cons.IH [of "sel @ [c]"] by blast
    have "2 \<le> length (sel @ c # take n cs) \<longrightarrow> cost (sel @ c # take n cs) \<le> budget"
      using n(3) False by (cases "n = 0") auto
    then show ?thesis
      using n False by (intro exI [of _ "Suc n"]) (auto simp: Let_def)
  qed
qed simp

subsection \<open>Properties\<close>

text \<open>Fusion looks at ranks only: the order of the result is \<open>rrf_order\<close> of the id lists of the
  routes, so no change of the scores, contents or documents of the candidates can change which
  chunks are returned or in which order, and the reported score is the reciprocal rank sum.\<close>

theorem fusion_depends_on_ranks_only:
  "map chunk_id (fuse_candidates fl groups k limit) = rrf_order fl k limit (map (map chunk_id) groups)
   \<and> map score (fuse_candidates fl groups k limit) =
       map (rrf_score fl k (map (map chunk_id) groups)) (rrf_order fl k limit (map (map chunk_id) groups))"
  by (simp add: fuse_candidates_ids fuse_candidates_scores)

text \<open>The fused list is sorted by falling score (ties by best rank, then by the position of the
  route, then by id), holds no chunk twice, and holds only chunks of the routes; without a cut
  (a limit of at least the number of candidates) it holds all of them.\<close>

theorem fusion_sorted_distinct_complete:
  fixes groups k limit fl
  defines "ids \<equiv> map (map chunk_id) groups"
    and "result \<equiv> map chunk_id (fuse_candidates fl groups k limit)"
  shows "sorted (map (rrf_key fl k ids) result) \<and> sorted_wrt (\<ge>) (map (rrf_score fl k ids) result)
    \<and> distinct result \<and> set result \<subseteq> set (concat ids)
    \<and> (int (length (concat ids)) \<le> limit \<longrightarrow> set result = set (concat ids))"
proof (intro conjI impI)
  have r: "result = rrf_order fl k limit ids" by (simp add: result_def ids_def fuse_candidates_ids)
  show s: "sorted (map (rrf_key fl k ids) result)" unfolding r by (rule rrf_order_sorted)
  have "rrf_key fl k ids a \<le> rrf_key fl k ids b \<Longrightarrow> rrf_score fl k ids b \<le> rrf_score fl k ids a" for a b
    by (auto simp: rrf_key_def)
  with s show "sorted_wrt (\<ge>) (map (rrf_score fl k ids) result)"
    unfolding sorted_map sorted_wrt_map by (auto elim: sorted_wrt_mono_rel [rotated])
  show "distinct result" unfolding r rrf_order_def by (intro distinct_slice) simp
  show "set result \<subseteq> set (concat ids)" unfolding r by (rule set_rrf_order)
  assume "int (length (concat ids)) \<le> limit"
  then have "length (remdups (concat ids)) \<le> nat limit" "0 \<le> limit"
    using length_remdups_leq [of "concat ids"] by linarith+
  then show "set result = set (concat ids)" unfolding r by (simp add: rrf_order_def slice_to_def)
qed

definition sample_chunk :: "uuid \<Rightarrow> string \<Rightarrow> retrieved_chunk" where
  "sample_chunk i s =
     \<lparr>chunk_id = i, document_id = 0, content = lit s, score = 1, rpage = None, rheading_path = [],
      document_name = [], doc_version = 1\<rparr>"

theorem fusion_sorted_distinct_complete_witness:
  fixes groups ids result
  defines "groups \<equiv> [[sample_chunk 1 ''a'', sample_chunk 2 ''b''], [sample_chunk 2 ''b'', sample_chunk 3 ''c'']]"
    and "ids \<equiv> [[1, 2], [2, 3]] :: nat list list"
    and "result \<equiv> map chunk_id (fuse_candidates (\<lambda>x. x) groups 60 24)"
  shows "set result = set (concat ids)"
proof -
  have "map (map chunk_id) groups = ids" by (simp add: groups_def ids_def sample_chunk_def)
  then show ?thesis
    using fusion_sorted_distinct_complete [of "\<lambda>x. x" 60 groups 24]
    by (simp add: result_def ids_def)
qed

text \<open>What enters the prompt is the longest affordable prefix: the result is a prefix of the
  first \<open>max_chunks\<close> candidates; two chunks or more never exceed the token budget; the next
  candidate would; and the best candidate is always there, even when it is too long alone.\<close>

theorem selection_is_longest_affordable_prefix:
  "\<exists>n \<le> length (slice_to max_chunks cands).
     select_context cands max_chunks budget = take n (slice_to max_chunks cands)
     \<and> (2 \<le> n \<longrightarrow> cost (take n (slice_to max_chunks cands)) \<le> budget)
     \<and> (n < length (slice_to max_chunks cands) \<longrightarrow>
          0 < n \<and> budget < cost (take (Suc n) (slice_to max_chunks cands)))"
proof -
  let ?cs = "slice_to max_chunks cands"
  obtain n where "n \<le> length ?cs \<and> select_loop budget ?cs [] 0 = take n ?cs
     \<and> (2 \<le> n \<and> 0 < n \<longrightarrow> cost (take n ?cs) \<le> budget)
     \<and> (n < length ?cs \<longrightarrow> take n ?cs \<noteq> [] \<and> budget < cost (take (Suc n) ?cs))"
    using select_loop_prefix [of ?cs budget "[]"] by (auto simp del: take_eq_Nil)
  then show ?thesis by (intro exI [of _ n]) (simp add: select_context_def)
qed

definition sample_pair :: "retrieved_chunk list" where
  "sample_pair = slice_to 8 [sample_chunk 1 ''aaaa'', sample_chunk 2 ''bbbb'']"

theorem selection_is_longest_affordable_prefix_witness:
  "\<exists>n \<le> length sample_pair.
     select_context [sample_chunk 1 ''aaaa'', sample_chunk 2 ''bbbb''] 8 1 = take n sample_pair
     \<and> (2 \<le> n \<longrightarrow> cost (take n sample_pair) \<le> 1)
     \<and> (n < length sample_pair \<longrightarrow> 0 < n \<and> 1 < cost (take (Suc n) sample_pair))"
  unfolding sample_pair_def by (rule selection_is_longest_affordable_prefix)

text \<open>The relative gate never drops the best candidate, keeps the order, and on candidates in
  falling order of score cuts a tail only; the absolute gate keeps exactly the candidates at or
  above a positive threshold.\<close>

theorem gates_cut_tails:
  assumes "sorted_wrt (\<lambda>a b. score b \<le> score a) cands"
  shows "prefix (gate_by_score fl cands ratio) cands
    \<and> (cands \<noteq> [] \<longrightarrow> gate_by_score fl cands ratio \<noteq> [])
    \<and> prefix (gate_by_absolute_score cands threshold) cands"
proof -
  have cut: "prefix (filter (\<lambda>c. x \<le> score c) cs) cs"
    if "sorted_wrt (\<lambda>a b. score b \<le> score a) cs" for x cs
    using that
  proof (induction cs)
    case (Cons c cs)
    show ?case
    proof (cases "x \<le> score c")
      case False
      then have "filter (\<lambda>c. x \<le> score c) (c # cs) = []"
        using Cons.prems by (force simp: filter_empty_conv)
      then show ?thesis by simp
    qed (use Cons in simp)
  qed simp
  show ?thesis
    using assms cut [of cands threshold] cut [of "tl cands"]
    by (cases cands) (auto simp: gate_by_score_def gate_by_absolute_score_def Let_def)
qed

theorem gates_cut_tails_witness:
  "prefix (gate_by_score (\<lambda>x. x) [sample_chunk 1 ''a'', sample_chunk 2 ''b''] (1/2))
     [sample_chunk 1 ''a'', sample_chunk 2 ''b'']
   \<and> gate_by_score (\<lambda>x. x) [sample_chunk 1 ''a'', sample_chunk 2 ''b''] (1/2) \<noteq> []"
  using gates_cut_tails [of "[sample_chunk 1 ''a'', sample_chunk 2 ''b'']" "\<lambda>x. x" "1/2" 0]
  by (simp add: sample_chunk_def)

end
