(* ===== verification/Citation.thy ===== *)
theory Citation
  imports Pipeline
begin

text \<open>
  \<open>backend/rag/citation.py\<close>: the markers \<open>[c:n]\<close> the model writes and the verified list of
  citations. A marker is valid only when it numbers a chunk of this turn's context. Lemmas: the
  scanner finds a marker wherever it is written, and the citations are the valid markers in order
  of first use, each with its own chunk.
\<close>

subsection \<open>Markers\<close>

definition marker_open :: ustring where
  "marker_open = lit ''[c:''"

definition marker_close :: codepoint where
  "marker_close = 93"

definition marker_char :: "codepoint \<Rightarrow> bool" where
  "marker_char c \<longleftrightarrow> c \<noteq> marker_close \<and> \<not> is_space c"

text \<open>\<open>re.findall\<close> of \<open>\[c:([^\]\s]+)\]\<close>.\<close>

definition marker_at :: "ustring \<Rightarrow> ustring option" where
  "marker_at t =
     (if prefix marker_open t
      then let rest = drop (length marker_open) t; name = takeWhile marker_char rest in
           if name \<noteq> [] \<and> (case dropWhile marker_char rest of [] \<Rightarrow> False | c # _ \<Rightarrow> c = marker_close)
           then Some name else None
      else None)"

function extract_markers :: "ustring \<Rightarrow> ustring list" where
  "extract_markers t =
     (if t = [] then []
      else case marker_at t of
             Some name \<Rightarrow> name # extract_markers (drop (length marker_open + length name + 1) t)
           | None \<Rightarrow> extract_markers (tl t))"
  by pat_completeness auto
termination
  by (relation "measure length") (auto simp: marker_open_def lit_def)

declare extract_markers.simps [simp del]

definition marker_for :: "nat \<Rightarrow> ustring" where
  "marker_for index = decimal (index + 1)"

subsection \<open>Citations\<close>

definition snippet_max_chars :: nat where
  "snippet_max_chars = 240"

definition ellipsis :: codepoint where
  "ellipsis = 0x2026"

definition make_snippet :: "ustring \<Rightarrow> ustring" where
  "make_snippet t =
     (let body = strip t in
      if length body \<le> snippet_max_chars then body else take snippet_max_chars body @ [ellipsis])"

record citation =
  marker :: ustring
  cite_chunk :: uuid
  cite_doc :: uuid
  doc_name :: ustring
  cite_version :: int
  cite_page :: "int option"
  cite_heading :: "ustring list"
  cite_score :: rat
  snippet :: ustring

record citation_result =
  citations :: "citation list"
  dropped_markers :: "ustring list"

definition make_citation :: "ustring \<Rightarrow> retrieved_chunk \<Rightarrow> citation" where
  "make_citation m c =
     \<lparr>marker = m, cite_chunk = chunk_id c, cite_doc = document_id c, doc_name = document_name c,
      cite_version = doc_version c, cite_page = rpage c, cite_heading = rheading_path c,
      cite_score = score c, snippet = make_snippet (content c)\<rparr>"

definition by_marker :: "retrieved_chunk list \<Rightarrow> ustring \<Rightarrow> retrieved_chunk option" where
  "by_marker cs = map_of (map (\<lambda>(index, c). (marker_for index, c)) (enumerate 0 cs))"

fun assemble_loop ::
  "(ustring \<Rightarrow> retrieved_chunk option) \<Rightarrow> ustring list \<Rightarrow> citation list \<Rightarrow> ustring list
   \<Rightarrow> ustring list \<Rightarrow> citation_result" where
  "assemble_loop table [] cites dropped used = \<lparr>citations = cites, dropped_markers = dropped\<rparr>"
| "assemble_loop table (m # ms) cites dropped used =
     (case table m of
        None \<Rightarrow> assemble_loop table ms cites (if m \<in> set dropped then dropped else dropped @ [m]) used
      | Some c \<Rightarrow>
          if m \<in> set used then assemble_loop table ms cites dropped used
          else assemble_loop table ms (cites @ [make_citation m c]) dropped (m # used))"

definition assemble_citations :: "ustring \<Rightarrow> retrieved_chunk list \<Rightarrow> citation_result" where
  "assemble_citations t cs = assemble_loop (by_marker cs) (extract_markers t) [] [] []"

subsection \<open>Lemmas\<close>

lemma marker_for_inject [simp]: "marker_for i = marker_for j \<longleftrightarrow> i = j"
  by (simp add: marker_for_def)

lemma by_marker_Some:
  "by_marker cs m = Some c \<longleftrightarrow> (\<exists>i < length cs. m = marker_for i \<and> c = cs ! i)"
proof -
  let ?al = "map (\<lambda>(index, c). (marker_for index, c)) (enumerate 0 cs)"
  have "distinct (map fst ?al)"
    by (auto simp: distinct_conv_nth nth_enumerate_eq)
  moreover have "(m, c) \<in> set ?al \<longleftrightarrow> (\<exists>i < length ?al. ?al ! i = (m, c))"
    by (simp only: in_set_conv_nth)
  then have "(m, c) \<in> set ?al \<longleftrightarrow> (\<exists>i < length cs. m = marker_for i \<and> c = cs ! i)"
    by (auto simp: nth_enumerate_eq)
  ultimately show ?thesis by (simp add: by_marker_def)
qed

lemma by_marker_None: "by_marker cs m = None \<longleftrightarrow> m \<notin> marker_for ` {..<length cs}"
proof -
  have "by_marker cs m \<noteq> None \<longleftrightarrow> (\<exists>i < length cs. m = marker_for i)"
    using by_marker_Some [of cs m] by auto
  then show ?thesis by auto
qed

lemma assemble_loop_citations:
  "map marker (citations (assemble_loop table ms cites dropped used)) =
     map marker cites @ dedup used (filter (\<lambda>m. table m \<noteq> None) ms)"
  by (induction table ms cites dropped used rule: assemble_loop.induct)
     (auto simp: make_citation_def split: option.splits)

lemma assemble_loop_dropped:
  "dropped_markers (assemble_loop table ms cites dropped used) =
     dropped @ dedup dropped (filter (\<lambda>m. table m = None) ms)"
proof (induction table ms cites dropped used rule: assemble_loop.induct)
  case (2 table m ms cites dropped used)
  have "dedup (dropped @ [m]) xs = dedup (m # dropped) xs" for xs
    by (rule dedup_cong) auto
  then show ?case using 2 by (auto split: option.splits)
qed simp

lemma assemble_loop_sources:
  "(\<And>c. c \<in> set cites \<Longrightarrow> \<exists>s. table (marker c) = Some s \<and> c = make_citation (marker c) s)
   \<Longrightarrow> c \<in> set (citations (assemble_loop table ms cites dropped used))
   \<Longrightarrow> \<exists>s. table (marker c) = Some s \<and> c = make_citation (marker c) s"
proof (induction table ms cites dropped used rule: assemble_loop.induct)
  case (2 table m ms cites dropped used)
  show ?case
  proof (cases "table m")
    case None
    then show ?thesis using 2 by (auto split: if_splits)
  next
    case (Some s)
    show ?thesis
    proof (cases "m \<in> set used")
      case True
      then show ?thesis using 2 Some by simp
    next
      case False
      have "\<exists>s. table (marker c) = Some s \<and> c = make_citation (marker c) s"
        if "c \<in> set (cites @ [make_citation m s])" for c
        using that 2(4) Some by (auto simp: make_citation_def)
      then show ?thesis using 2(3) [OF Some False] 2(5) Some False by simp
    qed
  qed
qed simp

lemma length_make_snippet: "length (make_snippet t) \<le> snippet_max_chars + 1"
  by (simp add: make_snippet_def Let_def)

lemma marker_at_written:
  assumes "name \<noteq> []" "list_all marker_char name"
  shows "marker_at (marker_open @ name @ marker_close # rest) = Some name"
proof -
  have "takeWhile marker_char (name @ marker_close # rest) = name"
    and "dropWhile marker_char (name @ marker_close # rest) = marker_close # rest"
    using assms by (simp_all add: takeWhile_append2 dropWhile_append2 list_all_iff marker_char_def)
  then show ?thesis using assms by (simp add: marker_at_def)
qed

lemma marker_at_needs_bracket: "hd t \<noteq> 91 \<Longrightarrow> t \<noteq> [] \<Longrightarrow> marker_at t = None"
  by (cases t) (auto simp: marker_at_def marker_open_def lit_def)

lemma extract_markers_skip: "91 \<notin> set pre \<Longrightarrow> extract_markers (pre @ t) = extract_markers t"
proof (induction pre)
  case (Cons c pre)
  then have "marker_at (c # pre @ t) = None" by (intro marker_at_needs_bracket) auto
  then show ?case using Cons by (simp add: extract_markers.simps [of "c # pre @ t"])
qed simp

lemma extract_markers_written:
  assumes "91 \<notin> set pre" "name \<noteq> []" "list_all marker_char name"
  shows "extract_markers (pre @ marker_open @ name @ marker_close # rest) = name # extract_markers rest"
proof -
  have "extract_markers (marker_open @ name @ marker_close # rest) = name # extract_markers rest"
    using marker_at_written [OF assms(2,3)]
    by (simp add: extract_markers.simps [of "marker_open @ _"] assms)
  then show ?thesis using extract_markers_skip [OF assms(1)] by simp
qed

lemma marker_for_chars: "marker_for i \<noteq> [] \<and> list_all marker_char (marker_for i)"
  using decimal_digits [of _ "i + 1"]
  by (force simp: marker_for_def list_all_iff marker_char_def marker_close_def is_space_def)

subsection \<open>Properties\<close>

text \<open>No false source: every citation of an answer is the chunk of this turn's context that its
  marker numbers, with that chunk's ids, version and snippet; the citations are the valid markers
  of the answer in order of first use without repetition, and the dropped markers are all the
  others, so every marker of the answer is accounted for exactly once.\<close>

theorem citations_are_grounded:
  fixes t cs
  defines "r \<equiv> assemble_citations t cs"
  shows "map marker (citations r) =
      dedup [] (filter (\<lambda>m. m \<in> marker_for ` {..<length cs}) (extract_markers t))
    \<and> dropped_markers r =
      dedup [] (filter (\<lambda>m. m \<notin> marker_for ` {..<length cs}) (extract_markers t))
    \<and> (\<forall>c \<in> set (citations r). \<exists>i < length cs.
          marker c = marker_for i \<and> c = make_citation (marker c) (cs ! i)
          \<and> length (snippet c) \<le> 241)"
proof (intro conjI ballI)
  have valid: "by_marker cs m \<noteq> None \<longleftrightarrow> m \<in> marker_for ` {..<length cs}" for m
    using by_marker_None [of cs m] by (cases "by_marker cs m") auto
  show "map marker (citations r) =
      dedup [] (filter (\<lambda>m. m \<in> marker_for ` {..<length cs}) (extract_markers t))"
    by (simp only: r_def assemble_citations_def assemble_loop_citations valid) simp
  show "dropped_markers r =
      dedup [] (filter (\<lambda>m. m \<notin> marker_for ` {..<length cs}) (extract_markers t))"
    by (simp only: r_def assemble_citations_def assemble_loop_dropped by_marker_None) simp
  fix c assume "c \<in> set (citations r)"
  then obtain s where s: "by_marker cs (marker c) = Some s" "c = make_citation (marker c) s"
    using assemble_loop_sources [of "[]" "by_marker cs" c] unfolding r_def assemble_citations_def
    by force
  have "length (snippet c) \<le> 241"
    using length_make_snippet [of "content s"] s(2)
    by (metis citation.select_convs(9) make_citation_def snippet_max_chars_def one_plus_numeral_commute
          numeral_plus_one semiring_norm(4) semiring_norm(5))
  then show "\<exists>i < length cs. marker c = marker_for i \<and> c = make_citation (marker c) (cs ! i)
      \<and> length (snippet c) \<le> 241"
    using s by (auto simp: by_marker_Some)
qed

theorem citations_are_grounded_witness:
  "\<exists>i < length [sample_chunk 7 ''x'']. marker (make_citation [49] (sample_chunk 7 ''x'')) = marker_for i"
proof -
  let ?c = "make_citation [49] (sample_chunk 7 ''x'')"
  have "extract_markers (lit ''[c:1]'') = [[49]]"
    by (simp add: extract_markers.simps lit_def marker_at_def marker_open_def marker_char_def
          marker_close_def is_space_def)
  then have "?c \<in> set (citations (assemble_citations (lit ''[c:1]'') [sample_chunk 7 ''x'']))"
    by (simp add: assemble_citations_def by_marker_def marker_for_def decimal.simps)
  then show ?thesis
    using citations_are_grounded [of "lit ''[c:1]''" "[sample_chunk 7 ''x'']"] by blast
qed

text \<open>A marker written into an answer is read back: whatever follows it, and whatever text
  without a bracket precedes it, the first marker found is the one \<open>marker_for\<close> wrote for that
  chunk, and the scan goes on after it.\<close>

theorem written_marker_is_found:
  assumes "91 \<notin> set pre"
  shows "extract_markers (pre @ marker_open @ marker_for i @ marker_close # rest) =
    marker_for i # extract_markers rest"
  using extract_markers_written [OF assms] marker_for_chars by blast

theorem written_marker_is_found_witness:
  "extract_markers (lit ''yes '' @ marker_open @ marker_for 2 @ marker_close # lit '' ok'') =
    marker_for 2 # extract_markers (lit '' ok'')"
  by (rule written_marker_is_found) (simp add: lit_def)

end
