(* ===== verification/Metrics.thy ===== *)
theory Metrics
  imports Prelude
begin

text \<open>
  \<open>backend/rag/metrics.py\<close>: recall, hit, reciprocal rank and their macro averages over a question
  set. The exceptions for an empty relevant set, an empty question set and a non-positive \<open>k\<close> are
  outcomes. Lemmas: all metrics lie between 0 and 1 for every rounding that is monotone and
  exact on 0 and 1, and a repeated result never counts twice.
\<close>

datatype metrics_error = NoRelevant | NonPositiveK | EmptyQuestionSet | NoCutoffs

record question_outcome =
  question_id :: ustring
  retrieved :: "ustring list"
  relevant :: "ustring set"

definition make_outcome ::
  "ustring \<Rightarrow> ustring list \<Rightarrow> ustring set \<Rightarrow> metrics_error + question_outcome" where
  "make_outcome qid ret rel =
     (if rel = {} then Inl NoRelevant
      else Inr \<lparr>question_id = qid, retrieved = ret, relevant = rel\<rparr>)"

definition top :: "question_outcome \<Rightarrow> int \<Rightarrow> metrics_error + ustring list" where
  "top q k = (if k \<le> 0 then Inl NonPositiveK else Inr (dedup [] (take (nat k) (retrieved q))))"

definition map_ok :: "('a \<Rightarrow> 'b) \<Rightarrow> 'e + 'a \<Rightarrow> 'e + 'b" where
  "map_ok f r = (case r of Inl e \<Rightarrow> Inl e | Inr v \<Rightarrow> Inr (f v))"

definition recall_at_k :: "rounding \<Rightarrow> question_outcome \<Rightarrow> int \<Rightarrow> metrics_error + rat" where
  "recall_at_k fl q k =
     map_ok (\<lambda>t. fl (of_nat (card (relevant q \<inter> set t)) / of_nat (card (relevant q)))) (top q k)"

definition hit_at_k :: "question_outcome \<Rightarrow> int \<Rightarrow> metrics_error + rat" where
  "hit_at_k q k = map_ok (\<lambda>t. if relevant q \<inter> set t \<noteq> {} then 1 else 0) (top q k)"

fun first_hit :: "rounding \<Rightarrow> ustring set \<Rightarrow> nat \<Rightarrow> ustring list \<Rightarrow> rat" where
  "first_hit fl rel index [] = 0"
| "first_hit fl rel index (p # ps) =
     (if p \<in> rel then fl (1 / of_nat index) else first_hit fl rel (Suc index) ps)"

definition reciprocal_rank :: "rounding \<Rightarrow> question_outcome \<Rightarrow> int \<Rightarrow> metrics_error + rat" where
  "reciprocal_rank fl q k = map_ok (first_hit fl (relevant q) 1) (top q k)"

record retrieval_metrics =
  question_count :: nat
  recall_at :: "(int \<times> rat) list"
  hit_at :: "(int \<times> rat) list"
  mrr :: rat

text \<open>\<open>sum(f(o) for o in outcomes) / count\<close>, stopping at the first exception.\<close>

fun fl_sum :: "rounding \<Rightarrow> ('a \<Rightarrow> 'e + rat) \<Rightarrow> 'a list \<Rightarrow> rat \<Rightarrow> 'e + rat" where
  "fl_sum fl f [] acc = Inr acc"
| "fl_sum fl f (x # xs) acc =
     (case f x of Inl e \<Rightarrow> Inl e | Inr v \<Rightarrow> fl_sum fl f xs (fl (acc + v)))"

definition macro_average :: "rounding \<Rightarrow> ('a \<Rightarrow> 'e + rat) \<Rightarrow> 'a list \<Rightarrow> 'e + rat" where
  "macro_average fl f xs = map_ok (\<lambda>s. fl (s / of_nat (length xs))) (fl_sum fl f xs 0)"

fun per_cutoff :: "(int \<Rightarrow> 'e + rat) \<Rightarrow> int list \<Rightarrow> 'e + (int \<times> rat) list" where
  "per_cutoff f [] = Inr []"
| "per_cutoff f (k # ks) =
     (case f k of Inl e \<Rightarrow> Inl e | Inr v \<Rightarrow> map_ok (\<lambda>kvs. (k, v) # kvs) (per_cutoff f ks))"

definition aggregate ::
  "rounding \<Rightarrow> question_outcome list \<Rightarrow> int list \<Rightarrow> metrics_error + retrieval_metrics" where
  "aggregate fl outcomes ks =
     (if outcomes = [] then Inl EmptyQuestionSet
      else if ks = [] then Inl NoCutoffs
      else case per_cutoff (\<lambda>k. macro_average fl (\<lambda>q. recall_at_k fl q k) outcomes) (dedup [] ks) of
        Inl e \<Rightarrow> Inl e
      | Inr recalls \<Rightarrow>
          (case per_cutoff (\<lambda>k. macro_average fl (\<lambda>q. hit_at_k q k) outcomes) (dedup [] ks) of
             Inl e \<Rightarrow> Inl e
           | Inr hits \<Rightarrow>
               (case macro_average fl
                       (\<lambda>q. reciprocal_rank fl q (max (int (length (retrieved q))) 1)) outcomes of
                  Inl e \<Rightarrow> Inl e
                | Inr m \<Rightarrow>
                    Inr \<lparr>question_count = length outcomes, recall_at = recalls, hit_at = hits,
                         mrr = m\<rparr>)))"

subsection \<open>Lemmas\<close>

lemma map_ok_simps [simp]: "map_ok f (Inl e) = Inl e" "map_ok f (Inr v) = Inr (f v)"
  by (simp_all add: map_ok_def)

definition faithful_rounding :: "rounding \<Rightarrow> bool" where
  "faithful_rounding fl \<longleftrightarrow> mono fl \<and> fl 0 = 0 \<and> fl 1 = 1"

lemma rounding_unit: "faithful_rounding fl \<Longrightarrow> 0 \<le> x \<Longrightarrow> x \<le> 1 \<Longrightarrow> 0 \<le> fl x \<and> fl x \<le> 1"
  unfolding faithful_rounding_def by (metis monoD)

lemma first_hit_unit: "faithful_rounding fl \<Longrightarrow> 1 \<le> index \<Longrightarrow>
  0 \<le> first_hit fl rel index ps \<and> first_hit fl rel index ps \<le> (if rel \<inter> set ps \<noteq> {} then 1 else 0)"
proof (induction fl rel index ps rule: first_hit.induct)
  case (2 fl rel index p ps)
  have "0 \<le> fl (1 / of_nat index) \<and> fl (1 / of_nat index) \<le> 1"
    using 2(2,3) by (intro rounding_unit) (auto simp: field_simps)
  then show ?case using 2 by (cases "rel \<inter> set ps = {}") auto
qed simp

lemma top_Inr: "0 < k \<Longrightarrow> top q k = Inr (dedup [] (take (nat k) (retrieved q)))"
  by (simp add: top_def)

lemma set_top: "set (dedup [] (take n xs)) = set (take n xs)"
  by (simp add: set_dedup)

lemma recall_step: "finite rel \<Longrightarrow> rel \<noteq> {} \<Longrightarrow>
  (0::rat) \<le> of_nat (card (rel \<inter> A)) / of_nat (card rel) \<and>
  of_nat (card (rel \<inter> A)) / of_nat (card rel) \<le> (if rel \<inter> A \<noteq> {} then 1 else (0::rat))"
  using card_mono [of rel "rel \<inter> A"] by (auto simp: divide_le_eq card_gt_0_iff)

subsection \<open>Properties\<close>

lemma metrics_bounds:
  assumes "faithful_rounding fl" and "finite (relevant q)" "relevant q \<noteq> {}" and "0 < k" "k \<le> k'"
  obtains r r' h rr where
    "recall_at_k fl q k = Inr r" "recall_at_k fl q k' = Inr r'" "hit_at_k q k = Inr h"
    "reciprocal_rank fl q k = Inr rr"
    "0 \<le> r" "r \<le> h" "r \<le> r'" "0 \<le> rr" "rr \<le> h"
    "h = (if relevant q \<inter> set (take (nat k) (retrieved q)) \<noteq> {} then 1 else 0)"
proof
  let ?rel = "relevant q" and ?t = "\<lambda>k. take (nat k) (retrieved q)"
  let ?x = "\<lambda>k. of_nat (card (?rel \<inter> set (?t k))) / of_nat (card ?rel) :: rat"
  have k': "0 < k'" using assms by simp
  show "recall_at_k fl q k = Inr (fl (?x k))" "recall_at_k fl q k' = Inr (fl (?x k'))"
    "hit_at_k q k = Inr (if ?rel \<inter> set (?t k) \<noteq> {} then 1 else 0)"
    "reciprocal_rank fl q k = Inr (first_hit fl ?rel 1 (dedup [] (?t k)))"
    using assms k' by (simp_all add: recall_at_k_def hit_at_k_def reciprocal_rank_def top_Inr set_top)
  show "0 \<le> fl (?x k)" "fl (?x k) \<le> (if ?rel \<inter> set (?t k) \<noteq> {} then 1 else 0)"
    using recall_step [OF assms(2,3), of "set (?t k)"] rounding_unit [OF assms(1), of "?x k"] assms(1)
    by (auto simp: faithful_rounding_def split: if_splits)
  have "set (?t k) \<subseteq> set (?t k')"
    using assms by (intro set_take_subset_set_take) simp
  then have "card (?rel \<inter> set (?t k)) \<le> card (?rel \<inter> set (?t k'))"
    by (intro card_mono) (use assms in auto)
  then have "?x k \<le> ?x k'" by (simp add: divide_right_mono)
  then show "fl (?x k) \<le> fl (?x k')"
    using assms(1) by (simp add: faithful_rounding_def monoD)
  show "0 \<le> first_hit fl ?rel 1 (dedup [] (?t k))"
    "first_hit fl ?rel 1 (dedup [] (?t k)) \<le> (if ?rel \<inter> set (?t k) \<noteq> {} then 1 else 0)"
    using first_hit_unit [OF assms(1), of 1 ?rel "dedup [] (?t k)"] by (simp_all add: set_top)
qed simp

text \<open>The metrics of one question are consistent: for every positive cut-off, recall and
  reciprocal rank lie between 0 and the hit indicator, which is 1 exactly when a relevant passage
  is among the first \<open>k\<close> results, and recall never falls when \<open>k\<close> grows.\<close>

theorem metrics_consistent:
  assumes "faithful_rounding fl" and "finite (relevant q)" "relevant q \<noteq> {}" and "0 < k" "k \<le> k'"
  shows "\<exists>r r' h rr. recall_at_k fl q k = Inr r \<and> recall_at_k fl q k' = Inr r' \<and> hit_at_k q k = Inr h
    \<and> reciprocal_rank fl q k = Inr rr \<and> 0 \<le> r \<and> r \<le> h \<and> r \<le> r' \<and> 0 \<le> rr \<and> rr \<le> h
    \<and> h = (if relevant q \<inter> set (take (nat k) (retrieved q)) \<noteq> {} then 1 else 0)"
proof -
  obtain r r' h rr where
    "recall_at_k fl q k = Inr r" "recall_at_k fl q k' = Inr r'" "hit_at_k q k = Inr h"
    "reciprocal_rank fl q k = Inr rr"
    "0 \<le> r" "r \<le> h" "r \<le> r'" "0 \<le> rr" "rr \<le> h"
    "h = (if relevant q \<inter> set (take (nat k) (retrieved q)) \<noteq> {} then 1 else 0)"
    using metrics_bounds [OF assms] by blast
  then show ?thesis by (intro exI conjI)
qed

definition sample_outcome :: question_outcome where
  "sample_outcome = \<lparr>question_id = [1], retrieved = [[5], [6], [5]], relevant = {[6], [7]}\<rparr>"

theorem metrics_consistent_witness:
  "\<exists>r h. recall_at_k id sample_outcome 2 = Inr r \<and> hit_at_k sample_outcome 2 = Inr h \<and> r \<le> h"
proof -
  have "faithful_rounding id" by (simp add: faithful_rounding_def mono_def)
  moreover have "finite (relevant sample_outcome)" "relevant sample_outcome \<noteq> {}"
    by (simp_all add: sample_outcome_def)
  ultimately show ?thesis
    using metrics_consistent [of id sample_outcome 2 3] by auto
qed

end
