(* ===== verification/Retrievers.thy ===== *)
theory Retrievers
  imports Pipeline DocModel
begin

text \<open>
  \<open>backend/rag/retrievers/keyword.py\<close> (the full-text query) and the conversion of database hits in
  \<open>backend/rag/retrievers/vector.py\<close>. The query is sent to the database in its query syntax, so the
  lemmas state what it can contain: only quoted identifiers of a fixed alphabet.
\<close>

subsection \<open>Full-text query\<close>

definition max_fts_query_chars :: nat where
  "max_fts_query_chars = 1000"

definition max_fts_terms :: nat where
  "max_fts_terms = 12"

definition is_digit :: "codepoint \<Rightarrow> bool" where
  "is_digit c \<longleftrightarrow> 48 \<le> c \<and> c \<le> 57"

definition is_upper :: "codepoint \<Rightarrow> bool" where
  "is_upper c \<longleftrightarrow> 65 \<le> c \<and> c \<le> 90"

definition is_lower :: "codepoint \<Rightarrow> bool" where
  "is_lower c \<longleftrightarrow> 97 \<le> c \<and> c \<le> 122"

definition is_joint :: "codepoint \<Rightarrow> bool" where
  "is_joint c \<longleftrightarrow> c = 95 \<or> c = 46 \<or> c = 45"

definition is_word_char :: "codepoint \<Rightarrow> bool" where
  "is_word_char c \<longleftrightarrow> is_upper c \<or> is_lower c \<or> is_digit c \<or> is_joint c"

text \<open>The token the pattern \<open>[A-Za-z][A-Za-z0-9_.\-]+|[0-9]{2,}\<close> matches at the start of a text.\<close>

definition token_at :: "ustring \<Rightarrow> ustring option" where
  "token_at t =
     (case t of
        [] \<Rightarrow> None
      | c # cs \<Rightarrow>
          if (is_upper c \<or> is_lower c) \<and> takeWhile is_word_char cs \<noteq> []
          then Some (c # takeWhile is_word_char cs)
          else if is_digit c \<and> takeWhile is_digit cs \<noteq> [] then Some (c # takeWhile is_digit cs)
          else None)"

function find_tokens :: "ustring \<Rightarrow> ustring list" where
  "find_tokens t =
     (if t = [] then []
      else case token_at t of
             Some tok \<Rightarrow> tok # find_tokens (drop (max 1 (length tok)) t)
           | None \<Rightarrow> find_tokens (tl t))"
  by pat_completeness auto
termination
  by (relation "measure length") auto

declare find_tokens.simps [simp del]

definition is_distinctive :: "ustring \<Rightarrow> bool" where
  "is_distinctive tok \<longleftrightarrow>
     (if list_ex is_digit tok \<or> list_ex is_joint tok then True
      else if list_all (\<lambda>c. \<not> is_lower c) tok \<and> list_ex is_upper tok \<and> 2 \<le> length tok then True
      else list_ex is_upper (tl tok))"

fun collect_terms :: "ustring list \<Rightarrow> ustring list \<Rightarrow> ustring list" where
  "collect_terms [] found = found"
| "collect_terms (tok # toks) found =
     (let found1 = (if is_distinctive tok \<and> tok \<notin> set found then found @ [tok] else found) in
      if max_fts_terms \<le> length found1 then found1 else collect_terms toks found1)"

definition fts_terms :: "ustring \<Rightarrow> ustring list" where
  "fts_terms t = collect_terms (find_tokens (take max_fts_query_chars t)) []"

definition build_fts_query :: "ustring \<Rightarrow> ustring" where
  "build_fts_query t = join (lit '' OR '') (map (\<lambda>w. [34] @ w @ [34]) (fts_terms t))"

subsection \<open>Hits\<close>

record vector_hit =
  hit_chunk :: uuid
  hit_document :: uuid
  hit_name :: ustring
  hit_version :: int
  hit_content :: ustring
  hit_meta :: "(ustring \<times> json) list"
  hit_score :: rat

definition meta_page :: "(ustring \<times> json) list \<Rightarrow> int option" where
  "meta_page m =
     (case jget m ''page'' of
        Some (JInt n) \<Rightarrow> Some n
      | Some (JBool b) \<Rightarrow> Some (if b then 1 else 0)
      | _ \<Rightarrow> None)"

text \<open>\<open>str(item)\<close> is the string itself for a string; \<open>str_of\<close> gives it for the other values.\<close>

definition meta_heading_path :: "(json \<Rightarrow> ustring) \<Rightarrow> (ustring \<times> json) list \<Rightarrow> ustring list" where
  "meta_heading_path str_of m =
     (case jget m ''heading_path'' of
        Some (JList items) \<Rightarrow> map (\<lambda>i. case i of JStr s \<Rightarrow> s | _ \<Rightarrow> str_of i) items
      | _ \<Rightarrow> [])"

definition to_retrieved :: "(json \<Rightarrow> ustring) \<Rightarrow> vector_hit list \<Rightarrow> retrieved_chunk list" where
  "to_retrieved str_of hits =
     map (\<lambda>h. \<lparr>chunk_id = hit_chunk h, document_id = hit_document h, content = hit_content h,
                score = hit_score h, rpage = meta_page (hit_meta h),
                rheading_path = meta_heading_path str_of (hit_meta h),
                document_name = hit_name h, doc_version = hit_version h\<rparr>) hits"

subsection \<open>Lemmas\<close>

lemma token_at_chars:
  "token_at t = Some tok \<Longrightarrow> list_all is_word_char tok \<and> 2 \<le> length tok"
proof -
  assume a: "token_at t = Some tok"
  have 1: "list_all P (takeWhile P xs)" for P and xs :: ustring
    by (auto simp: list_all_iff dest: set_takeWhileD)
  have 2: "list_all is_word_char (takeWhile is_digit xs)" for xs
    using 1 [of is_digit xs] by (auto simp: list_all_iff is_word_char_def)
  show ?thesis
    using a 1 [of is_word_char] 2
    by (auto simp: token_at_def is_word_char_def [of "hd _"] Suc_le_eq split: list.splits if_splits)
       (auto simp: is_word_char_def)
qed

lemma find_tokens_chars:
  "tok \<in> set (find_tokens t) \<Longrightarrow> list_all is_word_char tok \<and> 2 \<le> length tok"
proof (induction t rule: find_tokens.induct)
  case (1 t)
  show ?case
  proof (cases "t = []")
    case True
    then show ?thesis using 1(3) by (simp add: find_tokens.simps)
  next
    case False
    then show ?thesis
      using 1 token_at_chars [of t] by (auto simp: find_tokens.simps [of t] split: option.splits)
  qed
qed

lemma collect_terms_ok:
  "distinct found \<Longrightarrow> length found < max_fts_terms \<Longrightarrow>
   list_all is_distinctive found \<Longrightarrow> set found \<subseteq> A \<Longrightarrow> set toks \<subseteq> A \<Longrightarrow>
   distinct (collect_terms toks found) \<and> length (collect_terms toks found) \<le> max_fts_terms
   \<and> list_all is_distinctive (collect_terms toks found) \<and> set (collect_terms toks found) \<subseteq> A"
  by (induction toks found rule: collect_terms.induct) (auto simp: Let_def not_le)

lemma collect_terms_mono: "set found \<subseteq> set (collect_terms toks found)"
  by (induction toks found rule: collect_terms.induct) (auto simp: Let_def)

lemma collect_terms_all:
  "length (collect_terms toks found) < max_fts_terms \<Longrightarrow> tok \<in> set toks \<Longrightarrow> is_distinctive tok
   \<Longrightarrow> tok \<in> set (collect_terms toks found)"
proof (induction toks found rule: collect_terms.induct)
  case (2 t toks found)
  let ?f = "if is_distinctive t \<and> t \<notin> set found then found @ [t] else found"
  have *: "\<not> max_fts_terms \<le> length ?f" "collect_terms (t # toks) found = collect_terms toks ?f"
    using 2(2) by (auto simp: Let_def split: if_splits)
  show ?case
  proof (cases "tok = t")
    case True
    then have "tok \<in> set ?f" using 2(4) by auto
    then show ?thesis using collect_terms_mono [of ?f toks] * by auto
  next
    case False
    then show ?thesis using 2 * by (simp add: Let_def)
  qed
qed simp

lemma quotes_in_terms: "list_all is_word_char w \<Longrightarrow> count_list w 34 = 0"
  by (induction w) (auto simp: is_word_char_def is_upper_def is_lower_def is_digit_def is_joint_def)

lemma count_list_join_quotes:
  "list_all (\<lambda>w. count_list w 34 = 2) ws \<Longrightarrow> count_list sep 34 = 0 \<Longrightarrow>
   count_list (join sep ws) 34 = 2 * length ws"
  by (induction sep ws rule: join.induct) auto

subsection \<open>Properties\<close>

text \<open>The full-text query is safe to send: it is the OR of at most twelve different quoted terms,
  every term is a distinctive identifier of at least two characters of \<open>A-Z a-z 0-9 _ . -\<close>, so
  there are exactly two quotes per term and no term can close its quotes or add an operator; and
  when there is room left, no distinctive token of the (cut) question is missing.\<close>

theorem fts_query_safe:
  "distinct (fts_terms t) \<and> length (fts_terms t) \<le> 12
   \<and> list_all (\<lambda>w. is_distinctive w \<and> list_all is_word_char w \<and> 2 \<le> length w) (fts_terms t)
   \<and> count_list (build_fts_query t) 34 = 2 * length (fts_terms t)
   \<and> (length (fts_terms t) < 12 \<longrightarrow>
        set (fts_terms t) = {w \<in> set (find_tokens (take 1000 t)). is_distinctive w})"
proof -
  let ?toks = "find_tokens (take max_fts_query_chars t)"
  have ok: "distinct (fts_terms t)" "length (fts_terms t) \<le> max_fts_terms"
    "list_all is_distinctive (fts_terms t)" "set (fts_terms t) \<subseteq> set ?toks"
    using collect_terms_ok [of "[]" "set ?toks" ?toks] by (simp_all add: fts_terms_def max_fts_terms_def)
  have chars: "list_all (\<lambda>w. list_all is_word_char w \<and> 2 \<le> length w) (fts_terms t)"
    using ok(4) find_tokens_chars [of _ "take max_fts_query_chars t"] by (auto simp: list_all_iff)
  have quotes: "count_list (build_fts_query t) 34 = 2 * length (fts_terms t)"
  proof -
    have "list_all (\<lambda>w. count_list w 34 = 2) (map (\<lambda>w. [34] @ w @ [34]) (fts_terms t))"
      using chars quotes_in_terms by (auto simp: list_all_iff)
    then show ?thesis
      unfolding build_fts_query_def by (subst count_list_join_quotes) (auto simp: lit_def)
  qed
  have all: "set (fts_terms t) = {w \<in> set ?toks. is_distinctive w}"
    if "length (fts_terms t) < max_fts_terms"
    using collect_terms_all [of ?toks "[]"] that ok by (auto simp: fts_terms_def list_all_iff)
  have "list_all (\<lambda>w. is_distinctive w \<and> list_all is_word_char w \<and> 2 \<le> length w) (fts_terms t)"
    using ok(3) chars by (simp add: list_all_iff)
  with ok(1,2) quotes all show ?thesis
    unfolding max_fts_terms_def max_fts_query_chars_def by blast
qed

theorem fts_query_safe_witness:
  "length (fts_terms (lit ''ab C3'')) \<le> 12
   \<and> count_list (build_fts_query (lit ''ab C3'')) 34 = 2 * length (fts_terms (lit ''ab C3''))"
  using fts_query_safe [of "lit ''ab C3''"] by blast

end
