(* ===== verification/KbConfig.thy ===== *)
theory KbConfig
  imports Chunker
begin

text \<open>
  \<open>backend/services/knowledge/kb_config.py\<close>, \<open>backend/services/rag/params.py\<close> and
  \<open>_chunk_config_from\<close> of \<open>backend/services/knowledge/ingestion.py\<close>: the declared parameters, the
  validation on write, the tolerant three-layer read (knowledge base, tenant, system). The
  application settings are a function from attribute names to values. Lemmas: reads are always in
  range, the most specific acceptable layer wins, and what validation accepts is read back as
  it was written.
\<close>

subsection \<open>Declared parameters\<close>

datatype param_kind = KInt | KFloat | KChoice

record param_spec =
  default_attr :: string
  kind :: param_kind
  low :: "rat option"
  high :: "rat option"
  choices :: "ustring list"
  high_of :: "ustring option"

definition int_spec :: "string \<Rightarrow> int \<Rightarrow> int \<Rightarrow> param_spec" where
  "int_spec attr l h =
     \<lparr>default_attr = attr, kind = KInt, low = Some (of_int l), high = Some (of_int h), choices = [],
      high_of = None\<rparr>"

definition unit_spec :: "string \<Rightarrow> param_spec" where
  "unit_spec attr =
     \<lparr>default_attr = attr, kind = KFloat, low = Some 0, high = Some 1, choices = [], high_of = None\<rparr>"

definition max_top_k :: int where "max_top_k = 200"
definition max_context_chunks :: int where "max_context_chunks = 50"
definition max_token_budget :: int where "max_token_budget = 100000"
definition max_rrf_k :: int where "max_rrf_k = 1000"
definition max_history_turns :: int where "max_history_turns = 10"
definition min_target_tokens :: int where "min_target_tokens = 64"
definition max_target_tokens :: int where "max_target_tokens = 4000"

definition retrieval_modes :: "ustring list" where
  "retrieval_modes =
     [lit ''vector'', lit ''vector+rerank'', lit ''hybrid'', lit ''hybrid+rerank'']"

type_synonym specs = "(ustring \<times> param_spec) list"

definition retrieval_specs :: specs where
  "retrieval_specs =
    [(lit ''top_k'', int_spec ''rag_top_k'' 1 max_top_k),
     (lit ''fts_top_k'', int_spec ''rag_fts_top_k'' 1 max_top_k),
     (lit ''rrf_k'', int_spec ''rag_rrf_k'' 1 max_rrf_k),
     (lit ''hybrid_candidates'', int_spec ''rag_hybrid_candidates'' 1 max_top_k),
     (lit ''retrieval_mode'',
        \<lparr>default_attr = ''rag_retrieval_mode'', kind = KChoice, low = None, high = None,
         choices = retrieval_modes, high_of = None\<rparr>),
     (lit ''rerank_threshold'', unit_spec ''rag_rerank_threshold''),
     (lit ''context_chunks'', int_spec ''rag_context_chunks'' 1 max_context_chunks),
     (lit ''context_token_budget'', int_spec ''rag_context_token_budget'' 1 max_token_budget),
     (lit ''min_score_ratio'', unit_spec ''rag_min_score_ratio''),
     (lit ''query_history_turns'', int_spec ''rag_query_history_turns'' 0 max_history_turns)]"

definition chunk_specs :: specs where
  "chunk_specs =
    [(lit ''target_tokens'', int_spec ''chunk_target_tokens'' min_target_tokens max_target_tokens),
     (lit ''overlap_tokens'',
        \<lparr>default_attr = ''chunk_overlap_tokens'', kind = KInt, low = Some 0, high = None, choices = [],
         high_of = Some (lit ''target_tokens'')\<rparr>)]"

definition param_sections :: "(ustring \<times> specs) list" where
  "param_sections = [(lit ''retrieval'', retrieval_specs), (lit ''chunk'', chunk_specs)]"

type_synonym obj = "(ustring \<times> json) list"
type_synonym app_settings = "string \<Rightarrow> json"

definition spec_of :: "specs \<Rightarrow> ustring \<Rightarrow> param_spec" where
  "spec_of specs key = the (map_of specs key)"

subsection \<open>Reading\<close>

definition to_number :: "json \<Rightarrow> rat option" where
  "to_number v = (case v of JInt i \<Rightarrow> Some (of_int i) | JFloat r \<Rightarrow> Some r | _ \<Rightarrow> None)"

definition int_value :: "json \<Rightarrow> int" where
  "int_value v = (case v of JInt i \<Rightarrow> i | JFloat r \<Rightarrow> (if 0 \<le> r then \<lfloor>r\<rfloor> else \<lceil>r\<rceil>) | _ \<Rightarrow> 0)"

definition clamp :: "rat option \<Rightarrow> rat option \<Rightarrow> rat \<Rightarrow> rat" where
  "clamp l h x =
     (let y = (case l of None \<Rightarrow> x | Some a \<Rightarrow> max a x) in
      case h of None \<Rightarrow> y | Some b \<Rightarrow> min b y)"

definition accept_value :: "rounding \<Rightarrow> param_spec \<Rightarrow> rat option \<Rightarrow> json \<Rightarrow> json option" where
  "accept_value fl spec bound v =
     (case kind spec of
        KChoice \<Rightarrow> (case v of JStr s \<Rightarrow> if s \<in> set (choices spec) then Some v else None | _ \<Rightarrow> None)
      | KInt \<Rightarrow> (case v of JInt i \<Rightarrow> Some (JInt \<lfloor>clamp (low spec) bound (of_int i)\<rfloor>) | _ \<Rightarrow> None)
      | KFloat \<Rightarrow>
          (case v of
             JInt i \<Rightarrow> Some (JFloat (clamp (low spec) bound (fl (of_int i))))
           | JFloat r \<Rightarrow> Some (JFloat (clamp (low spec) bound r))
           | _ \<Rightarrow> None))"

text \<open>The loop over the layers; the rejected values are what \<open>on_rejected\<close> is told.\<close>

fun read_layers ::
  "(json \<Rightarrow> json option) \<Rightarrow> ustring \<Rightarrow> obj list \<Rightarrow> json \<Rightarrow> json list \<Rightarrow> json \<times> json list" where
  "read_layers accept name [] fallback bad = (fallback, bad)"
| "read_layers accept name (s # ss) fallback bad =
     (case map_of s name of
        None \<Rightarrow> read_layers accept name ss fallback bad
      | Some v \<Rightarrow>
          (case accept v of
             None \<Rightarrow> read_layers accept name ss fallback (bad @ [v])
           | Some w \<Rightarrow> (w, bad)))"

text \<open>\<open>read_param\<close> and \<open>_ceiling\<close> call each other along \<open>high_of\<close>; \<open>depth\<close> bounds that chain. The
  declared parameters have a chain of length one (lemma \<open>read_param_depth\<close>).\<close>

fun read_param ::
  "nat \<Rightarrow> rounding \<Rightarrow> specs \<Rightarrow> ustring \<Rightarrow> obj list \<Rightarrow> app_settings \<Rightarrow> json \<times> json list" where
  "read_param depth fl specs key sections settings =
     (let spec = spec_of specs key;
          bound =
            (case high_of spec of
               None \<Rightarrow> high spec
             | Some other \<Rightarrow>
                 (case depth of
                    0 \<Rightarrow> None
                  | Suc d \<Rightarrow>
                      Some (of_int (max
                        (int_value (fst (read_param d fl specs other sections settings)) - 1) 0))))
      in read_layers (accept_value fl spec bound) key sections (settings (default_attr spec)) [])"

declare read_param.simps [simp del]

definition section_of :: "obj option \<Rightarrow> ustring \<Rightarrow> obj" where
  "section_of cfg name =
     (case map_of (or_else cfg []) name of Some (JObj o') \<Rightarrow> o' | _ \<Rightarrow> [])"

definition layers_of :: "ustring \<Rightarrow> obj option list \<Rightarrow> obj list" where
  "layers_of name configs = filter (\<lambda>s. s \<noteq> []) (map (\<lambda>c. section_of c name) configs)"

definition param_value ::
  "rounding \<Rightarrow> specs \<Rightarrow> obj list \<Rightarrow> app_settings \<Rightarrow> string \<Rightarrow> json" where
  "param_value fl specs sections settings key =
     fst (read_param 1 fl specs (lit key) sections settings)"

record rag_params =
  top_k :: json
  fts_top_k :: json
  rrf_k :: json
  hybrid_candidates :: json
  retrieval_mode :: json
  rerank_threshold :: json
  context_chunks :: json
  context_token_budget :: json
  min_score_ratio :: json
  query_history_turns :: json

definition resolve_rag_params ::
  "rounding \<Rightarrow> app_settings \<Rightarrow> obj option \<Rightarrow> obj option \<Rightarrow> rag_params" where
  "resolve_rag_params fl settings kb_config tenant_config =
     (let get = param_value fl retrieval_specs
                  (layers_of (lit ''retrieval'') [kb_config, tenant_config]) settings
      in \<lparr>top_k = get ''top_k'', fts_top_k = get ''fts_top_k'', rrf_k = get ''rrf_k'',
          hybrid_candidates = get ''hybrid_candidates'', retrieval_mode = get ''retrieval_mode'',
          rerank_threshold = get ''rerank_threshold'', context_chunks = get ''context_chunks'',
          context_token_budget = get ''context_token_budget'',
          min_score_ratio = get ''min_score_ratio'',
          query_history_turns = get ''query_history_turns''\<rparr>)"

definition chunk_config_from ::
  "rounding \<Rightarrow> app_settings \<Rightarrow> obj option \<Rightarrow> obj option \<Rightarrow> chunk_config" where
  "chunk_config_from fl settings cfg tenant_config =
     (let get = param_value fl chunk_specs
                  (layers_of (lit ''chunk'') [cfg, tenant_config]) settings
      in \<lparr>target_tokens = int_value (get ''target_tokens''),
          overlap_tokens = int_value (get ''overlap_tokens'')\<rparr>)"

subsection \<open>Writing\<close>

text \<open>The messages of the source are constructors here.\<close>

datatype reject_reason =
    NotAnObject
  | UnknownSection
  | UnknownParam
  | NotAChoice
  | NotAnInteger
  | NotANumber
  | OutOfRange "rat option" "rat option"
  | NotBelow ustring rat

definition write_ceiling :: "app_settings \<Rightarrow> specs \<Rightarrow> obj \<Rightarrow> param_spec \<Rightarrow> rat option" where
  "write_ceiling settings specs section spec =
     (case high_of spec of
        None \<Rightarrow> high spec
      | Some other \<Rightarrow>
          let effective =
                (case map_of section other of
                   Some (JInt i) \<Rightarrow> i
                 | _ \<Rightarrow> int_value (settings (default_attr (spec_of specs other))))
          in Some (of_int (max (effective - 1) 0)))"

definition reject_range :: "param_spec \<Rightarrow> rat option \<Rightarrow> rat \<Rightarrow> reject_reason option" where
  "reject_range spec bound x =
     (if (case low spec of None \<Rightarrow> False | Some l \<Rightarrow> x < l) then Some (OutOfRange (low spec) bound)
      else case bound of
             None \<Rightarrow> None
           | Some h \<Rightarrow>
               if h < x
               then (case high_of spec of
                       Some other \<Rightarrow> Some (NotBelow other (h + 1))
                     | None \<Rightarrow> Some (OutOfRange (low spec) bound))
               else None)"

definition reject_value :: "app_settings \<Rightarrow> specs \<Rightarrow> obj \<Rightarrow> param_spec \<Rightarrow> json \<Rightarrow> reject_reason option" where
  "reject_value settings specs section spec v =
     (case kind spec of
        KChoice \<Rightarrow>
          (case v of
             JStr s \<Rightarrow> if s \<in> set (choices spec) then None else Some NotAChoice
           | _ \<Rightarrow> Some NotAChoice)
      | KInt \<Rightarrow>
          (case v of
             JInt i \<Rightarrow> reject_range spec (write_ceiling settings specs section spec) (of_int i)
           | _ \<Rightarrow> Some NotAnInteger)
      | KFloat \<Rightarrow>
          (case to_number v of
             Some x \<Rightarrow> reject_range spec (write_ceiling settings specs section spec) x
           | None \<Rightarrow> Some NotANumber))"

type_synonym field_error = "ustring list \<times> reject_reason"

definition validate_section ::
  "app_settings \<Rightarrow> ustring list \<Rightarrow> specs \<Rightarrow> obj \<Rightarrow> field_error list" where
  "validate_section settings field specs section =
     concat (map (\<lambda>(key, v).
       case map_of specs key of
         None \<Rightarrow> [(field @ [key], UnknownParam)]
       | Some spec \<Rightarrow>
           (case reject_value settings specs section spec v of
              None \<Rightarrow> [] | Some r \<Rightarrow> [(field @ [key], r)])) section)"

fun validate_items ::
  "app_settings \<Rightarrow> ustring \<Rightarrow> obj \<Rightarrow> field_error list \<Rightarrow> obj \<Rightarrow> field_error list \<times> obj" where
  "validate_items settings pre [] errors cleaned = (errors, cleaned)"
| "validate_items settings pre ((name, raw) # items) errors cleaned =
     (case map_of param_sections name of
        None \<Rightarrow> validate_items settings pre items (errors @ [([pre, name], UnknownSection)]) cleaned
      | Some specs \<Rightarrow>
          (case raw of
             JObj section \<Rightarrow>
               validate_items settings pre items
                 (errors @ validate_section settings [pre, name] specs section)
                 (cleaned @ [(name, JObj section)])
           | _ \<Rightarrow> validate_items settings pre items (errors @ [([pre, name], NotAnObject)]) cleaned))"

definition validate_param_sections ::
  "app_settings \<Rightarrow> ustring \<Rightarrow> json \<Rightarrow> field_error list + obj" where
  "validate_param_sections settings pre cfg =
     (case cfg of
        JNull \<Rightarrow> Inr []
      | JObj items \<Rightarrow>
          (case validate_items settings pre items [] [] of
             (errors, cleaned) \<Rightarrow> if errors \<noteq> [] then Inl errors else Inr cleaned)
      | _ \<Rightarrow> Inl [([pre], NotAnObject)])"

definition validate_kb_config :: "app_settings \<Rightarrow> json \<Rightarrow> field_error list + obj" where
  "validate_kb_config settings cfg = validate_param_sections settings (lit ''config'') cfg"

subsection \<open>Reading: lemmas\<close>

text \<open>A value of the declared kind within the declared range.\<close>

definition value_ok :: "param_spec \<Rightarrow> rat option \<Rightarrow> json \<Rightarrow> bool" where
  "value_ok spec h v =
     (let inside = (\<lambda>x. (case low spec of None \<Rightarrow> True | Some l \<Rightarrow> l \<le> x)
                       \<and> (case h of None \<Rightarrow> True | Some b \<Rightarrow> x \<le> b))
      in case kind spec of
           KInt \<Rightarrow> (case v of JInt i \<Rightarrow> inside (of_int i) | _ \<Rightarrow> False)
         | KFloat \<Rightarrow> (case v of JFloat r \<Rightarrow> inside r | _ \<Rightarrow> False)
         | KChoice \<Rightarrow> (case v of JStr s \<Rightarrow> s \<in> set (choices spec) | _ \<Rightarrow> False))"

definition integral :: "rat option \<Rightarrow> bool" where
  "integral l \<longleftrightarrow> (case l of None \<Rightarrow> True | Some x \<Rightarrow> of_int \<lfloor>x\<rfloor> = x)"

definition le_bounds :: "rat option \<Rightarrow> rat option \<Rightarrow> bool" where
  "le_bounds l h \<longleftrightarrow> (case (l, h) of (Some a, Some b) \<Rightarrow> a \<le> b | _ \<Rightarrow> True)"

lemma clamp_inside:
  "le_bounds l h \<Longrightarrow>
   (case l of None \<Rightarrow> True | Some a \<Rightarrow> a \<le> clamp l h x) \<and>
   (case h of None \<Rightarrow> True | Some b \<Rightarrow> clamp l h x \<le> b)"
  by (auto simp: clamp_def le_bounds_def split: option.splits)

lemma clamp_integral: "integral l \<Longrightarrow> integral h \<Longrightarrow> rat_of_int \<lfloor>clamp l h (of_int i)\<rfloor> = clamp l h (of_int i)"
  by (auto simp: clamp_def integral_def min_def max_def split: option.splits)

lemma accept_value_ok:
  "accept_value fl spec h v = Some w \<Longrightarrow> le_bounds (low spec) h \<Longrightarrow> integral (low spec) \<Longrightarrow> integral h
   \<Longrightarrow> value_ok spec h w"
proof (cases "kind spec")
  case KInt
  assume a: "accept_value fl spec h v = Some w" "le_bounds (low spec) h" "integral (low spec)" "integral h"
  then obtain i where i: "w = JInt \<lfloor>clamp (low spec) h (of_int i)\<rfloor>"
    using KInt by (auto simp: accept_value_def split: json.splits)
  obtain n where n: "clamp (low spec) h (of_int i) = of_int n"
    using clamp_integral [OF a(3,4), of i] by metis
  show ?thesis
    using KInt clamp_inside [OF a(2), of "of_int i"] unfolding n by (simp add: value_ok_def i n)
next
  case KFloat
  assume a: "accept_value fl spec h v = Some w" "le_bounds (low spec) h"
  then obtain x where x: "w = JFloat (clamp (low spec) h x)"
    using KFloat by (auto simp: accept_value_def split: json.splits)
  then show ?thesis using KFloat clamp_inside [OF a(2), of x] by (simp add: value_ok_def x)
qed (auto simp: accept_value_def value_ok_def split: json.splits if_splits)

lemma read_layers_choice:
  "fst (read_layers accept key sections d bad) =
     (case concat (map (\<lambda>s. case Option.bind (map_of s key) accept of None \<Rightarrow> [] | Some w \<Rightarrow> [w]) sections) of
        [] \<Rightarrow> d | w # _ \<Rightarrow> w)"
  by (induction accept key sections d bad rule: read_layers.induct) (auto split: option.splits)

lemma read_layers_cases:
  "fst (read_layers accept key sections d bad) = d
   \<or> (\<exists>v. accept v = Some (fst (read_layers accept key sections d bad)))"
  by (induction accept key sections d bad rule: read_layers.induct) (auto split: option.splits)

lemma read_param_plain:
  "high_of (spec_of specs key) = None \<Longrightarrow>
   read_param depth fl specs key sections settings =
     read_layers (accept_value fl (spec_of specs key) (high (spec_of specs key))) key sections
       (settings (default_attr (spec_of specs key))) []"
  by (simp add: read_param.simps Let_def)

definition spec_ok :: "param_spec \<Rightarrow> bool" where
  "spec_ok spec \<longleftrightarrow>
     high_of spec = None \<and> le_bounds (low spec) (high spec) \<and> integral (low spec) \<and> integral (high spec)"

lemma read_plain_ok:
  assumes "spec_ok (spec_of specs key)"
    and "value_ok (spec_of specs key) (high (spec_of specs key))
           (settings (default_attr (spec_of specs key)))"
  shows "value_ok (spec_of specs key) (high (spec_of specs key))
           (fst (read_param depth fl specs key sections settings))"
proof -
  let ?s = "spec_of specs key"
  let ?v = "fst (read_param depth fl specs key sections settings)"
  have "?v = settings (default_attr ?s) \<or> (\<exists>v. accept_value fl ?s (high ?s) v = Some ?v)"
    using assms(1) read_layers_cases [of "accept_value fl ?s (high ?s)"]
    by (simp add: read_param_plain spec_ok_def)
  then show ?thesis
    using assms accept_value_ok [of fl ?s "high ?s"] unfolding spec_ok_def by auto
qed

lemma target_key_ne: "lit ''target_tokens'' \<noteq> lit ''overlap_tokens''"
  by (simp add: lit_def)

lemma chunk_spec_target [simp]:
  "spec_of chunk_specs (lit ''target_tokens'') = int_spec ''chunk_target_tokens'' 64 4000"
  by (simp add: spec_of_def chunk_specs_def min_target_tokens_def max_target_tokens_def)

lemma chunk_spec_overlap [simp]:
  "spec_of chunk_specs (lit ''overlap_tokens'') =
     \<lparr>default_attr = ''chunk_overlap_tokens'', kind = KInt, low = Some 0, high = None, choices = [],
      high_of = Some (lit ''target_tokens'')\<rparr>"
  by (simp add: spec_of_def chunk_specs_def lit_def)

lemma int_spec_fields [simp]:
  "kind (int_spec a l h) = KInt" "low (int_spec a l h) = Some (of_int l)"
  "high (int_spec a l h) = Some (of_int h)" "high_of (int_spec a l h) = None"
  "default_attr (int_spec a l h) = a"
  by (simp_all add: int_spec_def)

lemma spec_ok_int: "l \<le> h \<Longrightarrow> spec_ok (int_spec a l h)"
  by (simp add: spec_ok_def le_bounds_def integral_def)

lemma read_param_depth:
  "read_param (Suc d) fl chunk_specs (lit ''overlap_tokens'') sections settings =
   read_param 1 fl chunk_specs (lit ''overlap_tokens'') sections settings"
  by (simp add: read_param.simps [of _ _ _ "lit ''overlap_tokens''"] read_param_plain)

definition target_of :: "rounding \<Rightarrow> obj list \<Rightarrow> app_settings \<Rightarrow> int" where
  "target_of fl sections settings =
     int_value (param_value fl chunk_specs sections settings ''target_tokens'')"

lemma target_of_range:
  assumes "settings ''chunk_target_tokens'' = JInt d" "64 \<le> d" "d \<le> 4000"
  shows "64 \<le> target_of fl sections settings \<and> target_of fl sections settings \<le> 4000"
proof -
  have "value_ok (int_spec ''chunk_target_tokens'' 64 4000) (Some 4000)
      (fst (read_param 1 fl chunk_specs (lit ''target_tokens'') sections settings))"
    using read_plain_ok [of chunk_specs "lit ''target_tokens''" settings 1 fl sections] assms
    by (simp add: spec_ok_int value_ok_def)
  then show ?thesis
    by (auto simp: target_of_def param_value_def value_ok_def int_value_def split: json.splits)
qed

lemma overlap_read:
  "param_value fl chunk_specs sections settings ''overlap_tokens'' =
     fst (read_layers
       (accept_value fl (spec_of chunk_specs (lit ''overlap_tokens''))
          (Some (of_int (max (target_of fl sections settings - 1) 0))))
       (lit ''overlap_tokens'') sections (settings ''chunk_overlap_tokens'') [])"
  by (simp add: param_value_def read_param.simps [of _ _ _ "lit ''overlap_tokens''"] target_of_def
        read_param_plain)

lemma read_layers_hit:
  "\<exists>s \<in> set sections. \<exists>v w. map_of s key = Some v \<and> accept v = Some w \<Longrightarrow>
   \<exists>v. accept v = Some (fst (read_layers accept key sections d bad))"
proof (induction accept key sections d bad rule: read_layers.induct)
  case (2 accept name s ss d bad)
  show ?case
  proof (cases "Option.bind (map_of s name) accept")
    case None
    then have "\<exists>s \<in> set ss. \<exists>v w. map_of s name = Some v \<and> accept v = Some w"
      using 2(3) by (auto split: option.splits)
    then show ?thesis using 2(1,2) None by (cases "map_of s name") auto
  next
    case (Some w)
    then show ?thesis by (cases "map_of s name") auto
  qed
qed simp

subsection \<open>Writing: lemmas\<close>

text \<open>The same value up to the difference between an integer and the float it is converted to.\<close>

definition same_value :: "json \<Rightarrow> json \<Rightarrow> bool" where
  "same_value v w \<longleftrightarrow> v = w \<or> (\<exists>x. to_number v = Some x \<and> to_number w = Some x)"

lemma clamp_id:
  "\<not> (case l of None \<Rightarrow> False | Some a \<Rightarrow> x < a) \<Longrightarrow> \<not> (case h of None \<Rightarrow> False | Some b \<Rightarrow> b < x)
   \<Longrightarrow> clamp l h x = x"
  by (auto simp: clamp_def split: option.splits)

lemma reject_range_None:
  "reject_range spec h x = None \<Longrightarrow> clamp (low spec) h x = x"
  by (rule clamp_id) (auto simp: reject_range_def split: if_splits option.splits)

lemma accepted_on_write_and_read:
  assumes "reject_value settings specs section spec v = None"
    and h: "write_ceiling settings specs section spec = h"
    and floats: "kind spec = KFloat \<Longrightarrow> (\<And>i. reject_range spec h (of_int i) = None \<Longrightarrow> fl (of_int i) = of_int i)"
  shows "\<exists>w. accept_value fl spec h v = Some w \<and> same_value v w"
proof (cases "kind spec")
  case KInt
  with assms obtain i where i: "v = JInt i" "reject_range spec h (of_int i) = None"
    by (auto simp: reject_value_def split: json.splits)
  then have "\<lfloor>clamp (low spec) h (of_int i)\<rfloor> = i" by (simp add: reject_range_None)
  then show ?thesis using KInt i by (simp add: accept_value_def same_value_def)
next
  case KFloat
  with assms obtain x where x: "to_number v = Some x" "reject_range spec h x = None"
    by (auto simp: reject_value_def split: option.splits)
  show ?thesis
  proof (cases v)
    case (JInt i)
    have "fl (of_int i) = of_int i"
      using x floats [OF KFloat, of i] JInt by (simp add: to_number_def)
    then show ?thesis using JInt KFloat x
      by (auto simp: accept_value_def same_value_def to_number_def reject_range_None)
  next
    case (JFloat r)
    then show ?thesis using KFloat x
      by (simp add: accept_value_def same_value_def to_number_def reject_range_None)
  qed (use x in \<open>simp_all add: to_number_def\<close>)
next
  case KChoice
  with assms show ?thesis
    by (auto simp: reject_value_def accept_value_def same_value_def split: json.splits if_splits)
qed

lemma validate_items_ok:
  "validate_items settings pre items errors cleaned = ([], result) \<Longrightarrow>
   errors = [] \<and> result = cleaned @ items \<and>
   (\<forall>name raw. (name, raw) \<in> set items \<longrightarrow>
      (\<exists>specs section. map_of param_sections name = Some specs \<and> raw = JObj section
         \<and> validate_section settings [pre, name] specs section = []))"
proof (induction settings pre items errors cleaned rule: validate_items.induct)
  case (2 settings pre name raw items errors cleaned)
  then show ?case by (auto split: option.splits json.splits)
qed auto

lemma validate_section_ok:
  "validate_section settings field specs section = [] \<Longrightarrow> map_of section key = Some v \<Longrightarrow>
   \<exists>spec. map_of specs key = Some spec \<and> reject_value settings specs section spec v = None"
  by (auto simp: validate_section_def dest!: map_of_SomeD split: option.splits)

lemma validate_kb_config_ok:
  assumes "validate_kb_config settings (JObj items) = Inr cleaned"
    and "map_of cleaned name = Some (JObj section)" "map_of section key = Some v"
    and "map_of param_sections name = Some specs"
  shows "cleaned = items \<and> map_of specs key \<noteq> None
    \<and> reject_value settings specs section (spec_of specs key) v = None"
proof -
  have v: "validate_items settings (lit ''config'') items [] [] = ([], cleaned)"
    using assms(1) by (auto simp: validate_kb_config_def validate_param_sections_def
        split: prod.splits if_splits)
  from validate_items_ok [OF v] have c: "cleaned = items" by simp
  then have "(name, JObj section) \<in> set items" using assms(2) by (auto dest: map_of_SomeD)
  then have "validate_section settings [lit ''config'', name] specs section = []"
    using validate_items_ok [OF v] assms(4) by fastforce
  from validate_section_ok [OF this assms(3)] c show ?thesis by (auto simp: spec_of_def)
qed

lemma layers_of_first:
  assumes "map_of cleaned name = Some (JObj section)" "map_of section key = Some v"
  shows "\<exists>rest. layers_of name (Some cleaned # configs) = section # rest"
  using assms by (cases "section") (simp_all add: layers_of_def section_of_def)

lemma reject_range_unit:
  "low spec = Some 0 \<Longrightarrow> reject_range spec (Some 1) (of_int i) = None \<Longrightarrow> i = 0 \<or> i = 1"
  by (auto simp: reject_range_def split: if_splits option.splits)

lemma retrieval_spec_cases:
  "map_of retrieval_specs key \<noteq> None \<Longrightarrow>
   spec_ok (spec_of retrieval_specs key) \<and>
   (kind (spec_of retrieval_specs key) = KFloat \<longrightarrow>
      low (spec_of retrieval_specs key) = Some 0 \<and> high (spec_of retrieval_specs key) = Some 1)"
proof -
  have "list_all (\<lambda>(k, s). spec_ok s \<and> (kind s = KFloat \<longrightarrow> low s = Some 0 \<and> high s = Some 1))
          retrieval_specs"
    by (simp add: retrieval_specs_def spec_ok_def le_bounds_def integral_def unit_spec_def
        max_top_k_def max_context_chunks_def max_token_budget_def max_rrf_k_def max_history_turns_def)
  moreover assume "map_of retrieval_specs key \<noteq> None"
  then have "(key, spec_of retrieval_specs key) \<in> set retrieval_specs"
    by (auto simp: spec_of_def dest: map_of_SomeD)
  ultimately show ?thesis by (force simp: list_all_iff)
qed

lemma unit_interval_floats:
  assumes "fl 0 = (0::rat)" "fl 1 = 1" "low spec = Some 0" "reject_range spec (Some 1) (of_int i) = None"
  shows "fl (of_int i) = of_int i"
  using reject_range_unit [OF assms(3,4)] assms(1,2) by auto

subsection \<open>Properties\<close>

text \<open>Reading is total and always in range: with system defaults that are themselves in range,
  every retrieval parameter read from any two configuration layers, whatever values of whatever
  types they hold, has its declared type and lies within its declared bounds.\<close>

theorem retrieval_params_in_range:
  assumes "list_all (\<lambda>(k, s). value_ok s (high s) (settings (default_attr s))) retrieval_specs"
  shows "list_all (\<lambda>(k, s). value_ok s (high s) (fst (read_param 1 fl retrieval_specs k
      (layers_of (lit ''retrieval'') [kb, tenant]) settings))) retrieval_specs"
proof -
  have d: "distinct (map fst retrieval_specs)"
    by (simp add: retrieval_specs_def lit_def)
  have "value_ok s (high s) (fst (read_param 1 fl retrieval_specs k
      (layers_of (lit ''retrieval'') [kb, tenant]) settings))"
    if "(k, s) \<in> set retrieval_specs" for k s
  proof -
    have m: "map_of retrieval_specs k = Some s" using d that by simp
    then have s: "spec_of retrieval_specs k = s" by (simp add: spec_of_def)
    have "spec_ok s" using retrieval_spec_cases [of k] m s by simp
    moreover have "value_ok s (high s) (settings (default_attr s))"
      using assms that by (auto simp: list_all_iff)
    ultimately show ?thesis using read_plain_ok [of retrieval_specs k settings 1 fl] s by simp
  qed
  then show ?thesis by (auto simp: list_all_iff)
qed

definition default_settings :: app_settings where
  "default_settings attr =
     (if attr = ''rag_rrf_k'' then JInt 60 else if attr = ''rag_hybrid_candidates'' then JInt 24
      else if attr = ''rag_retrieval_mode'' then JStr (lit ''vector+rerank'')
      else if attr = ''rag_rerank_threshold'' \<or> attr = ''rag_min_score_ratio'' then JFloat 0
      else if attr = ''rag_context_chunks'' then JInt 8
      else if attr = ''rag_context_token_budget'' then JInt 4500
      else if attr = ''rag_query_history_turns'' then JInt 1
      else if attr = ''chunk_target_tokens'' then JInt 512
      else if attr = ''chunk_overlap_tokens'' then JInt 64
      else JInt 40)"

theorem retrieval_params_in_range_witness:
  "list_all (\<lambda>(k, s). value_ok s (high s) (fst (read_param 1 id retrieval_specs k
      (layers_of (lit ''retrieval'')
        [Some [(lit ''retrieval'', JObj [(lit ''top_k'', JStr [49])])], None]) default_settings)))
    retrieval_specs"
  by (rule retrieval_params_in_range)
     (simp add: retrieval_specs_def default_settings_def value_ok_def unit_spec_def retrieval_modes_def
        max_top_k_def max_context_chunks_def max_token_budget_def max_rrf_k_def
        max_history_turns_def Let_def)

text \<open>The layers are consulted from the most specific to the most general: a parameter without
  a cross-field bound is the first layer's value that is acceptable (clamped to the bounds); a
  bad value falls through to the next layer only, and the system default is used only when no
  layer has an acceptable value.\<close>

theorem most_specific_layer_wins:
  assumes "high_of (spec_of specs key) = None"
  shows "fst (read_param depth fl specs key sections settings) =
    (case concat (map (\<lambda>s. case Option.bind (map_of s key)
              (accept_value fl (spec_of specs key) (high (spec_of specs key))) of
                None \<Rightarrow> [] | Some w \<Rightarrow> [w]) sections) of
       [] \<Rightarrow> settings (default_attr (spec_of specs key))
     | w # _ \<Rightarrow> w)"
  using assms by (simp add: read_param_plain read_layers_choice)

theorem most_specific_layer_wins_witness:
  "fst (read_param 1 id chunk_specs (lit ''target_tokens'')
     [[(lit ''target_tokens'', JStr [])], [(lit ''target_tokens'', JInt 80)]] default_settings) = JInt 80"
  by (subst most_specific_layer_wins) (simp_all add: accept_value_def clamp_def)

text \<open>What the write side accepts is what the read side uses: when a knowledge base's
  configuration passes validation it is stored unchanged, and every retrieval parameter it sets
  is read back as the value written (a float parameter written as an integer compares equal),
  whatever the tenant's layer says.\<close>

theorem accepted_config_takes_effect:
  assumes "validate_kb_config settings (JObj items) = Inr cleaned"
    and "map_of cleaned (lit ''retrieval'') = Some (JObj retrieval)" "map_of retrieval key = Some v"
    and "fl 0 = 0" "fl 1 = 1"
  shows "cleaned = items \<and> same_value v (fst (read_param 1 fl retrieval_specs key
      (layers_of (lit ''retrieval'') [Some cleaned, tenant]) settings'))"
proof -
  let ?spec = "spec_of retrieval_specs key"
  have p: "map_of param_sections (lit ''retrieval'') = Some retrieval_specs"
    by (simp add: param_sections_def)
  note v = validate_kb_config_ok [OF assms(1,2,3) p]
  have spec: "spec_ok ?spec" "kind ?spec = KFloat \<Longrightarrow> low ?spec = Some 0 \<and> high ?spec = Some 1"
    using retrieval_spec_cases [of key] v by auto
  have "write_ceiling settings retrieval_specs retrieval ?spec = high ?spec"
    using spec by (simp add: write_ceiling_def spec_ok_def)
  moreover have "fl (of_int i) = of_int i"
    if "kind ?spec = KFloat" "reject_range ?spec (high ?spec) (of_int i) = None" for i
    using that spec unit_interval_floats [OF assms(4,5)] by auto
  ultimately have "\<exists>w. accept_value fl ?spec (high ?spec) v = Some w \<and> same_value v w"
    using v by (intro accepted_on_write_and_read [of settings retrieval_specs retrieval]) simp_all
  then obtain w where w: "accept_value fl ?spec (high ?spec) v = Some w" "same_value v w" by blast
  obtain rest where "layers_of (lit ''retrieval'') [Some cleaned, tenant] = retrieval # rest"
    using layers_of_first [OF assms(2,3), of "[tenant]"] by blast
  then show ?thesis
    using w v spec assms(3) by (simp add: read_param_plain spec_ok_def)
qed

theorem accepted_config_takes_effect_witness:
  "same_value (JInt 7) (fst (read_param 1 id retrieval_specs (lit ''top_k'')
      (layers_of (lit ''retrieval'')
         [Some [(lit ''retrieval'', JObj [(lit ''top_k'', JInt 7)])], None]) default_settings))"
proof -
  have "validate_kb_config default_settings (JObj [(lit ''retrieval'', JObj [(lit ''top_k'', JInt 7)])])
      = Inr [(lit ''retrieval'', JObj [(lit ''top_k'', JInt 7)])]"
    by (simp add: validate_kb_config_def validate_param_sections_def param_sections_def
        validate_section_def retrieval_specs_def reject_value_def reject_range_def write_ceiling_def
        max_top_k_def)
  then show ?thesis
    using accepted_config_takes_effect [of default_settings
        "[(lit ''retrieval'', JObj [(lit ''top_k'', JInt 7)])]"
        "[(lit ''retrieval'', JObj [(lit ''top_k'', JInt 7)])]" "[(lit ''top_k'', JInt 7)]"
        "lit ''top_k''" "JInt 7" id None default_settings]
    by simp
qed

text \<open>The chunk size read is always between 64 and 4000 tokens, and whenever a layer sets an
  integer overlap, the overlap read is at least 0 and smaller than the chunk size actually in
  effect, so that chunking always advances.\<close>

theorem chunk_config_in_range:
  assumes "settings ''chunk_target_tokens'' = JInt d" "64 \<le> d" "d \<le> 4000"
    and "s \<in> set (layers_of (lit ''chunk'') [kb, tenant])" "map_of s (lit ''overlap_tokens'') = Some (JInt i)"
  shows "64 \<le> target_tokens (chunk_config_from fl settings kb tenant)
    \<and> target_tokens (chunk_config_from fl settings kb tenant) \<le> 4000
    \<and> 0 \<le> overlap_tokens (chunk_config_from fl settings kb tenant)
    \<and> overlap_tokens (chunk_config_from fl settings kb tenant)
        < target_tokens (chunk_config_from fl settings kb tenant)"
proof -
  let ?sections = "layers_of (lit ''chunk'') [kb, tenant]"
  let ?t = "target_of fl ?sections settings"
  let ?spec = "spec_of chunk_specs (lit ''overlap_tokens'')"
  let ?accept = "accept_value fl ?spec (Some (of_int (max (?t - 1) 0)))"
  have t: "64 \<le> ?t" "?t \<le> 4000" using target_of_range [of settings d fl ?sections] assms(1-3) by auto
  have "\<exists>s \<in> set ?sections. \<exists>v w. map_of s (lit ''overlap_tokens'') = Some v \<and> ?accept v = Some w"
    using assms(4,5) by (auto simp: accept_value_def intro!: bexI [of _ s])
  from read_layers_hit [OF this]
  obtain v where "?accept v = Some (param_value fl chunk_specs ?sections settings ''overlap_tokens'')"
    unfolding overlap_read by blast
  then have "value_ok ?spec (Some (of_int (max (?t - 1) 0)))
      (param_value fl chunk_specs ?sections settings ''overlap_tokens'')"
    by (rule accept_value_ok) (simp_all add: le_bounds_def integral_def)
  then have "0 \<le> overlap_tokens (chunk_config_from fl settings kb tenant)
      \<and> overlap_tokens (chunk_config_from fl settings kb tenant) \<le> max (?t - 1) 0"
    by (auto simp: chunk_config_from_def value_ok_def int_value_def Let_def of_int_le_iff
          simp flip: of_int_max split: json.splits)
  moreover have "target_tokens (chunk_config_from fl settings kb tenant) = ?t"
    by (simp add: chunk_config_from_def target_of_def Let_def)
  ultimately show ?thesis using t by auto
qed

theorem chunk_config_in_range_witness:
  "overlap_tokens (chunk_config_from id default_settings
      (Some [(lit ''chunk'', JObj [(lit ''overlap_tokens'', JInt 5000)])]) None)
   < target_tokens (chunk_config_from id default_settings
      (Some [(lit ''chunk'', JObj [(lit ''overlap_tokens'', JInt 5000)])]) None)"
  using chunk_config_in_range [of default_settings 512 "[(lit ''overlap_tokens'', JInt 5000)]"
      "Some [(lit ''chunk'', JObj [(lit ''overlap_tokens'', JInt 5000)])]" None 5000 id]
  by (simp add: default_settings_def layers_of_def section_of_def)

text \<open>When no layer sets the overlap, the system default is taken as it is, without the bound: a
  knowledge base that sets only the smallest chunk size passes validation and is chunked with an
  overlap equal to the chunk size.\<close>

lemma default_overlap_not_bounded:
  "validate_kb_config default_settings (JObj [(lit ''chunk'', JObj [(lit ''target_tokens'', JInt 64)])])
     = Inr [(lit ''chunk'', JObj [(lit ''target_tokens'', JInt 64)])]
   \<and> chunk_config_from id default_settings
       (Some [(lit ''chunk'', JObj [(lit ''target_tokens'', JInt 64)])]) None
     = \<lparr>target_tokens = 64, overlap_tokens = 64\<rparr>"
proof
  show "validate_kb_config default_settings (JObj [(lit ''chunk'', JObj [(lit ''target_tokens'', JInt 64)])])
     = Inr [(lit ''chunk'', JObj [(lit ''target_tokens'', JInt 64)])]"
    by (simp add: validate_kb_config_def validate_param_sections_def param_sections_def lit_def
        validate_section_def chunk_specs_def reject_value_def reject_range_def write_ceiling_def
        min_target_tokens_def max_target_tokens_def)
  have "layers_of (lit ''chunk'') [Some [(lit ''chunk'', JObj [(lit ''target_tokens'', JInt 64)])], None]
      = [[(lit ''target_tokens'', JInt 64)]]"
    by (simp add: layers_of_def section_of_def)
  then show "chunk_config_from id default_settings
       (Some [(lit ''chunk'', JObj [(lit ''target_tokens'', JInt 64)])]) None
     = \<lparr>target_tokens = 64, overlap_tokens = 64\<rparr>"
    using target_key_ne
    by (simp add: chunk_config_from_def overlap_read)
       (simp add: param_value_def read_param_plain accept_value_def clamp_def int_value_def
          default_settings_def)
qed

end
