(* ===== verification/CounterStore.thy ===== *)
theory CounterStore
  imports DocModel
begin

text \<open>
  The Redis commands the quota code relies on, as a parameter: \<open>INCRBY\<close>/\<open>DECRBY\<close>, \<open>GET\<close>, \<open>SET\<close> with
  \<open>EX\<close> and with \<open>NX EX\<close>, \<open>EXPIRE\<close> and \<open>EXPIRE NX\<close>. \<open>store_ok\<close> states their documented behaviour on
  integer values and expiry times; \<open>mem_ops\<close> is a store that has it, used by the witnesses.
  The theory also holds \<open>tenant_key\<close> of \<open>backend/core/redis.py\<close>.
\<close>

subsection \<open>Keys\<close>

type_synonym uuid128 = nat

definition hex_digit :: "nat \<Rightarrow> codepoint" where
  "hex_digit d = (if d < 10 then 48 + d else 87 + d)"

fun hex_text :: "nat \<Rightarrow> nat \<Rightarrow> ustring" where
  "hex_text 0 n = []"
| "hex_text (Suc w) n = hex_text w (n div 16) @ [hex_digit (n mod 16)]"

definition uuid_text :: "uuid128 \<Rightarrow> ustring" where
  "uuid_text n =
     (let h = hex_text 32 n in
      take 8 h @ [45] @ take 4 (drop 8 h) @ [45] @ take 4 (drop 12 h) @ [45] @ take 4 (drop 16 h)
      @ [45] @ drop 20 h)"

definition tenant_key :: "uuid128 \<Rightarrow> ustring list \<Rightarrow> ustring" where
  "tenant_key tenant key_parts = join (lit '':'') (lit ''t'' # uuid_text tenant # key_parts)"

lemma hex_digit_inject: "a < 16 \<Longrightarrow> b < 16 \<Longrightarrow> hex_digit a = hex_digit b \<longleftrightarrow> a = b"
  by (auto simp: hex_digit_def split: if_splits)

lemma length_hex_text [simp]: "length (hex_text w n) = w"
  by (induction w arbitrary: n) auto

lemma hex_text_inject: "m < 16 ^ w \<Longrightarrow> n < 16 ^ w \<Longrightarrow> hex_text w m = hex_text w n \<Longrightarrow> m = n"
proof (induction w arbitrary: m n)
  case (Suc w)
  have "m div 16 < 16 ^ w" "n div 16 < 16 ^ w"
    using Suc.prems(1,2) by (auto intro: less_mult_imp_div_less simp: mult.commute)
  moreover have "hex_text w (m div 16) = hex_text w (n div 16)" "hex_digit (m mod 16) = hex_digit (n mod 16)"
    using Suc.prems(3) by simp_all
  ultimately have "m div 16 = n div 16" "m mod 16 = n mod 16"
    using Suc.IH hex_digit_inject [of "m mod 16" "n mod 16"] by simp_all
  then show ?case by (metis div_mult_mod_eq)
qed simp

lemma uuid_text_hex: "filter (\<lambda>c. c \<noteq> 45) (uuid_text n) = hex_text 32 n"
proof -
  have nd: "c \<in> set (hex_text w n) \<Longrightarrow> c \<noteq> 45" for c w n
    by (induction w arbitrary: n) (auto simp: hex_digit_def split: if_splits)
  let ?h = "hex_text 32 n"
  have f: "filter (\<lambda>c. c \<noteq> 45) xs = xs" if "set xs \<subseteq> set ?h" for xs
    using that nd by (intro filter_True) auto
  have eq: "?h = take 8 ?h @ take 4 (drop 8 ?h) @ take 4 (drop 12 ?h) @ take 4 (drop 16 ?h) @ drop 20 ?h"
    using append_take_drop_id [of 8 ?h] append_take_drop_id [of 4 "drop 8 ?h"]
      append_take_drop_id [of 4 "drop 12 ?h"] append_take_drop_id [of 4 "drop 16 ?h"]
    by (metis (no_types) add_numeral_left drop_drop numeral_plus_numeral semiring_norm)
  have "filter (\<lambda>c. c \<noteq> 45) (uuid_text n) =
      take 8 ?h @ take 4 (drop 8 ?h) @ take 4 (drop 12 ?h) @ take 4 (drop 16 ?h) @ drop 20 ?h"
    by (simp add: uuid_text_def Let_def f set_take_subset set_drop_subset
          subset_trans [OF set_take_subset set_drop_subset])
  then show ?thesis using eq by simp
qed

subsection \<open>The commands\<close>

record 'r counter_ops =
  incrby :: "'r \<Rightarrow> ustring \<Rightarrow> int \<Rightarrow> 'r \<times> int"
  get_int :: "'r \<Rightarrow> ustring \<Rightarrow> int option"
  set_ex :: "'r \<Rightarrow> ustring \<Rightarrow> int \<Rightarrow> int \<Rightarrow> 'r"
  set_nx_ex :: "'r \<Rightarrow> ustring \<Rightarrow> int \<Rightarrow> int \<Rightarrow> 'r \<times> bool"
  expire :: "'r \<Rightarrow> ustring \<Rightarrow> int \<Rightarrow> 'r"
  expire_nx :: "'r \<Rightarrow> ustring \<Rightarrow> int \<Rightarrow> 'r"
  time_left :: "'r \<Rightarrow> ustring \<Rightarrow> int option"

definition decrby :: "'r counter_ops \<Rightarrow> 'r \<Rightarrow> ustring \<Rightarrow> int \<Rightarrow> 'r \<times> int" where
  "decrby R r key n = incrby R r key (- n)"

definition counter :: "'r counter_ops \<Rightarrow> 'r \<Rightarrow> ustring \<Rightarrow> int" where
  "counter R r key = or_else (get_int R r key) 0"

definition store_ok :: "'r counter_ops \<Rightarrow> bool" where
  "store_ok R \<longleftrightarrow>
     (\<forall>r key n k.
        snd (incrby R r key n) = counter R r key + n
        \<and> get_int R (fst (incrby R r key n)) k =
            (if k = key then Some (counter R r key + n) else get_int R r k)
        \<and> time_left R (fst (incrby R r key n)) k =
            (if k = key \<and> get_int R r key = None then None else time_left R r k))
     \<and> (\<forall>r key v t k. 0 < t \<longrightarrow>
        get_int R (set_ex R r key v t) k = (if k = key then Some v else get_int R r k)
        \<and> time_left R (set_ex R r key v t) k = (if k = key then Some t else time_left R r k)
        \<and> snd (set_nx_ex R r key v t) = (get_int R r key = None)
        \<and> get_int R (fst (set_nx_ex R r key v t)) k =
            (if k = key \<and> get_int R r key = None then Some v else get_int R r k)
        \<and> time_left R (fst (set_nx_ex R r key v t)) k =
            (if k = key \<and> get_int R r key = None then Some t else time_left R r k)
        \<and> get_int R (expire R r key t) k = get_int R r k
        \<and> time_left R (expire R r key t) k =
            (if k = key \<and> get_int R r key \<noteq> None then Some t else time_left R r k)
        \<and> get_int R (expire_nx R r key t) k = get_int R r k
        \<and> time_left R (expire_nx R r key t) k =
            (if k = key \<and> get_int R r key \<noteq> None \<and> time_left R r key = None then Some t
             else time_left R r k))"

lemma incrby_laws:
  assumes "store_ok R"
  shows "snd (incrby R r key n) = counter R r key + n"
    and "get_int R (fst (incrby R r key n)) k = (if k = key then Some (counter R r key + n) else get_int R r k)"
    and "counter R (fst (incrby R r key n)) k = (if k = key then counter R r key + n else counter R r k)"
    and "time_left R (fst (incrby R r key n)) k =
      (if k = key \<and> get_int R r key = None then None else time_left R r k)"
  using assms unfolding store_ok_def by (auto simp: counter_def)

lemma set_laws:
  assumes "store_ok R" "0 < t"
  shows "get_int R (set_ex R r key v t) k = (if k = key then Some v else get_int R r k)"
    and "counter R (set_ex R r key v t) k = (if k = key then v else counter R r k)"
    and "time_left R (set_ex R r key v t) k = (if k = key then Some t else time_left R r k)"
    and "snd (set_nx_ex R r key v t) = (get_int R r key = None)"
    and "get_int R (fst (set_nx_ex R r key v t)) k =
      (if k = key \<and> get_int R r key = None then Some v else get_int R r k)"
    and "time_left R (fst (set_nx_ex R r key v t)) k =
      (if k = key \<and> get_int R r key = None then Some t else time_left R r k)"
  using assms unfolding store_ok_def by (auto simp: counter_def)

lemma expire_laws:
  assumes "store_ok R" "0 < t"
  shows "get_int R (expire R r key t) k = get_int R r k"
    and "counter R (expire R r key t) k = counter R r k"
    and "time_left R (expire R r key t) k =
      (if k = key \<and> get_int R r key \<noteq> None then Some t else time_left R r k)"
    and "get_int R (expire_nx R r key t) k = get_int R r k"
    and "counter R (expire_nx R r key t) k = counter R r k"
    and "time_left R (expire_nx R r key t) k =
      (if k = key \<and> get_int R r key \<noteq> None \<and> time_left R r key = None then Some t
       else time_left R r k)"
  using assms unfolding store_ok_def by (auto simp: counter_def)

subsection \<open>A store that behaves this way\<close>

type_synonym mem = "ustring \<Rightarrow> (int \<times> int option) option"

definition mem_ops :: "mem counter_ops" where
  "mem_ops =
     \<lparr>incrby = (\<lambda>r key n.
         case r key of None \<Rightarrow> (r(key \<mapsto> (n, None)), n) | Some (v, t) \<Rightarrow> (r(key \<mapsto> (v + n, t)), v + n)),
      get_int = (\<lambda>r key. map_option fst (r key)),
      set_ex = (\<lambda>r key v t. r(key \<mapsto> (v, Some t))),
      set_nx_ex = (\<lambda>r key v t. if r key = None then (r(key \<mapsto> (v, Some t)), True) else (r, False)),
      expire = (\<lambda>r key t. case r key of None \<Rightarrow> r | Some (v, _) \<Rightarrow> r(key \<mapsto> (v, Some t))),
      expire_nx = (\<lambda>r key t. case r key of Some (v, None) \<Rightarrow> r(key \<mapsto> (v, Some t)) | _ \<Rightarrow> r),
      time_left = (\<lambda>r key. Option.bind (r key) snd)\<rparr>"

lemma mem_store_ok: "store_ok mem_ops"
  by (auto simp: store_ok_def mem_ops_def counter_def split: option.splits)

end
