(* ===== verification/Period.thy ===== *)
theory Period
  imports Prelude
begin

text \<open>
  Points in time and accounting periods, as \<open>backend/services/platform/quota.py\<close> uses them: UTC
  date-times with microseconds, the label of the month or day a moment belongs to, the end of
  that period and the life time of its counter. The calendar is Python's proleptic Gregorian one.
  Lemmas: the label identifies the period, and a counter outlives the period it counts.
\<close>

record datetime =
  year :: nat
  month :: nat
  day :: nat
  tod :: int

definition us_per_second :: int where "us_per_second = 1000000"
definition us_per_day :: int where "us_per_day = 86400000000"

definition is_leap :: "nat \<Rightarrow> bool" where
  "is_leap y \<longleftrightarrow> y mod 4 = 0 \<and> (y mod 100 \<noteq> 0 \<or> y mod 400 = 0)"

definition days_in_month :: "nat \<Rightarrow> nat \<Rightarrow> nat" where
  "days_in_month y m =
     (if m = 2 then (if is_leap y then 29 else 28) else if m \<in> {4, 6, 9, 11} then 30 else 31)"

definition valid_datetime :: "datetime \<Rightarrow> bool" where
  "valid_datetime t \<longleftrightarrow>
     1 \<le> year t \<and> 1 \<le> month t \<and> month t \<le> 12 \<and> 1 \<le> day t
     \<and> day t \<le> days_in_month (year t) (month t) \<and> 0 \<le> tod t \<and> tod t < us_per_day"

definition days_before_year :: "nat \<Rightarrow> int" where
  "days_before_year y =
     (let p = int y - 1 in 365 * p + p div 4 - p div 100 + p div 400)"

fun days_before_month :: "nat \<Rightarrow> nat \<Rightarrow> int" where
  "days_before_month y m = (\<Sum>k\<leftarrow>[1..<m]. int (days_in_month y k))"

declare days_before_month.simps [simp del]

definition ordinal :: "nat \<Rightarrow> nat \<Rightarrow> nat \<Rightarrow> int" where
  "ordinal y m d = days_before_year y + days_before_month y m + int d"

text \<open>Microseconds since midnight before 1 January of the year 1.\<close>

definition instant :: "datetime \<Rightarrow> int" where
  "instant t = (ordinal (year t) (month t) (day t) - 1) * us_per_day + tod t"

subsection \<open>Periods\<close>

datatype period = Monthly | Daily

definition pad :: "nat \<Rightarrow> nat \<Rightarrow> ustring" where
  "pad w n = replicate (w - length (decimal n)) 48 @ decimal n"

definition period_label :: "period \<Rightarrow> datetime \<Rightarrow> ustring" where
  "period_label p now =
     (case p of
        Monthly \<Rightarrow> pad 4 (year now) @ [45] @ pad 2 (month now)
      | Daily \<Rightarrow> pad 4 (year now) @ [45] @ pad 2 (month now) @ [45] @ pad 2 (day now))"

text \<open>The instant at which the period ends; \<open>datetime(y, m, d) + timedelta(days=1)\<close> for a day.\<close>

definition period_end :: "period \<Rightarrow> datetime \<Rightarrow> int" where
  "period_end p now =
     (case p of
        Monthly \<Rightarrow>
          (let (y, m) = (if month now < 12 then (year now, month now + 1) else (year now + 1, 1))
           in (ordinal y m 1 - 1) * us_per_day)
      | Daily \<Rightarrow> (ordinal (year now) (month now) (day now) - 1) * us_per_day + us_per_day)"

definition period_grace :: int where
  "period_grace = us_per_day"

definition period_ttl :: "period \<Rightarrow> datetime \<Rightarrow> int" where
  "period_ttl p now = (period_end p now + period_grace - instant now) div us_per_second"

subsection \<open>Lemmas\<close>

lemma undecimal_zeros [simp]: "undecimal 0 (replicate k 48 @ s) = undecimal 0 s"
  by (induction k) auto

lemma pad_inject [simp]: "pad w m = pad w n \<longleftrightarrow> m = n"
proof -
  have "undecimal 0 (pad w n) = n" for n by (simp add: pad_def)
  then have "pad w m = pad w n \<Longrightarrow> m = n" by (metis (no_types))
  then show ?thesis by blast
qed

lemma pad_no_dash: "c \<in> set (pad w n) \<Longrightarrow> c \<noteq> 45"
  using decimal_digits [of c n] by (auto simp: pad_def)

lemma dash_split:
  fixes a :: ustring
  assumes "45 \<notin> set a" "45 \<notin> set a'" "a @ [45] @ b = a' @ [45] @ b'"
  shows "a = a' \<and> b = b'"
proof -
  have "takeWhile (\<lambda>c. c \<noteq> 45) (x @ [45] @ y) = x" if "45 \<notin> set x" for x y :: ustring
  proof -
    have "takeWhile (\<lambda>c. c \<noteq> 45) (x @ [45] @ y) = x @ takeWhile (\<lambda>c. c \<noteq> 45) ([45] @ y)"
      using that by (intro takeWhile_append2) auto
    then show ?thesis by simp
  qed
  from this [OF assms(1), of b] this [OF assms(2), of b'] have "a = a'"
    by (simp only: assms(3))
  with assms(3) show ?thesis by simp
qed

lemma days_before_month_Suc: "1 \<le> m \<Longrightarrow> days_before_month y (Suc m) = days_before_month y m + int (days_in_month y m)"
  by (simp add: days_before_month.simps)

lemma days_before_month_1 [simp]: "days_before_month y (Suc 0) = 0"
  by (simp add: days_before_month.simps)

lemma div_step:
  assumes "0 < d"
  shows "int y div int d - (int y - 1) div int d = (if y mod d = 0 then 1 else 0)"
proof -
  define q r where "q = int y div int d" and "r = int y mod int d"
  have y: "int y = int d * q + r" "0 \<le> r" "r < int d" using assms by (auto simp: q_def r_def)
  have r: "r = 0 \<longleftrightarrow> y mod d = 0" by (simp add: r_def flip: zmod_int)
  show ?thesis
  proof (cases "r = 0")
    case True
    have "(int y - 1) div int d = q - 1"
      using assms True y(1) by (intro int_div_pos_eq [of _ _ _ "int d - 1"]) (auto simp: algebra_simps)
    then show ?thesis using True r by (simp add: q_def)
  next
    case False
    have "(int y - 1) div int d = q"
      using assms False y by (intro int_div_pos_eq [of _ _ _ "r - 1"]) auto
    then show ?thesis using False r by (simp add: q_def)
  qed
qed

lemma mod_100_400: "y mod 400 = 0 \<Longrightarrow> y mod 100 = (0::nat)"
  using mod_mult_self1_is_0 by (auto simp: mod_0_imp_dvd dvd_trans [of 100 400] dest!: mod_0_imp_dvd)

lemma mod_4_100: "y mod 100 = 0 \<Longrightarrow> y mod 4 = (0::nat)"
  by (auto simp: dvd_trans [of 4 100] dest!: mod_0_imp_dvd)

lemma leap_sum:
  "(r \<longrightarrow> q) \<Longrightarrow> (q \<longrightarrow> p) \<Longrightarrow>
   365 + (if p then 1 else 0) - (if q then 1 else 0) + (if r then 1 else 0)
     = (if p \<and> (\<not> q \<or> r) then 366 else (365::int))"
  by (cases p; cases q; cases r) simp_all

lemma days_before_year_Suc: "days_before_year (Suc y) = days_before_year y + (if is_leap y then 366 else 365)"
proof -
  have m400: "y mod 400 = 0 \<longrightarrow> y mod 100 = 0" by (rule impI, rule mod_100_400)
  have m100: "y mod 100 = 0 \<longrightarrow> y mod 4 = 0" by (rule impI, rule mod_4_100)
  have "days_before_year (Suc y) - days_before_year y =
      365 + (int y div 4 - (int y - 1) div 4) - (int y div 100 - (int y - 1) div 100)
      + (int y div 400 - (int y - 1) div 400)"
    by (simp add: days_before_year_def Let_def)
  also have "\<dots> = 365 + (if y mod 4 = 0 then 1 else 0) - (if y mod 100 = 0 then 1 else 0)
      + (if y mod 400 = 0 then 1 else 0)"
    by (simp only: div_step [of 4 y, simplified of_nat_numeral, OF zero_less_numeral]
          div_step [of 100 y, simplified of_nat_numeral, OF zero_less_numeral]
          div_step [of 400 y, simplified of_nat_numeral, OF zero_less_numeral])
  also have "\<dots> = (if is_leap y then 366 else 365)"
    unfolding is_leap_def by (rule leap_sum [OF m400 m100])
  finally show ?thesis by linarith
qed

lemma days_before_month_13: "days_before_month y 12 + 31 = (if is_leap y then 366 else 365)"
proof -
  have "[1..<12] = [1, 2, 3, 4, 5, 6, 7, 8, 9, 10, 11::nat]" by (simp add: upt_conv_Cons)
  then show ?thesis by (simp add: days_before_month.simps days_in_month_def)
qed

lemma month_end_ordinal:
  assumes "valid_datetime now"
  shows "period_end Monthly now =
    (ordinal (year now) (month now) 1 - 1 + int (days_in_month (year now) (month now))) * us_per_day"
proof (cases "month now < 12")
  case True
  then show ?thesis
    using assms by (simp add: period_end_def ordinal_def days_before_month_Suc valid_datetime_def)
next
  case False
  then have "month now = 12" using assms by (simp add: valid_datetime_def)
  then show ?thesis
    using days_before_month_13 [of "year now"]
    by (simp add: period_end_def ordinal_def days_before_year_Suc days_in_month_def)
qed

lemma same_label_same_end:
  assumes "valid_datetime a" "valid_datetime b" "period_label p a = period_label p b"
  shows "period_end p a = period_end p b"
proof (cases p)
  case Monthly
  have "pad 4 (year a) = pad 4 (year b) \<and> pad 2 (month a) = pad 2 (month b)"
    using assms(3) Monthly pad_no_dash by (intro dash_split) (auto simp: period_label_def)
  then show ?thesis using Monthly by (simp add: period_end_def)
next
  case Daily
  have 1: "pad 4 (year a) = pad 4 (year b) \<and>
      pad 2 (month a) @ [45] @ pad 2 (day a) = pad 2 (month b) @ [45] @ pad 2 (day b)"
    using assms(3) Daily pad_no_dash by (intro dash_split) (auto simp: period_label_def)
  then have "pad 2 (month a) = pad 2 (month b) \<and> pad 2 (day a) = pad 2 (day b)"
    using pad_no_dash by (intro dash_split) auto
  with 1 show ?thesis using Daily by (simp add: period_end_def)
qed

lemma period_end_after:
  assumes "valid_datetime now"
  shows "instant now < period_end p now"
proof (cases p)
  case Daily
  then show ?thesis
    using assms by (simp add: period_end_def instant_def valid_datetime_def algebra_simps)
next
  case Monthly
  have "(int (day now) - 1) * us_per_day + tod now
      < int (days_in_month (year now) (month now)) * us_per_day"
  proof -
    have "tod now < us_per_day" using assms by (simp add: valid_datetime_def)
    then have "(int (day now) - 1) * us_per_day + tod now < int (day now) * us_per_day"
      by (simp add: algebra_simps)
    also have "\<dots> \<le> int (days_in_month (year now) (month now)) * us_per_day"
      using assms by (intro mult_right_mono) (simp_all add: valid_datetime_def us_per_day_def)
    finally show ?thesis .
  qed
  then show ?thesis
    using Monthly month_end_ordinal [OF assms]
    by (simp add: instant_def ordinal_def algebra_simps)
qed

subsection \<open>Properties\<close>

text \<open>A period counter neither dies early nor leaks into the next period: at every later moment
  of the same month (or day) the counter written now, with the life time computed now, still
  exists, its life time ends at most one day after the period, and a moment with a different
  period end has a different key label.\<close>

theorem counter_outlives_its_period:
  assumes "valid_datetime now" "valid_datetime later" "period_label p later = period_label p now"
  shows "instant later < instant now + period_ttl p now * us_per_second
    \<and> instant now + period_ttl p now * us_per_second \<le> period_end p now + us_per_day"
proof -
  have l: "instant later < period_end p now"
    using period_end_after [OF assms(2), of p] same_label_same_end [OF assms(2,1,3)] by simp
  let ?x = "period_end p now + period_grace - instant now"
  have "?x div us_per_second * us_per_second \<le> ?x" "?x - us_per_second < ?x div us_per_second * us_per_second"
    using mult_div_mod_eq [of us_per_second ?x] pos_mod_bound [of us_per_second ?x]
      pos_mod_sign [of us_per_second ?x]
    by (simp_all add: us_per_second_def)
  then show ?thesis
    using l by (simp add: period_ttl_def period_grace_def us_per_day_def us_per_second_def)
qed

definition sample_now :: datetime where
  "sample_now = \<lparr>year = 2026, month = 12, day = 31, tod = 5\<rparr>"

theorem counter_outlives_its_period_witness:
  "instant (sample_now\<lparr>tod := 7\<rparr>) < instant sample_now + period_ttl Monthly sample_now * us_per_second"
proof -
  have "valid_datetime sample_now" "valid_datetime (sample_now\<lparr>tod := 7\<rparr>)"
    by (simp_all add: valid_datetime_def sample_now_def days_in_month_def us_per_day_def)
  moreover have "period_label Monthly (sample_now\<lparr>tod := 7\<rparr>) = period_label Monthly sample_now"
    by (simp add: period_label_def)
  ultimately show ?thesis
    using counter_outlives_its_period [of sample_now "sample_now\<lparr>tod := 7\<rparr>" Monthly] by blast
qed

end
