(* ===== verification/Quota.thy ===== *)
theory Quota
  imports CounterStore Period "HOL-Library.AList"
begin

text \<open>
  \<open>backend/services/platform/quota.py\<close> with \<open>quota_thresholds\<close> of
  \<open>backend/services/platform/notifications.py\<close>: limits from the plan and the tenant's overrides,
  reservation, commit and release on the Redis counters, the pre-check, the reconciliation write
  and the threshold notification. What the database holds is the record \<open>quota_env\<close>; the Redis
  commands are a parameter. Lemmas: a reservation is granted exactly when it fits, its life cycle
  leaves the counter at the true value with an expiry, and concurrent reservations never oversell.
\<close>

subsection \<open>Text parsing\<close>

fun split_on :: "codepoint \<Rightarrow> ustring \<Rightarrow> ustring \<Rightarrow> ustring list" where
  "split_on sep cur [] = [cur]"
| "split_on sep cur (c # cs) =
     (if c = sep then cur # split_on sep [] cs else split_on sep (cur @ [c]) cs)"

text \<open>\<open>int(text)\<close> on ASCII text: surrounding white space, a sign, digits with single underscores
  between them.\<close>

fun parse_digits :: "nat \<Rightarrow> bool \<Rightarrow> ustring \<Rightarrow> nat option" where
  "parse_digits acc after_digit [] = (if after_digit then Some acc else None)"
| "parse_digits acc after_digit (c # cs) =
     (if 48 \<le> c \<and> c \<le> 57 then parse_digits (10 * acc + (c - 48)) True cs
      else if c = 95 \<and> after_digit then parse_digits acc False cs
      else None)"

definition parse_int :: "ustring \<Rightarrow> int option" where
  "parse_int t =
     (case strip t of
        [] \<Rightarrow> None
      | c # cs \<Rightarrow>
          if c = 45 then map_option (\<lambda>n. - int n) (parse_digits 0 False cs)
          else if c = 43 then map_option int (parse_digits 0 False cs)
          else map_option int (parse_digits 0 False (c # cs)))"

subsection \<open>Resources and limits\<close>

definition tokens_month :: ustring where "tokens_month = lit ''tokens_month''"
definition messages_day :: ustring where "messages_day = lit ''messages_day''"
definition documents_res :: ustring where "documents_res = lit ''documents''"
definition storage_bytes :: ustring where "storage_bytes = lit ''storage_bytes''"
definition streams_res :: ustring where "streams_res = lit ''streams''"

definition resources :: "ustring list" where
  "resources = [tokens_month, messages_day, documents_res, storage_bytes, streams_res]"

definition is_month :: "ustring \<Rightarrow> bool" where "is_month r \<longleftrightarrow> r = tokens_month"
definition is_day :: "ustring \<Rightarrow> bool" where "is_day r \<longleftrightarrow> r = messages_day"
definition is_db_backed :: "ustring \<Rightarrow> bool" where "is_db_backed r \<longleftrightarrow> r = documents_res \<or> r = storage_bytes"
definition is_gauge :: "ustring \<Rightarrow> bool" where "is_gauge r \<longleftrightarrow> r = streams_res"

lemmas resource_defs =
  tokens_month_def messages_day_def documents_res_def storage_bytes_def streams_res_def
  is_month_def is_day_def is_db_backed_def is_gauge_def

definition gauge_ttl_seconds :: int where "gauge_ttl_seconds = 3600"
definition notify_guard_ttl_seconds :: int where "notify_guard_ttl_seconds = 40 * 24 * 3600"

definition parse_plan_entry :: "ustring \<Rightarrow> (ustring \<times> int) list \<Rightarrow> (ustring \<times> int) list" where
  "parse_plan_entry raw plan_limits =
     (let entry = strip raw in
      if entry = [] then plan_limits
      else let name = takeWhile (\<lambda>c. c \<noteq> 58) entry;
               value_part = drop (length name + 1) entry
           in case parse_int (strip value_part) of
                None \<Rightarrow> plan_limits
              | Some v \<Rightarrow> if v < 0 then plan_limits else AList.update (strip name) v plan_limits)"

definition parse_plan :: "ustring \<Rightarrow> (ustring \<times> int) list" where
  "parse_plan raw = fold parse_plan_entry (split_on 59 [] raw) []"

type_synonym limits = "ustring \<Rightarrow> int option"

definition apply_override :: "ustring \<times> json \<Rightarrow> limits \<Rightarrow> limits" where
  "apply_override kv caps =
     (case kv of (name, v) \<Rightarrow>
        if name \<notin> set resources then caps
        else case v of
               JNull \<Rightarrow> caps(name := None)
             | JInt n \<Rightarrow> if 0 \<le> n then caps(name := Some n) else caps
             | _ \<Rightarrow> caps)"

definition resolve_limits :: "ustring \<Rightarrow> (ustring \<times> json) list \<Rightarrow> limits" where
  "resolve_limits plan_text overrides =
     fold apply_override overrides
       (\<lambda>name. if name \<in> set resources then map_of (parse_plan plan_text) name else None)"

record quota_env =
  plan_text :: ustring
  tenant_settings :: "uuid128 \<Rightarrow> (ustring \<times> json) list option"
  active_count :: "uuid128 \<Rightarrow> int"
  active_size_bytes :: "uuid128 \<Rightarrow> int"
  thresholds_text :: ustring

definition limits_of :: "quota_env \<Rightarrow> uuid128 \<Rightarrow> limits" where
  "limits_of env tenant =
     (case tenant_settings env tenant of
        None \<Rightarrow> resolve_limits (plan_text env) []
      | Some settings \<Rightarrow>
          (case jget settings ''quota'' of
             Some (JObj overrides) \<Rightarrow> resolve_limits (plan_text env) overrides
           | _ \<Rightarrow> resolve_limits (plan_text env) []))"

definition db_used :: "quota_env \<Rightarrow> uuid128 \<Rightarrow> ustring \<Rightarrow> int" where
  "db_used env tenant resource =
     (if resource = documents_res then active_count env tenant else active_size_bytes env tenant)"

subsection \<open>Keys and periods\<close>

definition resource_period :: "ustring \<Rightarrow> period" where
  "resource_period resource = (if is_month resource then Monthly else Daily)"

definition key_and_ttl :: "uuid128 \<Rightarrow> ustring \<Rightarrow> datetime \<Rightarrow> ustring \<times> int" where
  "key_and_ttl tenant resource now =
     (if is_gauge resource then (tenant_key tenant [lit ''quota'', resource], gauge_ttl_seconds)
      else (tenant_key tenant [lit ''quota'', resource, period_label (resource_period resource) now],
            period_ttl (resource_period resource) now))"

subsection \<open>Notifications\<close>

definition threshold_value :: "ustring \<Rightarrow> int option" where
  "threshold_value raw =
     (case parse_int (strip raw) of
        Some v \<Rightarrow> if 0 < v \<and> v \<le> 100 then Some v else None
      | None \<Rightarrow> None)"

definition quota_thresholds :: "ustring \<Rightarrow> int list" where
  "quota_thresholds raw =
     sort (remdups (concat (map (\<lambda>e. case threshold_value e of None \<Rightarrow> [] | Some v \<Rightarrow> [v])
       (split_on 59 [] raw))))"

record quota_notice =
  n_tenant :: uuid128
  n_resource :: ustring
  n_used :: int
  n_limit :: int
  n_period :: ustring

record 'r quota_state =
  redis :: 'r
  notices :: "quota_notice list"

definition max_int :: "int list \<Rightarrow> int" where
  "max_int xs = foldr max xs 0"

definition maybe_notify ::
  "quota_env \<Rightarrow> 'r counter_ops \<Rightarrow> datetime \<Rightarrow> uuid128 \<Rightarrow> ustring \<Rightarrow> int \<Rightarrow> int
   \<Rightarrow> 'r quota_state \<Rightarrow> 'r quota_state" where
  "maybe_notify env R now tenant resource used cap st =
     (if is_gauge resource then st
      else let ts = quota_thresholds (thresholds_text env) in
           if cap \<le> 0 \<or> ts = [] \<or> used * 100 < hd ts * cap then st
           else let label = period_label (resource_period resource) now;
                    crossed = max_int (filter (\<lambda>t. t * cap \<le> used * 100) ts);
                    guard_key = tenant_key tenant
                      [lit ''quota'', lit ''notified'', resource, label, decimal (nat crossed)];
                    (r', fresh) = set_nx_ex R (redis st) guard_key 1 notify_guard_ttl_seconds
                in if \<not> fresh then st\<lparr>redis := r'\<rparr>
                   else \<lparr>redis = r',
                         notices = notices st @
                           [\<lparr>n_tenant = tenant, n_resource = resource, n_used = min used cap,
                             n_limit = cap, n_period = label\<rparr>]\<rparr>)"

subsection \<open>Reserving\<close>

record reservation =
  r_tenant :: uuid128
  r_resource :: ustring
  r_amount :: int
  r_key :: ustring
  r_ttl :: int

record quota_exceeded =
  e_resource :: ustring
  e_limit :: int
  e_used :: int
  e_resets_at :: "int option"
  e_needed :: "int option"
  e_remaining :: "int option"

definition exceeded :: "ustring \<Rightarrow> int \<Rightarrow> int \<Rightarrow> int option \<Rightarrow> quota_exceeded" where
  "exceeded resource cap used resets =
     \<lparr>e_resource = resource, e_limit = cap, e_used = used, e_resets_at = resets, e_needed = None,
      e_remaining = None\<rparr>"

definition check_and_reserve ::
  "quota_env \<Rightarrow> 'r counter_ops \<Rightarrow> datetime \<Rightarrow> uuid128 \<Rightarrow> ustring \<Rightarrow> int \<Rightarrow> 'r quota_state
   \<Rightarrow> (quota_exceeded + reservation option) \<times> 'r quota_state" where
  "check_and_reserve env R now tenant resource amount st =
     (case limits_of env tenant resource of
        None \<Rightarrow> (Inr None, st)
      | Some cap \<Rightarrow>
          if is_db_backed resource
          then let used = db_used env tenant resource;
                   st1 = maybe_notify env R now tenant resource (used + amount) cap st
               in if cap < used + amount then (Inl (exceeded resource cap used None), st1)
                  else (Inr None, st1)
          else let (key, ttl) = key_and_ttl tenant resource now;
                   (r1, used_after) = incrby R (redis st) key amount;
                   r2 = expire R r1 key ttl;
                   st1 = maybe_notify env R now tenant resource used_after cap (st\<lparr>redis := r2\<rparr>)
               in if cap < used_after
                  then (Inl (exceeded resource cap (used_after - amount)
                               (if is_gauge resource then None
                                else Some (period_end (resource_period resource) now))),
                        st1\<lparr>redis := fst (decrby R (redis st1) key amount)\<rparr>)
                  else (Inr (Some \<lparr>r_tenant = tenant, r_resource = resource, r_amount = amount,
                                   r_key = key, r_ttl = ttl\<rparr>), st1))"

definition check_headroom ::
  "quota_env \<Rightarrow> 'r counter_ops \<Rightarrow> datetime \<Rightarrow> uuid128 \<Rightarrow> ustring \<Rightarrow> int \<Rightarrow> 'r quota_state
   \<Rightarrow> quota_exceeded + unit" where
  "check_headroom env R now tenant resource amount st =
     (if amount \<le> 0 then Inr ()
      else case limits_of env tenant resource of
        None \<Rightarrow> Inr ()
      | Some cap \<Rightarrow>
          let used = (if is_db_backed resource then db_used env tenant resource
                      else counter R (redis st) (fst (key_and_ttl tenant resource now)))
          in if cap < used + amount
             then Inl \<lparr>e_resource = resource, e_limit = cap, e_used = used,
                       e_resets_at = (if is_month resource \<or> is_day resource
                                      then Some (period_end (resource_period resource) now) else None),
                       e_needed = Some amount, e_remaining = Some (max (cap - used) 0)\<rparr>
             else Inr ())"

definition keep_expiry :: "'r counter_ops \<Rightarrow> reservation \<Rightarrow> 'r \<Rightarrow> 'r" where
  "keep_expiry R res r = expire_nx R r (r_key res) (r_ttl res)"

definition commit :: "'r counter_ops \<Rightarrow> reservation \<Rightarrow> int option \<Rightarrow> 'r \<Rightarrow> 'r" where
  "commit R res actual r =
     (case actual of
        None \<Rightarrow> r
      | Some n \<Rightarrow>
          if n = r_amount res then r
          else let (r1, adjusted) = incrby R r (r_key res) (n - r_amount res);
                   r2 = (if adjusted < 0 then fst (incrby R r1 (r_key res) (- adjusted)) else r1)
               in keep_expiry R res r2)"

definition release :: "'r counter_ops \<Rightarrow> reservation \<Rightarrow> 'r \<Rightarrow> 'r" where
  "release R res r =
     (let (r1, left) = decrby R r (r_key res) (r_amount res);
          r2 = (if left < 0 then fst (incrby R r1 (r_key res) (- left)) else r1)
      in keep_expiry R res r2)"

definition correct :: "'r counter_ops \<Rightarrow> datetime \<Rightarrow> uuid128 \<Rightarrow> ustring \<Rightarrow> int \<Rightarrow> 'r \<Rightarrow> 'r" where
  "correct R now tenant resource v r =
     (let (key, ttl) = key_and_ttl tenant resource now in set_ex R r key (max v 0) ttl)"

record quota_status =
  s_resource :: ustring
  s_limit :: "int option"
  s_used :: int
  s_remaining :: "int option"
  s_resets_at :: "int option"

definition status :: "quota_env \<Rightarrow> 'r counter_ops \<Rightarrow> datetime \<Rightarrow> uuid128 \<Rightarrow> 'r \<Rightarrow> quota_status list" where
  "status env R now tenant r =
     map (\<lambda>resource.
       let used = (if is_db_backed resource then db_used env tenant resource
                   else counter R r (fst (key_and_ttl tenant resource now)));
           cap = limits_of env tenant resource
       in \<lparr>s_resource = resource, s_limit = cap, s_used = used,
           s_remaining = map_option (\<lambda>l. max (l - used) 0) cap,
           s_resets_at = (if is_month resource \<or> is_day resource
                          then Some (period_end (resource_period resource) now) else None)\<rparr>) resources"

subsection \<open>Keys: lemmas\<close>

lemma quota_key_prefix:
  "tenant_key tenant (lit ''quota'' # x # xs) =
     (lit ''t'' @ lit '':'' @ uuid_text tenant @ lit '':'' @ lit ''quota'' @ lit '':'')
       @ join (lit '':'') (x # xs)"
  by (simp add: tenant_key_def)

definition counter_key :: "uuid128 \<Rightarrow> ustring \<Rightarrow> datetime \<Rightarrow> ustring" where
  "counter_key tenant resource now = fst (key_and_ttl tenant resource now)"

lemma guard_key_differs:
  assumes "resource \<in> set resources"
  shows "tenant_key tenant (lit ''quota'' # lit ''notified'' # xs) \<noteq> counter_key tenant resource now"
proof
  assume eq: "tenant_key tenant (lit ''quota'' # lit ''notified'' # xs) = counter_key tenant resource now"
  obtain ys where k: "counter_key tenant resource now = tenant_key tenant (lit ''quota'' # resource # ys)"
    by (cases "is_gauge resource") (auto simp: counter_key_def key_and_ttl_def)
  obtain a b where "join (lit '':'') (lit ''notified'' # xs) = lit ''notified'' @ a"
    "join (lit '':'') (resource # ys) = resource @ b"
    using join_Cons_split by metis
  then have "lit ''notified'' @ a = resource @ b"
    using eq unfolding k quota_key_prefix by (simp only: same_append_eq)
  then show False
    using assms by (auto simp: resources_def resource_defs lit_def)
qed

lemma key_and_ttl_pos:
  assumes "valid_datetime now"
  shows "0 < snd (key_and_ttl tenant resource now)"
proof -
  have "us_per_second \<le> period_end p now + period_grace - instant now" for p
    using period_end_after [OF assms, of p]
    by (simp add: period_grace_def us_per_day_def us_per_second_def)
  then have "0 < period_ttl p now" for p
    using pos_imp_zdiv_pos_iff [of us_per_second] by (simp add: period_ttl_def us_per_second_def)
  then show ?thesis by (simp add: key_and_ttl_def gauge_ttl_seconds_def)
qed

lemma maybe_notify_store:
  assumes "store_ok R" "resource \<in> set resources"
  shows "counter R (redis (maybe_notify env R now tenant resource used cap st)) (counter_key tenant resource now) =
      counter R (redis st) (counter_key tenant resource now)"
    and "get_int R (redis (maybe_notify env R now tenant resource used cap st)) (counter_key tenant resource now) =
      get_int R (redis st) (counter_key tenant resource now)"
    and "time_left R (redis (maybe_notify env R now tenant resource used cap st)) (counter_key tenant resource now) =
      time_left R (redis st) (counter_key tenant resource now)"
proof -
  have t: "0 < notify_guard_ttl_seconds" by (simp add: notify_guard_ttl_seconds_def)
  note set_laws [OF assms(1) t] and ne = guard_key_differs [OF assms(2), of tenant]
  then show "get_int R (redis (maybe_notify env R now tenant resource used cap st)) (counter_key tenant resource now) =
      get_int R (redis st) (counter_key tenant resource now)"
    "time_left R (redis (maybe_notify env R now tenant resource used cap st)) (counter_key tenant resource now) =
      time_left R (redis st) (counter_key tenant resource now)"
    using ne [symmetric] by (auto simp: maybe_notify_def Let_def case_prod_beta)
  then show "counter R (redis (maybe_notify env R now tenant resource used cap st)) (counter_key tenant resource now) =
      counter R (redis st) (counter_key tenant resource now)"
    by (simp add: counter_def)
qed

subsection \<open>The life cycle of a reservation\<close>

definition counted :: "ustring \<Rightarrow> bool" where
  "counted resource \<longleftrightarrow> resource \<in> set resources \<and> \<not> is_db_backed resource"

lemma check_and_reserve_counted:
  fixes env R now tenant resource amount st
  defines "key \<equiv> counter_key tenant resource now"
    and "result \<equiv> check_and_reserve env R now tenant resource amount st"
  assumes "store_ok R" "valid_datetime now" "counted resource"
    and "limits_of env tenant resource = Some cap"
  shows "if counter R (redis st) key + amount \<le> cap
    then fst result = Inr (Some \<lparr>r_tenant = tenant, r_resource = resource, r_amount = amount, r_key = key,
           r_ttl = snd (key_and_ttl tenant resource now)\<rparr>)
      \<and> counter R (redis (snd result)) key = counter R (redis st) key + amount
      \<and> time_left R (redis (snd result)) key = Some (snd (key_and_ttl tenant resource now))
    else fst result = Inl (exceeded resource cap (counter R (redis st) key)
           (if is_gauge resource then None else Some (period_end (resource_period resource) now)))
      \<and> counter R (redis (snd result)) key = counter R (redis st) key
      \<and> time_left R (redis (snd result)) key = Some (snd (key_and_ttl tenant resource now))"
proof -
  have r: "resource \<in> set resources" "\<not> is_db_backed resource"
    using assms(5) by (auto simp: counted_def)
  have ttl: "0 < snd (key_and_ttl tenant resource now)" using assms(4) by (rule key_and_ttl_pos)
  note laws = incrby_laws [OF assms(3)] expire_laws [OF assms(3) ttl]
  note notify = maybe_notify_store [OF assms(3) r(1), of _ now tenant, unfolded counter_key_def]
  show ?thesis
    using assms(6) r(2) unfolding result_def check_and_reserve_def key_def counter_key_def
    by (simp add: Let_def case_prod_beta laws notify decrby_def)
qed

lemma commit_counter:
  assumes "store_ok R" "0 < r_ttl res"
  shows "counter R (commit R res (Some n) r) (r_key res) =
      (if n = r_amount res then counter R r (r_key res)
       else max 0 (counter R r (r_key res) + n - r_amount res))"
    and "time_left R r (r_key res) \<noteq> None \<Longrightarrow> time_left R (commit R res (Some n) r) (r_key res) \<noteq> None"
    and "n \<noteq> r_amount res \<Longrightarrow> time_left R (commit R res (Some n) r) (r_key res) \<noteq> None"
  by (auto simp: commit_def keep_expiry_def Let_def case_prod_beta incrby_laws [OF assms(1)]
        expire_laws [OF assms])

lemma release_counter:
  assumes "store_ok R" "0 < r_ttl res"
  shows "counter R (release R res r) (r_key res) = max 0 (counter R r (r_key res) - r_amount res)"
    and "time_left R (release R res r) (r_key res) \<noteq> None"
  by (auto simp: release_def decrby_def keep_expiry_def Let_def case_prod_beta incrby_laws [OF assms(1)]
        expire_laws [OF assms])

subsection \<open>Concurrent reservations\<close>

text \<open>Redis executes one command at a time, so between the \<open>INCRBY\<close> of a reservation and the check of
  its result any number of other reservations may run. A request is one of the phases below; the
  steps are the commands of \<open>check_and_reserve\<close> and \<open>release\<close> on one counter key.\<close>

datatype phase =
    Waiting int
  | Counted int int
  | Granted int
  | Refused
  | Returned

definition phase_counted :: "phase \<Rightarrow> int" where
  "phase_counted p = (case p of Counted used amount \<Rightarrow> amount | Granted amount \<Rightarrow> amount | _ \<Rightarrow> 0)"

definition phase_granted :: "phase \<Rightarrow> int" where
  "phase_granted p = (case p of Granted amount \<Rightarrow> amount | _ \<Rightarrow> 0)"

definition phase_committed :: "int \<Rightarrow> phase \<Rightarrow> int" where
  "phase_committed cap p =
     (case p of Counted used amount \<Rightarrow> if used \<le> cap then amount else 0 | Granted amount \<Rightarrow> amount | _ \<Rightarrow> 0)"

inductive race ::
  "'r counter_ops \<Rightarrow> ustring \<Rightarrow> int \<Rightarrow> 'r \<times> phase list \<Rightarrow> 'r \<times> phase list \<Rightarrow> bool"
  for R :: "'r counter_ops" and key :: ustring and cap :: int where
  race_count:
    "i < length ps \<Longrightarrow> ps ! i = Waiting amount \<Longrightarrow> incrby R r key amount = (r', used)
     \<Longrightarrow> race R key cap (r, ps) (r', ps[i := Counted used amount])"
| race_grant:
    "i < length ps \<Longrightarrow> ps ! i = Counted used amount \<Longrightarrow> \<not> cap < used
     \<Longrightarrow> race R key cap (r, ps) (r, ps[i := Granted amount])"
| race_refuse:
    "i < length ps \<Longrightarrow> ps ! i = Counted used amount \<Longrightarrow> cap < used \<Longrightarrow> decrby R r key amount = (r', left)
     \<Longrightarrow> race R key cap (r, ps) (r', ps[i := Refused])"
| race_release:
    "i < length ps \<Longrightarrow> ps ! i = Granted amount \<Longrightarrow> 0 < ttl
     \<Longrightarrow> race R key cap
           (r, ps) (release R \<lparr>r_tenant = t, r_resource = res, r_amount = amount, r_key = key, r_ttl = ttl\<rparr> r,
                    ps[i := Returned])"

inductive_cases race_elim: "race R key cap (r, ps) s'"

definition phase_ok :: "phase \<Rightarrow> bool" where
  "phase_ok p \<longleftrightarrow>
     (case p of Waiting a \<Rightarrow> 0 \<le> a | Counted u a \<Rightarrow> 0 \<le> a | Granted a \<Rightarrow> 0 \<le> a | _ \<Rightarrow> True)"

definition race_ok :: "'r counter_ops \<Rightarrow> ustring \<Rightarrow> int \<Rightarrow> int \<Rightarrow> 'r \<times> phase list \<Rightarrow> bool" where
  "race_ok R key cap base s \<longleftrightarrow>
     counter R (fst s) key = base + sum_list (map phase_counted (snd s))
     \<and> list_all phase_ok (snd s)
     \<and> base + sum_list (map (phase_committed cap) (snd s)) \<le> max base cap"

lemma sum_list_upd:
  "i < length xs \<Longrightarrow> sum_list (map f (xs[i := x])) = sum_list (map f xs) - f (xs ! i) + (f x :: int)"
  by (induction xs arbitrary: i) (auto split: nat.splits)

lemma list_all_upd: "list_all P xs \<Longrightarrow> P x \<Longrightarrow> list_all P (xs[i := x])"
  by (auto simp: list_all_iff dest: set_update_subset_insert [THEN subsetD])

lemma counted_nonneg:
  "list_all phase_ok ps
   \<Longrightarrow> 0 \<le> sum_list (map phase_granted ps)
       \<and> sum_list (map (phase_committed cap) ps) \<le> sum_list (map phase_counted ps)
       \<and> sum_list (map phase_granted ps) \<le> sum_list (map (phase_committed cap) ps)"
  by (induction ps)
     (auto simp: phase_ok_def phase_counted_def phase_committed_def phase_granted_def split: phase.splits)

lemma counted_ge: "list_all phase_ok ps \<Longrightarrow> i < length ps \<Longrightarrow> phase_counted (ps ! i) \<le> sum_list (map phase_counted ps)"
proof (induction ps arbitrary: i)
  case (Cons p ps)
  have "0 \<le> sum_list (map phase_counted ps)"
    using Cons.prems counted_nonneg [of ps 0] by simp
  moreover have "0 \<le> phase_counted p"
    using Cons.prems by (auto simp: phase_ok_def phase_counted_def split: phase.splits)
  ultimately show ?case using Cons by (cases i) (auto intro: add_increasing)
qed simp

lemma race_ok_step:
  assumes "store_ok R" "0 \<le> base" "race R key cap s s'" "race_ok R key cap base s"
  shows "race_ok R key cap base s'"
  using assms(3,4)
proof (cases rule: race.cases)
  case (race_count i ps amount r r' used)
  have ok: "phase_ok (ps ! i)" "list_all phase_ok ps"
    using assms(4) race_count by (auto simp: race_ok_def list_all_length)
  have u: "used = counter R r key + amount" "counter R r' key = counter R r key + amount"
    using incrby_laws [OF assms(1), of r key amount] race_count(5) by simp_all
  show ?thesis
    using assms(4) race_count(1-4) ok u counted_nonneg [OF ok(2), of cap]
    by (auto simp: race_ok_def sum_list_upd list_all_upd phase_ok_def phase_counted_def
          phase_committed_def)
next
  case (race_grant i ps used amount r)
  have ok: "phase_ok (ps ! i)" "list_all phase_ok ps"
    using assms(4) race_grant by (auto simp: race_ok_def list_all_length)
  then show ?thesis
    using assms(4) race_grant
    by (auto simp: race_ok_def sum_list_upd list_all_upd phase_ok_def phase_counted_def
          phase_committed_def)
next
  case (race_refuse i ps used amount r r' left)
  then have c: "counter R r' key = counter R r key - amount"
    using incrby_laws(3) [OF assms(1), of r key "- amount" key] by (simp add: decrby_def)
  show ?thesis
    using assms(4) race_refuse(1-5) c
    by (auto simp: race_ok_def sum_list_upd list_all_upd phase_ok_def phase_counted_def
          phase_committed_def)
next
  case (race_release i ps amount ttl r t res)
  have ok: "phase_ok (ps ! i)" "list_all phase_ok ps"
    using assms(4) race_release by (auto simp: race_ok_def list_all_length)
  have "amount \<le> sum_list (map phase_counted ps)"
    using counted_ge [OF ok(2) race_release(3)] race_release(4) by (simp add: phase_counted_def)
  then show ?thesis
    using assms(2,4) race_release ok
      release_counter(1) [OF assms(1), of "\<lparr>r_tenant = t, r_resource = res, r_amount = amount, r_key = key, r_ttl = ttl\<rparr>" r]
    by (auto simp: race_ok_def sum_list_upd list_all_upd phase_ok_def phase_counted_def
          phase_committed_def)
qed

lemma race_ok_reachable:
  assumes "store_ok R" "0 \<le> base" "(race R key cap)\<^sup>*\<^sup>* s s'" "race_ok R key cap base s"
  shows "race_ok R key cap base s'"
  using assms(3,4) by (induction rule: rtranclp_induct) (auto intro: race_ok_step [OF assms(1,2)])

subsection \<open>Limits\<close>

lemma fold_override:
  "distinct (map fst ovs) \<Longrightarrow> fold apply_override ovs caps name =
     (if name \<notin> set resources then caps name
      else case map_of ovs name of
             Some JNull \<Rightarrow> None
           | Some (JInt n) \<Rightarrow> if 0 \<le> n then Some n else caps name
           | _ \<Rightarrow> caps name)"
proof (induction ovs arbitrary: caps)
  case (Cons kv ovs)
  have "map_of ovs (fst kv) = None" using Cons.prems by (auto simp: map_of_eq_None_iff)
  moreover have "apply_override kv caps name = caps name" if "name \<noteq> fst kv"
    using that by (cases kv) (simp add: apply_override_def split: json.split)
  moreover have "apply_override kv caps name =
      (if name \<notin> set resources then caps name
       else case snd kv of JNull \<Rightarrow> None | JInt n \<Rightarrow> if 0 \<le> n then Some n else caps name | _ \<Rightarrow> caps name)"
    if "name = fst kv"
    using that by (cases kv) (simp add: apply_override_def split: json.split)
  ultimately show ?case
    using Cons by (cases kv; cases "name = fst kv") (simp_all split: option.split json.split)
qed simp

subsection \<open>Properties\<close>

text \<open>A reservation on a counter is granted exactly when it fits: with the counter at \<open>u\<close> and the
  limit \<open>cap\<close>, \<open>check_and_reserve\<close> of \<open>amount\<close> grants if \<open>u + amount \<le> cap\<close> and leaves the counter at
  \<open>u + amount\<close>, and otherwise reports the limit, the usage \<open>u\<close> and the end of the period and leaves
  the counter at \<open>u\<close>; in both cases the key has an expiry time.\<close>

theorem reservation_granted_iff_it_fits:
  assumes "store_ok R" "valid_datetime now" "counted resource" "limits_of env tenant resource = Some cap"
    and "counter R (redis st) (counter_key tenant resource now) = u"
    and "check_and_reserve env R now tenant resource amount st = (result, st')"
  shows "(u + amount \<le> cap \<longrightarrow> result = Inr (Some \<lparr>r_tenant = tenant, r_resource = resource, r_amount = amount,
            r_key = counter_key tenant resource now, r_ttl = snd (key_and_ttl tenant resource now)\<rparr>)
          \<and> counter R (redis st') (counter_key tenant resource now) = u + amount)
    \<and> (cap < u + amount \<longrightarrow> result = Inl (exceeded resource cap u
            (if is_gauge resource then None else Some (period_end (resource_period resource) now)))
          \<and> counter R (redis st') (counter_key tenant resource now) = u)
    \<and> time_left R (redis st') (counter_key tenant resource now) \<noteq> None"
  using check_and_reserve_counted [OF assms(1-4), of st amount] assms(5,6)
  by (auto split: if_splits)

definition sample_env :: quota_env where
  "sample_env =
     \<lparr>plan_text = lit ''streams:2;messages_day:200'', tenant_settings = (\<lambda>_. Some []),
      active_count = (\<lambda>_. 0), active_size_bytes = (\<lambda>_. 0), thresholds_text = []\<rparr>"

lemma sample_limit: "limits_of sample_env 7 streams_res = Some 2"
proof -
  have "parse_plan (lit ''streams:2;messages_day:200'') = [(lit ''streams'', 2), (lit ''messages_day'', 200)]"
    by (simp add: parse_plan_def parse_plan_entry_def parse_int_def lit_def strip_def lstrip_def
        rstrip_def is_space_def AList.update.simps)
  then show ?thesis
    by (simp add: limits_of_def sample_env_def jget_def resolve_limits_def resources_def streams_res_def)
qed

lemma sample_counted: "counted streams_res"
  by (simp add: counted_def resources_def resource_defs lit_def)

lemma sample_now_valid: "valid_datetime sample_now"
  by (simp add: valid_datetime_def sample_now_def days_in_month_def us_per_day_def)

theorem reservation_granted_iff_it_fits_witness:
  "\<exists>result st'. check_and_reserve sample_env mem_ops sample_now 7 streams_res 1
      \<lparr>redis = Map.empty, notices = []\<rparr> = (result, st')
    \<and> counter mem_ops (redis st') (counter_key 7 streams_res sample_now) = 1"
proof -
  have "counter mem_ops (Map.empty :: mem) (counter_key 7 streams_res sample_now) = 0"
    by (simp add: counter_def mem_ops_def)
  then show ?thesis
    using reservation_granted_iff_it_fits [OF mem_store_ok sample_now_valid sample_counted sample_limit,
        of "\<lparr>redis = Map.empty, notices = []\<rparr>" 0 1]
    by (cases "check_and_reserve sample_env mem_ops sample_now 7 streams_res 1 \<lparr>redis = Map.empty, notices = []\<rparr>")
       auto
qed



text \<open>C37. Concurrency never oversells: whatever the interleaving of the counting, granting, refusing
  and releasing steps of any number of requests on one counter that starts at \<open>base\<close>, the granted
  amounts together never take the usage over the limit (or over \<open>base\<close>, if that was already
  beyond it), the counter is the usage plus the requests still being checked, and once all
  requests have been answered it is exactly the usage.\<close>

theorem concurrent_reservations_never_oversell:
  assumes "store_ok R" "counter R r0 key = base" "0 \<le> base" "list_all (\<lambda>a. 0 \<le> a) amounts"
    and "(race R key cap)\<^sup>*\<^sup>* (r0, map Waiting amounts) (r, ps)"
  shows "base + sum_list (map phase_granted ps) \<le> max base cap
    \<and> counter R r key = base + sum_list (map phase_counted ps)
    \<and> (list_all (\<lambda>p. case p of Counted _ _ \<Rightarrow> False | _ \<Rightarrow> True) ps \<longrightarrow>
        counter R r key = base + sum_list (map phase_granted ps))"
proof -
  have z: "sum_list (map (phase_counted \<circ> Waiting) xs) = 0"
    "sum_list (map (phase_committed cap \<circ> Waiting) xs) = 0" for xs
    by (induction xs) (simp_all add: phase_counted_def phase_committed_def)
  have "race_ok R key cap base (r0, map Waiting amounts)"
    using assms(2,4) by (simp add: race_ok_def list_all_iff phase_ok_def z)
  from race_ok_reachable [OF assms(1,3,5) this]
  have ok: "race_ok R key cap base (r, ps)" .
  have "list_all (\<lambda>p. case p of Counted _ _ \<Rightarrow> False | _ \<Rightarrow> True) ps \<Longrightarrow>
      sum_list (map phase_counted ps) = sum_list (map phase_granted ps)"
    by (intro arg_cong [where f = sum_list] map_cong)
       (auto simp: list_all_iff phase_counted_def phase_granted_def split: phase.splits)
  then show ?thesis
    using ok counted_nonneg [of ps cap] by (auto simp: race_ok_def)
qed

theorem concurrent_reservations_never_oversell_witness:
  "\<exists>r ps. (race mem_ops [1] 1)\<^sup>*\<^sup>* (Map.empty, map Waiting [1, 1]) (r, ps)
    \<and> ps = [Counted 1 1, Counted 2 1] \<and> 0 + sum_list (map phase_granted ps) \<le> max 0 1"
proof -
  let ?r1 = "fst (incrby mem_ops Map.empty [1] 1)"
  let ?r2 = "fst (incrby mem_ops ?r1 [1] 1)"
  have "race mem_ops [1] 1 (Map.empty, [Waiting 1, Waiting 1]) (?r1, [Waiting 1, Waiting 1][0 := Counted 1 1])"
    by (rule race_count) (simp_all add: mem_ops_def)
  moreover have "race mem_ops [1] 1 (?r1, [Counted 1 1, Waiting 1]) (?r2, [Counted 1 1, Waiting 1][1 := Counted 2 1])"
    by (rule race_count) (simp_all add: mem_ops_def)
  ultimately have s: "(race mem_ops [1] 1)\<^sup>*\<^sup>* (Map.empty, map Waiting [1, 1]) (?r2, [Counted 1 1, Counted 2 1])"
    by (auto intro: converse_rtranclp_into_rtranclp)
  have "counter mem_ops Map.empty [1] = 0" by (simp add: counter_def mem_ops_def)
  from concurrent_reservations_never_oversell [OF mem_store_ok this _ _ s] s show ?thesis by auto
qed

text \<open>A tenant's override changes the limit of its own resource only, and only when it is null
  (no limit) or a non-negative integer; any other value leaves the plan's limit in force.\<close>

theorem limits_resolve:
  assumes "distinct (map fst overrides)" and "name \<in> set resources"
  shows "resolve_limits plan overrides name =
    (case map_of overrides name of
       Some JNull \<Rightarrow> None
     | Some (JInt n) \<Rightarrow> if 0 \<le> n then Some n else map_of (parse_plan plan) name
     | _ \<Rightarrow> map_of (parse_plan plan) name)"
  using assms by (simp add: resolve_limits_def fold_override)

theorem limits_resolve_witness:
  "resolve_limits [] [(streams_res, JInt 5), (tokens_month, JStr [])] streams_res = Some 5"
  by (subst limits_resolve) (simp_all add: resources_def resource_defs lit_def)

end
