(* ===== verification/UsageAccounting.thy ===== *)
theory UsageAccounting
  imports Quota
begin

text \<open>
  \<open>backend/services/platform/pricing.py\<close>, \<open>usage.py\<close>, \<open>reconciliation.py\<close> and the roll-up of
  \<open>analytics.py\<close>, with the queries of \<open>backend/repositories/platform.py\<close> they use. Tables are lists
  and maps of rows. \<open>Decimal\<close> values are rationals (sums and products of the sizes at hand are
  exact in its 28 digits) or the special values. Lemmas: a broken price entry loses itself only,
  cost is rounded to the column's scale, reconciliation makes the counters equal to the facts,
  the roll-up is a recomputation of the day from the log.
\<close>

subsection \<open>Decimal values\<close>

datatype decimal_value = Finite rat | Infinite bool | NaN

definition digits_value :: "ustring \<Rightarrow> nat option" where
  "digits_value s =
     (if s \<noteq> [] \<and> list_all (\<lambda>c. 48 \<le> c \<and> c \<le> 57) s then Some (undecimal 0 s) else None)"

definition lower :: "ustring \<Rightarrow> ustring" where
  "lower s = map (\<lambda>c. if 65 \<le> c \<and> c \<le> 90 then c + 32 else c) s"

text \<open>Mantissa with an optional point, and an optional exponent.\<close>

definition parse_mantissa :: "ustring \<Rightarrow> rat option" where
  "parse_mantissa s =
     (let whole = takeWhile (\<lambda>c. c \<noteq> 46) s; fraction = drop (length whole + 1) s in
      if whole = s then map_option of_nat (digits_value s)
      else if whole = [] \<and> fraction = [] then None
      else case (if whole = [] then Some 0 else digits_value whole,
                 if fraction = [] then Some 0 else digits_value fraction) of
             (Some w, Some f) \<Rightarrow> Some (of_nat w + of_nat f / 10 ^ length fraction)
           | _ \<Rightarrow> None)"

definition parse_unsigned :: "ustring \<Rightarrow> decimal_value option" where
  "parse_unsigned s =
     (if s = lit ''nan'' \<or> s = lit ''snan'' then Some NaN
      else if s = lit ''inf'' \<or> s = lit ''infinity'' then Some (Infinite False)
      else let mantissa = takeWhile (\<lambda>c. c \<noteq> 101) s; rest = drop (length mantissa + 1) s in
           if mantissa = s then map_option Finite (parse_mantissa s)
           else case parse_mantissa mantissa of
                  None \<Rightarrow> None
                | Some x \<Rightarrow>
                    if rest \<noteq> [] \<and> hd rest = 45
                    then map_option (\<lambda>n. Finite (x / 10 ^ n)) (digits_value (tl rest))
                    else map_option (\<lambda>n. Finite (x * 10 ^ n))
                           (digits_value (if rest \<noteq> [] \<and> hd rest = 43 then tl rest else rest)))"

definition negate :: "decimal_value \<Rightarrow> decimal_value" where
  "negate d = (case d of Finite x \<Rightarrow> Finite (- x) | Infinite neg \<Rightarrow> Infinite (\<not> neg) | NaN \<Rightarrow> NaN)"

definition parse_decimal :: "ustring \<Rightarrow> decimal_value option" where
  "parse_decimal t =
     (let s = filter (\<lambda>c. c \<noteq> 95) (lower (strip t)) in
      if s \<noteq> [] \<and> hd s = 45 then map_option negate (parse_unsigned (tl s))
      else parse_unsigned (if s \<noteq> [] \<and> hd s = 43 then tl s else s))"

subsection \<open>Prices\<close>

record model_price =
  prompt_usd :: decimal_value
  completion_usd :: decimal_value

datatype price_entry = Blank | Rejected | Raises | Price ustring model_price

text \<open>Comparing a NaN with 0 raises \<open>InvalidOperation\<close>; that comparison is outside the \<open>try\<close>.\<close>

definition below_zero :: "decimal_value \<Rightarrow> bool option" where
  "below_zero d = (case d of Finite x \<Rightarrow> Some (x < 0) | Infinite neg \<Rightarrow> Some neg | NaN \<Rightarrow> None)"

definition split_last :: "codepoint \<Rightarrow> ustring \<Rightarrow> ustring \<times> ustring" where
  "split_last sep s =
     (let tail = rev (takeWhile (\<lambda>c. c \<noteq> sep) (rev s)) in
      if tail = s then ([], s) else (take (length s - length tail - 1) s, tail))"

definition parse_price_entry :: "ustring \<Rightarrow> price_entry" where
  "parse_price_entry raw =
     (let entry = strip raw in
      if entry = [] then Blank
      else let (model, price_part) = split_last 58 entry;
               prompt_part = takeWhile (\<lambda>c. c \<noteq> 47) price_part;
               completion_part = drop (length prompt_part + 1) price_part
           in if strip model = [] \<or> prompt_part = price_part then Rejected
              else case (parse_decimal (strip prompt_part), parse_decimal (strip completion_part)) of
                     (Some p, Some c) \<Rightarrow>
                       (case below_zero p of
                          None \<Rightarrow> Raises
                        | Some True \<Rightarrow> Rejected
                        | Some False \<Rightarrow>
                            (case below_zero c of
                               None \<Rightarrow> Raises
                             | Some True \<Rightarrow> Rejected
                             | Some False \<Rightarrow>
                                 Price (strip model) \<lparr>prompt_usd = p, completion_usd = c\<rparr>))
                   | _ \<Rightarrow> Rejected)"

fun collect_prices ::
  "ustring list \<Rightarrow> (ustring \<times> model_price) list \<Rightarrow> (ustring \<times> model_price) list option" where
  "collect_prices [] prices = Some prices"
| "collect_prices (e # es) prices =
     (case parse_price_entry e of
        Blank \<Rightarrow> collect_prices es prices
      | Rejected \<Rightarrow> collect_prices es prices
      | Raises \<Rightarrow> None
      | Price model p \<Rightarrow> collect_prices es (AList.update model p prices))"

definition parse_model_prices :: "ustring \<Rightarrow> (ustring \<times> model_price) list option" where
  "parse_model_prices raw = collect_prices (split_on 59 [] raw) []"

definition one_million :: rat where "one_million = 1000000"

text \<open>\<open>quantize\<close> to six digits, half to even.\<close>

definition round_half_even :: "rat \<Rightarrow> int" where
  "round_half_even x =
     (let f = \<lfloor>x\<rfloor>; d = x - of_int f in
      if d < 1 / 2 then f else if 1 / 2 < d then f + 1 else if even f then f else f + 1)"

definition quantize :: "rat \<Rightarrow> rat" where
  "quantize x = of_int (round_half_even (x * one_million)) / one_million"

text \<open>\<open>None\<close>: an exception (of the table, or of an infinite price in the arithmetic);
  \<open>Some None\<close>: no price for the model.\<close>

definition compute_cost :: "ustring \<Rightarrow> ustring \<Rightarrow> int \<Rightarrow> int \<Rightarrow> rat option option" where
  "compute_cost price_text model prompt_tokens completion_tokens =
     (case parse_model_prices price_text of
        None \<Rightarrow> None
      | Some prices \<Rightarrow>
          (case map_of prices model of
             None \<Rightarrow> Some None
           | Some price \<Rightarrow>
               (case (prompt_usd price, completion_usd price) of
                  (Finite p, Finite c) \<Rightarrow>
                    Some (Some (quantize ((of_int prompt_tokens * p + of_int completion_tokens * c) / one_million)))
                | _ \<Rightarrow> None)))"

subsection \<open>The usage log\<close>

record usage_event =
  ev_category :: ustring
  ev_model :: ustring
  ev_prompt :: int
  ev_request :: ustring
  ev_completion :: int
  ev_user :: "uuid128 option"
  ev_conversation :: "uuid128 option"

record usage_row =
  u_tenant :: uuid128
  u_category :: ustring
  u_model :: ustring
  u_prompt :: int
  u_completion :: int
  u_cost :: "rat option"
  u_request :: ustring
  u_user :: "uuid128 option"
  u_conversation :: "uuid128 option"
  u_created :: int

definition row_of_event :: "uuid128 \<Rightarrow> usage_event \<Rightarrow> rat option \<Rightarrow> int \<Rightarrow> usage_row" where
  "row_of_event tenant ev cost now =
     \<lparr>u_tenant = tenant, u_category = ev_category ev, u_model = ev_model ev, u_prompt = ev_prompt ev,
      u_completion = ev_completion ev, u_cost = cost, u_request = ev_request ev, u_user = ev_user ev,
      u_conversation = ev_conversation ev, u_created = now\<rparr>"

text \<open>\<open>UsageService.record\<close>: nothing escapes; \<open>insert_ok\<close> says whether the insert succeeds.\<close>

definition record_usage ::
  "ustring \<Rightarrow> (usage_row \<Rightarrow> bool) \<Rightarrow> int \<Rightarrow> uuid128 \<Rightarrow> usage_event \<Rightarrow> usage_row list \<Rightarrow> usage_row list" where
  "record_usage price_text insert_ok now tenant ev logs =
     (case compute_cost price_text (ev_model ev) (ev_prompt ev) (ev_completion ev) of
        None \<Rightarrow> logs
      | Some cost \<Rightarrow>
          let row = row_of_event tenant ev cost now in if insert_ok row then logs @ [row] else logs)"

definition llm_token_total :: "usage_row list \<Rightarrow> uuid128 \<Rightarrow> int \<Rightarrow> int" where
  "llm_token_total logs tenant since =
     (\<Sum>r \<leftarrow> filter (\<lambda>r. u_tenant r = tenant \<and> u_category r = lit ''llm'' \<and> since \<le> u_created r) logs.
        u_prompt r + u_completion r)"

subsection \<open>Roll-up\<close>

type_synonym bucket_key = "uuid128 \<times> int \<times> uuid128 option \<times> ustring \<times> ustring"

record bucket =
  b_requests :: nat
  b_prompt :: int
  b_completion :: int
  b_cost :: "rat option"

definition day_rows :: "usage_row list \<Rightarrow> uuid128 \<Rightarrow> int \<Rightarrow> usage_row list" where
  "day_rows logs tenant d =
     filter (\<lambda>r. u_tenant r = tenant \<and> d * us_per_day \<le> u_created r \<and> u_created r < (d + 1) * us_per_day) logs"

definition group_key :: "usage_row \<Rightarrow> uuid128 option \<times> ustring \<times> ustring" where
  "group_key r = (u_user r, u_category r, u_model r)"

definition sum_costs :: "rat option list \<Rightarrow> rat option" where
  "sum_costs cs =
     (let present = concat (map (\<lambda>c. case c of None \<Rightarrow> [] | Some x \<Rightarrow> [x]) cs)
      in if present = [] then None else Some (sum_list present))"

definition bucket_of :: "usage_row list \<Rightarrow> bucket" where
  "bucket_of rows =
     \<lparr>b_requests = length rows, b_prompt = sum_list (map u_prompt rows),
      b_completion = sum_list (map u_completion rows), b_cost = sum_costs (map u_cost rows)\<rparr>"

definition daily_buckets ::
  "usage_row list \<Rightarrow> uuid128 \<Rightarrow> int \<Rightarrow> ((uuid128 option \<times> ustring \<times> ustring) \<times> bucket) list" where
  "daily_buckets logs tenant d =
     (let rows = day_rows logs tenant d
      in map (\<lambda>k. (k, bucket_of (filter (\<lambda>r. group_key r = k) rows))) (remdups (map group_key rows)))"

type_synonym daily_table = "bucket_key \<Rightarrow> bucket option"

definition upsert_bucket ::
  "uuid128 \<Rightarrow> int \<Rightarrow> (uuid128 option \<times> ustring \<times> ustring) \<times> bucket \<Rightarrow> daily_table \<Rightarrow> daily_table" where
  "upsert_bucket tenant d kb table =
     (case kb of ((user, category, model), b) \<Rightarrow> table((tenant, d, user, category, model) \<mapsto> b))"

definition rollup_tenant ::
  "usage_row list \<Rightarrow> uuid128 \<Rightarrow> int \<Rightarrow> daily_table \<Rightarrow> daily_table \<times> nat" where
  "rollup_tenant logs tenant d table =
     (let buckets = daily_buckets logs tenant d
      in (fold (upsert_bucket tenant d) buckets table, length buckets))"

definition rollup_all :: "usage_row list \<Rightarrow> uuid128 list \<Rightarrow> int \<Rightarrow> daily_table \<Rightarrow> daily_table" where
  "rollup_all logs tenants today table =
     fold (\<lambda>t tbl. fst (rollup_tenant logs t today (fst (rollup_tenant logs t (today - 1) tbl)))) tenants table"

subsection \<open>Reconciliation\<close>

record message_row =
  m_tenant :: uuid128
  m_role :: ustring
  m_created :: int

definition assistant_count_since :: "message_row list \<Rightarrow> uuid128 \<Rightarrow> int \<Rightarrow> int" where
  "assistant_count_since msgs tenant since =
     int (length (filter (\<lambda>m. m_tenant m = tenant \<and> m_role m = lit ''assistant'' \<and> since \<le> m_created m) msgs))"

record fact =
  f_resource :: ustring
  f_monthly :: bool
  f_used :: int
  f_corrects_redis :: bool

type_synonym counter_rows = "uuid128 \<times> ustring \<times> bool \<times> int \<Rightarrow> (int \<times> int option) option"

definition month_start :: "datetime \<Rightarrow> int" where
  "month_start now = (ordinal (year now) (month now) 1 - 1) * us_per_day"

definition day_start :: "datetime \<Rightarrow> int" where
  "day_start now = (ordinal (year now) (month now) (day now) - 1) * us_per_day"

definition facts_of ::
  "quota_env \<Rightarrow> usage_row list \<Rightarrow> message_row list \<Rightarrow> datetime \<Rightarrow> uuid128 \<Rightarrow> fact list" where
  "facts_of env logs msgs now tenant =
     [\<lparr>f_resource = tokens_month, f_monthly = True,
       f_used = llm_token_total logs tenant (month_start now), f_corrects_redis = True\<rparr>,
      \<lparr>f_resource = messages_day, f_monthly = False,
       f_used = assistant_count_since msgs tenant (day_start now), f_corrects_redis = True\<rparr>,
      \<lparr>f_resource = documents_res, f_monthly = False, f_used = active_count env tenant,
       f_corrects_redis = False\<rparr>,
      \<lparr>f_resource = storage_bytes, f_monthly = False, f_used = active_size_bytes env tenant,
       f_corrects_redis = False\<rparr>]"

definition reconcile_fact ::
  "quota_env \<Rightarrow> 'r counter_ops \<Rightarrow> datetime \<Rightarrow> uuid128 \<Rightarrow> fact \<Rightarrow> 'r \<times> counter_rows \<Rightarrow> 'r \<times> counter_rows" where
  "reconcile_fact env R now tenant f st =
     (case st of (r, rows) \<Rightarrow>
        let start = (if f_monthly f then month_start now else day_start now);
            rows' = rows((tenant, f_resource f, f_monthly f, start) \<mapsto>
                      (f_used f, limits_of env tenant (f_resource f)))
        in (if f_corrects_redis f then correct R now tenant (f_resource f) (f_used f) r else r, rows'))"

definition reconcile_tenant ::
  "quota_env \<Rightarrow> 'r counter_ops \<Rightarrow> usage_row list \<Rightarrow> message_row list \<Rightarrow> datetime \<Rightarrow> uuid128
   \<Rightarrow> 'r \<times> counter_rows \<Rightarrow> 'r \<times> counter_rows" where
  "reconcile_tenant env R logs msgs now tenant st =
     fold (reconcile_fact env R now tenant) (facts_of env logs msgs now tenant) st"

text \<open>The loop over the tenants: \<open>attempt\<close> may fail (with whatever effect it had); the failure is
  counted as not processed and the loop goes on.\<close>

fun each_tenant :: "(uuid128 \<Rightarrow> 's \<Rightarrow> 's \<times> bool) \<Rightarrow> uuid128 list \<Rightarrow> 's \<Rightarrow> 's \<times> nat" where
  "each_tenant attempt [] st = (st, 0)"
| "each_tenant attempt (t # ts) st =
     (let (st1, ok) = attempt t st; (st2, n) = each_tenant attempt ts st1
      in (st2, if ok then Suc n else n))"

definition reconcile_all :: "(uuid128 \<Rightarrow> 's \<Rightarrow> 's \<times> bool) \<Rightarrow> uuid128 list \<Rightarrow> 's \<Rightarrow> 's \<times> nat" where
  "reconcile_all attempt active st = each_tenant attempt active st"

subsection \<open>Lemmas\<close>

lemma split_on_snoc:
  "sep \<notin> set a \<Longrightarrow> split_on sep cur (a @ sep # b) = (cur @ a) # split_on sep [] b"
  by (induction a arbitrary: cur) auto

lemma split_on_insert:
  assumes "59 \<notin> set e"
  shows "\<exists>pre post. split_on 59 cur (a @ 59 # b) = pre @ post
    \<and> split_on 59 cur (a @ 59 # e @ 59 # b) = pre @ e # post"
proof (induction a arbitrary: cur)
  case Nil
  show ?case
    using split_on_snoc [OF assms, of "[]" b]
    by (intro exI [of _ "[cur]"] exI [of _ "split_on 59 [] b"]) simp
next
  case (Cons c a)
  show ?case
  proof (cases "c = 59")
    case True
    obtain pre post where "split_on 59 [] (a @ 59 # b) = pre @ post"
      "split_on 59 [] (a @ 59 # e @ 59 # b) = pre @ e # post" using Cons by blast
    then show ?thesis using True by (intro exI [of _ "cur # pre"] exI [of _ post]) simp
  next
    case False
    then show ?thesis using Cons [of "cur @ [c]"] by simp
  qed
qed

lemma collect_prices_append:
  "collect_prices (xs @ ys) prices = Option.bind (collect_prices xs prices) (collect_prices ys)"
  by (induction xs arbitrary: prices) (auto split: price_entry.splits)

lemma round_half_even_error: "\<bar>of_int (round_half_even x) - x\<bar> \<le> 1 / 2"
  using of_int_floor_le [of x] floor_correct [of x]
  by (auto simp: round_half_even_def Let_def)

lemma quantize_error: "\<bar>quantize x - x\<bar> \<le> 1 / 2000000"
proof -
  let ?y = "x * 1000000"
  have "\<bar>of_int (round_half_even ?y) - ?y\<bar> / 1000000 \<le> (1 / 2) / 1000000"
    by (intro divide_right_mono round_half_even_error) simp
  moreover have "quantize x - x = (of_int (round_half_even ?y) - ?y) / 1000000"
    unfolding quantize_def one_million_def by (simp add: diff_divide_distrib)
  ultimately show ?thesis by (simp only: abs_divide abs_numeral)
qed

lemma fold_upsert:
  "distinct (map fst bs) \<Longrightarrow>
   fold (upsert_bucket tenant d) bs table (t, d', u, c, mo) =
     (if t = tenant \<and> d' = d
      then (case map_of bs (u, c, mo) of Some b \<Rightarrow> Some b | None \<Rightarrow> table (t, d', u, c, mo))
      else table (t, d', u, c, mo))"
proof (induction bs arbitrary: table)
  case (Cons kb bs)
  obtain u' c' mo' b where kb: "kb = ((u', c', mo'), b)" by (metis surj_pair)
  have n: "map_of bs (u', c', mo') = None" using Cons.prems kb by (auto simp: map_of_eq_None_iff)
  show ?case using Cons n by (auto simp: kb upsert_bucket_def split: option.split)
qed simp

lemma map_of_daily_buckets:
  "map_of (daily_buckets logs tenant d) k =
     (let rows = filter (\<lambda>r. group_key r = k) (day_rows logs tenant d)
      in if rows = [] then None else Some (bucket_of rows))"
proof -
  have "map_of (map (\<lambda>k. (k, f k)) ks) k = (if k \<in> set ks then Some (f k) else None)"
    for f :: "uuid128 option \<times> ustring \<times> ustring \<Rightarrow> bucket" and ks
    by (induction ks) auto
  then show ?thesis by (auto simp: daily_buckets_def Let_def filter_empty_conv image_iff)
qed

lemma daily_buckets_distinct: "distinct (map fst (daily_buckets logs tenant d))"
  by (simp add: daily_buckets_def Let_def comp_def)

lemma each_tenant_count:
  "snd (each_tenant attempt ts st) \<le> length ts"
proof (induction ts arbitrary: st)
  case (Cons t ts)
  then show ?case by (simp add: case_prod_beta Let_def le_SucI)
qed simp

subsection \<open>Reconciliation: lemmas\<close>

lemma tenant_key_month_day:
  assumes "valid_datetime now"
  shows "counter_key tenant tokens_month now \<noteq> counter_key tenant messages_day now"
proof
  assume eq: "counter_key tenant tokens_month now = counter_key tenant messages_day now"
  have k: "counter_key tenant tokens_month now =
      tenant_key tenant [lit ''quota'', tokens_month, period_label Monthly now]"
    "counter_key tenant messages_day now =
      tenant_key tenant [lit ''quota'', messages_day, period_label Daily now]"
    by (simp_all add: counter_key_def key_and_ttl_def resource_period_def resource_defs lit_def)
  show False
    using eq unfolding k quota_key_prefix same_append_eq
    by (simp add: tokens_month_def messages_day_def lit_def)
qed

lemma correct_counter:
  assumes "store_ok R" "valid_datetime now"
  shows "counter R (correct R now tenant resource v r) k =
    (if k = counter_key tenant resource now then max v 0 else counter R r k)"
  using set_laws(2) [OF assms(1) key_and_ttl_pos [OF assms(2)]]
  by (simp add: correct_def case_prod_beta counter_key_def)

subsection \<open>Properties\<close>

text \<open>A broken entry of the price table loses itself only: inserting between two entries any text
  that is blank or not a valid non-negative price changes neither the prices of the other models
  nor, therefore, any cost that is computed.\<close>

theorem bad_price_entry_is_isolated:
  assumes "59 \<notin> set e" "parse_price_entry e = Blank \<or> parse_price_entry e = Rejected"
  shows "parse_model_prices (a @ 59 # e @ 59 # b) = parse_model_prices (a @ 59 # b)
    \<and> compute_cost (a @ 59 # e @ 59 # b) model p c = compute_cost (a @ 59 # b) model p c"
proof -
  obtain pre post where s: "split_on 59 [] (a @ 59 # b) = pre @ post"
    "split_on 59 [] (a @ 59 # e @ 59 # b) = pre @ e # post"
    using split_on_insert [OF assms(1), of "[]" a b] by blast
  have "collect_prices (e # post) = collect_prices post"
    using assms(2) by (intro ext) auto
  then have "parse_model_prices (a @ 59 # e @ 59 # b) = parse_model_prices (a @ 59 # b)"
    by (simp add: parse_model_prices_def s collect_prices_append)
  then show ?thesis by (simp add: compute_cost_def)
qed

theorem bad_price_entry_is_isolated_witness:
  "parse_model_prices (lit ''m:1/2'' @ 59 # lit ''x:1'' @ 59 # lit ''n:3/4'') =
   parse_model_prices (lit ''m:1/2'' @ 59 # lit ''n:3/4'')"
proof -
  have "parse_price_entry (lit ''x:1'') = Rejected"
    by (simp add: parse_price_entry_def lit_def strip_def lstrip_def rstrip_def is_space_def
        split_last_def)
  then show ?thesis
    using bad_price_entry_is_isolated [of "lit ''x:1''" "lit ''m:1/2''" "lit ''n:3/4''"]
    by (simp add: lit_def)
qed

text \<open>The cost of a call is the exact price rounded to the six digits of the column: it is a
  multiple of a millionth and differs from the exact value by at most half a millionth.\<close>

theorem cost_is_rounded_exact_price:
  assumes "parse_model_prices price_text = Some prices"
    and "map_of prices model = Some \<lparr>prompt_usd = Finite p, completion_usd = Finite c\<rparr>"
  shows "\<exists>cost k. compute_cost price_text model pt ct = Some (Some cost) \<and> cost * 1000000 = of_int k
    \<and> \<bar>cost - (of_int pt * p + of_int ct * c) / 1000000\<bar> \<le> 1 / 2000000"
proof -
  let ?x = "(of_int pt * p + of_int ct * c) / one_million"
  have "compute_cost price_text model pt ct = Some (Some (quantize ?x))"
    using assms by (simp add: compute_cost_def)
  moreover have "quantize ?x * 1000000 = of_int (round_half_even (?x * one_million))"
    by (simp add: quantize_def one_million_def)
  moreover have "\<bar>quantize ?x - ?x\<bar> \<le> 1 / 2000000"
    by (rule quantize_error)
  ultimately show ?thesis by (auto simp: one_million_def)
qed

theorem cost_is_rounded_exact_price_witness:
  "\<exists>cost k. compute_cost (lit ''m:1/2'') (lit ''m'') 3 4 = Some (Some cost) \<and> cost * 1000000 = of_int k"
proof -
  have "parse_model_prices (lit ''m:1/2'') = Some [(lit ''m'', \<lparr>prompt_usd = Finite 1, completion_usd = Finite 2\<rparr>)]"
    by (simp add: parse_model_prices_def parse_price_entry_def lit_def strip_def lstrip_def
        rstrip_def is_space_def split_last_def parse_decimal_def parse_unsigned_def lower_def
        parse_mantissa_def digits_value_def below_zero_def)
  then show ?thesis
    using cost_is_rounded_exact_price [of "lit ''m:1/2''" _ "lit ''m''" 1 2 3 4] by auto
qed

text \<open>The roll-up recomputes a day from the log: each cell of that tenant and day that has log
  rows becomes exactly their number, token sums and cost sum, every other cell is untouched, and
  running it again changes nothing.\<close>

theorem rollup_recomputes_the_day:
  "fst (rollup_tenant logs tenant d table) (t, d', u, c, mo) =
     (let rows = filter (\<lambda>r. group_key r = (u, c, mo)) (day_rows logs tenant d) in
      if t = tenant \<and> d' = d \<and> rows \<noteq> [] then Some (bucket_of rows) else table (t, d', u, c, mo))
   \<and> fst (rollup_tenant logs tenant d (fst (rollup_tenant logs tenant d table))) =
     fst (rollup_tenant logs tenant d table)"
proof -
  have cell: "fst (rollup_tenant logs tenant d tbl) (t, d', u, c, mo) =
     (let rows = filter (\<lambda>r. group_key r = (u, c, mo)) (day_rows logs tenant d) in
      if t = tenant \<and> d' = d \<and> rows \<noteq> [] then Some (bucket_of rows) else tbl (t, d', u, c, mo))"
    for tbl t d' u c mo
    using fold_upsert [OF daily_buckets_distinct, of tenant d logs tenant d tbl t d' u c mo]
    by (simp add: rollup_tenant_def Let_def map_of_daily_buckets split: if_splits)
  show ?thesis
  proof
    show "fst (rollup_tenant logs tenant d table) (t, d', u, c, mo) =
     (let rows = filter (\<lambda>r. group_key r = (u, c, mo)) (day_rows logs tenant d) in
      if t = tenant \<and> d' = d \<and> rows \<noteq> [] then Some (bucket_of rows) else table (t, d', u, c, mo))"
      by (rule cell)
    show "fst (rollup_tenant logs tenant d (fst (rollup_tenant logs tenant d table))) =
        fst (rollup_tenant logs tenant d table)"
      by (rule ext) (clarify, simp add: cell Let_def)
  qed
qed

text \<open>After a reconciliation the two Redis counters hold the facts of the database (at least 0),
  whatever they held before, and the snapshot row of each of the four resources holds the fact
  and the limit in force.\<close>

theorem reconciliation_restores_the_facts:
  assumes "store_ok R" "valid_datetime now"
    and "reconcile_tenant env R logs msgs now tenant (r, rows) = (r', rows')"
  shows "counter R r' (counter_key tenant tokens_month now) = max (llm_token_total logs tenant (month_start now)) 0
    \<and> counter R r' (counter_key tenant messages_day now) = max (assistant_count_since msgs tenant (day_start now)) 0
    \<and> list_all (\<lambda>f. rows' (tenant, f_resource f, f_monthly f,
          if f_monthly f then month_start now else day_start now) =
            Some (f_used f, limits_of env tenant (f_resource f))) (facts_of env logs msgs now tenant)"
proof -
  note correct_counter [OF assms(1,2), simp]
  have ne: "counter_key tenant tokens_month now \<noteq> counter_key tenant messages_day now"
    using assms(2) by (rule tenant_key_month_day)
  have res: "tokens_month \<noteq> messages_day" "tokens_month \<noteq> documents_res" "tokens_month \<noteq> storage_bytes"
    "messages_day \<noteq> documents_res" "messages_day \<noteq> storage_bytes" "documents_res \<noteq> storage_bytes"
    by (simp_all add: tokens_month_def messages_day_def documents_res_def storage_bytes_def lit_def)
  show ?thesis
    using assms(3) ne res by (auto simp: reconcile_tenant_def facts_of_def reconcile_fact_def Let_def)
qed

theorem reconciliation_restores_the_facts_witness:
  "\<exists>r' rows'. reconcile_tenant sample_env mem_ops [] [] sample_now 7 (Map.empty, Map.empty) = (r', rows')
    \<and> counter mem_ops r' (counter_key 7 messages_day sample_now) = 0"
  using reconciliation_restores_the_facts [OF mem_store_ok sample_now_valid, of sample_env "[]" "[]" 7
      Map.empty Map.empty]
  by (cases "reconcile_tenant sample_env mem_ops [] [] sample_now 7 (Map.empty, Map.empty)")
     (auto simp: assistant_count_since_def)

text \<open>A price of \<open>NaN\<close> passes the conversion and raises at the comparison with zero, outside the
  \<open>try\<close>: one bad entry makes the whole table unreadable, and every usage record of every model is
  lost.\<close>

lemma nan_price_breaks_the_table:
  "parse_model_prices (lit ''x:nan/1;m:1/2'') = None
   \<and> record_usage (lit ''x:nan/1;m:1/2'') (\<lambda>_. True) now tenant
       \<lparr>ev_category = [], ev_model = lit ''m'', ev_prompt = 1, ev_request = [], ev_completion = 1,
        ev_user = None, ev_conversation = None\<rparr> [] = []"
proof -
  have "parse_model_prices (lit ''x:nan/1;m:1/2'') = None"
    by (simp add: parse_model_prices_def parse_price_entry_def lit_def strip_def lstrip_def
        rstrip_def is_space_def split_last_def parse_decimal_def parse_unsigned_def lower_def
        parse_mantissa_def digits_value_def below_zero_def)
  then show ?thesis by (simp add: record_usage_def compute_cost_def)
qed

end
