(* ===== verification/Budget.thy ===== *)
theory Budget
  imports Quota Tokens
begin

text \<open>
  \<open>backend/services/conversation/budget.py\<close>: the three reservations of a chat turn. They are taken
  together or not at all; the token reservation is settled with the actual usage, the stream slot
  is given back at the end. The calls run on the quota model of theory Quota; each call reads the
  clock itself, so there is one moment per reservation. Failures of Redis itself are not modelled.
\<close>

record turn_usage =
  prompt_tokens :: int
  completion_tokens :: int
  estimated :: bool

definition token_reserve_for :: "int \<Rightarrow> ustring \<Rightarrow> int" where
  "token_reserve_for reserve_estimate question = reserve_estimate + int (estimate_tokens question)"

record turn_reservations =
  all_reserved :: "reservation list"
  tokens_reserved :: "reservation option"
  stream_reserved :: "reservation option"

definition release_all :: "'r counter_ops \<Rightarrow> reservation list \<Rightarrow> 'r quota_state \<Rightarrow> 'r quota_state" where
  "release_all R rs st = st\<lparr>redis := fold (release R) rs (redis st)\<rparr>"

definition opt_list :: "'a option \<Rightarrow> 'a list" where
  "opt_list x = (case x of None \<Rightarrow> [] | Some v \<Rightarrow> [v])"

definition reserve_turn ::
  "quota_env \<Rightarrow> 'r counter_ops \<Rightarrow> int \<Rightarrow> datetime \<times> datetime \<times> datetime \<Rightarrow> uuid128 \<Rightarrow> ustring
   \<Rightarrow> 'r quota_state \<Rightarrow> (quota_exceeded + turn_reservations) \<times> 'r quota_state" where
  "reserve_turn env R reserve_estimate moments tenant question st =
     (case moments of (t1, t2, t3) \<Rightarrow>
      case check_and_reserve env R t1 tenant messages_day 1 st of
        (Inl e, st1) \<Rightarrow> (Inl e, release_all R [] st1)
      | (Inr messages, st1) \<Rightarrow>
         (case check_and_reserve env R t2 tenant tokens_month
                 (token_reserve_for reserve_estimate question) st1 of
            (Inl e, st2) \<Rightarrow> (Inl e, release_all R (opt_list messages) st2)
          | (Inr tokens, st2) \<Rightarrow>
             (case check_and_reserve env R t3 tenant streams_res 1 st2 of
                (Inl e, st3) \<Rightarrow> (Inl e, release_all R (opt_list messages @ opt_list tokens) st3)
              | (Inr stream, st3) \<Rightarrow>
                  (Inr \<lparr>all_reserved = opt_list messages @ opt_list tokens @ opt_list stream,
                        tokens_reserved = tokens, stream_reserved = stream\<rparr>, st3))))"

definition settle_tokens ::
  "'r counter_ops \<Rightarrow> reservation option \<Rightarrow> turn_usage option \<Rightarrow> 'r \<Rightarrow> 'r" where
  "settle_tokens R res usage r =
     (case res of
        None \<Rightarrow> r
      | Some v \<Rightarrow>
          (case usage of
             Some u \<Rightarrow> commit R v (Some (prompt_tokens u + completion_tokens u)) r
           | None \<Rightarrow> release R v r))"

definition release_stream :: "'r counter_ops \<Rightarrow> reservation option \<Rightarrow> 'r \<Rightarrow> 'r" where
  "release_stream R res r = (case res of None \<Rightarrow> r | Some v \<Rightarrow> release R v r)"

subsection \<open>Separate counters\<close>

definition turn_resources :: "ustring list" where
  "turn_resources = [messages_day, tokens_month, streams_res]"

lemma turn_keys_differ:
  assumes "a \<in> set turn_resources" "b \<in> set turn_resources" "a \<noteq> b"
  shows "counter_key tenant a ta \<noteq> counter_key tenant b tb"
proof
  assume eq: "counter_key tenant a ta = counter_key tenant b tb"
  have k: "\<exists>ys. counter_key tenant r t = tenant_key tenant (lit ''quota'' # r # ys)" for r t
    by (cases "is_gauge r") (auto simp: counter_key_def key_and_ttl_def)
  obtain xs ys where "tenant_key tenant (lit ''quota'' # a # xs) = tenant_key tenant (lit ''quota'' # b # ys)"
    using k [of a ta] k [of b tb] eq by metis
  then have "join (lit '':'') (a # xs) = join (lit '':'') (b # ys)"
    unfolding quota_key_prefix same_append_eq .
  then obtain u v where "a @ u = b @ v" using join_Cons_split by metis
  then show False
    using assms by (auto simp: turn_resources_def resource_defs lit_def)
qed

lemma turn_counted: "a \<in> set turn_resources \<Longrightarrow> counted a"
  by (auto simp: turn_resources_def counted_def resources_def resource_defs lit_def)

lemma release_frame:
  assumes "store_ok R" "0 < r_ttl res" "k \<noteq> r_key res"
  shows "counter R (release R res r) k = counter R r k"
  using assms(3)
  by (auto simp: release_def decrby_def keep_expiry_def Let_def case_prod_beta incrby_laws [OF assms(1)]
        expire_laws [OF assms(1,2)])

lemma check_and_reserve_frame:
  assumes "store_ok R" "valid_datetime now" "counted a" "b \<in> set resources"
    and ne: "counter_key tenant b tb \<noteq> counter_key tenant a now"
  shows "counter R (redis (snd (check_and_reserve env R now tenant a amount st))) (counter_key tenant b tb) =
    counter R (redis st) (counter_key tenant b tb)"
proof (cases "limits_of env tenant a")
  case None
  then show ?thesis by (simp add: check_and_reserve_def)
next
  case (Some cap)
  have ttl: "0 < snd (key_and_ttl tenant a now)" using assms(2) by (rule key_and_ttl_pos)
  have t: "0 < notify_guard_ttl_seconds" by (simp add: notify_guard_ttl_seconds_def)
  have notify: "counter R (redis (maybe_notify env R now tenant a used cap s)) (counter_key tenant b tb) =
      counter R (redis s) (counter_key tenant b tb)" for used cap s
    using guard_key_differs [OF assms(4), of tenant _ tb, symmetric] set_laws(5) [OF assms(1) t]
    by (auto simp: maybe_notify_def Let_def case_prod_beta counter_def)
  show ?thesis
    using Some assms(3) ne
    by (simp add: check_and_reserve_def Let_def case_prod_beta counted_def notify decrby_def
          incrby_laws [OF assms(1)] expire_laws [OF assms(1) ttl] flip: counter_key_def)
qed

text \<open>What one reservation does to its counter, limited or not.\<close>

definition taken :: "reservation option \<Rightarrow> int" where
  "taken r = (case r of None \<Rightarrow> 0 | Some v \<Rightarrow> r_amount v)"

lemma check_and_reserve_taken:
  assumes "store_ok R" "valid_datetime now" "counted a"
    and "check_and_reserve env R now tenant a amount st = (result, st')"
  shows "case result of
      Inl e \<Rightarrow> counter R (redis st') (counter_key tenant a now) = counter R (redis st) (counter_key tenant a now)
    | Inr v \<Rightarrow>
        counter R (redis st') (counter_key tenant a now) = counter R (redis st) (counter_key tenant a now) + taken v
        \<and> (\<forall>res. v = Some res \<longrightarrow> r_key res = counter_key tenant a now \<and> 0 < r_ttl res \<and> r_amount res = amount)
        \<and> (v = None \<longleftrightarrow> limits_of env tenant a = None)"
proof (cases "limits_of env tenant a")
  case None
  then show ?thesis using assms(4) by (auto simp: check_and_reserve_def taken_def)
next
  case (Some cap)
  from check_and_reserve_counted [OF assms(1-3) Some, of st amount] assms(4) Some
    key_and_ttl_pos [OF assms(2)]
  show ?thesis by (auto simp: taken_def split: if_splits)
qed

lemma release_all_one:
  assumes "store_ok R" "\<And>res. v = Some res \<Longrightarrow> r_key res = key \<and> 0 < r_ttl res"
  shows "counter R (fold (release R) (opt_list v) r) k =
    (if k = key \<and> v \<noteq> None then max 0 (counter R r k - taken v) else counter R r k)"
  using assms release_counter(1) [OF assms(1)] release_frame [OF assms(1)]
  by (auto simp: opt_list_def taken_def split: option.split)

lemma reserve_turn_effect:
  fixes env R tenant st st' t1 t2 t3
  defines "mk \<equiv> counter_key tenant messages_day t1" and "tk \<equiv> counter_key tenant tokens_month t2"
    and "sk \<equiv> counter_key tenant streams_res t3"
  defines "limited \<equiv> \<lambda>res n. if limits_of env tenant res = None then 0 else n"
  assumes "store_ok R" "valid_datetime t1" "valid_datetime t2" "valid_datetime t3"
    and "0 \<le> counter R (redis st) mk" "0 \<le> counter R (redis st) tk"
    and "reserve_turn env R est (t1, t2, t3) tenant question st = (result, st')"
  shows "case result of
      Inl e \<Rightarrow> counter R (redis st') mk = counter R (redis st) mk
        \<and> counter R (redis st') tk = counter R (redis st) tk
        \<and> counter R (redis st') sk = counter R (redis st) sk
    | Inr rs \<Rightarrow> counter R (redis st') mk = counter R (redis st) mk + limited messages_day 1
        \<and> counter R (redis st') tk = counter R (redis st) tk + limited tokens_month (token_reserve_for est question)
        \<and> counter R (redis st') sk = counter R (redis st) sk + limited streams_res 1
        \<and> (0 \<le> counter R (redis st) sk \<longrightarrow>
             (\<forall>k \<in> {mk, tk, sk}. counter R (redis (release_all R (all_reserved rs) st')) k = counter R (redis st) k))"
proof -
  have mem: "messages_day \<in> set turn_resources" "tokens_month \<in> set turn_resources" "streams_res \<in> set turn_resources"
    by (simp_all add: turn_resources_def)
  then have res: "messages_day \<in> set resources" "tokens_month \<in> set resources" "streams_res \<in> set resources"
    by (simp_all add: resources_def)
  have d: "messages_day \<noteq> tokens_month" "messages_day \<noteq> streams_res" "tokens_month \<noteq> streams_res"
    by (simp_all add: messages_day_def tokens_month_def streams_res_def lit_def)
  have keys: "mk \<noteq> tk" "mk \<noteq> sk" "tk \<noteq> sk"
    using turn_keys_differ [OF mem(1,2) d(1)] turn_keys_differ [OF mem(1,3) d(2)]
      turn_keys_differ [OF mem(2,3) d(3)] by (simp_all add: mk_def tk_def sk_def)
  note cnt = mem [THEN turn_counted]
  obtain x1 s1 where 1: "check_and_reserve env R t1 tenant messages_day 1 st = (x1, s1)" by fastforce
  obtain x2 s2 where 2: "check_and_reserve env R t2 tenant tokens_month (token_reserve_for est question) s1 = (x2, s2)"
    by fastforce
  obtain x3 s3 where 3: "check_and_reserve env R t3 tenant streams_res 1 s2 = (x3, s3)" by fastforce
  note own = check_and_reserve_taken [OF assms(5,6) cnt(1) 1, folded mk_def]
    check_and_reserve_taken [OF assms(5,7) cnt(2) 2, folded tk_def]
    check_and_reserve_taken [OF assms(5,8) cnt(3) 3, folded sk_def]
  have f1: "counter R (redis s1) tk = counter R (redis st) tk" "counter R (redis s1) sk = counter R (redis st) sk"
    using check_and_reserve_frame [OF assms(5,6) cnt(1) res(2), of tenant t2 env 1 st]
      check_and_reserve_frame [OF assms(5,6) cnt(1) res(3), of tenant t3 env 1 st] keys 1
    by (simp_all add: mk_def tk_def sk_def)
  have f2: "counter R (redis s2) mk = counter R (redis s1) mk" "counter R (redis s2) sk = counter R (redis s1) sk"
    using check_and_reserve_frame [OF assms(5,7) cnt(2) res(1), of tenant t1 env "token_reserve_for est question" s1]
      check_and_reserve_frame [OF assms(5,7) cnt(2) res(3), of tenant t3 env "token_reserve_for est question" s1] keys 2
    by (simp_all add: mk_def tk_def sk_def)
  have f3: "counter R (redis s3) mk = counter R (redis s2) mk" "counter R (redis s3) tk = counter R (redis s2) tk"
    using check_and_reserve_frame [OF assms(5,8) cnt(3) res(1), of tenant t1 env 1 s2]
      check_and_reserve_frame [OF assms(5,8) cnt(3) res(2), of tenant t2 env 1 s2] keys 3
    by (simp_all add: mk_def tk_def sk_def)
  consider e where "x1 = Inl e" | m e where "x1 = Inr m" "x2 = Inl e"
    | m t e where "x1 = Inr m" "x2 = Inr t" "x3 = Inl e" | m t s where "x1 = Inr m" "x2 = Inr t" "x3 = Inr s"
    by (metis old.sum.exhaust)
  then show ?thesis
  proof cases
    case 1
    then have "result = Inl e" "st' = s1"
      using assms(11) \<open>check_and_reserve env R t1 tenant messages_day 1 st = (x1, s1)\<close>
      by (simp_all add: reserve_turn_def release_all_def)
    then show ?thesis using own(1) f1 1 by simp
  next
    case 2
    have r: "result = Inl e" "redis st' = fold (release R) (opt_list m) (redis s2)"
      using assms(11) 1 \<open>check_and_reserve env R t2 tenant tokens_month _ s1 = _\<close> 2
      by (auto simp: reserve_turn_def release_all_def)
    have rel: "counter R (fold (release R) (opt_list m) (redis s2)) k =
        (if k = mk \<and> m \<noteq> None then max 0 (counter R (redis s2) k - taken m) else counter R (redis s2) k)" for k
      using own(1) 2 by (intro release_all_one [OF assms(5)]) simp
    show ?thesis
      using r own(1,2) f1 f2 2 keys assms(9) by (auto simp: rel taken_def)
  next
    case 3
    have r: "result = Inl e" "redis st' = fold (release R) (opt_list t) (fold (release R) (opt_list m) (redis s3))"
      using assms(11) \<open>check_and_reserve env R t1 tenant messages_day 1 st = (x1, s1)\<close>
        \<open>check_and_reserve env R t2 tenant tokens_month _ s1 = _\<close>
        \<open>check_and_reserve env R t3 tenant streams_res 1 s2 = _\<close> 3
      by (auto simp: reserve_turn_def release_all_def)
    have rel: "counter R (fold (release R) (opt_list m) x) k =
        (if k = mk \<and> m \<noteq> None then max 0 (counter R x k - taken m) else counter R x k)"
      "counter R (fold (release R) (opt_list t) x) k =
        (if k = tk \<and> t \<noteq> None then max 0 (counter R x k - taken t) else counter R x k)" for k x
      using own(1,2) 3 by (intro release_all_one [OF assms(5)]; simp)+
    show ?thesis
      using r own f1 f2 f3 3 keys assms(9,10) by (auto simp: rel taken_def)
  next
    case 4
    have r: "\<exists>rs. result = Inr rs \<and> all_reserved rs = opt_list m @ opt_list t @ opt_list s" "st' = s3"
      using assms(11) \<open>check_and_reserve env R t1 tenant messages_day 1 st = (x1, s1)\<close>
        \<open>check_and_reserve env R t2 tenant tokens_month _ s1 = _\<close>
        \<open>check_and_reserve env R t3 tenant streams_res 1 s2 = _\<close> 4
      by (auto simp: reserve_turn_def)
    have rel: "counter R (fold (release R) (opt_list m) x) k =
        (if k = mk \<and> m \<noteq> None then max 0 (counter R x k - taken m) else counter R x k)"
      "counter R (fold (release R) (opt_list t) x) k =
        (if k = tk \<and> t \<noteq> None then max 0 (counter R x k - taken t) else counter R x k)"
      "counter R (fold (release R) (opt_list s) x) k =
        (if k = sk \<and> s \<noteq> None then max 0 (counter R x k - taken s) else counter R x k)" for k x
      using own 4 by (intro release_all_one [OF assms(5)]; simp)+
    have restored: "0 \<le> counter R (redis st) sk \<longrightarrow>
        (\<forall>k \<in> {mk, tk, sk}. counter R (fold (release R) (opt_list m @ opt_list t @ opt_list s) (redis s3)) k = counter R (redis st) k)"
      using own f1 f2 f3 4 keys assms(9,10) by (auto simp: rel taken_def)
    obtain rs where rs: "result = Inr rs" "all_reserved rs = opt_list m @ opt_list t @ opt_list s" using r(1) by blast
    have "redis (release_all R (all_reserved rs) st') = fold (release R) (opt_list m @ opt_list t @ opt_list s) (redis s3)"
      using rs(2) r(2) by (simp add: release_all_def)
    moreover have "counter R (redis st') mk = counter R (redis st) mk + limited messages_day 1
        \<and> counter R (redis st') tk = counter R (redis st) tk + limited tokens_month (token_reserve_for est question)
        \<and> counter R (redis st') sk = counter R (redis st) sk + limited streams_res 1"
      using r(2) own f1 f2 f3 4 by (auto simp: limited_def taken_def split: option.splits)
    ultimately show ?thesis using restored rs(1) by simp
  qed
qed

subsection \<open>Properties\<close>

text \<open>A turn reserves all three quotas or none: if the turn is refused, the message, token and
  stream counters are back where they were; if it is admitted, they have grown by 1, the token
  estimate and 1 (each only where the tenant has a limit).\<close>

theorem turn_reservation_all_or_nothing:
  fixes env R tenant st st' t1 t2 t3
  defines "mk \<equiv> counter_key tenant messages_day t1" and "tk \<equiv> counter_key tenant tokens_month t2"
    and "sk \<equiv> counter_key tenant streams_res t3"
  defines "limited \<equiv> \<lambda>res n. if limits_of env tenant res = None then 0 else n"
  assumes "store_ok R" "valid_datetime t1" "valid_datetime t2" "valid_datetime t3"
    and "0 \<le> counter R (redis st) mk" "0 \<le> counter R (redis st) tk"
    and "reserve_turn env R est (t1, t2, t3) tenant question st = (result, st')"
  shows "case result of
      Inl e \<Rightarrow> counter R (redis st') mk = counter R (redis st) mk
        \<and> counter R (redis st') tk = counter R (redis st) tk
        \<and> counter R (redis st') sk = counter R (redis st) sk
    | Inr rs \<Rightarrow> counter R (redis st') mk = counter R (redis st) mk + limited messages_day 1
        \<and> counter R (redis st') tk = counter R (redis st) tk + limited tokens_month (token_reserve_for est question)
        \<and> counter R (redis st') sk = counter R (redis st) sk + limited streams_res 1"
  using reserve_turn_effect [OF assms(5-11) [unfolded mk_def tk_def sk_def]]
  by (auto simp: mk_def tk_def sk_def limited_def split: sum.splits)

theorem turn_reservation_all_or_nothing_witness:
  "\<exists>result st'. reserve_turn sample_env mem_ops 2000 (sample_now, sample_now, sample_now) 7 (lit ''hi'')
      \<lparr>redis = Map.empty, notices = []\<rparr> = (result, st')
    \<and> (case result of
         Inl e \<Rightarrow> counter mem_ops (redis st') (counter_key 7 streams_res sample_now) = 0
       | Inr rs \<Rightarrow> counter mem_ops (redis st') (counter_key 7 streams_res sample_now) = 1)"
proof -
  let ?st = "\<lparr>redis = Map.empty :: mem, notices = []\<rparr>"
  have z: "counter mem_ops (\<lambda>_. None) k = 0" for k by (simp add: counter_def mem_ops_def)
  obtain result st' where r: "reserve_turn sample_env mem_ops 2000 (sample_now, sample_now, sample_now) 7
      (lit ''hi'') ?st = (result, st')" by fastforce
  show ?thesis
    using turn_reservation_all_or_nothing [OF mem_store_ok sample_now_valid sample_now_valid
        sample_now_valid _ _ r] r sample_limit
    by (auto simp: z split: sum.splits)
qed

end
