(* ===== verification/Deltas.thy ===== *)
theory Deltas
  imports DocModel
begin

text \<open>
  \<open>backend/ai/gateway/chat.py\<close>: the request of a generation and the elements of its stream, as the
  provider adapters yield them and as the gateway hands them on, and the provider failures of
  \<open>backend/core/exceptions.py\<close>.
\<close>

record chat_message =
  m_role :: string
  m_content :: ustring

record chat_request =
  cr_messages :: "chat_message list"
  cr_model :: ustring
  cr_temperature :: "rat option"
  cr_max_output_tokens :: "int option"
  cr_reasoning_effort :: string
  cr_response_format :: "json option"

record chat_timeouts =
  connect_seconds :: rat
  ttft_seconds :: rat
  total_seconds :: rat

record usage_delta =
  d_prompt :: int
  d_completion :: int
  d_model :: ustring
  d_provider :: ustring
  d_reasoning :: int
  d_estimated :: bool

definition billable_output_tokens :: "usage_delta \<Rightarrow> int" where
  "billable_output_tokens u = d_completion u + d_reasoning u"

definition total_tokens :: "usage_delta \<Rightarrow> int" where
  "total_tokens u = d_prompt u + billable_output_tokens u"

text \<open>What an adapter can yield, and what the gateway's caller sees: \<open>ErrorDelta\<close> is the gateway's own.
  A tool call has its call id, name, arguments and status.\<close>

datatype provider_delta =
    TextDelta ustring
  | ToolCallDelta ustring ustring ustring string
  | UsageDelta usage_delta
  | DoneDelta ustring

datatype delta =
    Provided provider_delta
  | ErrorDelta string ustring bool "(string \<times> string) list"

lemma delta_cases [case_names Text ToolCall Usage Done Error, cases type: delta]:
  assumes "\<And>s. d = Provided (TextDelta s) \<Longrightarrow> P"
    and "\<And>c n a st. d = Provided (ToolCallDelta c n a st) \<Longrightarrow> P"
    and "\<And>u. d = Provided (UsageDelta u) \<Longrightarrow> P"
    and "\<And>f. d = Provided (DoneDelta f) \<Longrightarrow> P"
    and "\<And>c m r ds. d = ErrorDelta c m r ds \<Longrightarrow> P"
  shows P
  using assms by (metis delta.exhaust provider_delta.exhaust)

fun ends_turn :: "delta \<Rightarrow> bool" where
  "ends_turn (Provided (DoneDelta _)) = True"
| "ends_turn (ErrorDelta _ _ _ _) = True"
| "ends_turn _ = False"

fun reports_usage :: "delta \<Rightarrow> bool" where
  "reports_usage (Provided (UsageDelta _)) = True"
| "reports_usage _ = False"

subsection \<open>Provider failures\<close>

datatype provider_error_type =
    ProviderTimeoutError
  | ProviderUnavailableError
  | ProviderRateLimitedError
  | ProviderDimensionMismatchError
  | ProviderRequestRejectedError
  | ProviderAuthError
  | ModelNotEnabledError

fun error_code :: "provider_error_type \<Rightarrow> string" where
  "error_code ProviderRateLimitedError = ''RATE_LIMITED''"
| "error_code ModelNotEnabledError = ''MODEL_NOT_ENABLED''"
| "error_code _ = ''PROVIDER_UNAVAILABLE''"

fun is_retryable :: "provider_error_type \<Rightarrow> bool" where
  "is_retryable ProviderTimeoutError = True"
| "is_retryable ProviderUnavailableError = True"
| "is_retryable ProviderRateLimitedError = True"
| "is_retryable _ = False"

fun type_name :: "provider_error_type \<Rightarrow> string" where
  "type_name ProviderTimeoutError = ''ProviderTimeoutError''"
| "type_name ProviderUnavailableError = ''ProviderUnavailableError''"
| "type_name ProviderRateLimitedError = ''ProviderRateLimitedError''"
| "type_name ProviderDimensionMismatchError = ''ProviderDimensionMismatchError''"
| "type_name ProviderRequestRejectedError = ''ProviderRequestRejectedError''"
| "type_name ProviderAuthError = ''ProviderAuthError''"
| "type_name ModelNotEnabledError = ''ModelNotEnabledError''"

end
