(* ===== verification/ChatTurn.thy ===== *)
theory ChatTurn
  imports Budget Citation Deltas
begin

text \<open>
  The generation half of \<open>backend/services/conversation/chat.py\<close> (the deltas are
  in theory Deltas). Every \<open>await\<close> that touches Redis, the database or the provider is an
  effect; a \<open>world\<close> decides from the history whether an attempted effect succeeds or raises (an
  attempt that raises may or may not have taken effect). The trace lists the attempts. Composing the request and the provider's stream are inputs. Lemmas: which
  finalising effects a generation performs, in which order, on every path.
\<close>

subsection \<open>Events and effects\<close>

datatype event =
    EMeta
  | EDelta ustring
  | EUsage turn_usage
  | EToolCall ustring ustring string
  | ECitations "citation list"
  | EDone ustring
  | EError string ustring bool

record rag_stats =
  st_context_chunks :: nat
  st_citations :: nat
  st_dropped :: nat
  st_degraded :: "ustring list"

record snapshot =
  s_status :: string
  s_content :: ustring
  s_turn_usage :: "turn_usage option"
  s_rag :: "rag_stats option"
  s_model :: ustring
  s_prompt_version :: "int option"
  s_citations :: "citation list"
  s_error :: "(string \<times> string option) option"

datatype effect =
    Append event
  | PollStop
  | CloseUpstream
  | EmitTrace "rag_stats option"
  | Persist snapshot
  | RecordUsage ustring turn_usage
  | SettleTokens "turn_usage option"
  | SettleBuffer
  | ReleaseStream

subsection \<open>The world\<close>

datatype py_exc =
    ProviderFailure string ustring bool
  | OtherFailure string
  | CancelledError

datatype outcome = Succeeds | Fails py_exc

type_synonym trace = "effect list"
type_synonym world = "trace \<Rightarrow> effect \<Rightarrow> outcome"

definition act :: "world \<Rightarrow> effect \<Rightarrow> trace \<Rightarrow> py_exc option \<times> trace" where
  "act w e tr =
     (case w tr e of
        Succeeds \<Rightarrow> (None, tr @ [e])
      | Fails x \<Rightarrow> (Some x, tr @ [e]))"

fun acts :: "world \<Rightarrow> effect list \<Rightarrow> trace \<Rightarrow> py_exc option \<times> trace" where
  "acts w [] tr = (None, tr)"
| "acts w (e # es) tr =
     (case act w e tr of (Some x, tr1) \<Rightarrow> (Some x, tr1) | (None, tr1) \<Rightarrow> acts w es tr1)"

text \<open>\<open>try: ... except Exception\<close>: a cancellation is not an \<open>Exception\<close>.\<close>

definition swallow :: "py_exc option \<times> trace \<Rightarrow> py_exc option \<times> trace" where
  "swallow r = (case r of (Some CancelledError, tr) \<Rightarrow> (Some CancelledError, tr) | (_, tr) \<Rightarrow> (None, tr))"

text \<open>\<open>asyncio.shield\<close>: the shielded call does not see the cancellation.\<close>

definition shielded :: "world \<Rightarrow> world" where
  "shielded w tr e =
     (case w tr e of
        Fails CancelledError \<Rightarrow> Succeeds
      | r \<Rightarrow> r)"

subsection \<open>The turn\<close>

record prepared_turn =
  p_request :: chat_request
  p_chunks :: "retrieved_chunk list"
  p_retrieved :: bool
  p_degraded :: "ustring list"
  p_traced :: bool
  p_prompt_version :: int

record turn =
  t_model :: ustring
  t_tokens :: "reservation option"
  t_stream :: "reservation option"

record locals =
  l_text :: "ustring list"
  l_usage :: "turn_usage option"
  l_model :: ustring
  l_version :: "int option"
  l_prepared :: "prepared_turn option"

definition estimated_usage :: "locals \<Rightarrow> turn_usage option" where
  "estimated_usage l =
     (case l_prepared l of
        None \<Rightarrow> None
      | Some p \<Rightarrow>
          if list_all (\<lambda>t. t = []) (l_text l) then None
          else Some \<lparr>prompt_tokens = (\<Sum>m\<leftarrow>cr_messages (p_request p). int (estimate_tokens (m_content m))),
                     completion_tokens = int (estimate_tokens (concat (l_text l))),
                     estimated = True\<rparr>)"

definition turn_citations :: "locals \<Rightarrow> citation list \<times> rag_stats option" where
  "turn_citations l =
     (let answer = concat (l_text l) in
      case l_prepared l of
        None \<Rightarrow> ([], None)
      | Some p \<Rightarrow>
          if answer = [] then ([], None)
          else let result = assemble_citations answer (p_chunks p) in
               if \<not> p_retrieved p then ([], None)
               else (citations result,
                     Some \<lparr>st_context_chunks = length (p_chunks p), st_citations = length (citations result),
                           st_dropped = length (dropped_markers result), st_degraded = p_degraded p\<rparr>))"

definition trace_effects :: "locals \<Rightarrow> effect list" where
  "trace_effects l =
     (case l_prepared l of
        None \<Rightarrow> []
      | Some p \<Rightarrow> if p_traced p then [EmitTrace (snd (turn_citations l))] else [])"

definition citation_effects :: "locals \<Rightarrow> effect list" where
  "citation_effects l =
     (case l_prepared l of
        None \<Rightarrow> []
      | Some p \<Rightarrow> if p_retrieved p then [Append (ECitations (fst (turn_citations l)))] else [])"

definition settle_effects :: "turn \<Rightarrow> turn_usage option \<Rightarrow> effect list" where
  "settle_effects t usage = (if t_tokens t = None then [] else [SettleTokens usage])"

definition snapshot_of :: "locals \<Rightarrow> string \<Rightarrow> turn_usage option \<Rightarrow> (string \<times> string option) option \<Rightarrow> snapshot" where
  "snapshot_of l st usage err =
     \<lparr>s_status = st, s_content = concat (l_text l), s_turn_usage = usage, s_rag = snd (turn_citations l),
      s_model = l_model l, s_prompt_version = l_version l, s_citations = fst (turn_citations l),
      s_error = err\<rparr>"

definition finalise :: "world \<Rightarrow> effect list \<Rightarrow> effect list \<Rightarrow> trace \<Rightarrow> py_exc option \<times> trace" where
  "finalise w before after tr =
     (case acts w before tr of
        (Some x, tr1) \<Rightarrow> (Some x, tr1)
      | (None, tr1) \<Rightarrow> swallow (acts w after tr1))"

definition complete_turn ::
  "world \<Rightarrow> turn \<Rightarrow> locals \<Rightarrow> ustring \<Rightarrow> string \<Rightarrow> turn_usage option \<Rightarrow> trace \<Rightarrow> py_exc option \<times> trace" where
  "complete_turn w t l finish_reason st usage tr =
     finalise w (trace_effects l @ [Persist (snapshot_of l st usage None)])
       ((case usage of None \<Rightarrow> [] | Some u \<Rightarrow> [RecordUsage (l_model l) u]) @ settle_effects t usage
        @ citation_effects l @ [Append (EDone finish_reason), SettleBuffer]) tr"

definition fail_turn ::
  "world \<Rightarrow> turn \<Rightarrow> locals \<Rightarrow> string \<Rightarrow> ustring \<Rightarrow> bool \<Rightarrow> string \<Rightarrow> string option \<Rightarrow> trace
   \<Rightarrow> py_exc option \<times> trace" where
  "fail_turn w t l code message retryable st cause tr =
     finalise w (trace_effects l @ [Persist (snapshot_of l st (l_usage l) (Some (code, cause)))])
       (settle_effects t (l_usage l) @ citation_effects l
        @ [Append (EError code message retryable), SettleBuffer]) tr"

subsection \<open>Generation\<close>

definition shutdown_title :: ustring where
  "shutdown_title =
     [20282, 26381, 22120, 27491, 22312, 37325, 21855, 65292, 29983, 25104, 24050, 20013, 26039]"

definition internal_error_title :: ustring where
  "internal_error_title =
     [29983, 25104, 26178, 30332, 29983, 38750, 38928, 26399, 30340, 37679, 35492]"

text \<open>One element of the provider's stream: the answer of the stop flag when it is polled before the
  delta is handled, and the delta. The stream ends by itself or by raising.\<close>

type_synonym stream_item = "bool option \<times> delta"

definition note_usage :: "usage_delta \<Rightarrow> locals \<Rightarrow> locals" where
  "note_usage u l =
     l\<lparr>l_model := (if d_model u \<noteq> [] then d_model u else l_model l),
       l_usage := Some \<lparr>prompt_tokens = d_prompt u, completion_tokens = billable_output_tokens u,
                        estimated = False\<rparr>\<rparr>"

definition or_estimate :: "locals \<Rightarrow> turn_usage option" where
  "or_estimate l = (case l_usage l of None \<Rightarrow> estimated_usage l | Some u \<Rightarrow> Some u)"

fun consume ::
  "world \<Rightarrow> turn \<Rightarrow> stream_item list \<Rightarrow> py_exc option \<Rightarrow> locals \<Rightarrow> trace
   \<Rightarrow> py_exc option \<times> locals \<times> trace" where
  "consume w t [] ending l tr = (ending, l, tr)"
| "consume w t ((poll, d) # items) ending l tr =
     (let handle = (\<lambda>tr0.
        case d of
          Provided (TextDelta s) \<Rightarrow>
            (let l1 = l\<lparr>l_text := l_text l @ [s]\<rparr> in
             case act w (Append (EDelta s)) tr0 of
               (Some x, tr1) \<Rightarrow> (Some x, l1, tr1)
             | (None, tr1) \<Rightarrow> consume w t items ending l1 tr1)
        | Provided (UsageDelta u) \<Rightarrow>
            (let l1 = note_usage u l in
             case act w (Append (EUsage (the (l_usage l1)))) tr0 of
               (Some x, tr1) \<Rightarrow> (Some x, l1, tr1)
             | (None, tr1) \<Rightarrow> consume w t items ending l1 tr1)
        | Provided (ToolCallDelta call_id name args st) \<Rightarrow>
            (case act w (Append (EToolCall name args st)) tr0 of
               (Some x, tr1) \<Rightarrow> (Some x, l, tr1)
             | (None, tr1) \<Rightarrow> consume w t items ending l tr1)
        | ErrorDelta code message retryable details \<Rightarrow>
            (case fail_turn w t l code message retryable ''interrupted'' None tr0 of
               (x, tr1) \<Rightarrow> (x, l, tr1))
        | Provided (DoneDelta finish) \<Rightarrow>
            (case complete_turn w t l finish ''completed'' (l_usage l) tr0 of
               (x, tr1) \<Rightarrow> (x, l, tr1)))
      in case poll of
           None \<Rightarrow> handle tr
         | Some stop \<Rightarrow>
             (case act w PollStop tr of
                (Some x, tr1) \<Rightarrow> (Some x, l, tr1)
              | (None, tr1) \<Rightarrow>
                  if stop
                  then (case act w CloseUpstream tr1 of
                          (Some x, tr2) \<Rightarrow> (Some x, l, tr2)
                        | (None, tr2) \<Rightarrow>
                            (case complete_turn w t l (lit ''stopped'') ''interrupted'' (or_estimate l) tr2 of
                               (x, tr3) \<Rightarrow> (x, l, tr3)))
                  else handle tr1))"

text \<open>\<open>async with aclosing(...)\<close>: the upstream is closed on the way out, whatever happened.\<close>

definition closing :: "world \<Rightarrow> py_exc option \<times> locals \<times> trace \<Rightarrow> py_exc option \<times> locals \<times> trace" where
  "closing w r =
     (case r of (x, l, tr) \<Rightarrow>
        (case act w CloseUpstream tr of
           (Some y, tr1) \<Rightarrow> (Some y, l, tr1)
         | (None, tr1) \<Rightarrow> (x, l, tr1)))"

record inputs =
  composed :: "py_exc + prepared_turn"
  opened :: "py_exc option"
  stream_items :: "stream_item list"
  stream_end :: "py_exc option"

definition produce :: "world \<Rightarrow> turn \<Rightarrow> inputs \<Rightarrow> py_exc option \<times> locals \<times> trace" where
  "produce w t inp =
     (let l0 = \<lparr>l_text = [], l_usage = None, l_model = t_model t, l_version = None, l_prepared = None\<rparr> in
      case composed inp of
        Inl x \<Rightarrow> (Some x, l0, [])
      | Inr p \<Rightarrow>
          let l = l0\<lparr>l_version := Some (p_prompt_version p), l_prepared := Some p\<rparr> in
          case act w (Append EMeta) [] of
            (Some x, tr) \<Rightarrow> (Some x, l, tr)
          | (None, tr) \<Rightarrow>
              (case opened inp of
                 Some x \<Rightarrow> (Some x, l, tr)
               | None \<Rightarrow> closing w (consume w t (stream_items inp) (stream_end inp) l tr)))"

definition generate_body :: "world \<Rightarrow> turn \<Rightarrow> inputs \<Rightarrow> py_exc option \<times> trace" where
  "generate_body w t inp =
     (case produce w t inp of
        (None, l, tr) \<Rightarrow> (None, tr)
      | (Some CancelledError, l, tr) \<Rightarrow>
          (Some CancelledError,
           snd (fail_turn (shielded w) t l ''STREAM_INTERRUPTED'' shutdown_title True
                  ''interrupted'' (Some ''shutdown'') tr))
      | (Some (ProviderFailure code message retryable), l, tr) \<Rightarrow>
          fail_turn w t l code message retryable ''failed'' None tr
      | (Some (OtherFailure name), l, tr) \<Rightarrow>
          fail_turn w t l ''INTERNAL_ERROR'' internal_error_title True ''failed'' (Some name) tr)"

definition generate :: "world \<Rightarrow> turn \<Rightarrow> inputs \<Rightarrow> py_exc option \<times> trace" where
  "generate w t inp =
     (case generate_body w t inp of (x, tr) \<Rightarrow>
        if t_stream t = None then (x, tr)
        else case act w ReleaseStream tr of
               (Some y, tr1) \<Rightarrow> (Some y, tr1)
             | (None, tr1) \<Rightarrow> (x, tr1))"

subsection \<open>Effects that a piece of the turn adds to the trace\<close>

text \<open>\<open>adds P r tr\<close>: the run \<open>r\<close>, started from \<open>tr\<close>, appended only effects satisfying \<open>P\<close>.\<close>

definition adds :: "(effect \<Rightarrow> bool) \<Rightarrow> trace \<Rightarrow> trace \<Rightarrow> bool" where
  "adds P tr tr' = (\<exists>ys. tr' = tr @ ys \<and> list_all P ys)"

lemma adds_refl [simp, intro]: "adds P tr tr"
  by (simp add: adds_def)

lemma adds_trans [trans]: "adds P a b \<Longrightarrow> adds P b c \<Longrightarrow> adds P a c"
  unfolding adds_def by (metis append.assoc list_all_append)

lemma adds_snoc [simp]: "P e \<Longrightarrow> adds P tr (tr @ [e])"
  by (auto simp: adds_def)

lemma act_trace: "act w e tr = (x, tr') \<Longrightarrow> tr' = tr @ [e]"
  by (auto simp: act_def split: outcome.splits)

lemma acts_prefix:
  "acts w es tr = (x, tr') \<Longrightarrow> \<exists>ys. tr' = tr @ ys \<and> prefix ys es \<and> (x = None \<longrightarrow> ys = es)"
proof (induction es arbitrary: tr)
  case (Cons e es)
  obtain y tr1 where a: "act w e tr = (y, tr1)" by force
  have t: "tr1 = tr @ [e]" using act_trace [OF a] .
  show ?case
  proof (cases y)
    case None
    then have "acts w es tr1 = (x, tr')" using Cons.prems a by simp
    from Cons.IH [OF this] t show ?thesis by auto
  next
    case (Some z)
    then have "tr' = tr @ [e] \<and> x = Some z" using Cons.prems a t by simp
    then show ?thesis by auto
  qed
qed simp

lemma swallow_trace [simp]: "snd (swallow r) = snd r"
  by (auto simp: swallow_def split: prod.splits option.splits py_exc.splits)

lemma finalise_prefix:
  assumes "finalise w before after tr = (x, tr')"
  shows "\<exists>ys. tr' = tr @ ys \<and> prefix ys (before @ after)"
proof -
  obtain y tr1 where a: "acts w before tr = (y, tr1)" by force
  from acts_prefix [OF a] obtain ys where ys: "tr1 = tr @ ys" "prefix ys before" "y = None \<longrightarrow> ys = before"
    by blast
  show ?thesis
  proof (cases y)
    case None
    obtain z tr2 where b: "acts w after tr1 = (z, tr2)" by force
    from acts_prefix [OF b] obtain zs where zs: "tr2 = tr1 @ zs" "prefix zs after" by blast
    have "tr' = tr2" using assms a b None swallow_trace [of "(z, tr2)"] by (simp add: finalise_def)
    then show ?thesis using ys zs None by auto
  next
    case (Some u)
    then show ?thesis using assms a ys by (auto simp: finalise_def intro: prefix_prefix)
  qed
qed

lemma prefix_list_all: "prefix ys xs \<Longrightarrow> list_all P xs \<Longrightarrow> list_all P ys"
  by (auto simp: prefix_def)

lemma finalise_adds:
  "finalise w before after tr = (x, tr') \<Longrightarrow> list_all P (before @ after) \<Longrightarrow> adds P tr tr'"
  unfolding adds_def by (blast dest: finalise_prefix prefix_list_all)

subsection \<open>Invariants of a generation\<close>

fun quiet :: "effect \<Rightarrow> bool" where
  "quiet PollStop = True"
| "quiet CloseUpstream = True"
| "quiet (Append EMeta) = True"
| "quiet (Append (EToolCall _ _ _)) = True"
| "quiet (Append (EUsage _)) = True"
| "quiet _ = False"

fun closing_effect :: "effect \<Rightarrow> bool" where
  "closing_effect (RecordUsage _ _) = True"
| "closing_effect (SettleTokens _) = True"
| "closing_effect (Append (ECitations _)) = True"
| "closing_effect (Append (EDone _)) = True"
| "closing_effect (Append (EError _ _ _)) = True"
| "closing_effect SettleBuffer = True"
| "closing_effect _ = False"

lemma settle_effects_closing [simp]: "list_all closing_effect (settle_effects t u)"
  by (simp add: settle_effects_def)

lemma citation_effects_closing [simp]: "list_all closing_effect (citation_effects l)"
  by (simp add: citation_effects_def split: option.splits)

lemma note_usage_text [simp]: "l_text (note_usage u l) = l_text l"
  by (simp add: note_usage_def)

text \<open>The unpolled elements, and what a poll adds to them.\<close>

lemma consume_unpolled [simp]:
  "consume w t ((None, Provided (TextDelta s)) # items) ending l tr =
     (let l1 = l\<lparr>l_text := l_text l @ [s]\<rparr> in
      case act w (Append (EDelta s)) tr of
        (Some x, tr1) \<Rightarrow> (Some x, l1, tr1)
      | (None, tr1) \<Rightarrow> consume w t items ending l1 tr1)"
  "consume w t ((None, Provided (UsageDelta u)) # items) ending l tr =
     (let l1 = note_usage u l in
      case act w (Append (EUsage (the (l_usage l1)))) tr of
        (Some x, tr1) \<Rightarrow> (Some x, l1, tr1)
      | (None, tr1) \<Rightarrow> consume w t items ending l1 tr1)"
  "consume w t ((None, Provided (ToolCallDelta call_id name args st)) # items) ending l tr =
     (case act w (Append (EToolCall name args st)) tr of
        (Some x, tr1) \<Rightarrow> (Some x, l, tr1)
      | (None, tr1) \<Rightarrow> consume w t items ending l tr1)"
  "consume w t ((None, ErrorDelta code message retryable details) # items) ending l tr =
     (case fail_turn w t l code message retryable ''interrupted'' None tr of (x, tr1) \<Rightarrow> (x, l, tr1))"
  "consume w t ((None, Provided (DoneDelta finish)) # items) ending l tr =
     (case complete_turn w t l finish ''completed'' (l_usage l) tr of (x, tr1) \<Rightarrow> (x, l, tr1))"
  by simp_all

lemma consume_polled:
  "consume w t ((Some stop, d) # items) ending l tr =
     (case act w PollStop tr of
        (Some x, tr1) \<Rightarrow> (Some x, l, tr1)
      | (None, tr1) \<Rightarrow>
          if stop
          then (case act w CloseUpstream tr1 of
                  (Some x, tr2) \<Rightarrow> (Some x, l, tr2)
                | (None, tr2) \<Rightarrow>
                    (case complete_turn w t l (lit ''stopped'') ''interrupted'' (or_estimate l) tr2 of
                       (x, tr3) \<Rightarrow> (x, l, tr3)))
          else consume w t ((None, d) # items) ending l tr1)"
  by (cases stop) (simp_all add: Let_def split: prod.split option.split delta.split provider_delta.split)

declare consume.simps(2) [simp del]

text \<open>What a predicate on the locals and the trace must satisfy to hold through a whole generation:
  the interface between the control flow of \<open>_generate\<close> and the properties of its traces.\<close>

locale turn_invariant =
  fixes I :: "locals \<Rightarrow> trace \<Rightarrow> bool"
  assumes start: "l_text l = [] \<Longrightarrow> I l []"
    and step: "I l tr \<Longrightarrow> quiet e \<Longrightarrow> I l (tr @ [e])"
    and text_step: "I l tr \<Longrightarrow> I (l\<lparr>l_text := l_text l @ [s]\<rparr>) (tr @ [Append (EDelta s)])"
    and usage_step: "I l tr \<Longrightarrow> I (note_usage u l) tr"
    and closes: "I l tr \<Longrightarrow> list_all closing_effect after
      \<Longrightarrow> finalise w (trace_effects l @ [Persist (snapshot_of l st usage err)]) after tr = (x, tr')
      \<Longrightarrow> I l tr'"
begin

lemma act_quiet: "act w e tr = (x, tr') \<Longrightarrow> I l tr \<Longrightarrow> quiet e \<Longrightarrow> I l tr'"
  by (metis act_trace step)

lemma complete: "complete_turn w t l finish st usage tr = (x, tr') \<Longrightarrow> I l tr \<Longrightarrow> I l tr'"
  unfolding complete_turn_def by (rule closes) (auto split: option.splits)

lemma fail: "fail_turn w t l code message retryable st cause tr = (x, tr') \<Longrightarrow> I l tr \<Longrightarrow> I l tr'"
  unfolding fail_turn_def by (rule closes) auto

lemma tool_step: "I l tr \<Longrightarrow> I l (tr @ [Append (EToolCall name args st)])"
  by (rule step) simp_all

lemma usage_event_step: "I l tr \<Longrightarrow> I (note_usage u l) (tr @ [Append (EUsage v)])"
  by (rule step [OF usage_step]) simp_all

lemma consume_holds:
  "consume w t items ending l tr = (x, l', tr') \<Longrightarrow> I l tr \<Longrightarrow> I l' tr'"
proof (induction items arbitrary: l tr)
  case (Cons item items)
  have unpolled: "I l' tr'" if "consume w t ((None, d) # items) ending l tr0 = (x, l', tr')" "I l tr0" for d tr0
    using that Cons.IH
    by (cases d)
      (auto simp: Let_def split: option.splits prod.splits
        dest!: act_trace intro: tool_step usage_event_step text_step complete fail)
  obtain poll d where item: "item = (poll, d)" by force
  show ?case
  proof (cases poll)
    case None
    then show ?thesis using unpolled Cons.prems item by simp
  next
    case (Some stop)
    obtain y tr1 where poll: "act w PollStop tr = (y, tr1)" by force
    have I1: "I l tr1" using act_quiet [OF poll] Cons.prems by simp
    show ?thesis
      using Cons.prems(1) I1 unfolding item Some consume_polled poll
      by (auto split: option.splits prod.splits if_splits
          intro: unpolled complete dest: act_quiet)
  qed
qed simp

lemma closing_holds: "closing w (x, l, tr) = (y, l', tr') \<Longrightarrow> I l tr \<Longrightarrow> I l' tr'"
  by (auto simp: closing_def split: prod.splits option.splits dest: act_quiet)

lemma produce_holds:
  assumes "produce w t inp = (x, l, tr)"
  shows "I l tr"
proof (cases "composed inp")
  case (Inl y)
  then show ?thesis using assms by (auto simp: produce_def Let_def intro: start)
next
  case (Inr p)
  let ?l = "\<lparr>l_text = [], l_usage = None, l_model = t_model t, l_version = Some (p_prompt_version p),
             l_prepared = Some p\<rparr>"
  obtain y tr1 where meta: "act w (Append EMeta) [] = (y, tr1)" by force
  have I1: "I ?l tr1" using act_quiet [OF meta start] by simp
  obtain z l2 tr2 where body: "consume w t (stream_items inp) (stream_end inp) ?l tr1 = (z, l2, tr2)"
    by (metis prod_cases3)
  have I2: "I l2 tr2" using consume_holds [OF body I1] .
  show ?thesis
    using assms Inr meta body I1 closing_holds [OF _ I2]
    by (auto simp: produce_def Let_def split: option.splits)
qed

lemma body_holds:
  assumes "generate_body w t inp = (x, tr)"
  shows "\<exists>l. I l tr"
proof -
  obtain y l tr0 where p: "produce w t inp = (y, l, tr0)" by (metis prod_cases3)
  have I0: "I l tr0" using produce_holds [OF p] .
  show ?thesis
    using assms I0 unfolding generate_body_def p
    by (auto split: option.splits py_exc.splits intro: fail [OF _ I0] fail [OF prod.collapse [symmetric] I0])
qed

end

subsubsection \<open>Nothing releases the stream slot but the outermost \<open>finally\<close>\<close>

fun is_release :: "effect \<Rightarrow> bool" where
  "is_release ReleaseStream = True"
| "is_release _ = False"

lemma quiet_not_release [dest]: "quiet e \<Longrightarrow> \<not> is_release e"
  by (cases e) auto

lemma closing_not_release [dest]: "closing_effect e \<Longrightarrow> \<not> is_release e"
  by (cases e) auto

lemma list_all_weaken: "list_all P xs \<Longrightarrow> (\<And>x. P x \<Longrightarrow> Q x) \<Longrightarrow> list_all Q xs"
  by (simp add: list_all_iff)

lemma trace_effects_unreleased [simp]: "list_all (\<lambda>e. \<not> is_release e) (trace_effects l)"
  by (simp add: trace_effects_def split: option.split)

interpretation unreleased: turn_invariant "\<lambda>l tr. list_all (\<lambda>e. \<not> is_release e) tr"
proof
  fix l after w st usage err tr x tr'
  assume tr: "list_all (\<lambda>e. \<not> is_release e) tr" and after: "list_all closing_effect after"
    and fin: "finalise w (trace_effects l @ [Persist (snapshot_of l st usage err)]) after tr = (x, tr')"
  have "adds (\<lambda>e. \<not> is_release e) tr tr'"
    using after by (intro finalise_adds [OF fin]) (auto intro: list_all_weaken)
  then show "list_all (\<lambda>e. \<not> is_release e) tr'" using tr by (auto simp: adds_def)
qed (auto dest: quiet_not_release)

subsubsection \<open>What is stored is what was streamed\<close>

fun streamed :: "trace \<Rightarrow> ustring" where
  "streamed [] = []"
| "streamed (Append (EDelta s) # tr) = s @ streamed tr"
| "streamed (_ # tr) = streamed tr"

fun honest :: "ustring \<Rightarrow> trace \<Rightarrow> bool" where
  "honest acc [] = True"
| "honest acc (Append (EDelta s) # tr) = honest (acc @ s) tr"
| "honest acc (Persist s # tr) = (s_content s = acc \<and> honest acc tr)"
| "honest acc (_ # tr) = honest acc tr"

lemma streamed_append [simp]: "streamed (a @ b) = streamed a @ streamed b"
  by (induction a rule: streamed.induct) auto

lemma honest_append [simp]: "honest acc (a @ b) = (honest acc a \<and> honest (acc @ streamed a) b)"
  by (induction acc a rule: honest.induct) auto

fun keeps_content :: "ustring \<Rightarrow> effect \<Rightarrow> bool" where
  "keeps_content c (Append (EDelta _)) = False"
| "keeps_content c (Persist s) = (s_content s = c)"
| "keeps_content c _ = True"

lemma keeps_content_honest: "list_all (keeps_content c) ys \<Longrightarrow> honest c ys \<and> streamed ys = []"
proof (induction ys)
  case (Cons e ys)
  then show ?case by (cases e; cases "case e of Append v \<Rightarrow> v | _ \<Rightarrow> EMeta") auto
qed simp

lemma quiet_keeps: "quiet e \<Longrightarrow> keeps_content c e"
  by (induction e rule: quiet.induct) auto

lemma closing_keeps: "closing_effect e \<Longrightarrow> keeps_content c e"
  by (induction e rule: closing_effect.induct) auto

lemma snapshot_content [simp]: "s_content (snapshot_of l st usage err) = concat (l_text l)"
  by (simp add: snapshot_of_def)

lemma trace_effects_keep [simp]: "list_all (keeps_content c) (trace_effects l)"
  by (simp add: trace_effects_def split: option.split)

interpretation honest:
  turn_invariant "\<lambda>l tr. honest [] tr \<and> streamed tr = concat (l_text l)"
proof
  fix l tr e
  assume "honest [] tr \<and> streamed tr = concat (l_text l)" and "quiet e"
  moreover from this have "list_all (keeps_content (concat (l_text l))) [e]"
    by (simp add: quiet_keeps)
  ultimately show "honest [] (tr @ [e]) \<and> streamed (tr @ [e]) = concat (l_text l)"
    using keeps_content_honest by fastforce
next
  fix l after w st usage err tr x tr'
  assume tr: "honest [] tr \<and> streamed tr = concat (l_text l)" and after: "list_all closing_effect after"
    and fin: "finalise w (trace_effects l @ [Persist (snapshot_of l st usage err)]) after tr = (x, tr')"
  have "adds (keeps_content (concat (l_text l))) tr tr'"
    using after by (intro finalise_adds [OF fin]) (auto intro: list_all_weaken closing_keeps)
  then obtain ys where "tr' = tr @ ys" "list_all (keeps_content (concat (l_text l))) ys"
    by (auto simp: adds_def)
  then show "honest [] tr' \<and> streamed tr' = concat (l_text l)"
    using tr keeps_content_honest by force
qed auto

subsubsection \<open>Stored before anyone is told\<close>

fun stores :: "effect \<Rightarrow> bool" where
  "stores (Persist _) = True"
| "stores _ = False"

fun told_after_stored :: "bool \<Rightarrow> trace \<Rightarrow> bool" where
  "told_after_stored stored [] = True"
| "told_after_stored stored (e # tr) =
     ((closing_effect e \<longrightarrow> stored) \<and> told_after_stored (stored \<or> stores e) tr)"

lemma told_after_stored_append [simp]:
  "told_after_stored b (xs @ ys) = (told_after_stored b xs \<and> told_after_stored (b \<or> list_ex stores xs) ys)"
  by (induction xs arbitrary: b) (auto simp: disj_assoc)

lemma told_after_stored_True [simp]: "told_after_stored True xs"
  by (induction xs) auto

lemma told_after_stored_trace [simp]: "told_after_stored b (trace_effects l)"
  by (simp add: trace_effects_def split: option.split)

lemma told_after_stored_mono: "told_after_stored False xs \<Longrightarrow> told_after_stored b xs"
  by (cases b) auto

lemma quiet_not_closing: "quiet e \<Longrightarrow> \<not> closing_effect e"
  by (induction e rule: quiet.induct) auto

interpretation stored_first: turn_invariant "\<lambda>l tr. told_after_stored False tr"
proof
  fix l after w st usage err tr x tr'
  assume tr: "told_after_stored False tr"
    and fin: "finalise w (trace_effects l @ [Persist (snapshot_of l st usage err)]) after tr = (x, tr')"
  from finalise_prefix [OF fin] obtain ys rest
    where t: "tr' = tr @ ys" and p: "ys @ rest = trace_effects l @ Persist (snapshot_of l st usage err) # after"
    by (auto simp: prefix_def)
  have "told_after_stored False (ys @ rest)" unfolding p by simp
  then have "told_after_stored False ys" by simp
  then show "told_after_stored False tr'" using tr told_after_stored_mono unfolding t by simp
qed (auto simp: quiet_not_closing)

subsection \<open>Properties of every generation\<close>

lemma generate_from_body:
  assumes "generate_body w t inp = (x, body)"
  shows "snd (generate w t inp) = body @ (if t_stream t = None then [] else [ReleaseStream])"
  using assms by (auto simp: generate_def act_def split: outcome.splits)

lemma body_of: obtains x body where "generate_body w t inp = (x, body)"
  by force

text \<open>Whatever the store, the database, the provider or a cancellation does, a generation that
  holds a concurrent-stream reservation gives it back exactly once, as its very last action; one that
  holds none never releases any. So no exit of the code path can leak a stream slot.\<close>

theorem stream_slot_released_exactly_once:
  "\<exists>body. snd (generate w t inp) = body @ (if t_stream t = None then [] else [ReleaseStream])
     \<and> list_all (\<lambda>e. \<not> is_release e) body"
proof -
  obtain x body where b: "generate_body w t inp = (x, body)" by (rule body_of)
  then show ?thesis using unreleased.body_holds [OF b] generate_from_body [OF b] by blast
qed



subsection \<open>The end of a turn\<close>

fun is_final :: "effect \<Rightarrow> bool" where
  "is_final (Persist _) = True"
| "is_final (RecordUsage _ _) = True"
| "is_final (SettleTokens _) = True"
| "is_final (Append (EDone _)) = True"
| "is_final (Append (EError _ _ _)) = True"
| "is_final SettleBuffer = True"
| "is_final _ = False"

fun is_terminal :: "effect \<Rightarrow> bool" where
  "is_terminal (Append (EDone _)) = True"
| "is_terminal (Append (EError _ _ _)) = True"
| "is_terminal _ = False"

fun settles :: "effect \<Rightarrow> bool" where
  "settles (SettleTokens _) = True"
| "settles _ = False"

text \<open>The position of an effect in the closing sequence.\<close>

fun closing_rank :: "effect \<Rightarrow> nat" where
  "closing_rank (RecordUsage _ _) = 1"
| "closing_rank (SettleTokens _) = 2"
| "closing_rank (Append _) = 3"
| "closing_rank SettleBuffer = 4"
| "closing_rank _ = 0"

text \<open>An effect tells the same story as the stored row.\<close>

fun agrees :: "snapshot \<Rightarrow> effect \<Rightarrow> bool" where
  "agrees s (RecordUsage m u) = (m = s_model s \<and> s_turn_usage s = Some u)"
| "agrees s (SettleTokens u) = (u = s_turn_usage s)"
| "agrees s (Append (EDone _)) = (s_error s = None)"
| "agrees s (Append (EError code _ _)) = (map_option fst (s_error s) = Some code)"
| "agrees s SettleBuffer = True"
| "agrees _ _ = False"

definition closes_turn :: "effect list \<Rightarrow> bool" where
  "closes_turn es =
     (case es of
        Persist s # zs \<Rightarrow> sorted_wrt (\<lambda>a b. closing_rank a < closing_rank b) zs \<and> list_all (agrees s) zs
      | _ \<Rightarrow> False)"

definition closes_fully :: "turn \<Rightarrow> effect list \<Rightarrow> bool" where
  "closes_fully t es =
     (closes_turn es \<and> list_ex is_terminal es \<and> (t_tokens t \<noteq> None \<longrightarrow> list_ex settles es))"

text \<open>A calm world: nothing is cancelled, and closing the upstream, emitting the trace and writing
  the row succeed; anything else may fail.\<close>

definition calm :: "world \<Rightarrow> bool" where
  "calm w =
     ((\<forall>tr e. w tr e \<noteq> Fails CancelledError) \<and> (\<forall>tr. w tr CloseUpstream = Succeeds)
      \<and> (\<forall>tr st. w tr (EmitTrace st) = Succeeds) \<and> (\<forall>tr s. w tr (Persist s) = Succeeds))"

definition steady :: "world \<Rightarrow> bool" where
  "steady w = (\<forall>tr e. w tr e = Succeeds)"

definition finishes :: "world \<Rightarrow> turn \<Rightarrow> trace \<Rightarrow> trace \<Rightarrow> bool" where
  "finishes w t tr tr' =
     (\<exists>zs. filter is_final tr' = filter is_final tr @ zs \<and> closes_turn zs
        \<and> (steady w \<longrightarrow> closes_fully t zs))"

lemma acts_steady: "steady w \<Longrightarrow> acts w es tr = (None, tr @ es)"
  by (induction es arbitrary: tr) (auto simp: steady_def act_def)

lemma calm_act: "calm w \<Longrightarrow> act w e tr = (x, tr') \<Longrightarrow> x \<noteq> Some CancelledError \<and> tr' = tr @ [e]"
  by (auto simp: calm_def act_def split: outcome.splits)

lemma calm_acts: "calm w \<Longrightarrow> acts w es tr = (x, tr') \<Longrightarrow> x \<noteq> Some CancelledError"
proof (induction es arbitrary: tr)
  case (Cons e es)
  then show ?case by (auto split: prod.splits option.splits dest: calm_act)
qed simp

lemma calm_storing:
  "calm w \<Longrightarrow> acts w (trace_effects l @ [Persist s]) tr = (None, tr @ trace_effects l @ [Persist s])"
  by (auto simp: trace_effects_def calm_def act_def split: option.split)

lemma trace_effects_not_final [simp]: "filter is_final (trace_effects l) = []"
  by (simp add: trace_effects_def split: option.split)

lemma citation_effects_not_final [simp]: "filter is_final (citation_effects l) = []"
  by (simp add: citation_effects_def split: option.split)

lemma prefix_closes_turn: "prefix ys zs \<Longrightarrow> closes_turn (Persist s # zs) \<Longrightarrow> closes_turn (Persist s # ys)"
  by (auto simp: closes_turn_def prefix_def sorted_wrt_append)

lemma calm_finalise:
  assumes "calm w"
    and fin: "finalise w (trace_effects l @ [Persist s]) after tr = (x, tr')"
    and good: "closes_fully t (Persist s # filter is_final after)"
  shows "x = None \<and> finishes w t tr tr'"
proof -
  obtain z tr2 where b: "acts w after (tr @ trace_effects l @ [Persist s]) = (z, tr2)" by force
  from acts_prefix [OF b] obtain ys
    where ys: "tr2 = (tr @ trace_effects l @ [Persist s]) @ ys" "prefix ys after" by blast
  have z: "z \<noteq> Some CancelledError" using calm_acts [OF \<open>calm w\<close> b] .
  have x: "x = None" "tr' = tr2"
    using fin b z unfolding finalise_def calm_storing [OF \<open>calm w\<close>]
    by (auto simp: swallow_def split: option.splits py_exc.splits)
  have full: "steady w \<longrightarrow> ys = after"
    using b ys(1) acts_steady [of w after "tr @ trace_effects l @ [Persist s]"] by auto
  have "closes_turn (Persist s # filter is_final ys)"
    using good filter_mono_prefix [OF ys(2)] prefix_closes_turn by (auto simp: closes_fully_def)
  then show ?thesis
    unfolding finishes_def using x ys(1) full good by auto
qed

lemma calm_complete:
  assumes "calm w" and "complete_turn w t l finish st usage tr = (x, tr')"
  shows "x = None \<and> finishes w t tr tr'"
  by (rule calm_finalise [OF assms(1) assms(2) [unfolded complete_turn_def]])
    (simp add: closes_fully_def closes_turn_def snapshot_of_def settle_effects_def split: option.splits)

lemma calm_fail:
  assumes "calm w" and "fail_turn w t l code message retryable st cause tr = (x, tr')"
  shows "x = None \<and> finishes w t tr tr'"
  by (rule calm_finalise [OF assms(1) assms(2) [unfolded fail_turn_def]])
    (simp add: closes_fully_def closes_turn_def snapshot_of_def settle_effects_def)

text \<open>What the gateway promises of its stream: it carries a \<open>done\<close> or \<open>error\<close> delta or it raises.\<close>

definition ends_well :: "stream_item list \<Rightarrow> py_exc option \<Rightarrow> bool" where
  "ends_well items ending =
     (ending \<noteq> Some CancelledError \<and> (ending \<noteq> None \<or> list_ex (\<lambda>i. ends_turn (snd i)) items))"

text \<open>A stretch of the turn either has closed it or has been interrupted by an exception before any
  closing effect.\<close>

definition settled_or_raised :: "world \<Rightarrow> turn \<Rightarrow> trace \<Rightarrow> py_exc option \<Rightarrow> trace \<Rightarrow> bool" where
  "settled_or_raised w t tr x tr' =
     (if x = None then finishes w t tr tr'
      else x \<noteq> Some CancelledError \<and> filter is_final tr' = filter is_final tr)"

lemma settled_or_raised_step:
  "settled_or_raised w t (tr @ [e]) x tr' \<Longrightarrow> \<not> is_final e \<Longrightarrow> settled_or_raised w t tr x tr'"
  by (cases x) (simp_all add: settled_or_raised_def finishes_def)

lemma calm_act_raised:
  "calm w \<Longrightarrow> act w e tr = (Some x, tr') \<Longrightarrow> \<not> is_final e \<Longrightarrow> settled_or_raised w t tr (Some x) tr'"
  by (auto simp: settled_or_raised_def dest: calm_act)

lemma calm_handle:
  assumes "calm w" "ends_well ((None, d) # items) ending"
    and run: "consume w t ((None, d) # items) ending l tr = (x, l', tr')"
    and IH: "\<And>l tr. consume w t items ending l tr = (x, l', tr') \<Longrightarrow> ends_well items ending
      \<Longrightarrow> settled_or_raised w t tr x tr'"
  shows "settled_or_raised w t tr x tr'"
proof -
  have rest: "settled_or_raised w t tr x tr'"
    if "(case act w e tr of (Some y, tr1) \<Rightarrow> (Some y, l1, tr1) | (None, tr1) \<Rightarrow> consume w t items ending l1 tr1)
          = (x, l', tr')" and "\<not> is_final e" and "\<not> ends_turn d" for e l1
  proof -
    obtain y tr1 where a: "act w e tr = (y, tr1)" by force
    have tr1: "tr1 = tr @ [e]" using act_trace [OF a] .
    show ?thesis
    proof (cases y)
      case None
      have "ends_well items ending" using assms(2) that(3) by (simp add: ends_well_def)
      then show ?thesis
        using IH [of l1 tr1] that a None tr1 settled_or_raised_step [of w t tr e] by simp
    next
      case (Some z)
      then show ?thesis using that a calm_act_raised [OF assms(1), of e tr z] by auto
    qed
  qed
  show ?thesis
  proof (cases d)
    case (Done finish)
    obtain y tr1 where c: "complete_turn w t l finish ''completed'' (l_usage l) tr = (y, tr1)" by force
    then show ?thesis using run calm_complete [OF assms(1) c] Done by (simp add: settled_or_raised_def)
  next
    case (Error code message retryable details)
    obtain y tr1 where c: "fail_turn w t l code message retryable ''interrupted'' None tr = (y, tr1)" by force
    then show ?thesis using run calm_fail [OF assms(1) c] Error by (simp add: settled_or_raised_def)
  qed (use run rest in \<open>simp_all add: Let_def\<close>)
qed

lemma calm_consume:
  "calm w \<Longrightarrow> ends_well items ending \<Longrightarrow> consume w t items ending l tr = (x, l', tr')
     \<Longrightarrow> settled_or_raised w t tr x tr'"
proof (induction items arbitrary: l tr)
  case Nil
  then show ?case by (auto simp: settled_or_raised_def ends_well_def)
next
  case (Cons item items)
  obtain poll d where item: "item = (poll, d)" by force
  have handle: "settled_or_raised w t tr0 x tr'"
    if "consume w t ((None, d) # items) ending l tr0 = (x, l', tr')" for tr0
  proof (rule calm_handle [OF Cons.prems(1) _ that])
    show "ends_well ((None, d) # items) ending" using Cons.prems(2) item by (simp add: ends_well_def)
  qed (rule Cons.IH [OF Cons.prems(1)])
  show ?case
  proof (cases poll)
    case None
    then show ?thesis using handle Cons.prems(3) item by simp
  next
    case (Some stop)
    obtain y tr1 where p: "act w PollStop tr = (y, tr1)" by force
    have tr1: "tr1 = tr @ [PollStop]" using act_trace [OF p] .
    have c: "act w CloseUpstream tr1 = (None, tr1 @ [CloseUpstream])"
      using Cons.prems(1) by (simp add: calm_def act_def)
    obtain z tr3 where
      q: "complete_turn w t l (lit ''stopped'') ''interrupted'' (or_estimate l) (tr1 @ [CloseUpstream]) = (z, tr3)"
      by force
    have run: "consume w t ((Some stop, d) # items) ending l tr = (x, l', tr')"
      using Cons.prems(3) item Some by simp
    show ?thesis
    proof (cases y)
      case (Some e)
      then show ?thesis
        using run calm_act_raised [OF Cons.prems(1), of PollStop tr e] p by (auto simp: consume_polled)
    next
      case None
      show ?thesis
      proof (cases stop)
        case True
        then have "x = z" "tr' = tr3" using run None p c q by (auto simp: consume_polled)
        then show ?thesis
          using calm_complete [OF Cons.prems(1) q] tr1 by (simp add: settled_or_raised_def finishes_def)
      next
        case False
        then have "settled_or_raised w t tr1 x tr'"
          using run None p handle by (auto simp: consume_polled)
        then show ?thesis unfolding tr1 by (rule settled_or_raised_step) simp
      qed
    qed
  qed
qed

lemma calm_produce:
  assumes "calm w" "ends_well (stream_items inp) (stream_end inp)"
    and "composed inp \<noteq> Inl CancelledError" "opened inp \<noteq> Some CancelledError"
    and run: "produce w t inp = (x, l, tr)"
  shows "settled_or_raised w t [] x tr"
proof (cases "composed inp")
  case (Inl y)
  then show ?thesis using run assms(3) by (auto simp: produce_def Let_def settled_or_raised_def)
next
  case (Inr p)
  let ?l = "\<lparr>l_text = [], l_usage = None, l_model = t_model t, l_version = Some (p_prompt_version p),
             l_prepared = Some p\<rparr>"
  obtain y tr1 where meta: "act w (Append EMeta) [] = (y, tr1)" by force
  have m: "y \<noteq> Some CancelledError" "tr1 = [Append EMeta]" using calm_act [OF assms(1) meta] by simp_all
  obtain z l2 tr2 where body: "consume w t (stream_items inp) (stream_end inp) ?l tr1 = (z, l2, tr2)"
    by (metis prod_cases3)
  have c: "settled_or_raised w t [] z tr2"
    using calm_consume [OF assms(1,2) body] unfolding m
    using settled_or_raised_step [of w t "[]" "Append EMeta"] by simp
  have closed: "closing w (z, l2, tr2) = (z, l2, tr2 @ [CloseUpstream])"
    using assms(1) by (simp add: closing_def act_def calm_def)
  show ?thesis
    using run Inr meta m(1) body c closed assms(4)
    by (auto simp: produce_def Let_def settled_or_raised_def finishes_def m(2) split: option.splits if_splits)
qed

lemma calm_generate_body:
  assumes "calm w" "ends_well (stream_items inp) (stream_end inp)"
    and "composed inp \<noteq> Inl CancelledError" "opened inp \<noteq> Some CancelledError"
    and run: "generate_body w t inp = (x, tr)"
  shows "x = None \<and> finishes w t [] tr"
proof -
  obtain y l tr0 where p: "produce w t inp = (y, l, tr0)" by (metis prod_cases3)
  have s: "settled_or_raised w t [] y tr0" by (rule calm_produce [OF assms(1-4) p])
  have failed: "x = None \<and> finishes w t [] tr"
    if "fail_turn w t l code message retryable st cause tr0 = (x, tr)" "filter is_final tr0 = []"
    for code message retryable st cause
    using calm_fail [OF assms(1) that(1)] that(2) by (simp add: finishes_def)
  show ?thesis
    using run s failed unfolding generate_body_def p
    by (auto simp: settled_or_raised_def split: option.splits py_exc.splits if_splits)
qed

lemma calm_generate_closes:
  assumes "calm w" "ends_well (stream_items inp) (stream_end inp)"
    and "composed inp \<noteq> Inl CancelledError" "opened inp \<noteq> Some CancelledError"
  shows "fst (generate_body w t inp) = None
    \<and> closes_turn (filter is_final (snd (generate w t inp)))
    \<and> (steady w \<longrightarrow> closes_fully t (filter is_final (snd (generate w t inp))))"
proof -
  obtain x body where b: "generate_body w t inp = (x, body)" by (rule body_of)
  have "filter is_final (snd (generate w t inp)) = filter is_final body"
    using generate_from_body [OF b] by simp
  then show ?thesis using calm_generate_body [OF assms b] b by (simp add: finishes_def)
qed

text \<open>A source of deltas keeps the promise when each of its streams, whatever the stop flag answers,
  ends with a terminal delta or raises something that is not a cancellation. Fed by such a source,
  a turn closes.\<close>

definition fed_by :: "prepared_turn \<Rightarrow> bool option list \<Rightarrow> delta list \<times> py_exc option \<Rightarrow> inputs" where
  "fed_by p polls stream =
     \<lparr>composed = Inr p, opened = None, stream_items = zip polls (fst stream), stream_end = snd stream\<rparr>"

lemma list_ex_zip: "length ps = length ds \<Longrightarrow> list_ex P ds \<Longrightarrow> list_ex (\<lambda>i. P (snd i)) (zip ps ds)"
  by (induction ps ds rule: list_induct2) auto

locale delta_source =
  fixes source :: "'c \<Rightarrow> delta list \<times> py_exc option"
  assumes not_cancelled: "snd (source c) \<noteq> Some CancelledError"
    and terminated: "snd (source c) = None \<Longrightarrow> list_ex ends_turn (fst (source c))"
begin

lemma ends_well_fed:
  assumes "length polls = length (fst (source c))"
  shows "ends_well (zip polls (fst (source c))) (snd (source c))"
  using not_cancelled [of c] terminated [of c] list_ex_zip [OF assms]
  by (cases "snd (source c)") (simp_all add: ends_well_def)

lemma fed_turn_closes:
  assumes "calm w" "length polls = length (fst (source c))"
  shows "closes_turn (filter is_final (snd (generate w t (fed_by p polls (source c)))))
    \<and> (steady w \<longrightarrow> closes_fully t (filter is_final (snd (generate w t (fed_by p polls (source c))))))"
  using calm_generate_closes [of w "fed_by p polls (source c)" t] assms ends_well_fed [OF assms(2)]
  by (simp add: fed_by_def)

end


definition demo_reservation :: reservation where
  "demo_reservation = \<lparr>r_tenant = 7, r_resource = [116], r_amount = 8, r_key = [107], r_ttl = 60\<rparr>"

definition demo_turn :: turn where
  "demo_turn = \<lparr>t_model = [109], t_tokens = Some demo_reservation, t_stream = Some demo_reservation\<rparr>"

definition demo_request :: chat_request where
  "demo_request = \<lparr>cr_messages = [\<lparr>m_role = ''user'', m_content = [104, 105]\<rparr>], cr_model = [109],
     cr_temperature = None, cr_max_output_tokens = None, cr_reasoning_effort = ''off'',
     cr_response_format = None\<rparr>"

definition demo_prepared :: prepared_turn where
  "demo_prepared = \<lparr>p_request = demo_request, p_chunks = [], p_retrieved = False, p_degraded = [],
     p_traced = False, p_prompt_version = 1\<rparr>"

definition demo_usage :: usage_delta where
  "demo_usage = \<lparr>d_prompt = 5, d_completion = 2, d_model = [], d_provider = [], d_reasoning = 0, d_estimated = False\<rparr>"

definition demo_inputs :: "stream_item list \<Rightarrow> py_exc option \<Rightarrow> inputs" where
  "demo_inputs items ending =
     \<lparr>composed = Inr demo_prepared, opened = None, stream_items = items, stream_end = ending\<rparr>"

text \<open>A world in which the counters are down: settling the tokens fails.\<close>

fun counters_down :: world where
  "counters_down tr (SettleTokens u) = Fails (OtherFailure ''ConnectionError'')"
| "counters_down tr _ = Succeeds"

lemma counters_down_calm: "calm counters_down"
proof -
  have "counters_down tr e \<noteq> Fails CancelledError" for tr e by (cases e) simp_all
  then show ?thesis by (simp add: calm_def)
qed


subsection \<open>What the code does not do\<close>

definition demo_usage_row :: turn_usage where
  "demo_usage_row = \<lparr>prompt_tokens = 5, completion_tokens = 2, estimated = False\<rparr>"

fun records :: "effect \<Rightarrow> bool" where
  "records (RecordUsage _ _) = True"
| "records _ = False"

text \<open>An interrupted stream whose usage was reported settles the reservation with that usage, but no
  usage record is written: \<open>_fail\<close> has no counterpart of the \<open>_usage.record\<close> call of \<open>_complete\<close>.\<close>

lemma interrupted_usage_never_recorded:
  "filter is_final (snd (generate (\<lambda>_ _. Succeeds) demo_turn
     (demo_inputs [(None, Provided (TextDelta [97])), (None, Provided (UsageDelta demo_usage)),
                   (None, ErrorDelta ''STREAM_INTERRUPTED'' [120] True [])] None)))
   = [Persist (snapshot_of \<lparr>l_text = [[97]], l_usage = Some demo_usage_row, l_model = [109],
                             l_version = Some 1, l_prepared = Some demo_prepared\<rparr>
                ''interrupted'' (Some demo_usage_row) (Some (''STREAM_INTERRUPTED'', None))),
      SettleTokens (Some demo_usage_row),
      Append (EError ''STREAM_INTERRUPTED'' [120] True), SettleBuffer]"
  by (simp add: generate_def generate_body_def produce_def demo_inputs_def closing_def act_def Let_def
      note_usage_def demo_usage_def demo_usage_row_def billable_output_tokens_def fail_turn_def finalise_def
      trace_effects_def settle_effects_def citation_effects_def swallow_def demo_turn_def demo_prepared_def
      snapshot_of_def turn_citations_def)

text \<open>Whatever the failing path, \<open>_fail\<close> never records usage.\<close>

lemma fail_turn_never_records:
  assumes "fail_turn w t l code message retryable st cause tr = (x, tr')"
  shows "adds (\<lambda>e. \<not> records e) tr tr'"
  using assms unfolding fail_turn_def
  by (rule finalise_adds)
    (auto simp: trace_effects_def settle_effects_def citation_effects_def split: option.splits)

text \<open>A cancellation that arrives while the \<open>done\<close> event of a complete answer is being written makes
  \<open>_generate\<close> close the turn a second time: the completed row is rewritten as interrupted and the
  token reservation, whose commit is not idempotent, is settled twice.\<close>

fun cancelled_at_done :: world where
  "cancelled_at_done tr (Append (EDone f)) = Fails CancelledError"
| "cancelled_at_done tr _ = Succeeds"

definition rewritten :: "trace \<Rightarrow> string list" where
  "rewritten tr = concat (List.map (\<lambda>e. case e of Persist s \<Rightarrow> [s_status s] | _ \<Rightarrow> []) tr)"

lemma cancelled_completion_settles_twice:
  defines "tr \<equiv> snd (generate cancelled_at_done demo_turn
     (demo_inputs [(None, Provided (TextDelta [97])), (None, Provided (DoneDelta [115]))] None))"
  shows "rewritten tr = [''completed'', ''interrupted'']" "length (filter settles tr) = 2"
  by (simp_all add: tr_def rewritten_def generate_def generate_body_def produce_def demo_inputs_def closing_def
      act_def Let_def fail_turn_def complete_turn_def finalise_def trace_effects_def settle_effects_def
      citation_effects_def swallow_def demo_turn_def demo_prepared_def snapshot_of_def turn_citations_def
      shielded_def)

text \<open>When the row cannot be written, \<open>_fail\<close> raises out of \<open>_generate\<close>, although its comment says
  that it raises nothing: no terminal event is sent and the reserved tokens stay taken.\<close>

fun database_down :: world where
  "database_down tr (Persist s) = Fails (OtherFailure ''OperationalError'')"
| "database_down tr _ = Succeeds"

lemma database_down_escapes:
  defines "r \<equiv> generate database_down demo_turn (demo_inputs [(None, Provided (TextDelta [97])), (None, Provided (DoneDelta [115]))] None)"
  shows "fst r = Some (OtherFailure ''OperationalError'')" "filter is_terminal (snd r) = []"
    "filter settles (snd r) = []"
  by (simp_all add: r_def rewritten_def generate_def generate_body_def produce_def demo_inputs_def closing_def
      act_def Let_def fail_turn_def complete_turn_def finalise_def trace_effects_def settle_effects_def
      citation_effects_def swallow_def demo_turn_def demo_prepared_def snapshot_of_def turn_citations_def)

end
