(* ===== verification/Gateway.thy ===== *)
theory Gateway
  imports ChatTurn
begin

text \<open>
  \<open>backend/ai/gateway/__init__.py\<close>, the only exit to the model providers. A chat provider is a
  parameter: for the n-th call it is asked to serve it gives a script, the list of what each pull of
  its stream does and how long it takes. Lemmas: the shape of every stream the gateway hands on
  (one terminal element, at the end, usage before it), where retries stop, the wall clock, the
  dimension check of embeddings. The chat turn's assumption on its stream is discharged here.
\<close>

subsection \<open>Providers\<close>

record provider_failure =
  pf_type :: provider_error_type
  pf_message :: ustring

datatype raise_kind =
    RaisedProvider provider_failure
  | RaisedTimeout
  | RaisedOther string

datatype pull =
    Yields provider_delta
  | Stops
  | Raises raise_kind

text \<open>One pull: the time the consumer held the previous element, the time the provider needs, and
  the result. A script that is used up stops.\<close>

type_synonym pull_script = "(rat \<times> rat \<times> pull) list"
type_synonym chat_provider = "chat_request \<Rightarrow> nat \<Rightarrow> pull_script"

record gateway =
  g_name :: ustring
  g_timeouts :: chat_timeouts
  g_fallback_models :: "ustring list"
  g_backoff :: "rat list"
  g_format :: "rat \<Rightarrow> ustring"
  g_format1 :: "rat \<Rightarrow> ustring"
  g_dimensions :: nat
  g_timeout_seconds :: rat

definition stream_chars_per_token :: nat where
  "stream_chars_per_token = 4"

subsection \<open>The wall clock\<close>

definition total_exceeded :: "gateway \<Rightarrow> provider_failure" where
  "total_exceeded g =
     \<lparr>pf_type = ProviderTimeoutError,
      pf_message = g_name g @ [32, 36229, 36942, 25972, 39636, 19978, 38480, 65288]
        @ g_format g (total_seconds (g_timeouts g)) @ [115, 65289]\<rparr>"

definition timeout_for :: "gateway \<Rightarrow> bool \<Rightarrow> provider_failure" where
  "timeout_for g first =
     (if first
      then \<lparr>pf_type = ProviderTimeoutError,
            pf_message = g_name g @ [32, 30340, 31532, 19968, 20491, 32, 116, 111, 107, 101, 110, 32, 36229, 36942, 32]
              @ g_format g (ttft_seconds (g_timeouts g)) @ [115]\<rparr>
      else total_exceeded g)"

definition call_failed :: "ustring \<Rightarrow> string \<Rightarrow> provider_failure" where
  "call_failed name cls =
     \<lparr>pf_type = ProviderUnavailableError,
      pf_message = name @ [32, 21628, 21483, 22833, 25943, 65306] @ lit cls\<rparr>"

fun iterate_loop ::
  "gateway \<Rightarrow> rat \<Rightarrow> bool \<Rightarrow> rat \<Rightarrow> pull_script \<Rightarrow> provider_delta list \<times> provider_failure option \<times> rat" where
  "iterate_loop g deadline waiting_for_first now [] = ([], None, now)"
| "iterate_loop g deadline waiting_for_first now ((idle, latency, pull) # rest) =
     (let t = now + idle;
          budget = (if waiting_for_first then ttft_seconds (g_timeouts g) else deadline - t) in
      if budget \<le> 0 then ([], Some (total_exceeded g), t)
      else if budget < latency then ([], Some (timeout_for g waiting_for_first), t + budget)
      else case pull of
             Stops \<Rightarrow> ([], None, t + latency)
           | Raises (RaisedProvider e) \<Rightarrow> ([], Some e, t + latency)
           | Raises RaisedTimeout \<Rightarrow> ([], Some (timeout_for g waiting_for_first), t + latency)
           | Raises (RaisedOther cls) \<Rightarrow> ([], Some (call_failed (g_name g) cls), t + latency)
           | Yields d \<Rightarrow>
               (case iterate_loop g deadline False (t + latency) rest of
                  (ds, failure, final) \<Rightarrow> (d # ds, failure, final)))"

definition iterate :: "gateway \<Rightarrow> pull_script \<Rightarrow> provider_delta list \<times> provider_failure option \<times> rat" where
  "iterate g script = iterate_loop g (total_seconds (g_timeouts g)) True 0 script"

subsection \<open>One attempt\<close>

record stream_state =
  ss_request :: chat_request
  ss_model :: ustring
  started :: bool
  usage_seen :: bool
  completion_chars :: nat

definition estimated_delta :: "gateway \<Rightarrow> stream_state \<Rightarrow> usage_delta" where
  "estimated_delta g st =
     (let prompt_chars = (\<Sum>m\<leftarrow>cr_messages (ss_request st). length (m_content m)) in
      \<lparr>d_prompt = int (max 1 (prompt_chars div stream_chars_per_token)),
       d_completion = int (max 1 (completion_chars st div stream_chars_per_token)),
       d_model = (if ss_model st \<noteq> [] then ss_model st else cr_model (ss_request st)),
       d_provider = g_name g, d_reasoning = 0, d_estimated = True\<rparr>)"

definition interrupted :: "gateway \<Rightarrow> stream_state \<Rightarrow> provider_failure \<Rightarrow> delta list" where
  "interrupted g st exc =
     (if usage_seen st then [] else [Provided (UsageDelta (estimated_delta g st))])
     @ [ErrorDelta ''STREAM_INTERRUPTED'' (pf_message exc) True [(''cause'', type_name (pf_type exc))]]"

definition cut_short :: "gateway \<Rightarrow> provider_failure" where
  "cut_short g =
     \<lparr>pf_type = ProviderUnavailableError,
      pf_message = g_name g @ [32, 30340, 22238, 25033, 22312, 32080, 26463, 21069, 20013, 26039]\<rparr>"

definition progress :: "provider_delta \<Rightarrow> stream_state \<Rightarrow> stream_state" where
  "progress d st =
     (let st1 = (case d of UsageDelta u \<Rightarrow> st\<lparr>usage_seen := True\<rparr> | _ \<Rightarrow> st);
          st2 = (case d of
                   TextDelta s \<Rightarrow> st1\<lparr>completion_chars := completion_chars st1 + length s\<rparr>
                 | _ \<Rightarrow> st1) in
      st2\<lparr>started := True\<rparr>)"

fun attempt_loop ::
  "gateway \<Rightarrow> stream_state \<Rightarrow> provider_delta list \<Rightarrow> provider_failure option
   \<Rightarrow> delta list \<times> provider_failure option \<times> stream_state" where
  "attempt_loop g st [] failure = ([], Some (or_else failure (cut_short g)), st)"
| "attempt_loop g st (d # ds) failure =
     (case d of
        DoneDelta finish \<Rightarrow>
          ((if usage_seen st then [] else [Provided (UsageDelta (estimated_delta g st))])
             @ [Provided (DoneDelta finish)],
           None, st\<lparr>started := True\<rparr>)
      | _ \<Rightarrow>
          (case attempt_loop g (progress d st) ds failure of
             (out, result, final) \<Rightarrow> (Provided d # out, result, final)))"

definition attempt ::
  "gateway \<Rightarrow> stream_state \<Rightarrow> pull_script \<Rightarrow> delta list \<times> provider_failure option \<times> stream_state" where
  "attempt g st script =
     (case iterate g script of (ds, failure, _) \<Rightarrow> attempt_loop g st ds failure)"

subsection \<open>Retries and fallback models\<close>

definition planned_calls :: "'a list \<Rightarrow> 'b list \<Rightarrow> ('a \<times> nat) list" where
  "planned_calls candidates backoff =
     concat (List.map (\<lambda>m. List.map (\<lambda>a. (m, a)) [0..<length backoff + 1]) candidates)"

fun stream_loop ::
  "gateway \<Rightarrow> chat_provider \<Rightarrow> stream_state \<Rightarrow> nat \<Rightarrow> (ustring \<times> nat) list
   \<Rightarrow> delta list \<times> provider_failure option \<times> (ustring \<times> rat) list" where
  "stream_loop g provider st n [] = ([], None, [])"
| "stream_loop g provider st n ((model, k) # rest) =
     (case attempt g (st\<lparr>ss_model := model\<rparr>) (provider ((ss_request st)\<lparr>cr_model := model\<rparr>) n) of
        (out, None, st1) \<Rightarrow> (out, None, [(model, 0)])
      | (out, Some exc, st1) \<Rightarrow>
          if started st1 then (out @ interrupted g st1 exc, None, [(model, 0)])
          else if \<not> is_retryable (pf_type exc) \<or> rest = [] then (out, Some exc, [(model, 0)])
          else let delay = (if k < length (g_backoff g) then g_backoff g ! k else 0) in
            (case stream_loop g provider st1 (n + 1) rest of
               (later, failure, calls) \<Rightarrow> (out @ later, failure, (model, delay) # calls)))"

text \<open>The elements handed on, the exception that ends the stream instead of a terminal element, and
  the calls made with the delay slept after each.\<close>

definition stream_chat ::
  "gateway \<Rightarrow> chat_provider option \<Rightarrow> chat_request
   \<Rightarrow> delta list \<times> provider_failure option \<times> (ustring \<times> rat) list" where
  "stream_chat g chat request =
     (case chat of
        None \<Rightarrow> ([], Some \<lparr>pf_type = ProviderUnavailableError,
                         pf_message = [36889, 20491, 32, 71, 97, 116, 101, 119, 97, 121, 32, 27794, 26377, 32,
                                       99, 104, 97, 116, 32, 112, 114, 111, 118, 105, 100, 101, 114]\<rparr>, [])
      | Some provider \<Rightarrow>
          stream_loop g provider
            \<lparr>ss_request = request, ss_model = [], started = False, usage_seen = False, completion_chars = 0\<rparr>
            0 (planned_calls (cr_model request # g_fallback_models g) (g_backoff g)))"

subsection \<open>The shape of an attempt\<close>

abbreviation reports :: "delta list \<Rightarrow> nat" where
  "reports ds \<equiv> length (filter reports_usage ds)"

lemma no_reports: "reports ds = 0 \<longleftrightarrow> \<not> list_ex reports_usage ds"
  by (induction ds) auto

lemma progress_simps [simp]:
  "started (progress d st)"
  "usage_seen (progress d st) = (usage_seen st \<or> reports_usage (Provided d))"
  by (auto simp: progress_def Let_def split: provider_delta.split)

lemma attempt_loop_step:
  "\<not> ends_turn (Provided d) \<Longrightarrow>
     attempt_loop g st (d # ds) failure =
       (case attempt_loop g (progress d st) ds failure of
          (out, result, final) \<Rightarrow> (Provided d # out, result, final))"
  by (cases d) auto

lemma attempt_loop_finish:
  assumes "ends_turn (Provided d)"
  obtains finish where "d = DoneDelta finish"
  using assms by (cases d) auto

lemma attempt_loop_failed:
  "attempt_loop g st ds failure = (out, Some exc, st') \<Longrightarrow>
     \<not> list_ex ends_turn out \<and> started st' = (started st \<or> out \<noteq> [])
     \<and> usage_seen st' = (usage_seen st \<or> list_ex reports_usage out)
     \<and> (out = [] \<longrightarrow> st' = st)"
proof (induction ds arbitrary: st out)
  case (Cons d ds)
  show ?case
  proof (cases "ends_turn (Provided d)")
    case True
    then show ?thesis using Cons.prems by (auto elim: attempt_loop_finish)
  next
    case False
    then show ?thesis
      using Cons.prems Cons.IH unfolding attempt_loop_step [OF False] by (fastforce split: prod.splits)
  qed
qed simp

lemma attempt_loop_done:
  "attempt_loop g st ds failure = (out, None, st') \<Longrightarrow>
     \<exists>init finish. out = init @ [Provided (DoneDelta finish)] \<and> \<not> list_ex ends_turn init
       \<and> (usage_seen st \<or> list_ex reports_usage init)"
proof (induction ds arbitrary: st out)
  case (Cons d ds)
  show ?case
  proof (cases "ends_turn (Provided d)")
    case True
    then obtain finish where "d = DoneDelta finish" by (rule attempt_loop_finish)
    then show ?thesis using Cons.prems by (auto split: if_splits)
  next
    case False
    then obtain out1 where o: "out = Provided d # out1"
      "attempt_loop g (progress d st) ds failure = (out1, None, st')"
      using Cons.prems attempt_loop_step [OF False] by (auto split: prod.splits)
    then obtain init finish where "out1 = init @ [Provided (DoneDelta finish)]" "\<not> list_ex ends_turn init"
      "usage_seen st \<or> reports_usage (Provided d) \<or> list_ex reports_usage init"
      using Cons.IH [OF o(2)] by auto
    then show ?thesis
      using o(1) False by (intro exI [of _ "Provided d # init"] exI [of _ finish]) auto
  qed
qed simp

text \<open>How many usage elements an attempt hands on: the provider's own, or one estimate.\<close>

definition provider_reports :: "provider_delta list \<Rightarrow> nat" where
  "provider_reports ds = reports (List.map Provided (takeWhile (\<lambda>d. \<not> ends_turn (Provided d)) ds))"

lemma provider_reports_simps [simp]:
  "provider_reports [] = 0"
  "provider_reports (d # ds) =
     (if ends_turn (Provided d) then 0
      else (if reports_usage (Provided d) then 1 else 0) + provider_reports ds)"
  by (simp_all add: provider_reports_def)

lemma attempt_loop_reports:
  "attempt_loop g st ds failure = (out, result, st') \<Longrightarrow>
     reports out = provider_reports ds
       + (if result = None \<and> \<not> usage_seen st \<and> provider_reports ds = 0 then 1 else 0)"
proof (induction ds arbitrary: st out)
  case Nil
  then show ?case by auto
next
  case (Cons d ds)
  show ?case
  proof (cases "ends_turn (Provided d)")
    case True
    then obtain finish where "d = DoneDelta finish" by (rule attempt_loop_finish)
    then show ?thesis using Cons.prems by (auto split: if_splits)
  next
    case False
    then obtain out1 where o: "out = Provided d # out1"
      "attempt_loop g (progress d st) ds failure = (out1, result, st')"
      using Cons.prems attempt_loop_step [OF False] by (auto split: prod.splits)
    then show ?thesis using Cons.IH [OF o(2)] False by auto
  qed
qed

lemma attempt_loop_speech:
  "attempt_loop g st ds failure = (out, result, st') \<Longrightarrow>
     filter (\<lambda>d. \<not> reports_usage d \<and> \<not> ends_turn d) out =
     filter (\<lambda>d. \<not> reports_usage d) (List.map Provided (takeWhile (\<lambda>d. \<not> ends_turn (Provided d)) ds))"
proof (induction ds arbitrary: st out)
  case (Cons d ds)
  show ?case
  proof (cases "ends_turn (Provided d)")
    case True
    then obtain finish where "d = DoneDelta finish" by (rule attempt_loop_finish)
    then show ?thesis using Cons.prems by (auto split: if_splits)
  next
    case False
    then show ?thesis using Cons.prems Cons.IH attempt_loop_step [OF False] by (fastforce split: prod.splits)
  qed
qed auto

lemma interrupted_shape [simp]:
  "interrupted g st exc \<noteq> []" "ends_turn (last (interrupted g st exc))"
  "\<not> list_ex ends_turn (butlast (interrupted g st exc))"
  "reports (interrupted g st exc) = (if usage_seen st then 0 else 1)"
  "filter (\<lambda>d. \<not> reports_usage d \<and> \<not> ends_turn d) (interrupted g st exc) = []"
  "list_ex reports_usage (butlast (interrupted g st exc)) = (\<not> usage_seen st)"
  by (auto simp: interrupted_def)

subsection \<open>The shape of a stream\<close>

text \<open>Either the stream raises before anything was delivered, or it ends with its only terminal
  element and reports usage before it.\<close>

definition well_formed_stream :: "delta list \<Rightarrow> provider_failure option \<Rightarrow> bool" where
  "well_formed_stream ds failure =
     (if failure = None
      then ds \<noteq> [] \<and> ends_turn (last ds) \<and> \<not> list_ex ends_turn (butlast ds) \<and> list_ex reports_usage (butlast ds)
      else ds = [])"

lemma stream_loop_cases:
  assumes "stream_loop g provider st n ((model, k) # rest) = (ds, failure, made)"
    and "attempt g (st\<lparr>ss_model := model\<rparr>) (provider ((ss_request st)\<lparr>cr_model := model\<rparr>) n) = (out, result, st1)"
  obtains
    (Done) "result = None" "ds = out" "failure = None" "made = [(model, 0)]"
  | (Broken) exc where "result = Some exc" "started st1" "ds = out @ interrupted g st1 exc" "failure = None"
      "made = [(model, 0)]"
  | (Refused) exc where "result = Some exc" "\<not> started st1" "ds = out" "failure = Some exc" "made = [(model, 0)]"
      "\<not> is_retryable (pf_type exc) \<or> rest = []"
  | (Retried) exc later made1 delay where "result = Some exc" "\<not> started st1" "is_retryable (pf_type exc)" "rest \<noteq> []"
      "stream_loop g provider st1 (n + 1) rest = (later, failure, made1)" "ds = out @ later"
      "made = (model, delay) # made1" "delay = (if k < length (g_backoff g) then g_backoff g ! k else 0)"
  using assms by (cases result) (auto simp: Let_def split: if_splits prod.splits)

lemma attempt_facts:
  assumes "attempt g st script = (out, result, st')" "\<not> started st" "\<not> usage_seen st"
  shows "result = None \<Longrightarrow> well_formed_stream out None"
    and "result = Some exc \<Longrightarrow> started st' \<Longrightarrow> well_formed_stream (out @ interrupted g st' exc) None"
    and "result = Some exc \<Longrightarrow> \<not> started st' \<Longrightarrow> out = [] \<and> st' = st"
proof -
  obtain ds failure final where it: "iterate g script = (ds, failure, final)" by (metis prod_cases3)
  have run: "attempt_loop g st ds failure = (out, result, st')"
    using assms(1) by (simp add: attempt_def it)
  show "well_formed_stream out None" if "result = None"
    using attempt_loop_done [OF run [unfolded that]] assms(3) by (auto simp: well_formed_stream_def)
  show "well_formed_stream (out @ interrupted g st' exc) None" if "result = Some exc" "started st'"
    using attempt_loop_failed [OF run [unfolded that(1)]] assms(3)
    by (auto simp: well_formed_stream_def butlast_append)
  show "out = [] \<and> st' = st" if "result = Some exc" "\<not> started st'"
    using attempt_loop_failed [OF run [unfolded that(1)]] that(2) by auto
qed

lemma stream_loop_well_formed:
  "calls \<noteq> [] \<Longrightarrow> \<not> started st \<Longrightarrow> \<not> usage_seen st \<Longrightarrow>
     stream_loop g provider st n calls = (ds, failure, made) \<Longrightarrow> well_formed_stream ds failure"
proof (induction calls arbitrary: st n ds made)
  case (Cons call rest)
  obtain model k where call: "call = (model, k)" by force
  obtain out result st1 where
    a: "attempt g (st\<lparr>ss_model := model\<rparr>) (provider ((ss_request st)\<lparr>cr_model := model\<rparr>) n) = (out, result, st1)"
    by (metis prod_cases3)
  note facts = attempt_facts [OF a]
  from Cons.prems(4) [unfolded call] a show ?case
  proof (cases rule: stream_loop_cases)
    case (Retried exc later made1 delay)
    have "out = []" "st1 = st\<lparr>ss_model := model\<rparr>" using facts(3) Cons.prems Retried by auto
    then show ?thesis using Cons.IH [OF Retried(4) _ _ Retried(5)] Cons.prems Retried(6) by simp
  qed (use facts Cons.prems in \<open>auto simp: well_formed_stream_def\<close>)
qed simp

lemma planned_calls_nonempty [simp]: "candidates \<noteq> [] \<Longrightarrow> planned_calls candidates backoff \<noteq> []"
  by (cases candidates) (auto simp: planned_calls_def)

lemma stream_chat_well_formed:
  "stream_chat g chat request = (ds, failure, made) \<Longrightarrow> well_formed_stream ds failure"
proof (cases chat)
  case (Some provider)
  assume "stream_chat g chat request = (ds, failure, made)"
  with Some show ?thesis
    by (intro stream_loop_well_formed [of "planned_calls (cr_model request # g_fallback_models g) (g_backoff g)"])
      (auto simp: stream_chat_def)
qed (auto simp: stream_chat_def well_formed_stream_def)

text \<open>The call that speaks: everything handed on comes from the last call made, which is the call
  that was planned at that position.\<close>

definition script_of :: "gateway \<Rightarrow> chat_provider \<Rightarrow> chat_request \<Rightarrow> ustring \<Rightarrow> nat \<Rightarrow> provider_delta list" where
  "script_of g provider request model n = fst (iterate g (provider (request\<lparr>cr_model := model\<rparr>) n))"

lemma attempt_counts:
  assumes "attempt g st (provider ((ss_request st)\<lparr>cr_model := model\<rparr>) n) = (out, result, st')"
    and "\<not> started st" "\<not> usage_seen st"
  shows "result = None \<Longrightarrow> reports out = max 1 (provider_reports (script_of g provider (ss_request st) model n))"
    and "result = Some exc \<Longrightarrow>
      reports (out @ interrupted g st' exc) = max 1 (provider_reports (script_of g provider (ss_request st) model n))"
    and "filter (\<lambda>d. \<not> reports_usage d \<and> \<not> ends_turn d) out = filter (\<lambda>d. \<not> reports_usage d)
      (List.map Provided (takeWhile (\<lambda>d. \<not> ends_turn (Provided d)) (script_of g provider (ss_request st) model n)))"
proof -
  obtain ds failure final where it: "iterate g (provider ((ss_request st)\<lparr>cr_model := model\<rparr>) n) = (ds, failure, final)"
    by (metis prod_cases3)
  have run: "attempt_loop g st ds failure = (out, result, st')"
    using assms(1) by (simp add: attempt_def it)
  have ds: "script_of g provider (ss_request st) model n = ds" by (simp add: script_of_def it)
  note count = attempt_loop_reports [OF run] no_reports [of out]
  show "reports out = max 1 (provider_reports (script_of g provider (ss_request st) model n))" if "result = None"
    using count assms(3) that ds by auto
  show "reports (out @ interrupted g st' exc) = max 1 (provider_reports (script_of g provider (ss_request st) model n))"
    if "result = Some exc"
    using count attempt_loop_failed [OF run [unfolded that]] assms(3) that ds by auto
  show "filter (\<lambda>d. \<not> reports_usage d \<and> \<not> ends_turn d) out = filter (\<lambda>d. \<not> reports_usage d)
      (List.map Provided (takeWhile (\<lambda>d. \<not> ends_turn (Provided d)) (script_of g provider (ss_request st) model n)))"
    unfolding ds by (rule attempt_loop_speech [OF run])
qed

lemma stream_loop_last_call:
  "calls \<noteq> [] \<Longrightarrow> \<not> started st \<Longrightarrow> \<not> usage_seen st \<Longrightarrow>
     stream_loop g provider st n calls = (ds, failure, made) \<Longrightarrow>
     made \<noteq> [] \<and> List.map fst made = List.map fst (take (length made) calls)
     \<and> (failure = None \<longrightarrow>
          (let script = script_of g provider (ss_request st) (fst (last made)) (n + length made - 1) in
           reports ds = max 1 (provider_reports script)
           \<and> filter (\<lambda>d. \<not> reports_usage d \<and> \<not> ends_turn d) ds = filter (\<lambda>d. \<not> reports_usage d)
               (List.map Provided (takeWhile (\<lambda>d. \<not> ends_turn (Provided d)) script))))"
proof (induction calls arbitrary: st n ds made)
  case (Cons call rest)
  obtain model k where call: "call = (model, k)" by force
  let ?st = "st\<lparr>ss_model := model\<rparr>"
  obtain out result st1 where
    a: "attempt g ?st (provider ((ss_request st)\<lparr>cr_model := model\<rparr>) n) = (out, result, st1)"
    by (metis prod_cases3)
  have fresh: "\<not> started ?st" "\<not> usage_seen ?st" using Cons.prems by simp_all
  have a': "attempt g ?st (provider ((ss_request ?st)\<lparr>cr_model := model\<rparr>) n) = (out, result, st1)"
    using a by simp
  note counts = attempt_counts [where g = g and provider = provider and st = ?st and model = model and n = n
      and out = out and result = result and st' = st1, OF a' fresh]
  from Cons.prems(4) [unfolded call] a show ?case
  proof (cases rule: stream_loop_cases)
    case Done
    then show ?thesis using counts call by (simp add: Let_def)
  next
    case (Broken exc)
    then show ?thesis using counts(2) [of exc] counts(3) call by (simp add: Let_def)
  next
    case (Refused exc)
    then show ?thesis using call by simp
  next
    case (Retried exc later made1 delay)
    have out: "out = []" "st1 = ?st" using attempt_facts(3) [OF a fresh] Retried by auto
    show ?thesis
      using Cons.IH [OF Retried(4) _ _ Retried(5)] Cons.prems Retried(6,7) out call by (simp add: Let_def)
  qed
qed simp

subsection \<open>The gateway as the source of a turn\<close>

definition as_py_exc :: "provider_failure \<Rightarrow> py_exc" where
  "as_py_exc e = ProviderFailure (error_code (pf_type e)) (pf_message e) (is_retryable (pf_type e))"

fun gateway_source :: "gateway \<times> chat_provider option \<times> chat_request \<Rightarrow> delta list \<times> py_exc option" where
  "gateway_source (g, chat, request) =
     (case stream_chat g chat request of (ds, failure, made) \<Rightarrow> (ds, map_option as_py_exc failure))"

lemma last_list_ex: "ds \<noteq> [] \<Longrightarrow> P (last ds) \<Longrightarrow> list_ex P ds"
  by (induction ds) (auto split: if_splits)

interpretation gateway_stream: delta_source gateway_source
proof
  fix c :: "gateway \<times> chat_provider option \<times> chat_request"
  obtain g chat request where c: "c = (g, chat, request)" by (metis prod_cases3)
  obtain ds failure made where s: "stream_chat g chat request = (ds, failure, made)" by (metis prod_cases3)
  show "snd (gateway_source c) \<noteq> Some CancelledError"
    by (cases failure) (simp_all add: c s as_py_exc_def)
  show "list_ex ends_turn (fst (gateway_source c))" if "snd (gateway_source c) = None"
    using that stream_chat_well_formed [OF s] last_list_ex [of ds ends_turn]
    by (auto simp: c s well_formed_stream_def)
qed

subsection \<open>Time\<close>

definition held :: "pull_script \<Rightarrow> rat" where
  "held script = sum_list (List.map fst script)"

lemma held_nonneg: "list_all (\<lambda>p. 0 \<le> fst p) script \<Longrightarrow> 0 \<le> held script"
  by (induction script) (auto simp: held_def)

lemma iterate_loop_time:
  "now \<le> limit \<Longrightarrow> deadline \<le> limit \<Longrightarrow> list_all (\<lambda>p. 0 \<le> fst p) script \<Longrightarrow>
     snd (snd (iterate_loop g deadline False now script)) \<le> limit + held script"
proof (induction script arbitrary: now limit)
  case Nil
  then show ?case by (simp add: held_def)
next
  case (Cons p rest)
  obtain idle latency pull where p: "p = (idle, latency, pull)" by (metis prod_cases3)
  have h: "held (p # rest) = idle + held rest" by (simp add: held_def p)
  have pos: "0 \<le> idle" "0 \<le> held rest" using Cons.prems(3) held_nonneg p by auto
  let ?t = "now + idle"
  show ?case
  proof (cases "\<exists>d. pull = Yields d \<and> \<not> deadline - ?t \<le> 0 \<and> \<not> deadline - ?t < latency")
    case True
    then have "snd (snd (iterate_loop g deadline False (?t + latency) rest)) \<le> (limit + idle) + held rest"
      using Cons.prems pos by (intro Cons.IH) auto
    then show ?thesis using True h by (auto simp: p Let_def split: prod.splits)
  next
    case False
    then show ?thesis
      using Cons.prems(1,2) pos h
      by (auto simp: p Let_def split: pull.splits raise_kind.splits)
  qed
qed

lemma iterate_time:
  assumes "list_all (\<lambda>p. 0 \<le> fst p) script" "0 \<le> ttft_seconds (g_timeouts g)"
  shows "snd (snd (iterate g script)) \<le>
    max (ttft_seconds (g_timeouts g)) (total_seconds (g_timeouts g)) + held script"
proof (cases script)
  case Nil
  then show ?thesis using assms by (simp add: iterate_def held_def le_max_iff_disj)
next
  case (Cons p rest)
  obtain idle latency pull where p: "p = (idle, latency, pull)" by (metis prod_cases3)
  let ?limit = "max (ttft_seconds (g_timeouts g)) (total_seconds (g_timeouts g))"
  have h: "held script = idle + held rest" by (simp add: held_def p Cons)
  have pos: "0 \<le> idle" "0 \<le> held rest" using assms(1) held_nonneg p Cons by auto
  show ?thesis
  proof (cases "\<exists>d. pull = Yields d \<and> \<not> ttft_seconds (g_timeouts g) \<le> 0 \<and> \<not> ttft_seconds (g_timeouts g) < latency")
    case True
    then have "snd (snd (iterate_loop g (total_seconds (g_timeouts g)) False (idle + latency) rest))
        \<le> (?limit + idle) + held rest"
      using assms(1) pos Cons by (intro iterate_loop_time) (auto simp: le_max_iff_disj intro: add_increasing2)
    then show ?thesis using True h by (auto simp: iterate_def p Cons Let_def split: prod.splits)
  next
    case False
    then show ?thesis
      using assms(2) pos h
      by (auto simp: iterate_def p Cons Let_def le_max_iff_disj split: pull.splits raise_kind.splits)
  qed
qed

subsection \<open>Embeddings\<close>

text \<open>What an embedding adapter returns; the elapsed time of the call comes with it. The provider is
  asked for its n-th call.\<close>

record embedding =
  e_vectors :: "rat list list"
  e_model :: ustring
  e_prompt_tokens :: int

type_synonym embed_provider = "ustring list \<Rightarrow> ustring \<Rightarrow> nat \<Rightarrow> rat \<times> (raise_kind + embedding)"

record embed_result =
  er_vectors :: "rat list list"
  er_model :: ustring
  er_provider :: ustring
  er_prompt_tokens :: int

definition timeout_message :: "gateway \<Rightarrow> rat \<Rightarrow> ustring" where
  "timeout_message g elapsed =
     g_name g @ [32, 36926, 26178, 65288] @ g_format1 g elapsed @ [115, 32, 62, 32]
       @ g_format g (g_timeout_seconds g) @ [115, 65289]"

definition classify :: "gateway \<Rightarrow> rat \<Rightarrow> raise_kind \<Rightarrow> provider_failure" where
  "classify g elapsed exc =
     (if g_timeout_seconds g < elapsed \<or> exc = RaisedTimeout
      then \<lparr>pf_type = ProviderTimeoutError, pf_message = timeout_message g elapsed\<rparr>
      else call_failed (g_name g) (case exc of RaisedOther cls \<Rightarrow> cls | _ \<Rightarrow> ''TimeoutError''))"

definition call_once :: "gateway \<Rightarrow> rat \<times> (raise_kind + embedding) \<Rightarrow> provider_failure + embedding" where
  "call_once g answer =
     (case answer of
        (elapsed, Inr result) \<Rightarrow> Inr result
      | (elapsed, Inl (RaisedProvider e)) \<Rightarrow> Inl e
      | (elapsed, Inl exc) \<Rightarrow> Inl (classify g elapsed exc))"

text \<open>The remaining delays of the backoff decide whether a failed call is retried.\<close>

fun call_with_retry ::
  "gateway \<Rightarrow> (nat \<Rightarrow> rat \<times> (raise_kind + embedding)) \<Rightarrow> nat \<Rightarrow> rat list
   \<Rightarrow> (provider_failure + embedding) \<times> nat" where
  "call_with_retry g provider n [] = (call_once g (provider n), n + 1)"
| "call_with_retry g provider n (delay # delays) =
     (case call_once g (provider n) of
        Inr result \<Rightarrow> (Inr result, n + 1)
      | Inl exc \<Rightarrow>
          if is_retryable (pf_type exc) then call_with_retry g provider (n + 1) delays
          else (Inl exc, n + 1))"

definition wrong_dimensions :: "gateway \<Rightarrow> ustring \<Rightarrow> nat \<Rightarrow> provider_failure" where
  "wrong_dimensions g model actual =
     \<lparr>pf_type = ProviderDimensionMismatchError,
      pf_message = g_name g @ [32, 30340, 32] @ model @ [32, 22238, 20659, 32] @ decimal actual
        @ [32, 32173, 65292, 20294, 26412, 31995, 32113, 30340, 21521, 37327, 27396, 20301, 26159, 32]
        @ decimal (g_dimensions g) @ [32, 32173]\<rparr>"

fun check_dimensions :: "gateway \<Rightarrow> ustring \<Rightarrow> rat list list \<Rightarrow> provider_failure option" where
  "check_dimensions g model [] = None"
| "check_dimensions g model (v # vs) =
     (if length v \<noteq> g_dimensions g then Some (wrong_dimensions g model (length v))
      else check_dimensions g model vs)"

text \<open>The result and the number of provider calls made.\<close>

definition embed ::
  "gateway \<Rightarrow> embed_provider option \<Rightarrow> ustring list \<Rightarrow> ustring \<Rightarrow> (provider_failure + embed_result) \<times> nat" where
  "embed g provider texts model =
     (case provider of
        None \<Rightarrow> (Inl \<lparr>pf_type = ProviderUnavailableError,
                     pf_message = [36889, 20491, 32, 71, 97, 116, 101, 119, 97, 121, 32, 27794, 26377, 32, 101, 109,
                                   98, 101, 100, 100, 105, 110, 103, 32, 112, 114, 111, 118, 105, 100, 101, 114]\<rparr>, 0)
      | Some p \<Rightarrow>
          if texts = []
          then (Inr \<lparr>er_vectors = [], er_model = model, er_provider = g_name g, er_prompt_tokens = 0\<rparr>, 0)
          else (case call_with_retry g (p texts model) 0 (g_backoff g) of
                  (Inl exc, n) \<Rightarrow> (Inl exc, n)
                | (Inr result, n) \<Rightarrow>
                    (case check_dimensions g (e_model result) (e_vectors result) of
                       Some exc \<Rightarrow> (Inl exc, n)
                     | None \<Rightarrow> (Inr \<lparr>er_vectors = e_vectors result, er_model = e_model result,
                                     er_provider = g_name g, er_prompt_tokens = e_prompt_tokens result\<rparr>, n))))"

subsection \<open>Reranking\<close>

record rerank_result =
  rr_documents :: "(nat \<times> rat) list"
  rr_model :: ustring
  rr_provider :: ustring

text \<open>One call, no retry; a failure is the caller's to degrade on. The provider answers with its
  ranking and the name of its model.\<close>

definition rerank ::
  "gateway \<Rightarrow> (ustring \<Rightarrow> ustring list \<Rightarrow> ustring \<Rightarrow> 'e + ((nat \<times> rat) list \<times> ustring)) \<Rightarrow> ustring
   \<Rightarrow> ustring list \<Rightarrow> ustring \<Rightarrow> int \<Rightarrow> 'e + rerank_result" where
  "rerank g provider query documents model top_n =
     (if documents = []
      then Inr \<lparr>rr_documents = [], rr_model = model, rr_provider = g_name g\<rparr>
      else case provider query documents model of
             Inl exc \<Rightarrow> Inl exc
           | Inr (results, used) \<Rightarrow>
               Inr \<lparr>rr_documents = slice_to top_n results, rr_model = used, rr_provider = g_name g\<rparr>)"

definition fallback_models :: "ustring \<Rightarrow> ustring list" where
  "fallback_models raw = filter (\<lambda>name. name \<noteq> []) (List.map strip (split_on 44 [] raw))"

lemma call_with_retry_calls:
  "call_with_retry g provider n delays = (r, m) \<Longrightarrow>
     n < m \<and> m \<le> n + length delays + 1 \<and> r = call_once g (provider (m - 1))
     \<and> list_all (\<lambda>k. \<exists>exc. call_once g (provider k) = Inl exc \<and> is_retryable (pf_type exc)) [n..<m - 1]"
proof (induction delays arbitrary: n)
  case Nil
  then show ?case by auto
next
  case (Cons delay delays)
  show ?case
  proof (cases "\<exists>exc. call_once g (provider n) = Inl exc \<and> is_retryable (pf_type exc)")
    case True
    then have run: "call_with_retry g provider (n + 1) delays = (r, m)" using Cons.prems by auto
    have split: "[n..<m - 1] = n # [n + 1..<m - 1]" if "n + 1 < m"
      using that by (intro upt_eq_Cons_conv [THEN iffD2]) auto
    show ?thesis using Cons.IH [OF run] True split by auto
  next
    case False
    then show ?thesis using Cons.prems by (auto split: sum.splits if_splits)
  qed
qed

lemma check_dimensions_None [simp]:
  "check_dimensions g model vs = None \<longleftrightarrow> list_all (\<lambda>v. length v = g_dimensions g) vs"
  by (induction vs) auto

subsection \<open>Properties\<close>

text \<open>C21. Whatever the provider yields, raises or delays, and whichever models are configured as
  fallbacks, a stream of the gateway either raises before anything was delivered, or it ends with
  its only \<open>done\<close> or \<open>error\<close> element and has reported usage before it.\<close>

theorem gateway_stream_well_formed:
  "case stream_chat g chat request of (ds, failure, made) \<Rightarrow> well_formed_stream ds failure"
  using stream_chat_well_formed by (auto split: prod.split)

text \<open>C24. Nothing is retried and no model is switched once something was delivered: the calls made are
  an initial piece of the plan (each model, each attempt, in order), everything a stream delivers
  besides usage and its terminal element is what the last call yielded, and the number of usage
  elements is the provider's own in that call, or one estimate when it sent none.\<close>

theorem one_call_speaks:
  assumes "stream_chat g (Some provider) request = (ds, failure, made)"
  shows "made \<noteq> []
    \<and> List.map fst made =
      List.map fst (take (length made) (planned_calls (cr_model request # g_fallback_models g) (g_backoff g)))
    \<and> (failure = None \<longrightarrow>
         (let script = script_of g provider request (fst (last made)) (length made - 1) in
          reports ds = max 1 (provider_reports script)
          \<and> filter (\<lambda>d. \<not> reports_usage d \<and> \<not> ends_turn d) ds = filter (\<lambda>d. \<not> reports_usage d)
              (List.map Provided (takeWhile (\<lambda>d. \<not> ends_turn (Provided d)) script))))"
  using stream_loop_last_call [OF _ _ _ assms [unfolded stream_chat_def option.case]]
  by (simp add: Let_def)

definition demo_gateway :: gateway where
  "demo_gateway =
     \<lparr>g_name = [112], g_timeouts = \<lparr>connect_seconds = 5, ttft_seconds = 10, total_seconds = 60\<rparr>,
      g_fallback_models = [[102]], g_backoff = [1], g_format = (\<lambda>_. [48]), g_format1 = (\<lambda>_. [48]),
      g_dimensions = 2, g_timeout_seconds = 30\<rparr>"

text \<open>The primary model refuses twice, the fallback model speaks and breaks off.\<close>

definition demo_provider :: chat_provider where
  "demo_provider request n =
     (if n < 2 then [(0, 1, Raises RaisedTimeout)]
      else [(0, 2, Yields (TextDelta [97])), (1, 3, Raises (RaisedOther ''ReadError''))])"

theorem one_call_speaks_witness:
  "let (ds, failure, made) = stream_chat demo_gateway (Some demo_provider) demo_request in
     failure = None \<and> made = [([109], 1), ([109], 0), ([102], 0)] \<and> reports ds = 1
     \<and> filter (\<lambda>d. \<not> reports_usage d \<and> \<not> ends_turn d) ds = [Provided (TextDelta [97])]"
proof -
  obtain ds failure made where r: "stream_chat demo_gateway (Some demo_provider) demo_request = (ds, failure, made)"
    by (metis prod_cases3)
  have made: "made = [([109], 1), ([109], 0), ([102], 0)]" and none: "failure = None"
    using r by (simp_all add: stream_chat_def demo_gateway_def demo_request_def planned_calls_def attempt_def
        iterate_def Let_def demo_provider_def timeout_for_def progress_def upt_rec numeral_2_eq_2)
  have "script_of demo_gateway demo_provider demo_request (fst (last made)) (length made - 1) = [TextDelta [97]]"
    by (simp add: made script_of_def iterate_def demo_gateway_def demo_provider_def Let_def)
  then show ?thesis using one_call_speaks [OF r] r none made by (simp add: Let_def)
qed

text \<open>C22. A turn whose stream comes from the gateway, whatever the provider does and whenever the user
  presses stop, is closed exactly once in a calm world: one write of the row, at most one usage
  record, one settlement, one terminal event, in order and agreeing with the row; and with a store
  that answers the terminal event is sent and the tokens are settled.\<close>

theorem gateway_fed_turn_closes:
  assumes "calm w" "length polls = length (fst (gateway_source (g, chat, request)))"
  shows "closes_turn (filter is_final (snd (generate w t (fed_by p polls (gateway_source (g, chat, request))))))
    \<and> (steady w \<longrightarrow>
        closes_fully t (filter is_final (snd (generate w t (fed_by p polls (gateway_source (g, chat, request)))))))"
  by (rule gateway_stream.fed_turn_closes [OF assms])

theorem gateway_fed_turn_closes_witness:
  "\<exists>polls. closes_turn (filter is_final (snd (generate counters_down demo_turn
     (fed_by demo_prepared polls (gateway_source (demo_gateway, Some demo_provider, demo_request))))))"
  using gateway_fed_turn_closes [OF counters_down_calm, of
      "replicate (length (fst (gateway_source (demo_gateway, Some demo_provider, demo_request)))) (Some False)"
      demo_gateway "Some demo_provider" demo_request demo_turn demo_prepared]
  by auto

text \<open>C34. The wall clock bounds every attempt, however the provider drips: a call is over, by its own
  end or by a timeout, within the larger of the first-token and the total limit, plus the time the
  consumer itself held the elements.\<close>

theorem attempt_time_bounded:
  assumes "list_all (\<lambda>p. 0 \<le> fst p) script" "0 \<le> ttft_seconds (g_timeouts g)"
  shows "snd (snd (iterate g script)) \<le>
    max (ttft_seconds (g_timeouts g)) (total_seconds (g_timeouts g)) + held script"
  by (rule iterate_time [OF assms])

theorem attempt_time_bounded_witness:
  "snd (snd (iterate demo_gateway (replicate 100 (0, 5, Yields (TextDelta [97]))))) \<le> 60"
proof -
  have "snd (snd (iterate demo_gateway (replicate 100 (0, 5, Yields (TextDelta [97]))))) \<le>
      max (ttft_seconds (g_timeouts demo_gateway)) (total_seconds (g_timeouts demo_gateway))
      + held (replicate 100 (0, 5, Yields (TextDelta [97])))"
    by (rule attempt_time_bounded) (simp_all add: demo_gateway_def list_all_length)
  then show ?thesis by (simp add: demo_gateway_def held_def sum_list_replicate)
qed

text \<open>An embedding call that returns delivers the vectors of one provider answer, all of the width
  of the vector column; it makes no call for an empty batch and otherwise at most one call more than
  there are backoff delays, and only after failures that may be retried.\<close>

theorem embedding_is_safe:
  assumes "embed g (Some provider) texts model = (r, n)"
  shows "n \<le> (if texts = [] then 0 else length (g_backoff g) + 1)
    \<and> list_all (\<lambda>k. \<exists>exc. call_once g (provider texts model k) = Inl exc \<and> is_retryable (pf_type exc)) [0..<n - 1]
    \<and> (case r of
          Inl exc \<Rightarrow> texts \<noteq> []
        | Inr res \<Rightarrow> list_all (\<lambda>v. length v = g_dimensions g) (er_vectors res)
            \<and> er_vectors res = (if texts = [] then []
                                else case snd (provider texts model (n - 1)) of
                                       Inr answer \<Rightarrow> e_vectors answer | Inl exc \<Rightarrow> []))"
proof (cases "texts = []")
  case True
  then show ?thesis using assms by (auto simp: embed_def)
next
  case False
  obtain x where c: "call_with_retry g (provider texts model) 0 (g_backoff g) = (x, n)"
    using assms False by (auto simp: embed_def split: prod.splits sum.splits option.splits)
  show ?thesis
    using call_with_retry_calls [OF c] assms False c
    by (auto simp: embed_def call_once_def split: sum.splits option.splits prod.splits raise_kind.splits)
qed

definition demo_embedder :: embed_provider where
  "demo_embedder texts model n =
     (if n = 0 then (31, Inl (RaisedOther ''ReadError''))
      else (1, Inr \<lparr>e_vectors = [[1, 0]], e_model = model, e_prompt_tokens = 3\<rparr>))"

theorem embedding_is_safe_witness:
  "\<exists>res. embed demo_gateway (Some demo_embedder) [[97]] [109] = (Inr res, 2)
     \<and> list_all (\<lambda>v. length v = 2) (er_vectors res)"
proof -
  have r: "embed demo_gateway (Some demo_embedder) [[97]] [109] =
      (Inr \<lparr>er_vectors = [[1, 0]], er_model = [109], er_provider = [112], er_prompt_tokens = 3\<rparr>, 2)"
    by (simp add: embed_def demo_gateway_def demo_embedder_def call_once_def classify_def)
  show ?thesis using embedding_is_safe [OF r] r by (simp add: demo_gateway_def demo_embedder_def)
qed

text \<open>The docstring of \<open>stream_chat\<close> promises exactly one usage element; a provider that reports usage
  twice in one stream (as cumulative counts) has both handed on.\<close>

lemma two_usage_reports_pass:
  "reports (fst (stream_chat demo_gateway (Some (\<lambda>_ _.
     [(0, 1, Yields (UsageDelta demo_usage)), (0, 1, Yields (UsageDelta demo_usage)),
      (0, 1, Yields (DoneDelta [115]))])) demo_request)) = 2"
  by (simp add: stream_chat_def demo_gateway_def demo_request_def planned_calls_def attempt_def iterate_def
      Let_def progress_def upt_rec)

end
