(* ===== verification/Auth.thy ===== *)
theory Auth
  imports Period CounterStore
begin

text \<open>
  \<open>backend/services/identity/tokens.py\<close> and \<open>backend/services/identity/auth.py\<close>: issuing and checking
  tokens, login with its attempt counter, refresh rotation with replay detection, logout and the
  revocation of all sessions. PyJWT, the password hasher and the Redis string commands are
  parameters with their documented laws; each operation reads the clock once. Times are
  microseconds, time-to-live values seconds. Lemmas: frames of the Redis keys, rotation, lockout.
\<close>

subsection \<open>Redis strings with expiry\<close>

record 'r kv_ops =
  kv_get :: "'r \<Rightarrow> int \<Rightarrow> ustring \<Rightarrow> ustring option"
  kv_set_ex :: "'r \<Rightarrow> int \<Rightarrow> ustring \<Rightarrow> ustring \<Rightarrow> int \<Rightarrow> 'r"
  kv_del :: "'r \<Rightarrow> ustring \<Rightarrow> 'r"
  kv_incr :: "'r \<Rightarrow> int \<Rightarrow> ustring \<Rightarrow> 'r"
  kv_expire :: "'r \<Rightarrow> int \<Rightarrow> ustring \<Rightarrow> int \<Rightarrow> 'r"
  kv_ttl :: "'r \<Rightarrow> int \<Rightarrow> ustring \<Rightarrow> int"

definition next_count :: "ustring option \<Rightarrow> ustring" where
  "next_count v = decimal (case v of None \<Rightarrow> 1 | Some s \<Rightarrow> undecimal 0 s + 1)"

text \<open>The laws: a value set with \<open>EX\<close> is there until it expires, \<open>DEL\<close> removes one key, \<open>INCR\<close> counts
  a live number up, \<open>EXPIRE\<close> restarts the life of a live key; no command touches another key.\<close>

definition kv_ok :: "'r kv_ops \<Rightarrow> bool" where
  "kv_ok R \<longleftrightarrow>
     (\<forall>r t0 t k key v ttl. t0 \<le> t \<longrightarrow> 0 < ttl \<longrightarrow>
        kv_get R (kv_set_ex R r t0 key v ttl) t k =
          (if k = key then (if t < t0 + ttl * us_per_second then Some v else None) else kv_get R r t k))
     \<and> (\<forall>r t k key. kv_get R (kv_del R r key) t k = (if k = key then None else kv_get R r t k))
     \<and> (\<forall>r t0 t k key ttl. t0 \<le> t \<longrightarrow> 0 < ttl \<longrightarrow>
        kv_get R (kv_expire R (kv_incr R r t0 key) t0 key ttl) t k =
          (if k = key
           then (if t < t0 + ttl * us_per_second then Some (next_count (kv_get R r t0 key)) else None)
           else kv_get R r t k))
     \<and> (\<forall>r t t' k. t \<le> t' \<longrightarrow> kv_get R r t k = None \<longrightarrow> kv_get R r t' k = None)"

subsection \<open>Tokens\<close>

record claims =
  c_typ :: string
  c_sub :: uuid128
  c_tenant :: "uuid128 option"
  c_roles :: "ustring list"
  c_family :: "uuid128 option"
  c_jti :: uuid128
  c_version :: "nat option"
  c_exp :: int
  c_iat :: int

datatype jwt_result = Valid claims | ExpiredSignature | PyJWTError

record jwt_lib =
  jwt_encode :: "claims \<Rightarrow> ustring \<Rightarrow> ustring \<Rightarrow> ustring"
  jwt_kid :: "ustring \<Rightarrow> ustring option"
  jwt_decode :: "ustring \<Rightarrow> ustring \<Rightarrow> int \<Rightarrow> int \<Rightarrow> jwt_result"

record codec =
  private_key :: ustring
  public_keys :: "(ustring \<times> ustring) list"
  active_kid :: ustring

datatype auth_error =
    InvalidCredentials
  | AccountLocked int
  | TokenRevoked
  | TokenExpired
  | TokenInvalid
  | MissingClaim

definition make_codec :: "ustring \<Rightarrow> (ustring \<times> ustring) list \<Rightarrow> ustring \<Rightarrow> codec option" where
  "make_codec priv keys kid =
     (if map_of keys kid = None then None
      else Some \<lparr>private_key = priv, public_keys = keys, active_kid = kid\<rparr>)"

definition access_ttl :: int where
  "access_ttl = 15 * 60 * us_per_second"

definition clock_skew_leeway :: int where
  "clock_skew_leeway = 10 * us_per_second"

definition refresh_ttl :: int where
  "refresh_ttl = 14 * 24 * 3600 * us_per_second"

record issued_token =
  it_token :: ustring
  it_jti :: uuid128
  it_expires_at :: int

definition issue_access ::
  "jwt_lib \<Rightarrow> codec \<Rightarrow> int \<Rightarrow> uuid128 \<Rightarrow> uuid128 \<Rightarrow> uuid128 \<Rightarrow> ustring list \<Rightarrow> nat \<Rightarrow> issued_token" where
  "issue_access J C now jti user tenant roles version =
     (let expires_at = now + access_ttl;
          payload = \<lparr>c_typ = ''access'', c_sub = user, c_tenant = Some tenant, c_roles = roles, c_family = None,
                     c_jti = jti, c_version = Some version, c_exp = expires_at div us_per_second,
                     c_iat = now div us_per_second\<rparr>
      in \<lparr>it_token = jwt_encode J payload (active_kid C) (private_key C), it_jti = jti, it_expires_at = expires_at\<rparr>)"

definition issue_refresh ::
  "jwt_lib \<Rightarrow> codec \<Rightarrow> int \<Rightarrow> uuid128 \<Rightarrow> uuid128 \<Rightarrow> uuid128 \<Rightarrow> uuid128 \<Rightarrow> nat \<Rightarrow> issued_token" where
  "issue_refresh J C now jti user tenant family version =
     (let expires_at = now + refresh_ttl;
          payload = \<lparr>c_typ = ''refresh'', c_sub = user, c_tenant = Some tenant, c_roles = [], c_family = Some family,
                     c_jti = jti, c_version = Some version, c_exp = expires_at div us_per_second,
                     c_iat = now div us_per_second\<rparr>
      in \<lparr>it_token = jwt_encode J payload (active_kid C) (private_key C), it_jti = jti, it_expires_at = expires_at\<rparr>)"

definition decode_typed ::
  "jwt_lib \<Rightarrow> codec \<Rightarrow> int \<Rightarrow> string \<Rightarrow> ustring \<Rightarrow> auth_error + claims" where
  "decode_typed J C now expected token =
     (case jwt_kid J token of
        None \<Rightarrow> Inl TokenInvalid
      | Some kid \<Rightarrow>
          (case map_of (public_keys C) kid of
             None \<Rightarrow> Inl TokenInvalid
           | Some pub \<Rightarrow>
               (case jwt_decode J token pub now clock_skew_leeway of
                  ExpiredSignature \<Rightarrow> Inl TokenExpired
                | PyJWTError \<Rightarrow> Inl TokenInvalid
                | Valid payload \<Rightarrow> if c_typ payload \<noteq> expected then Inl TokenInvalid else Inr payload)))"

record access_claims =
  a_sub :: uuid128
  a_tenant :: uuid128
  a_roles :: "ustring list"
  a_jti :: uuid128
  a_version :: nat
  a_expires_at :: int

record refresh_claims =
  f_sub :: uuid128
  f_tenant :: uuid128
  f_family :: uuid128
  f_jti :: uuid128
  f_version :: nat
  f_expires_at :: int

definition decode :: "jwt_lib \<Rightarrow> codec \<Rightarrow> int \<Rightarrow> ustring \<Rightarrow> auth_error + access_claims" where
  "decode J C now token =
     (case decode_typed J C now ''access'' token of
        Inl e \<Rightarrow> Inl e
      | Inr p \<Rightarrow>
          (case (c_tenant p, c_version p) of
             (Some tenant, Some version) \<Rightarrow>
               Inr \<lparr>a_sub = c_sub p, a_tenant = tenant, a_roles = c_roles p, a_jti = c_jti p, a_version = version,
                    a_expires_at = c_exp p * us_per_second\<rparr>
           | _ \<Rightarrow> Inl MissingClaim))"

definition decode_refresh :: "jwt_lib \<Rightarrow> codec \<Rightarrow> int \<Rightarrow> ustring \<Rightarrow> auth_error + refresh_claims" where
  "decode_refresh J C now token =
     (case decode_typed J C now ''refresh'' token of
        Inl e \<Rightarrow> Inl e
      | Inr p \<Rightarrow>
          (case (c_tenant p, c_family p, c_version p) of
             (Some tenant, Some family, Some version) \<Rightarrow>
               Inr \<lparr>f_sub = c_sub p, f_tenant = tenant, f_family = family, f_jti = c_jti p, f_version = version,
                    f_expires_at = c_exp p * us_per_second\<rparr>
           | _ \<Rightarrow> Inl MissingClaim))"

subsection \<open>The state of the service\<close>

record user_row =
  ur_tenant :: uuid128
  ur_id :: uuid128
  ur_email :: ustring
  ur_hash :: ustring
  ur_display :: ustring
  ur_status :: string
  ur_version :: nat
  ur_last_login :: "int option"

record audit_row =
  au_tenant :: uuid128
  au_actor :: "uuid128 option"
  au_outcome :: string

record 'r auth_state =
  as_redis :: 'r
  as_users :: "user_row list"
  as_audit :: "audit_row list"

record hasher =
  verify_password :: "ustring \<Rightarrow> ustring \<Rightarrow> bool"
  hash_password :: "ustring \<Rightarrow> ustring"
  needs_rehash :: "ustring \<Rightarrow> bool"
  dummy_hash :: ustring

record auth_env =
  jwt :: jwt_lib
  codec_of :: codec
  hasher_of :: hasher
  roles_of :: "uuid128 \<Rightarrow> uuid128 \<Rightarrow> ustring list"
  login_max_attempts :: nat
  login_lockout_seconds :: int
  rotation_grace_seconds :: int

record token_pair =
  access_token :: ustring
  refresh_token :: ustring
  pair_expires_at :: int

definition user_by_email :: "uuid128 \<Rightarrow> ustring \<Rightarrow> user_row list \<Rightarrow> user_row option" where
  "user_by_email tenant email users = find (\<lambda>u. ur_tenant u = tenant \<and> ur_email u = email) users"

definition user_by_id :: "uuid128 \<Rightarrow> uuid128 \<Rightarrow> user_row list \<Rightarrow> user_row option" where
  "user_by_id tenant uid users = find (\<lambda>u. ur_tenant u = tenant \<and> ur_id u = uid) users"

definition update_user :: "uuid128 \<Rightarrow> uuid128 \<Rightarrow> (user_row \<Rightarrow> user_row) \<Rightarrow> user_row list \<Rightarrow> user_row list" where
  "update_user tenant uid f users =
     List.map (\<lambda>u. if ur_tenant u = tenant \<and> ur_id u = uid then f u else u) users"

subsection \<open>Keys\<close>

definition family_key :: "uuid128 \<Rightarrow> uuid128 \<Rightarrow> ustring" where
  "family_key tenant family = tenant_key tenant [lit ''refresh-family'', uuid_text family]"

definition rotated_key :: "uuid128 \<Rightarrow> uuid128 \<Rightarrow> ustring" where
  "rotated_key tenant jti = tenant_key tenant [lit ''refresh-rotated'', uuid_text jti]"

definition denied_key :: "uuid128 \<Rightarrow> uuid128 \<Rightarrow> ustring" where
  "denied_key tenant jti = tenant_key tenant [lit ''jti-denied'', uuid_text jti]"

definition min_version_key :: "uuid128 \<Rightarrow> uuid128 \<Rightarrow> ustring" where
  "min_version_key tenant user = tenant_key tenant [lit ''min-token-version'', uuid_text user]"

definition attempts_key :: "uuid128 \<Rightarrow> ustring \<Rightarrow> ustring" where
  "attempts_key tenant email = tenant_key tenant [lit ''login-fail'', email]"

subsection \<open>Password attempts\<close>

definition seconds_until :: "int \<Rightarrow> int \<Rightarrow> int" where
  "seconds_until now moment = max ((moment - now) div us_per_second) 1"

definition locked :: "auth_env \<Rightarrow> 'r kv_ops \<Rightarrow> int \<Rightarrow> uuid128 \<Rightarrow> ustring \<Rightarrow> 'r \<Rightarrow> auth_error option" where
  "locked E R now tenant email r =
     (let key = attempts_key tenant email in
      case kv_get R r now key of
        None \<Rightarrow> None
      | Some raw \<Rightarrow>
          if login_max_attempts E \<le> undecimal 0 raw then Some (AccountLocked (max (kv_ttl R r now key) 0))
          else None)"

definition record_password_failure :: "auth_env \<Rightarrow> 'r kv_ops \<Rightarrow> int \<Rightarrow> uuid128 \<Rightarrow> ustring \<Rightarrow> 'r \<Rightarrow> 'r" where
  "record_password_failure E R now tenant email r =
     (let key = attempts_key tenant email in
      kv_expire R (kv_incr R r now key) now key (login_lockout_seconds E))"

definition clear_password_failures :: "'r kv_ops \<Rightarrow> uuid128 \<Rightarrow> ustring \<Rightarrow> 'r \<Rightarrow> 'r" where
  "clear_password_failures R tenant email r = kv_del R r (attempts_key tenant email)"

subsection \<open>Login\<close>

text \<open>The random identifiers of one operation: the two token ids and, for a login, the family.\<close>

type_synonym fresh_ids = "uuid128 \<times> uuid128 \<times> uuid128"

definition mint ::
  "auth_env \<Rightarrow> int \<Rightarrow> uuid128 \<times> uuid128 \<Rightarrow> uuid128 \<Rightarrow> uuid128 \<Rightarrow> ustring list \<Rightarrow> nat \<Rightarrow> uuid128
   \<Rightarrow> issued_token \<times> issued_token" where
  "mint E now jtis tenant user roles version family =
     (issue_access (jwt E) (codec_of E) now (fst jtis) user tenant roles version,
      issue_refresh (jwt E) (codec_of E) now (snd jtis) user tenant family version)"

definition issue_pair ::
  "auth_env \<Rightarrow> 'r kv_ops \<Rightarrow> int \<Rightarrow> fresh_ids \<Rightarrow> uuid128 \<Rightarrow> uuid128 \<Rightarrow> ustring list \<Rightarrow> nat \<Rightarrow> 'r
   \<Rightarrow> token_pair \<times> 'r" where
  "issue_pair E R now ids tenant user roles version r =
     (case ids of (ajti, rjti, family) \<Rightarrow>
      case mint E now (ajti, rjti) tenant user roles version family of (access, refresh) \<Rightarrow>
        (\<lparr>access_token = it_token access, refresh_token = it_token refresh,
          pair_expires_at = it_expires_at access\<rparr>,
         kv_set_ex R r now (family_key tenant family) (uuid_text (it_jti refresh))
           (seconds_until now (it_expires_at refresh))))"

definition audit_login :: "uuid128 \<Rightarrow> uuid128 option \<Rightarrow> string \<Rightarrow> 'r auth_state \<Rightarrow> 'r auth_state" where
  "audit_login tenant actor outcome st =
     st\<lparr>as_audit := as_audit st @ [\<lparr>au_tenant = tenant, au_actor = actor, au_outcome = outcome\<rparr>]\<rparr>"

definition login ::
  "auth_env \<Rightarrow> 'r kv_ops \<Rightarrow> int \<Rightarrow> fresh_ids \<Rightarrow> uuid128 \<Rightarrow> ustring \<Rightarrow> ustring \<Rightarrow> 'r auth_state
   \<Rightarrow> (auth_error + token_pair) \<times> 'r auth_state" where
  "login E R now ids tenant email password st =
     (case locked E R now tenant email (as_redis st) of
        Some e \<Rightarrow> (Inl e, st)
      | None \<Rightarrow>
          (let H = hasher_of E;
               user = user_by_email tenant email (as_users st);
               stored_hash = (case user of None \<Rightarrow> dummy_hash H | Some u \<Rightarrow> ur_hash u);
               password_ok = verify_password H password stored_hash;
               refused = (Inl InvalidCredentials,
                 audit_login tenant (map_option ur_id user) ''failed''
                   (st\<lparr>as_redis := record_password_failure E R now tenant email (as_redis st)\<rparr>)) in
           case user of
             None \<Rightarrow> refused
           | Some u \<Rightarrow>
               if \<not> password_ok \<or> ur_status u \<noteq> ''active'' then refused
               else
                 let upgrade = (\<lambda>v. if needs_rehash H (ur_hash u) then v\<lparr>ur_hash := hash_password H password\<rparr> else v);
                     users = update_user tenant (ur_id u) (\<lambda>v. (upgrade v)\<lparr>ur_last_login := Some now\<rparr>) (as_users st);
                     roles = roles_of E tenant (ur_id u);
                     st1 = audit_login tenant (Some (ur_id u)) ''succeeded''
                       (st\<lparr>as_users := users, as_redis := clear_password_failures R tenant email (as_redis st)\<rparr>);
                     pair_redis = issue_pair E R now ids tenant (ur_id u) roles (ur_version u) (as_redis st1)
                 in (Inr (fst pair_redis), st1\<lparr>as_redis := snd pair_redis\<rparr>)))"

subsection \<open>Rotation\<close>

datatype rotate_outcome = Rotated | Grace ustring | Replay | Revoked

text \<open>The Lua script: one atomic step on the family (the identifier of its only valid token) and the
  grace record of the presented token.\<close>

definition rotate_script ::
  "'r kv_ops \<Rightarrow> int \<Rightarrow> ustring \<Rightarrow> ustring \<Rightarrow> ustring \<Rightarrow> ustring \<Rightarrow> int \<Rightarrow> ustring \<Rightarrow> int \<Rightarrow> 'r
   \<Rightarrow> rotate_outcome \<times> 'r" where
  "rotate_script R now fam_key rot_key presented new_jti ttl token grace r =
     (case kv_get R r now fam_key of
        None \<Rightarrow> (Revoked, r)
      | Some current \<Rightarrow>
          if current = presented
          then (let r1 = kv_set_ex R r now fam_key new_jti ttl in
                (Rotated, if 0 < grace then kv_set_ex R r1 now rot_key token grace else r1))
          else (case kv_get R r now rot_key of
                  Some handed_out \<Rightarrow> (Grace handed_out, r)
                | None \<Rightarrow> (Replay, kv_del R r fam_key)))"

definition rotate_family ::
  "auth_env \<Rightarrow> 'r kv_ops \<Rightarrow> int \<Rightarrow> uuid128 \<Rightarrow> uuid128 \<Rightarrow> uuid128 \<Rightarrow> issued_token \<Rightarrow> 'r
   \<Rightarrow> (auth_error + ustring) \<times> 'r" where
  "rotate_family E R now tenant family presented issued r =
     (case rotate_script R now (family_key tenant family) (rotated_key tenant presented) (uuid_text presented)
             (uuid_text (it_jti issued)) (seconds_until now (it_expires_at issued)) (it_token issued)
             (max (rotation_grace_seconds E) 0) r of
        (Rotated, r1) \<Rightarrow> (Inr (it_token issued), r1)
      | (Grace handed_out, r1) \<Rightarrow> (Inr handed_out, r1)
      | (Revoked, r1) \<Rightarrow> (Inl TokenRevoked, r1)
      | (Replay, r1) \<Rightarrow> (Inl TokenRevoked, r1))"

definition refresh ::
  "auth_env \<Rightarrow> 'r kv_ops \<Rightarrow> int \<Rightarrow> uuid128 \<times> uuid128 \<Rightarrow> ustring \<Rightarrow> 'r auth_state
   \<Rightarrow> (auth_error + token_pair) \<times> 'r auth_state" where
  "refresh E R now jtis token st =
     (case decode_refresh (jwt E) (codec_of E) now token of
        Inl e \<Rightarrow> (Inl e, st)
      | Inr c \<Rightarrow>
          (let fam_key = family_key (f_tenant c) (f_family c) in
           if kv_get R (as_redis st) now fam_key = None then (Inl TokenRevoked, st)
           else case user_by_id (f_tenant c) (f_sub c) (as_users st) of
                  None \<Rightarrow> (Inl TokenRevoked, st)
                | Some u \<Rightarrow>
                    if ur_status u \<noteq> ''active'' then (Inl TokenRevoked, st)
                    else if ur_version u \<noteq> f_version c
                    then (Inl TokenRevoked, st\<lparr>as_redis := kv_del R (as_redis st) fam_key\<rparr>)
                    else
                      let minted = mint E now jtis (f_tenant c) (f_sub c) (roles_of E (f_tenant c) (ur_id u))
                                     (ur_version u) (f_family c);
                          rotated = rotate_family E R now (f_tenant c) (f_family c) (f_jti c) (snd minted)
                                      (as_redis st)
                      in case rotated of
                           (Inl e, r1) \<Rightarrow> (Inl e, st\<lparr>as_redis := r1\<rparr>)
                         | (Inr handed, r1) \<Rightarrow>
                             (Inr \<lparr>access_token = it_token (fst minted), refresh_token = handed,
                                   pair_expires_at = it_expires_at (fst minted)\<rparr>,
                              st\<lparr>as_redis := r1\<rparr>)))"

subsection \<open>Revocation and verification\<close>

definition logout ::
  "auth_env \<Rightarrow> 'r kv_ops \<Rightarrow> int \<Rightarrow> uuid128 \<Rightarrow> uuid128 \<Rightarrow> int \<Rightarrow> ustring option \<Rightarrow> 'r auth_state \<Rightarrow> 'r auth_state" where
  "logout E R now tenant jti expires_at token st =
     (let remaining = (expires_at - now) div us_per_second;
          r1 = (if 0 < remaining then kv_set_ex R (as_redis st) now (denied_key tenant jti) (lit ''1'') remaining
                else as_redis st) in
      case token of
        None \<Rightarrow> st\<lparr>as_redis := r1\<rparr>
      | Some t \<Rightarrow>
          (case decode_refresh (jwt E) (codec_of E) now t of
             Inl e \<Rightarrow> st\<lparr>as_redis := r1\<rparr>
           | Inr c \<Rightarrow> st\<lparr>as_redis := kv_del R r1 (family_key (f_tenant c) (f_family c))\<rparr>))"

definition bump_token_version :: "uuid128 \<Rightarrow> uuid128 \<Rightarrow> 'r auth_state \<Rightarrow> 'r auth_state" where
  "bump_token_version tenant user st =
     st\<lparr>as_users := update_user tenant user (\<lambda>u. u\<lparr>ur_version := ur_version u + 1\<rparr>) (as_users st)\<rparr>"

definition revoke_all_sessions ::
  "'r kv_ops \<Rightarrow> int \<Rightarrow> uuid128 \<Rightarrow> uuid128 \<Rightarrow> 'r auth_state \<Rightarrow> 'r auth_state" where
  "revoke_all_sessions R now tenant user st =
     (let st1 = bump_token_version tenant user st;
          minimum = (case user_by_id tenant user (as_users st1) of None \<Rightarrow> 1 | Some u \<Rightarrow> ur_version u)
      in st1\<lparr>as_redis := kv_set_ex R (as_redis st1) now (min_version_key tenant user) (decimal minimum)
                            (access_ttl div us_per_second)\<rparr>)"

definition describe_access_token ::
  "auth_env \<Rightarrow> 'r kv_ops \<Rightarrow> int \<Rightarrow> ustring \<Rightarrow> 'r \<Rightarrow> auth_error + access_claims" where
  "describe_access_token E R now token r =
     (case decode (jwt E) (codec_of E) now token of
        Inl e \<Rightarrow> Inl e
      | Inr c \<Rightarrow>
          if kv_get R r now (denied_key (a_tenant c) (a_jti c)) \<noteq> None then Inl TokenRevoked
          else case kv_get R r now (min_version_key (a_tenant c) (a_sub c)) of
                 None \<Rightarrow> Inr c
               | Some minimum \<Rightarrow> if a_version c < undecimal 0 minimum then Inl TokenRevoked else Inr c)"

subsection \<open>Laws and keys: lemmas\<close>

lemma kv_set:
  assumes "kv_ok R" "t0 \<le> t" "0 < ttl"
  shows "kv_get R (kv_set_ex R r t0 key v ttl) t k =
    (if k = key then (if t < t0 + ttl * us_per_second then Some v else None) else kv_get R r t k)"
  using assms(2,3) by (simp add: assms(1) [unfolded kv_ok_def])

lemma kv_deleted: "kv_ok R \<Longrightarrow> kv_get R (kv_del R r key) t k = (if k = key then None else kv_get R r t k)"
  by (simp add: kv_ok_def)

lemma kv_counted:
  assumes "kv_ok R" "t0 \<le> t" "0 < ttl"
  shows "kv_get R (kv_expire R (kv_incr R r t0 key) t0 key ttl) t k =
    (if k = key then (if t < t0 + ttl * us_per_second then Some (next_count (kv_get R r t0 key)) else None)
     else kv_get R r t k)"
  using assms(2,3) by (simp add: assms(1) [unfolded kv_ok_def])

lemma kv_gone: "kv_ok R \<Longrightarrow> kv_get R r t k = None \<Longrightarrow> t \<le> t' \<Longrightarrow> kv_get R r t' k = None"
  unfolding kv_ok_def by blast

lemma seconds_until_pos [simp]: "0 < seconds_until now moment"
  by (simp add: seconds_until_def)

lemma length_uuid_text [simp]: "length (uuid_text n) = 36"
  by (simp add: uuid_text_def Let_def)

lemma append_eq_length: "length a = length b \<Longrightarrow> a @ x = b @ y \<longleftrightarrow> a = b \<and> x = y"
  by (rule append_eq_append_conv) simp

lemma tenant_key_two:
  "tenant_key t [a, x] = tenant_key t' [b, y] \<longleftrightarrow>
     uuid_text t = uuid_text t' \<and> a @ lit '':'' @ x = b @ lit '':'' @ y"
  by (auto simp: tenant_key_def append_eq_length)

lemma family_key_differs [simp]:
  "family_key t f \<noteq> rotated_key t' j" "family_key t f \<noteq> denied_key t' j"
  "family_key t f \<noteq> min_version_key t' u" "family_key t f \<noteq> attempts_key t' e"
  by (simp_all add: family_key_def rotated_key_def denied_key_def min_version_key_def attempts_key_def
      tenant_key_two lit_def)

lemma min_version_key_differs [simp]:
  "min_version_key t u \<noteq> rotated_key t' j" "min_version_key t u \<noteq> denied_key t' j"
  "min_version_key t u \<noteq> family_key t' f" "min_version_key t u \<noteq> attempts_key t' e"
  by (simp_all add: family_key_def rotated_key_def denied_key_def min_version_key_def attempts_key_def
      tenant_key_two lit_def)

lemma attempts_key_differs [simp]:
  "attempts_key t e \<noteq> rotated_key t' j" "attempts_key t e \<noteq> denied_key t' j"
  "attempts_key t e \<noteq> family_key t' f" "attempts_key t e \<noteq> min_version_key t' u"
  by (simp_all add: family_key_def rotated_key_def denied_key_def min_version_key_def attempts_key_def
      tenant_key_two lit_def)

lemma uuid_text_inject: "m < 2 ^ 128 \<Longrightarrow> n < 2 ^ 128 \<Longrightarrow> uuid_text m = uuid_text n \<Longrightarrow> m = n"
  using hex_text_inject [of m 32 n] uuid_text_hex [of m] uuid_text_hex [of n] by simp

subsection \<open>Runs of the service\<close>

datatype auth_event =
    LoginEvent int fresh_ids uuid128 ustring ustring
  | RefreshEvent int "uuid128 \<times> uuid128" ustring
  | LogoutEvent int uuid128 uuid128 int "ustring option"
  | RevokeEvent int uuid128 uuid128

fun event_time :: "auth_event \<Rightarrow> int" where
  "event_time (LoginEvent now _ _ _ _) = now"
| "event_time (RefreshEvent now _ _) = now"
| "event_time (LogoutEvent now _ _ _ _) = now"
| "event_time (RevokeEvent now _ _) = now"

fun auth_step :: "auth_env \<Rightarrow> 'r kv_ops \<Rightarrow> auth_event \<Rightarrow> 'r auth_state \<Rightarrow> 'r auth_state" where
  "auth_step E R (LoginEvent now ids tenant email password) st = snd (login E R now ids tenant email password st)"
| "auth_step E R (RefreshEvent now jtis token) st = snd (refresh E R now jtis token st)"
| "auth_step E R (LogoutEvent now tenant jti expires_at token) st = logout E R now tenant jti expires_at token st"
| "auth_step E R (RevokeEvent now tenant user) st = revoke_all_sessions R now tenant user st"

text \<open>The events happen one after the other, the first not before \<open>t\<close>; \<open>end_time\<close> is the time of the last.\<close>

fun in_order :: "int \<Rightarrow> auth_event list \<Rightarrow> bool" where
  "in_order t [] = True"
| "in_order t (e # es) = (t \<le> event_time e \<and> in_order (event_time e) es)"

fun end_time :: "int \<Rightarrow> auth_event list \<Rightarrow> int" where
  "end_time t [] = t"
| "end_time t (e # es) = end_time (event_time e) es"

lemma end_time_ge: "in_order t es \<Longrightarrow> t \<le> end_time t es"
  by (induction es arbitrary: t) force+

text \<open>An invariant of the state at a moment that time and every admissible event keep.\<close>

locale auth_invariant =
  fixes E :: auth_env and R :: "'r kv_ops" and admissible :: "auth_event \<Rightarrow> bool"
    and I :: "int \<Rightarrow> 'r auth_state \<Rightarrow> bool"
  assumes wait: "I t st \<Longrightarrow> t \<le> t' \<Longrightarrow> I t' st"
    and step: "I (event_time e) st \<Longrightarrow> admissible e \<Longrightarrow> I (event_time e) (auth_step E R e st)"
begin

lemma run_holds:
  "I t st \<Longrightarrow> in_order t es \<Longrightarrow> list_all admissible es \<Longrightarrow> I (end_time t es) (fold (auth_step E R) es st)"
proof (induction es arbitrary: t st)
  case (Cons e es)
  have "t \<le> event_time e" "in_order (event_time e) es" "admissible e" "list_all admissible es"
    using Cons.prems(2,3) by simp_all
  moreover from this(1) Cons.prems(1) have "I (event_time e) st" by (rule wait [rotated])
  ultimately have "I (end_time (event_time e) es) (fold (auth_step E R) es (auth_step E R e st))"
    using Cons.IH step by blast
  then show ?case by simp
qed simp

end

subsubsection \<open>A dead family stays dead\<close>

fun opens_family :: "ustring \<Rightarrow> auth_event \<Rightarrow> bool" where
  "opens_family k (LoginEvent _ (_, _, family) tenant _ _) = (family_key tenant family = k)"
| "opens_family k _ = False"

definition family_dead :: "'r kv_ops \<Rightarrow> ustring \<Rightarrow> int \<Rightarrow> 'r auth_state \<Rightarrow> bool" where
  "family_dead R k t st = (kv_get R (as_redis st) t k = None)"

lemma audit_login_simps [simp]:
  "as_redis (audit_login tenant actor outcome st) = as_redis st"
  "as_users (audit_login tenant actor outcome st) = as_users st"
  by (simp_all add: audit_login_def)

lemma seconds_pos: "0 < access_ttl div us_per_second"
  by (simp add: access_ttl_def us_per_second_def)

lemma rotate_script_keeps_dead:
  assumes "kv_ok R" "kv_get R r now k = None" "k \<noteq> rot_key" "0 < ttl"
  shows "kv_get R (snd (rotate_script R now fam_key rot_key presented new_jti ttl token grace r)) now k = None"
  using assms by (auto simp: rotate_script_def Let_def kv_set kv_deleted split: option.splits)

lemma rotate_family_keeps_dead:
  assumes "kv_ok R" "kv_get R r now (family_key t f) = None"
  shows "kv_get R (snd (rotate_family E R now tenant family presented issued r)) now (family_key t f) = None"
  using rotate_script_keeps_dead [OF assms, of "rotated_key tenant presented"]
  by (auto simp: rotate_family_def split: prod.splits rotate_outcome.splits)
    (metis family_key_differs(1) seconds_until_pos snd_conv)+

lemma refresh_keeps_dead:
  assumes "kv_ok R" "kv_get R (as_redis st) now (family_key t f) = None"
  shows "kv_get R (as_redis (snd (refresh E R now jtis token st))) now (family_key t f) = None"
proof -
  have rot: "kv_get R r1 now (family_key t f) = None"
    if "rotate_family E R now tenant family presented issued (as_redis st) = (x, r1)" for x r1 tenant family presented issued
    using rotate_family_keeps_dead [OF assms] that by (metis snd_conv)
  show ?thesis
    using assms by (auto simp: refresh_def Let_def kv_deleted dest: rot split: sum.splits option.splits prod.splits)
qed

lemma login_keeps_dead:
  assumes "kv_ok R" "0 < login_lockout_seconds E" "kv_get R (as_redis st) now (family_key t f) = None"
    and "family_key tenant (snd (snd ids)) \<noteq> family_key t f"
  shows "kv_get R (as_redis (snd (login E R now ids tenant email password st))) now (family_key t f) = None"
  using assms
  by (auto simp: login_def Let_def issue_pair_def mint_def record_password_failure_def clear_password_failures_def
      kv_set kv_counted kv_deleted split: option.splits prod.splits)

lemma logout_keeps_dead:
  assumes "kv_ok R" "kv_get R (as_redis st) now (family_key t f) = None"
  shows "kv_get R (as_redis (logout E R now tenant jti expires_at token st)) now (family_key t f) = None"
  using assms by (auto simp: logout_def Let_def kv_set kv_deleted split: option.splits sum.splits)

lemma revoke_keeps_dead:
  assumes "kv_ok R" "kv_get R (as_redis st) now (family_key t f) = None"
  shows "kv_get R (as_redis (revoke_all_sessions R now tenant user st)) now (family_key t f) = None"
  using assms by (simp add: revoke_all_sessions_def bump_token_version_def Let_def kv_set seconds_pos)

text \<open>The settings and the store the service relies on.\<close>

definition auth_ok :: "auth_env \<Rightarrow> 'r kv_ops \<Rightarrow> bool" where
  "auth_ok E R = (kv_ok R \<and> 0 < login_lockout_seconds E)"

interpretation dead_family: auth_invariant E R "\<lambda>e. \<not> opens_family (family_key t f) e"
  "\<lambda>now st. auth_ok E R \<longrightarrow> family_dead R (family_key t f) now st" for E R t f
proof
  fix now later :: int and st
  assume "auth_ok E R \<longrightarrow> family_dead R (family_key t f) now st" "now \<le> later"
  then show "auth_ok E R \<longrightarrow> family_dead R (family_key t f) later st"
    by (auto simp: family_dead_def auth_ok_def intro: kv_gone)
next
  fix e st
  assume "auth_ok E R \<longrightarrow> family_dead R (family_key t f) (event_time e) st"
    and "\<not> opens_family (family_key t f) e"
  then show "auth_ok E R \<longrightarrow> family_dead R (family_key t f) (event_time e) (auth_step E R e st)"
    by (cases e)
      (auto simp: auth_ok_def family_dead_def login_keeps_dead refresh_keeps_dead logout_keeps_dead
        revoke_keeps_dead)
qed

lemma refresh_dead:
  assumes "decode_refresh (jwt E) (codec_of E) now token = Inr c"
    and "family_dead R (family_key (f_tenant c) (f_family c)) now st"
  shows "refresh E R now jtis token st = (Inl TokenRevoked, st)"
  using assms by (simp add: refresh_def family_dead_def)

subsubsection \<open>Revoked sessions stay revoked\<close>

text \<open>The account has passed version \<open>v\<close>; until \<open>deadline\<close> the marker says so too.\<close>

definition version_passed ::
  "'r kv_ops \<Rightarrow> uuid128 \<Rightarrow> uuid128 \<Rightarrow> nat \<Rightarrow> int \<Rightarrow> int \<Rightarrow> 'r auth_state \<Rightarrow> bool" where
  "version_passed R tenant user v deadline now st =
     (deadline \<le> now + access_ttl
      \<and> (\<exists>u. user_by_id tenant user (as_users st) = Some u \<and> v < ur_version u)
      \<and> (\<forall>t. now \<le> t \<longrightarrow> t < deadline \<longrightarrow>
            (\<exists>m. kv_get R (as_redis st) t (min_version_key tenant user) = Some (decimal m) \<and> v < m)))"

lemma user_by_id_update:
  assumes "\<And>u. ur_tenant (g u) = ur_tenant u \<and> ur_id (g u) = ur_id u"
  shows "user_by_id tenant user (update_user tenant' user' g users) =
    map_option (\<lambda>u. if tenant' = tenant \<and> user' = user then g u else u) (user_by_id tenant user users)"
proof (induction users)
  case (Cons x xs)
  then show ?case using assms [of x] by (auto simp: user_by_id_def update_user_def)
qed (simp add: user_by_id_def update_user_def)

lemma revoke_state:
  assumes "kv_ok R" "now \<le> t"
  shows "kv_get R (as_redis (revoke_all_sessions R now tenant user st)) t k =
    (if k = min_version_key tenant user
     then (if t < now + access_ttl
           then Some (decimal (case user_by_id tenant user (as_users st) of None \<Rightarrow> 1 | Some u \<Rightarrow> ur_version u + 1))
           else None)
     else kv_get R (as_redis st) t k)"
proof -
  have "access_ttl div us_per_second * us_per_second = access_ttl"
    by (simp add: access_ttl_def us_per_second_def)
  then show ?thesis
    using assms
    by (simp add: revoke_all_sessions_def bump_token_version_def Let_def kv_set seconds_pos user_by_id_update
        split: option.split)
qed

lemma rotate_script_frame:
  assumes "kv_ok R" "now \<le> t" "0 < ttl" "k \<noteq> fam_key" "k \<noteq> rot_key"
  shows "kv_get R (snd (rotate_script R now fam_key rot_key presented new_jti ttl token grace r)) t k = kv_get R r t k"
  using assms by (auto simp: rotate_script_def Let_def kv_set kv_deleted split: option.split)

lemma rotate_family_frame:
  assumes "kv_ok R" "now \<le> t"
  shows "kv_get R (snd (rotate_family E R now tenant family presented issued r)) t (min_version_key a b) =
    kv_get R r t (min_version_key a b)"
proof -
  obtain out r1 where s: "rotate_script R now (family_key tenant family) (rotated_key tenant presented)
      (uuid_text presented) (uuid_text (it_jti issued)) (seconds_until now (it_expires_at issued)) (it_token issued)
      (max (rotation_grace_seconds E) 0) r = (out, r1)" by force
  then have r1: "r1 = snd (rotate_script R now (family_key tenant family) (rotated_key tenant presented)
      (uuid_text presented) (uuid_text (it_jti issued)) (seconds_until now (it_expires_at issued)) (it_token issued)
      (max (rotation_grace_seconds E) 0) r)" by simp
  have "kv_get R r1 t (min_version_key a b) = kv_get R r t (min_version_key a b)"
    unfolding r1 by (rule rotate_script_frame [OF assms seconds_until_pos]) simp_all
  then show ?thesis by (simp add: rotate_family_def s split: rotate_outcome.split)
qed

lemma refresh_frame:
  assumes "kv_ok R" "now \<le> t"
  shows "kv_get R (as_redis (snd (refresh E R now jtis token st))) t (min_version_key a b) =
      kv_get R (as_redis st) t (min_version_key a b)"
proof -
  have rot: "kv_get R r1 t (min_version_key a b) = kv_get R (as_redis st) t (min_version_key a b)"
    if "rotate_family E R now tenant family presented issued (as_redis st) = (x, r1)" for x r1 tenant family presented issued
    using rotate_family_frame [OF assms] that by (metis snd_conv)
  show ?thesis
    using assms by (auto simp: refresh_def Let_def kv_deleted dest: rot split: sum.split option.split prod.split)
qed

lemma refresh_users [simp]: "as_users (snd (refresh E R now jtis token st)) = as_users st"
  by (auto simp: refresh_def Let_def split: sum.split option.split prod.split)

lemma logout_users [simp]: "as_users (logout E R now tenant jti expires_at token st) = as_users st"
  by (simp add: logout_def Let_def split: option.split sum.split)

lemma version_update:
  assumes "\<And>u. ur_tenant (g u) = ur_tenant u \<and> ur_id (g u) = ur_id u" "\<And>u. ur_version (g u) = ur_version u"
  shows "map_option ur_version (user_by_id a b (update_user tenant user g users)) =
    map_option ur_version (user_by_id a b users)"
  using assms(2) by (cases "user_by_id a b users") (simp_all add: user_by_id_update [OF assms(1)])

lemma login_frame:
  assumes "kv_ok R" "now \<le> t" "0 < login_lockout_seconds E"
  shows "kv_get R (as_redis (snd (login E R now ids tenant email password st))) t (min_version_key a b) =
    kv_get R (as_redis st) t (min_version_key a b)"
  using assms
  by (auto simp: login_def Let_def issue_pair_def mint_def record_password_failure_def clear_password_failures_def
      kv_set kv_counted kv_deleted split: option.split prod.split)

lemma login_keeps_version:
  "map_option ur_version (user_by_id a b (as_users (snd (login E R now ids tenant email password st)))) =
     map_option ur_version (user_by_id a b (as_users st))"
  by (auto simp: login_def Let_def version_update split: option.split)

lemma logout_frame:
  assumes "kv_ok R" "now \<le> t"
  shows "kv_get R (as_redis (logout E R now tenant jti expires_at token st)) t (min_version_key a b) =
      kv_get R (as_redis st) t (min_version_key a b)"
  using assms by (auto simp: logout_def Let_def kv_set kv_deleted split: option.split sum.split)

lemma min_version_key_inject:
  assumes "t < 2 ^ 128" "t' < 2 ^ 128" "u < 2 ^ 128" "u' < 2 ^ 128"
  shows "min_version_key t u = min_version_key t' u' \<longleftrightarrow> t = t' \<and> u = u'"
  using assms uuid_text_inject by (auto simp: min_version_key_def tenant_key_two)

fun revokes_uuid :: "auth_event \<Rightarrow> bool" where
  "revokes_uuid (RevokeEvent _ tenant user) = (tenant < 2 ^ 128 \<and> user < 2 ^ 128)"
| "revokes_uuid _ = True"

lemma version_of_user:
  "map_option ur_version (user_by_id a b users') = map_option ur_version (user_by_id a b users) \<Longrightarrow>
     (\<exists>u. user_by_id a b users = Some u \<and> v < ur_version u) \<Longrightarrow>
     (\<exists>u. user_by_id a b users' = Some u \<and> v < ur_version u)"
  by (cases "user_by_id a b users'") auto

interpretation revoked: auth_invariant E R revokes_uuid
  "\<lambda>now st. auth_ok E R \<and> tenant < 2 ^ 128 \<and> user < 2 ^ 128 \<longrightarrow> version_passed R tenant user v deadline now st"
  for E R tenant user v deadline
proof
  fix now later :: int and st
  assume "auth_ok E R \<and> tenant < 2 ^ 128 \<and> user < 2 ^ 128 \<longrightarrow> version_passed R tenant user v deadline now st"
    and "now \<le> later"
  then show "auth_ok E R \<and> tenant < 2 ^ 128 \<and> user < 2 ^ 128 \<longrightarrow> version_passed R tenant user v deadline later st"
    by (auto simp: version_passed_def)
next
  fix e st
  assume inv: "auth_ok E R \<and> tenant < 2 ^ 128 \<and> user < 2 ^ 128 \<longrightarrow>
      version_passed R tenant user v deadline (event_time e) st"
    and uuid: "revokes_uuid e"
  show "auth_ok E R \<and> tenant < 2 ^ 128 \<and> user < 2 ^ 128 \<longrightarrow>
      version_passed R tenant user v deadline (event_time e) (auth_step E R e st)"
  proof
    assume ok: "auth_ok E R \<and> tenant < 2 ^ 128 \<and> user < 2 ^ 128"
    then have old: "version_passed R tenant user v deadline (event_time e) st" using inv by blast
    have kv: "kv_ok R" "0 < login_lockout_seconds E" using ok by (simp_all add: auth_ok_def)
    show "version_passed R tenant user v deadline (event_time e) (auth_step E R e st)"
    proof (cases e)
      case (LoginEvent now ids tenant' email password)
      then show ?thesis
        using old version_of_user [OF login_keeps_version, of tenant user st v E R now ids tenant' email password]
        by (simp add: version_passed_def login_frame [OF kv(1) _ kv(2)])
    next
      case (RefreshEvent now jtis token)
      then show ?thesis using old by (simp add: version_passed_def refresh_frame [OF kv(1)])
    next
      case (LogoutEvent now tenant' jti expires_at token)
      then show ?thesis using old by (simp add: version_passed_def logout_frame [OF kv(1)])
    next
      case (RevokeEvent now tenant' user')
      have "min_version_key tenant user = min_version_key tenant' user' \<longleftrightarrow> tenant = tenant' \<and> user = user'"
        using ok uuid RevokeEvent by (intro min_version_key_inject) auto
      moreover have "\<exists>u. user_by_id tenant user (as_users (auth_step E R e st)) = Some u \<and> v < ur_version u"
        using old RevokeEvent
        by (cases "tenant' = tenant \<and> user' = user")
          (auto simp: version_passed_def revoke_all_sessions_def bump_token_version_def Let_def user_by_id_update)
      ultimately show ?thesis
        using old RevokeEvent kv(1) by (auto simp: version_passed_def revoke_state)
    qed
  qed
qed

lemma revoke_starts:
  assumes "kv_ok R" "user_by_id tenant user (as_users st) = Some u"
  shows "version_passed R tenant user (ur_version u) (now + access_ttl) now (revoke_all_sessions R now tenant user st)"
proof -
  have "user_by_id tenant user (as_users (revoke_all_sessions R now tenant user st)) =
      Some (u\<lparr>ur_version := ur_version u + 1\<rparr>)"
    using assms(2) by (simp add: revoke_all_sessions_def bump_token_version_def Let_def user_by_id_update)
  moreover have "\<exists>m. kv_get R (as_redis (revoke_all_sessions R now tenant user st)) t (min_version_key tenant user) =
      Some (decimal m) \<and> ur_version u < m" if "now \<le> t" "t < now + access_ttl" for t
    using that by (simp add: revoke_state [OF assms(1)] assms(2))
  ultimately show ?thesis by (simp add: version_passed_def)
qed

lemma passed_refresh:
  assumes "version_passed R (f_tenant c) (f_sub c) v deadline now st" "f_version c \<le> v"
    and "decode_refresh (jwt E) (codec_of E) now token = Inr c"
  shows "fst (refresh E R now jtis token st) = Inl TokenRevoked"
  using assms by (auto simp: refresh_def version_passed_def Let_def)

lemma passed_access:
  assumes "version_passed R (a_tenant c) (a_sub c) v deadline now st" "a_version c \<le> v" "now < deadline"
    and "decode (jwt E) (codec_of E) now token = Inr c"
  shows "describe_access_token E R now token (as_redis st) = Inl TokenRevoked"
proof -
  obtain m where "kv_get R (as_redis st) now (min_version_key (a_tenant c) (a_sub c)) = Some (decimal m)" "v < m"
    using assms(1,3) by (auto simp: version_passed_def)
  then show ?thesis using assms(2,4) by (simp add: describe_access_token_def)
qed

subsection \<open>Attempts\<close>

text \<open>Consecutive attempts on one account, each refused and each within the lockout time of the one
  before.\<close>

fun refused_run ::
  "auth_env \<Rightarrow> 'r kv_ops \<Rightarrow> uuid128 \<Rightarrow> ustring \<Rightarrow> int \<Rightarrow> (int \<times> fresh_ids \<times> ustring) list \<Rightarrow> 'r auth_state
   \<Rightarrow> (int \<times> 'r auth_state) option" where
  "refused_run E R tenant email t [] st = Some (t, st)"
| "refused_run E R tenant email t ((now, ids, password) # rest) st =
     (case login E R now ids tenant email password st of
        (Inl InvalidCredentials, st1) \<Rightarrow>
          if t \<le> now \<and> now < t + login_lockout_seconds E * us_per_second
          then refused_run E R tenant email now rest st1 else None
      | _ \<Rightarrow> None)"

definition attempts_seen :: "auth_env \<Rightarrow> 'r kv_ops \<Rightarrow> uuid128 \<Rightarrow> ustring \<Rightarrow> nat \<Rightarrow> int \<Rightarrow> 'r auth_state \<Rightarrow> bool" where
  "attempts_seen E R tenant email k t st =
     (\<forall>now. t \<le> now \<longrightarrow> now < t + login_lockout_seconds E * us_per_second \<longrightarrow>
        (\<exists>n. kv_get R (as_redis st) now (attempts_key tenant email) = Some (decimal n) \<and> k \<le> n))"

lemma refused_login:
  assumes "login E R now ids tenant email password st = (Inl InvalidCredentials, st1)"
  shows "as_redis st1 = record_password_failure E R now tenant email (as_redis st)"
  using assms by (auto simp: login_def Let_def locked_def split: option.splits if_splits)

lemma failure_counts:
  assumes "auth_ok E R" "as_redis st1 = record_password_failure E R now tenant email (as_redis st)"
    and "k = 0 \<or> (attempts_seen E R tenant email k t st \<and> t \<le> now \<and> now < t + login_lockout_seconds E * us_per_second)"
  shows "attempts_seen E R tenant email (k + 1) now st1"
proof -
  have kv: "kv_ok R" "0 < login_lockout_seconds E" using assms(1) by (simp_all add: auth_ok_def)
  obtain n where n: "next_count (kv_get R (as_redis st) now (attempts_key tenant email)) = decimal n" "k + 1 \<le> n"
  proof (cases "k = 0")
    case True
    then show ?thesis
      using that [of "case kv_get R (as_redis st) now (attempts_key tenant email) of None \<Rightarrow> 1 | Some s \<Rightarrow> undecimal 0 s + 1"]
      by (auto simp: next_count_def split: option.split)
  next
    case False
    then show ?thesis using assms(3) that by (auto simp: attempts_seen_def next_count_def)
  qed
  then show ?thesis
    using assms(2) by (auto simp: attempts_seen_def record_password_failure_def Let_def kv_counted [OF kv(1) _ kv(2)])
qed

lemma refused_counts:
  assumes "auth_ok E R" "login E R now ids tenant email password st = (Inl InvalidCredentials, st1)"
    and "k = 0 \<or> (attempts_seen E R tenant email k t st \<and> t \<le> now \<and> now < t + login_lockout_seconds E * us_per_second)"
  shows "attempts_seen E R tenant email (k + 1) now st1"
  using failure_counts [OF assms(1) refused_login [OF assms(2)] assms(3)] .

lemma refused_run_counts:
  "auth_ok E R \<Longrightarrow> refused_run E R tenant email t attempts st = Some (t', st') \<Longrightarrow>
     k = 0 \<or> attempts_seen E R tenant email k t st \<Longrightarrow> attempts \<noteq> [] \<or> k \<noteq> 0 \<Longrightarrow>
     attempts_seen E R tenant email (k + length attempts) t' st'"
proof (induction attempts arbitrary: t st k)
  case (Cons a rest)
  obtain now ids password where a: "a = (now, ids, password)" by (metis prod_cases3)
  obtain r st1 where l: "login E R now ids tenant email password st = (r, st1)" by force
  have r: "r = Inl InvalidCredentials" "t \<le> now" "now < t + login_lockout_seconds E * us_per_second"
    and rest: "refused_run E R tenant email now rest st1 = Some (t', st')"
    using Cons.prems(2) a l by (auto split: sum.splits auth_error.splits if_splits)
  have "attempts_seen E R tenant email (k + 1) now st1"
    using refused_counts [OF Cons.prems(1) l [unfolded r(1)]] Cons.prems(3) r(2,3) by blast
  then show ?case using Cons.IH [OF Cons.prems(1) rest, of "k + 1"] by simp
qed auto

end
