(* ===== verification/Sessions.thy ===== *)
theory Sessions
  imports Auth
begin

text \<open>
  The properties of \<open>backend/services/identity/auth.py\<close> (modelled in theory Auth): bounded password
  guessing, agreement of concurrent refreshes, the end of a replayed session, revocation of all
  sessions, and the gap that the clock-skew leeway leaves. The sample store and token library at the
  end show that the laws assumed of Redis and PyJWT can hold.
\<close>

subsection \<open>Rotation: lemmas\<close>

lemma refresh_lifetime: "seconds_until now (it_expires_at (issue_refresh J C now jti user tenant family version)) = 1209600"
  by (simp add: seconds_until_def issue_refresh_def refresh_ttl_def us_per_second_def Let_def)

lemma issue_refresh_jti [simp]: "it_jti (issue_refresh J C now jti user tenant family version) = jti"
  by (simp add: issue_refresh_def Let_def)

text \<open>The winner of a rotation: the family moves to the new identifier and the grace record of the
  presented token holds the new token.\<close>

lemma winner_state:
  assumes "kv_ok R" "decode_refresh (jwt E) (codec_of E) now token = Inr c"
    and "kv_get R (as_redis st) now (family_key (f_tenant c) (f_family c)) = Some (uuid_text (f_jti c))"
    and "refresh E R now jtis token st = (Inr pair, st1)" and "0 < rotation_grace_seconds E"
    and "now \<le> t"
  shows "kv_get R (as_redis st1) t (family_key (f_tenant c) (f_family c)) =
      (if t < now + 1209600 * us_per_second then Some (uuid_text (snd jtis)) else None)"
    and "kv_get R (as_redis st1) t (rotated_key (f_tenant c) (f_jti c)) =
      (if t < now + rotation_grace_seconds E * us_per_second then Some (refresh_token pair) else None)"
    and "\<exists>u. user_by_id (f_tenant c) (f_sub c) (as_users st1) = Some u \<and> ur_status u = ''active''
      \<and> ur_version u = f_version c"
proof -
  obtain u where u: "user_by_id (f_tenant c) (f_sub c) (as_users st) = Some u" "ur_status u = ''active''"
    "ur_version u = f_version c"
    using assms(2-4) by (auto simp: refresh_def Let_def split: option.splits if_splits)
  let ?new = "issue_refresh (jwt E) (codec_of E) now (snd jtis) (f_sub c) (f_tenant c) (f_family c) (ur_version u)"
  have st1: "as_redis st1 = kv_set_ex R (kv_set_ex R (as_redis st) now (family_key (f_tenant c) (f_family c))
        (uuid_text (snd jtis)) 1209600) now (rotated_key (f_tenant c) (f_jti c)) (it_token ?new)
        (rotation_grace_seconds E)"
    and pair: "refresh_token pair = it_token ?new" and us: "as_users st1 = as_users st"
    using assms(2-5) u
    by (auto simp: refresh_def Let_def mint_def rotate_family_def rotate_script_def refresh_lifetime max_def)
  show "kv_get R (as_redis st1) t (family_key (f_tenant c) (f_family c)) =
      (if t < now + 1209600 * us_per_second then Some (uuid_text (snd jtis)) else None)"
    and "kv_get R (as_redis st1) t (rotated_key (f_tenant c) (f_jti c)) =
      (if t < now + rotation_grace_seconds E * us_per_second then Some (refresh_token pair) else None)"
    by (simp_all add: st1 pair kv_set [OF assms(1,6)] assms(5) family_key_differs(1) [symmetric])
  show "\<exists>u. user_by_id (f_tenant c) (f_sub c) (as_users st1) = Some u \<and> ur_status u = ''active''
      \<and> ur_version u = f_version c"
    using u us by simp
qed

subsection \<open>A store and a token library with the assumed behaviour\<close>

type_synonym mem_kv = "ustring \<Rightarrow> (ustring \<times> int option) option"

definition live :: "mem_kv \<Rightarrow> int \<Rightarrow> ustring \<Rightarrow> ustring option" where
  "live r t k =
     (case r k of None \<Rightarrow> None | Some (v, None) \<Rightarrow> Some v | Some (v, Some e) \<Rightarrow> if t < e then Some v else None)"

definition mem_kv_ops :: "mem_kv kv_ops" where
  "mem_kv_ops =
     \<lparr>kv_get = live,
      kv_set_ex = (\<lambda>r t k v s. r(k \<mapsto> (v, Some (t + s * us_per_second)))),
      kv_del = (\<lambda>r k. r(k := None)),
      kv_incr = (\<lambda>r t k. r(k \<mapsto> (next_count (live r t k), if live r t k = None then None else snd (the (r k))))),
      kv_expire = (\<lambda>r t k s. case live r t k of None \<Rightarrow> r | Some v \<Rightarrow> r(k \<mapsto> (v, Some (t + s * us_per_second)))),
      kv_ttl = (\<lambda>r t k. 0)\<rparr>"

lemma mem_kv_ok: "kv_ok mem_kv_ops"
  unfolding kv_ok_def
proof (intro conjI allI impI)
  fix r :: mem_kv and t0 t :: int and k key :: ustring and ttl :: int
  assume "t0 \<le> t" "0 < ttl"
  have "live (r(key \<mapsto> (next_count (live r t0 key), if live r t0 key = None then None else snd (the (r key))))) t0 key
      = Some (next_count (live r t0 key))"
    by (cases "r key") (auto simp: live_def split: option.splits prod.splits if_splits)
  then show "kv_get mem_kv_ops (kv_expire mem_kv_ops (kv_incr mem_kv_ops r t0 key) t0 key ttl) t k =
      (if k = key then (if t < t0 + ttl * us_per_second then Some (next_count (kv_get mem_kv_ops r t0 key)) else None)
       else kv_get mem_kv_ops r t k)"
    by (auto simp: mem_kv_ops_def live_def split: option.split)
qed (auto simp: mem_kv_ops_def live_def split: option.splits prod.splits if_splits)

text \<open>Tokens that carry their claims in clear; the key is not looked at.\<close>

definition sample_encode :: "claims \<Rightarrow> ustring \<Rightarrow> ustring \<Rightarrow> ustring" where
  "sample_encode c kid priv =
     [if c_typ c = ''access'' then 0 else 1, c_sub c, or_else (c_tenant c) 0, or_else (c_family c) 0, c_jti c,
      or_else (c_version c) 0, nat (c_exp c), nat (c_iat c)]"

fun sample_decode :: "ustring \<Rightarrow> ustring \<Rightarrow> int \<Rightarrow> int \<Rightarrow> jwt_result" where
  "sample_decode [ty, subject, tenant, family, jti, version, expiry, issued] pub now leeway =
     (if now + leeway < int issued * us_per_second then PyJWTError
      else if int expiry * us_per_second \<le> now - leeway then ExpiredSignature
      else Valid \<lparr>c_typ = (if ty = 0 then ''access'' else ''refresh''), c_sub = subject, c_tenant = Some tenant,
                  c_roles = [], c_family = Some family, c_jti = jti, c_version = Some version,
                  c_exp = int expiry, c_iat = int issued\<rparr>)"
| "sample_decode _ pub now leeway = PyJWTError"

definition sample_auth :: auth_env where
  "sample_auth =
     \<lparr>jwt = \<lparr>jwt_encode = sample_encode, jwt_kid = (\<lambda>_. Some [107]), jwt_decode = sample_decode\<rparr>,
      codec_of = \<lparr>private_key = [112], public_keys = [([107], [113])], active_kid = [107]\<rparr>,
      hasher_of = \<lparr>verify_password = (\<lambda>p h. p = h), hash_password = (\<lambda>p. p), needs_rehash = (\<lambda>_. False),
                   dummy_hash = [0]\<rparr>,
      roles_of = (\<lambda>_ _. []), login_max_attempts = 2, login_lockout_seconds = 900,
      rotation_grace_seconds = 10\<rparr>"

definition sample_user :: user_row where
  "sample_user = \<lparr>ur_tenant = 7, ur_id = 8, ur_email = [101], ur_hash = [115], ur_display = [],
     ur_status = ''active'', ur_version = 3, ur_last_login = None\<rparr>"

definition sample_auth_state :: "mem_kv \<Rightarrow> mem_kv auth_state" where
  "sample_auth_state r = \<lparr>as_redis = r, as_users = [sample_user], as_audit = []\<rparr>"

lemma sample_auth_ok: "auth_ok sample_auth mem_kv_ops"
  by (simp add: auth_ok_def mem_kv_ok sample_auth_def)

subsection \<open>Properties\<close>

text \<open>C32. One token string is never both an access and a refresh token: whatever the token library
  answers, at most one of the two decoders accepts it.\<close>

theorem token_types_not_interchangeable:
  "raised (decode J C now token) \<or> raised (decode_refresh J C now token)"
  by (auto simp: decode_def decode_refresh_def decode_typed_def split: option.split jwt_result.split sum.split)

text \<open>Password guessing is bounded: after as many consecutive refused logins as the limit allows,
  each within the lockout time of the one before, every further login within the lockout time of the
  last is refused before the password is looked at, even with the right password, and changes
  nothing.\<close>

theorem lockout_after_max_attempts:
  assumes "auth_ok E R" "refused_run E R tenant email t attempts st = Some (t', st')"
    and "attempts \<noteq> []" "login_max_attempts E \<le> length attempts"
    and "t' \<le> now" "now < t' + login_lockout_seconds E * us_per_second"
  shows "\<exists>wait. login E R now ids tenant email password st' = (Inl (AccountLocked wait), st')"
proof -
  have "attempts_seen E R tenant email (length attempts) t' st'"
    using refused_run_counts [OF assms(1,2), of 0] assms(3) by simp
  then obtain n where "kv_get R (as_redis st') now (attempts_key tenant email) = Some (decimal n)" "length attempts \<le> n"
    using assms(5,6) by (auto simp: attempts_seen_def)
  then show ?thesis using assms(4) by (simp add: login_def locked_def Let_def)
qed

text \<open>Requests that present the same refresh token together (several tabs waking up) do not end the
  session: when one has rotated the family, every other presentation of that token within the grace
  period succeeds, is handed the very token the winner got, and changes nothing.\<close>

theorem concurrent_refreshes_agree:
  assumes "kv_ok R" "decode_refresh (jwt E) (codec_of E) now token = Inr c"
    and "kv_get R (as_redis st) now (family_key (f_tenant c) (f_family c)) = Some (uuid_text (f_jti c))"
    and "refresh E R now jtis token st = (Inr pair, st1)"
    and "decode_refresh (jwt E) (codec_of E) later token = Inr c"
    and "now \<le> later" "later < now + rotation_grace_seconds E * us_per_second"
    and "rotation_grace_seconds E \<le> 1209600" "uuid_text (snd jtis) \<noteq> uuid_text (f_jti c)"
  shows "\<exists>pair'. refresh E R later jtis' token st1 = (Inr pair', st1) \<and> refresh_token pair' = refresh_token pair"
proof -
  have g: "0 < rotation_grace_seconds E" using assms(6,7) by (simp add: us_per_second_def)
  have alive: "later < now + 1209600 * us_per_second" using assms(7,8) by (simp add: us_per_second_def)
  note w = winner_state [OF assms(1-4) g assms(6)]
  obtain u where "user_by_id (f_tenant c) (f_sub c) (as_users st1) = Some u" "ur_status u = ''active''"
    "ur_version u = f_version c" using w(3) by blast
  then show ?thesis
    using w(1,2) alive assms(5,7,9)
    by (simp add: refresh_def rotate_family_def rotate_script_def Let_def)
qed

text \<open>C39. A used refresh token that comes back outside its grace period ends the session for good: it is
  refused, and whatever happens afterwards (other refreshes, logouts, revocations, logins that open
  other sessions, in any order), no token of that session is ever refreshed again.\<close>

theorem replay_ends_the_session:
  assumes "auth_ok E R" "decode_refresh (jwt E) (codec_of E) now token = Inr c"
    and "kv_get R (as_redis st) now (family_key (f_tenant c) (f_family c)) = Some current" "current \<noteq> uuid_text (f_jti c)"
    and "kv_get R (as_redis st) now (rotated_key (f_tenant c) (f_jti c)) = None"
    and "user_by_id (f_tenant c) (f_sub c) (as_users st) = Some u" "ur_status u = ''active''" "ur_version u = f_version c"
    and "in_order now events" "list_all (\<lambda>e. \<not> opens_family (family_key (f_tenant c) (f_family c)) e) events"
    and "end_time now events \<le> later"
    and "decode_refresh (jwt E) (codec_of E) later token' = Inr c'" "f_tenant c' = f_tenant c" "f_family c' = f_family c"
  shows "fst (refresh E R now jtis token st) = Inl TokenRevoked
    \<and> fst (refresh E R later jtis' token' (fold (auth_step E R) events (snd (refresh E R now jtis token st))))
        = Inl TokenRevoked"
proof -
  let ?st1 = "snd (refresh E R now jtis token st)"
  have kv: "kv_ok R" using assms(1) by (simp add: auth_ok_def)
  have first: "fst (refresh E R now jtis token st) = Inl TokenRevoked"
    and dead: "family_dead R (family_key (f_tenant c) (f_family c)) now ?st1"
    using assms(2-8)
    by (simp_all add: refresh_def rotate_family_def rotate_script_def Let_def family_dead_def kv_deleted [OF kv])
  have "family_dead R (family_key (f_tenant c) (f_family c)) (end_time now events) (fold (auth_step E R) events ?st1)"
    using dead_family.run_holds [of E R "f_tenant c" "f_family c" now ?st1 events] dead assms(1,9,10) by blast
  then have "family_dead R (family_key (f_tenant c') (f_family c')) later (fold (auth_step E R) events ?st1)"
    using kv_gone [OF kv] assms(11,13,14) by (auto simp: family_dead_def)
  then have "refresh E R later jtis' token' (fold (auth_step E R) events ?st1) =
      (Inl TokenRevoked, fold (auth_step E R) events ?st1)"
    by (rule refresh_dead [OF assms(12)])
  then show ?thesis using first by simp
qed

text \<open>C40. Revoking all sessions of an account works at once and lasts: whatever happens afterwards, no
  refresh token issued before is ever accepted again, and no access token issued before is accepted
  for the 15 minutes that are an access token's life time.\<close>

theorem revocation_is_immediate:
  assumes "auth_ok E R" "tenant < 2 ^ 128" "user < 2 ^ 128"
    and "user_by_id tenant user (as_users st) = Some u"
    and "in_order now events" "list_all revokes_uuid events" "end_time now events \<le> later"
    and "st' = fold (auth_step E R) events (revoke_all_sessions R now tenant user st)"
  shows "(case decode_refresh (jwt E) (codec_of E) later token of
        Inr c \<Rightarrow> (f_tenant c, f_sub c) = (tenant, user) \<and> f_version c \<le> ur_version u
          \<longrightarrow> fst (refresh E R later jtis token st') = Inl TokenRevoked
      | Inl e \<Rightarrow> True)
    \<and> (case decode (jwt E) (codec_of E) later token of
        Inr c \<Rightarrow> (a_tenant c, a_sub c) = (tenant, user) \<and> a_version c \<le> ur_version u \<and> later < now + access_ttl
          \<longrightarrow> describe_access_token E R later token (as_redis st') = Inl TokenRevoked
      | Inl e \<Rightarrow> True)"
proof -
  have kv: "kv_ok R" using assms(1) by (simp add: auth_ok_def)
  have "version_passed R tenant user (ur_version u) (now + access_ttl) (end_time now events) st'"
    using revoked.run_holds [of E R tenant user "ur_version u" "now + access_ttl" now
        "revoke_all_sessions R now tenant user st" events] revoke_starts [OF kv assms(4)] assms(1-3,5,6,8)
    by blast
  then have "version_passed R tenant user (ur_version u) (now + access_ttl) later st'"
    using assms(7) by (auto simp: version_passed_def)
  then have "\<And>c. decode_refresh (jwt E) (codec_of E) later token = Inr c \<Longrightarrow> f_tenant c = tenant \<Longrightarrow> f_sub c = user
      \<Longrightarrow> f_version c \<le> ur_version u \<Longrightarrow> fst (refresh E R later jtis token st') = Inl TokenRevoked"
    and "\<And>c. decode (jwt E) (codec_of E) later token = Inr c \<Longrightarrow> a_tenant c = tenant \<Longrightarrow> a_sub c = user
      \<Longrightarrow> a_version c \<le> ur_version u \<Longrightarrow> later < now + access_ttl
      \<Longrightarrow> describe_access_token E R later token (as_redis st') = Inl TokenRevoked"
    by (auto intro: passed_refresh passed_access)
  then show ?thesis by (simp split: sum.split)
qed

lemma next_count_None [simp]: "next_count None = decimal 1"
  by (simp add: next_count_def)

lemma next_count_Some [simp]: "next_count (Some (decimal n)) = decimal (n + 1)"
  by (simp add: next_count_def)

theorem lockout_after_max_attempts_witness:
  "\<exists>wait st'. login sample_auth mem_kv_ops 2000000 (1, 2, 3) 7 [101] [115] st' = (Inl (AccountLocked wait), st')
     \<and> refused_run sample_auth mem_kv_ops 7 [101] 0 [(0, (1, 2, 3), [120]), (1000000, (1, 2, 3), [121])]
         (sample_auth_state Map.empty) = Some (1000000, st')"
proof -
  have first: "fst (login sample_auth mem_kv_ops 0 (1, 2, 3) 7 [101] [120] (sample_auth_state Map.empty)) =
      Inl InvalidCredentials"
    by (simp add: login_def locked_def sample_auth_state_def sample_auth_def mem_kv_ops_def live_def
        user_by_email_def sample_user_def Let_def)
  let ?st1 = "snd (login sample_auth mem_kv_ops 0 (1, 2, 3) 7 [101] [120] (sample_auth_state Map.empty))"
  have second: "fst (login sample_auth mem_kv_ops 1000000 (1, 2, 3) 7 [101] [121] ?st1) = Inl InvalidCredentials"
    by (simp add: login_def locked_def sample_auth_state_def sample_auth_def mem_kv_ops_def live_def
        user_by_email_def sample_user_def Let_def audit_login_def record_password_failure_def us_per_second_def)
  have "\<exists>st'. refused_run sample_auth mem_kv_ops 7 [101] 0 [(0, (1, 2, 3), [120]), (1000000, (1, 2, 3), [121])]
      (sample_auth_state Map.empty) = Some (1000000, st')"
    using first second by (auto simp: sample_auth_def us_per_second_def split: prod.splits)
  then obtain st' where run: "refused_run sample_auth mem_kv_ops 7 [101] 0
      [(0, (1, 2, 3), [120]), (1000000, (1, 2, 3), [121])] (sample_auth_state Map.empty) = Some (1000000, st')" ..
  show ?thesis
    using lockout_after_max_attempts [OF sample_auth_ok run, of 2000000 "(1, 2, 3)" "[115]"] run
    by (auto simp: sample_auth_def us_per_second_def)
qed

definition sample_refresh :: ustring where
  "sample_refresh = sample_encode \<lparr>c_typ = ''refresh'', c_sub = 8, c_tenant = Some 7, c_roles = [], c_family = Some 9,
     c_jti = 10, c_version = Some 3, c_exp = 1000, c_iat = 0\<rparr> [107] [112]"

definition sample_claims :: refresh_claims where
  "sample_claims = \<lparr>f_sub = 8, f_tenant = 7, f_family = 9, f_jti = 10, f_version = 3, f_expires_at = 1000000000\<rparr>"

lemma sample_refresh_decodes:
  "0 \<le> now \<Longrightarrow> now < 1000000000 \<Longrightarrow>
     decode_refresh (jwt sample_auth) (codec_of sample_auth) now sample_refresh = Inr sample_claims"
  by (simp add: decode_refresh_def decode_typed_def sample_auth_def sample_refresh_def sample_encode_def
      sample_claims_def us_per_second_def clock_skew_leeway_def)

lemma uuid_text_values [simp]: "uuid_text 10 \<noteq> uuid_text 11" "uuid_text 11 \<noteq> uuid_text 10" "uuid_text 12 \<noteq> uuid_text 10"
  using uuid_text_inject [of 10 11] uuid_text_inject [of 11 10] uuid_text_inject [of 12 10] by auto

theorem concurrent_refreshes_agree_witness:
  "let st = sample_auth_state (Map.empty(family_key 7 9 \<mapsto> (uuid_text 10, None)));
       (winner, st1) = refresh sample_auth mem_kv_ops 0 (20, 11) sample_refresh st
   in case winner of
        Inl e \<Rightarrow> False
      | Inr pair \<Rightarrow> \<exists>pair'. refresh sample_auth mem_kv_ops 5000000 (21, 22) sample_refresh st1 = (Inr pair', st1)
          \<and> refresh_token pair' = refresh_token pair"
proof -
  let ?st = "sample_auth_state (Map.empty(family_key 7 9 \<mapsto> (uuid_text 10, None)))"
  have family: "kv_get mem_kv_ops (as_redis ?st) 0 (family_key (f_tenant sample_claims) (f_family sample_claims)) =
      Some (uuid_text (f_jti sample_claims))"
    by (simp add: sample_auth_state_def mem_kv_ops_def live_def sample_claims_def)
  obtain winner st1 where r: "refresh sample_auth mem_kv_ops 0 (20, 11) sample_refresh ?st = (winner, st1)" by force
  have "\<exists>pair. winner = Inr pair"
  proof -
    have "fst (refresh sample_auth mem_kv_ops 0 (20, 11) sample_refresh ?st) \<noteq> Inl e" for e
      using family
      by (simp add: refresh_def sample_refresh_decodes rotate_family_def rotate_script_def Let_def mint_def
          sample_auth_state_def user_by_id_def sample_user_def sample_claims_def)
    then show ?thesis using r by (cases winner) auto
  qed
  then obtain pair where w: "winner = Inr pair" ..
  show ?thesis
    using concurrent_refreshes_agree [OF mem_kv_ok sample_refresh_decodes family r [unfolded w]
        sample_refresh_decodes, of 5000000 "(21, 22)"] r w
    by (simp add: sample_auth_def sample_claims_def us_per_second_def)
qed

theorem replay_ends_the_session_witness:
  "let st = sample_auth_state (Map.empty(family_key 7 9 \<mapsto> (uuid_text 12, None)));
       st1 = snd (refresh sample_auth mem_kv_ops 0 (20, 11) sample_refresh st)
   in fst (refresh sample_auth mem_kv_ops 9000000 (21, 22) sample_refresh
        (fold (auth_step sample_auth mem_kv_ops)
           [RefreshEvent 1000000 (30, 31) sample_refresh, RevokeEvent 2000000 7 8] st1)) = Inl TokenRevoked"
proof -
  let ?st = "sample_auth_state (Map.empty(family_key 7 9 \<mapsto> (uuid_text 12, None)))"
  have family: "kv_get mem_kv_ops (as_redis ?st) 0 (family_key (f_tenant sample_claims) (f_family sample_claims)) =
      Some (uuid_text 12)"
    and grace: "kv_get mem_kv_ops (as_redis ?st) 0 (rotated_key (f_tenant sample_claims) (f_jti sample_claims)) = None"
    and user: "user_by_id (f_tenant sample_claims) (f_sub sample_claims) (as_users ?st) = Some sample_user"
    by (simp_all add: sample_auth_state_def mem_kv_ops_def live_def sample_claims_def user_by_id_def sample_user_def
        family_key_differs(1) [symmetric])
  have "fst (refresh sample_auth mem_kv_ops 0 (20, 11) sample_refresh ?st) = Inl TokenRevoked
    \<and> fst (refresh sample_auth mem_kv_ops 9000000 (21, 22) sample_refresh (fold (auth_step sample_auth mem_kv_ops)
        [RefreshEvent 1000000 (30, 31) sample_refresh, RevokeEvent 2000000 7 8]
        (snd (refresh sample_auth mem_kv_ops 0 (20, 11) sample_refresh ?st)))) = Inl TokenRevoked"
    by (rule replay_ends_the_session [OF sample_auth_ok sample_refresh_decodes family _ grace user _ _ _ _ _
          sample_refresh_decodes])
      (simp_all add: sample_claims_def sample_user_def)
  then show ?thesis by (simp add: Let_def)
qed

definition sample_access :: ustring where
  "sample_access = it_token (issue_access (jwt sample_auth) (codec_of sample_auth) 0 40 8 7 [] 3)"

definition sample_access_claims :: access_claims where
  "sample_access_claims = \<lparr>a_sub = 8, a_tenant = 7, a_roles = [], a_jti = 40, a_version = 3, a_expires_at = 900000000\<rparr>"

lemma sample_access_decodes:
  "0 \<le> now \<Longrightarrow> now < 910000000 \<Longrightarrow>
     decode (jwt sample_auth) (codec_of sample_auth) now sample_access = Inr sample_access_claims"
  by (simp add: decode_def decode_typed_def sample_auth_def sample_access_def sample_encode_def issue_access_def
      sample_access_claims_def us_per_second_def clock_skew_leeway_def access_ttl_def Let_def)

theorem revocation_is_immediate_witness:
  "let st1 = fold (auth_step sample_auth mem_kv_ops) [LogoutEvent 2000000 7 50 3000000 None]
        (revoke_all_sessions mem_kv_ops 1000000 7 8 (sample_auth_state Map.empty))
   in describe_access_token sample_auth mem_kv_ops 5000000 sample_access (as_redis st1) = Inl TokenRevoked
      \<and> fst (refresh sample_auth mem_kv_ops 5000000 (1, 2) sample_refresh st1) = Inl TokenRevoked"
proof -
  let ?st1 = "fold (auth_step sample_auth mem_kv_ops) [LogoutEvent 2000000 7 50 3000000 None]
        (revoke_all_sessions mem_kv_ops 1000000 7 8 (sample_auth_state Map.empty))"
  have user: "user_by_id 7 8 (as_users (sample_auth_state Map.empty)) = Some sample_user"
    by (simp add: user_by_id_def sample_auth_state_def sample_user_def)
  have "in_order 1000000 [LogoutEvent 2000000 7 50 3000000 None]"
    "list_all revokes_uuid [LogoutEvent 2000000 7 50 3000000 None]"
    "end_time 1000000 [LogoutEvent 2000000 7 50 3000000 None] \<le> 5000000" by simp_all
  note rev = revocation_is_immediate [OF sample_auth_ok _ _ user this refl]
  have "fst (refresh sample_auth mem_kv_ops 5000000 (1, 2) sample_refresh ?st1) = Inl TokenRevoked"
    using rev [where token = sample_refresh and jtis = "(1, 2)"] sample_refresh_decodes [of 5000000]
    by (simp add: sample_claims_def sample_user_def)
  moreover have "describe_access_token sample_auth mem_kv_ops 5000000 sample_access (as_redis ?st1) = Inl TokenRevoked"
    using rev [where token = sample_access] sample_access_decodes [of 5000000]
    by (simp add: sample_access_claims_def sample_user_def access_ttl_def us_per_second_def)
  ultimately show ?thesis by (simp add: Let_def)
qed

subsection \<open>The gap of the leeway\<close>

text \<open>A token is accepted until its expiry plus ten seconds of leeway, but the revocation marker lives
  900 seconds, an access token's life time without the leeway: a token issued just before the
  revocation is refused while the marker lives and accepted again afterwards.\<close>

lemma revoked_token_accepted_in_leeway:
  "describe_access_token sample_auth mem_kv_ops 800000000 sample_access
     (as_redis (revoke_all_sessions mem_kv_ops 0 7 8 (sample_auth_state Map.empty))) = Inl TokenRevoked"
  "describe_access_token sample_auth mem_kv_ops 905000000 sample_access
     (as_redis (revoke_all_sessions mem_kv_ops 0 7 8 (sample_auth_state Map.empty))) = Inr sample_access_claims"
  by (simp_all add: describe_access_token_def sample_access_decodes sample_access_claims_def revoke_state [OF mem_kv_ok]
      access_ttl_def us_per_second_def user_by_id_def sample_auth_state_def sample_user_def)
    (simp_all add: mem_kv_ops_def live_def)

text \<open>The same for a logout: the deny entry ends at the expiry of the token.\<close>

lemma logged_out_token_accepted_in_leeway:
  "describe_access_token sample_auth mem_kv_ops 800000000 sample_access
     (as_redis (logout sample_auth mem_kv_ops 0 7 40 900000000 None (sample_auth_state Map.empty))) = Inl TokenRevoked"
  "describe_access_token sample_auth mem_kv_ops 905000000 sample_access
     (as_redis (logout sample_auth mem_kv_ops 0 7 40 900000000 None (sample_auth_state Map.empty))) =
   Inr sample_access_claims"
  by (simp_all add: describe_access_token_def sample_access_decodes sample_access_claims_def logout_def Let_def
      us_per_second_def sample_auth_state_def mem_kv_ops_def live_def)

end
