(* ===== verification/Uploads.thy ===== *)
theory Uploads
  imports Cleaner "HOL-Library.Word"
begin

text \<open>
  \<open>backend/services/knowledge/uploads.py\<close>: what an upload may be, decided by its bytes. The strict UTF-8
  decoder of the standard library is written out; the Unicode database, the lower-case mapping and the
  directory of a zip container are parameters. Lemmas: decoding inverts encoding, the file name decides
  nothing but the loader of a text, what counts as text.
\<close>

type_synonym byte = "8 word"

subsection \<open>UTF-8\<close>

definition cont :: "nat \<Rightarrow> bool" where
  "cont b = (128 \<le> b \<and> b < 192)"

text \<open>The decoder takes the first character off, or refuses: no overlong form, no surrogate, nothing above
  \<open>U+10FFFF\<close>.\<close>

definition decode_one :: "nat list \<Rightarrow> (codepoint \<times> nat list) option" where
  "decode_one bs =
     (case bs of
        [] \<Rightarrow> None
      | a # r1 \<Rightarrow>
          if a < 128 then Some (a, r1)
          else (case r1 of
              [] \<Rightarrow> None
            | b # r2 \<Rightarrow>
                if \<not> cont b then None
                else if 194 \<le> a \<and> a < 224 then Some ((a - 192) * 64 + (b - 128), r2)
                else (case r2 of
                    [] \<Rightarrow> None
                  | c # r3 \<Rightarrow>
                      if \<not> cont c then None
                      else if 224 \<le> a \<and> a < 240 then
                        (if a = 224 \<and> b < 160 \<or> a = 237 \<and> 160 \<le> b then None
                         else Some ((a - 224) * 4096 + (b - 128) * 64 + (c - 128), r3))
                      else (case r3 of
                          [] \<Rightarrow> None
                        | d # r4 \<Rightarrow>
                            if cont d \<and> 240 \<le> a \<and> a < 245 \<and> \<not> (a = 240 \<and> b < 144) \<and> \<not> (a = 244 \<and> 144 \<le> b)
                            then Some ((a - 240) * 262144 + (b - 128) * 4096 + (c - 128) * 64 + (d - 128), r4)
                            else None))))"

lemma decode_one_shorter: "decode_one bs = Some (x, r) \<Longrightarrow> length r < length bs"
  by (auto simp: decode_one_def split: list.splits if_splits)

function utf8_chars :: "nat list \<Rightarrow> ustring option" where
  "utf8_chars bs =
     (if bs = [] then Some []
      else case decode_one bs of
             None \<Rightarrow> None
           | Some (x, r) \<Rightarrow> map_option ((#) x) (utf8_chars r))"
  by pat_completeness auto
termination
  by (relation "measure length") (auto dest: decode_one_shorter)

declare utf8_chars.simps [simp del]

definition decode_utf8 :: "byte list \<Rightarrow> ustring option" where
  "decode_utf8 bs = utf8_chars (map unat bs)"

definition encode_char :: "codepoint \<Rightarrow> nat list" where
  "encode_char c =
     (if c < 128 then [c]
      else if c < 2048 then [192 + c div 64, 128 + c mod 64]
      else if c < 65536 then [224 + c div 4096, 128 + c div 64 mod 64, 128 + c mod 64]
      else [240 + c div 262144, 128 + c div 4096 mod 64, 128 + c div 64 mod 64, 128 + c mod 64])"

definition encode_utf8 :: "ustring \<Rightarrow> byte list" where
  "encode_utf8 s = map of_nat (concat (map encode_char s))"

definition scalar_value :: "codepoint \<Rightarrow> bool" where
  "scalar_value c = (c < 55296 \<or> 57344 \<le> c \<and> c < 1114112)"

subsection \<open>The kind of a file\<close>

datatype media_type = PDF | DOCX | XLSX | TEXT | MARKDOWN
datatype upload_error = UploadTooLarge nat | UnsupportedMediaType "media_type list"

definition accepted_media_types :: "media_type list" where
  "accepted_media_types = [PDF, DOCX, XLSX, TEXT, MARKDOWN]"

definition max_upload_bytes :: nat where
  "max_upload_bytes = 32 * 1024 * 1024"

definition pdf_magic :: "byte list" where
  "pdf_magic = [0x25, 0x50, 0x44, 0x46, 0x2D]"

definition zip_magic :: "byte list" where
  "zip_magic = [0x50, 0x4B, 0x03, 0x04]"

definition docx_marker :: ustring where
  "docx_marker = lit ''word/document.xml''"

definition xlsx_marker :: ustring where
  "xlsx_marker = lit ''xl/workbook.xml''"

definition markdown_suffixes :: "ustring list" where
  "markdown_suffixes = [lit ''.md'', lit ''.markdown'']"

definition allowed_control_chars :: "codepoint list" where
  "allowed_control_chars = [9, 10, 13, 12, 11]"

record file_env =
  fe_category :: category
  fe_lowercase :: "ustring \<Rightarrow> ustring"
  fe_zip_names :: "byte list \<Rightarrow> ustring list option"

definition starts_with :: "'a list \<Rightarrow> 'a list \<Rightarrow> bool" where
  "starts_with p xs = (take (length p) xs = p)"

definition ends_with :: "'a list \<Rightarrow> 'a list \<Rightarrow> bool" where
  "ends_with p xs = starts_with (rev p) (rev xs)"

definition zip_contains :: "file_env \<Rightarrow> byte list \<Rightarrow> ustring \<Rightarrow> bool" where
  "zip_contains F content marker =
     (case fe_zip_names F content of None \<Rightarrow> False | Some names \<Rightarrow> marker \<in> set names)"

definition has_markdown_suffix :: "file_env \<Rightarrow> ustring \<Rightarrow> bool" where
  "has_markdown_suffix F filename = list_ex (\<lambda>p. ends_with p (fe_lowercase F filename)) markdown_suffixes"

text \<open>\<open>str.isprintable\<close>: no character of the categories ``Other'' and ``Separator'' but the space.\<close>

definition is_printable :: "category \<Rightarrow> codepoint \<Rightarrow> bool" where
  "is_printable cat c = (c = 32 \<or> take 1 (cat c) \<notin> {''C'', ''Z''})"

definition looks_like_text :: "file_env \<Rightarrow> byte list \<Rightarrow> bool" where
  "looks_like_text F content =
     (case decode_utf8 content of
        None \<Rightarrow> False
      | Some text \<Rightarrow> \<not> list_ex (\<lambda>c. \<not> is_printable (fe_category F) c \<and> c \<notin> set allowed_control_chars) text)"

definition detect_media_type :: "file_env \<Rightarrow> byte list \<Rightarrow> ustring \<Rightarrow> upload_error + media_type" where
  "detect_media_type F content filename =
     (if content = [] then Inl (UnsupportedMediaType accepted_media_types)
      else if starts_with pdf_magic content then Inr PDF
      else if starts_with zip_magic content \<and> zip_contains F content docx_marker then Inr DOCX
      else if starts_with zip_magic content \<and> zip_contains F content xlsx_marker then Inr XLSX
      else if looks_like_text F content then Inr (if has_markdown_suffix F filename then MARKDOWN else TEXT)
      else Inl (UnsupportedMediaType accepted_media_types))"

definition ensure_within_limit :: "nat \<Rightarrow> upload_error option" where
  "ensure_within_limit size_bytes =
     (if max_upload_bytes < size_bytes then Some (UploadTooLarge max_upload_bytes) else None)"

subsection \<open>Lemmas\<close>

lemma encode_char_decodes:
  assumes "scalar_value c"
  shows "decode_one (encode_char c @ r) = Some (c, r)"
proof -
  consider "c < 128" | "128 \<le> c" "c < 2048" | "2048 \<le> c" "c < 65536" | "65536 \<le> c" "c < 1114112"
    using assms unfolding scalar_value_def by linarith
  then show ?thesis
  proof cases
    case 1
    then show ?thesis by (simp add: encode_char_def decode_one_def)
  next
    case 2
    then have "2 \<le> c div 64" "c div 64 < 32" by (simp_all add: less_eq_div_iff_mult_less_eq less_mult_imp_div_less)
    then show ?thesis using 2 by (simp add: encode_char_def decode_one_def cont_def)
  next
    case 3
    have "c div 4096 * 64 + c div 64 mod 64 = c div 64"
      using div_mult_mod_eq [of "c div 64" 64] by (simp add: div_mult2_eq [symmetric])
    then have parts: "c div 4096 * 4096 + c div 64 mod 64 * 64 + c mod 64 = c"
      using div_mult_mod_eq [of c 64] by linarith
    have hi: "c div 4096 < 16" using 3 by (simp add: less_mult_imp_div_less)
    have low: "32 \<le> c div 64 mod 64" if "c div 4096 = 0"
      using 3 that by (simp add: div_eq_0_iff less_eq_div_iff_mult_less_eq)
    have surr: "c div 64 mod 64 < 32" if "c div 4096 = 13"
    proof -
      have "c div 64 = 13 * 64 + c div 64 mod 64"
        using that div_mult_mod_eq [of "c div 64" 64] by (simp add: div_mult2_eq [symmetric])
      moreover have "c < 55296" using assms that by (auto simp: scalar_value_def)
      then have "c div 64 < 864" by (simp add: less_mult_imp_div_less)
      ultimately show ?thesis by simp
    qed
    show ?thesis using 3 parts hi low surr by (auto simp: encode_char_def decode_one_def cont_def)
  next
    case 4
    have "c div 4096 * 64 + c div 64 mod 64 = c div 64" "c div 262144 * 64 + c div 4096 mod 64 = c div 4096"
      using div_mult_mod_eq [of "c div 64" 64] div_mult_mod_eq [of "c div 4096" 64] by (simp_all add: div_mult2_eq [symmetric])
    then have parts: "c div 262144 * 262144 + c div 4096 mod 64 * 4096 + c div 64 mod 64 * 64 + c mod 64 = c"
      using div_mult_mod_eq [of c 64] by linarith
    have hi: "c div 262144 < 5" using 4 by (simp add: less_mult_imp_div_less)
    have low: "16 \<le> c div 4096 mod 64" if "c div 262144 = 0"
      using 4 that by (simp add: div_eq_0_iff less_eq_div_iff_mult_less_eq)
    have top: "c div 4096 mod 64 < 16" if "c div 262144 = 4"
    proof -
      have "c div 4096 = 4 * 64 + c div 4096 mod 64"
        using that div_mult_mod_eq [of "c div 4096" 64] by (simp add: div_mult2_eq [symmetric])
      moreover have "c div 4096 < 272" using 4 by (simp add: less_mult_imp_div_less)
      ultimately show ?thesis by simp
    qed
    show ?thesis using 4 parts hi low top by (auto simp: encode_char_def decode_one_def cont_def)
  qed
qed

lemma encode_char_bytes: "scalar_value c \<Longrightarrow> b \<in> set (encode_char c) \<Longrightarrow> b < 256"
  by (auto simp: encode_char_def scalar_value_def less_mult_imp_div_less split: if_splits)

lemma encode_char_not_empty: "encode_char c \<noteq> []"
  by (simp add: encode_char_def)

lemma utf8_chars_encoded:
  assumes "list_all scalar_value s"
  shows "utf8_chars (concat (map encode_char s)) = Some s"
  using assms
proof (induction s)
  case Nil
  then show ?case by (simp add: utf8_chars.simps)
next
  case (Cons c s)
  then have "utf8_chars (encode_char c @ concat (map encode_char s)) = map_option ((#) c) (utf8_chars (concat (map encode_char s)))"
    by (subst utf8_chars.simps) (simp add: encode_char_decodes encode_char_not_empty)
  with Cons show ?case by simp
qed

lemma unat_bytes: "(\<And>b. b \<in> set bs \<Longrightarrow> b < 256) \<Longrightarrow> map unat (map (of_nat :: nat \<Rightarrow> byte) bs) = bs"
  by (induction bs) (auto simp: unat_of_nat take_bit_nat_eq_self)

lemma decode_encoded: "list_all scalar_value s \<Longrightarrow> decode_utf8 (encode_utf8 s) = Some s"
  unfolding decode_utf8_def encode_utf8_def
  by (subst unat_bytes) (auto simp: utf8_chars_encoded list_all_iff dest: encode_char_bytes)

lemma encode_utf8_starts:
  assumes "list_all (\<lambda>c. c < 128) p" "starts_with (map of_nat p) (encode_utf8 s)" "list_all scalar_value s"
  shows "starts_with p s"
  using assms
proof (induction p arbitrary: s)
  case Nil
  then show ?case by (simp add: starts_with_def)
next
  case (Cons c p)
  then obtain x s' where s: "s = x # s'" by (cases s) (auto simp: starts_with_def encode_utf8_def)
  obtain b bs where b: "encode_char x = b # bs" using encode_char_not_empty by (cases "encode_char x") auto
  have lt: "b < 256" using encode_char_bytes [of x b] Cons.prems(3) b s by simp
  have "(of_nat b :: byte) = of_nat c" using Cons.prems(2) b s by (simp add: starts_with_def encode_utf8_def)
  then have "unat (of_nat b :: byte) = unat (of_nat c :: byte)" by simp
  then have "b = c" using lt Cons.prems(1) by (simp add: unat_of_nat take_bit_nat_eq_self)
  then have x: "x = c" "bs = []" using b Cons.prems(1) by (auto simp: encode_char_def split: if_splits)
  with Cons.IH [of s'] Cons.prems b s show ?case by (simp add: starts_with_def encode_utf8_def)
qed

subsection \<open>Properties\<close>

text \<open>The file name never decides whether a file is accepted, nor what kind of binary it is: for two names the same
  bytes are refused with the same error, or get the same kind, except that a text is Markdown under one
  name and plain text under the other.\<close>

theorem name_only_picks_the_text_loader:
  "detect_media_type F content f1 = detect_media_type F content f2
   \<or> {detect_media_type F content f1, detect_media_type F content f2} = {Inr TEXT, Inr MARKDOWN}"
  by (auto simp: detect_media_type_def)

text \<open>A text of printable characters, tabs and line ends whose first characters are not \<open>%PDF-\<close> or the zip signature is
  accepted as text, and its decoder gives the text back; anything accepted as text is valid UTF-8 whose characters
  are printable or among the five allowed control characters, so it contains no NUL when the Unicode database calls
  NUL a control character.\<close>

theorem accepted_texts:
  assumes "list_all scalar_value s" "s \<noteq> []"
    and "\<not> starts_with (lit ''%PDF-'') s" "\<not> starts_with [80, 75, 3, 4] s"
  shows "decode_utf8 (encode_utf8 s) = Some s
    \<and> (detect_media_type F (encode_utf8 s) filename \<in> {Inr TEXT, Inr MARKDOWN}
       \<longleftrightarrow> list_all (\<lambda>c. is_printable (fe_category F) c \<or> c \<in> {9, 10, 11, 12, 13}) s)"
proof -
  have dec: "decode_utf8 (encode_utf8 s) = Some s" by (rule decode_encoded [OF assms(1)])
  have pdf: "\<not> starts_with pdf_magic (encode_utf8 s)"
    using encode_utf8_starts [OF _ _ assms(1), of "lit ''%PDF-''"] assms(3) by (auto simp: pdf_magic_def lit_def)
  have zip: "\<not> starts_with zip_magic (encode_utf8 s)"
    using encode_utf8_starts [OF _ _ assms(1), of "[80, 75, 3, 4]"] assms(4) by (auto simp: zip_magic_def)
  have "encode_utf8 s \<noteq> []"
    using assms(2) encode_char_not_empty by (cases s) (auto simp: encode_utf8_def)
  moreover have "looks_like_text F (encode_utf8 s) = list_all (\<lambda>c. is_printable (fe_category F) c \<or> c \<in> {9, 10, 11, 12, 13}) s"
    by (auto simp: looks_like_text_def dec allowed_control_chars_def list_all_iff list_ex_iff)
  ultimately show ?thesis
    using pdf zip dec by (simp add: detect_media_type_def)
qed

lemma accepted_texts_witness:
  "decode_utf8 (encode_utf8 [26412, 97]) = Some [26412, 97]
    \<and> detect_media_type \<lparr>fe_category = (\<lambda>c. ''Lo''), fe_lowercase = id, fe_zip_names = (\<lambda>b. None)\<rparr> (encode_utf8 [26412, 97]) (lit ''a.txt'')
       \<in> {Inr TEXT, Inr MARKDOWN}"
  using accepted_texts [of "[26412, 97]" "\<lparr>fe_category = (\<lambda>c. ''Lo''), fe_lowercase = id, fe_zip_names = (\<lambda>b. None)\<rparr>" "lit ''a.txt''"]
  by (simp add: scalar_value_def starts_with_def lit_def is_printable_def)

text \<open>The ideographic space \<open>U+3000\<close>, which is in nearly every Chinese text, has the category \<open>Zs\<close>, and the byte order
  mark \<open>U+FEFF\<close> has \<open>Cf\<close>: neither counts as printable, so a file that contains one is refused although it is
  valid text.\<close>

lemma ideographic_space_refused:
  assumes "fe_category F 12288 = ''Zs''" "fe_category F 65279 = ''Cf''"
  shows "detect_media_type F (encode_utf8 [31532, 12288, 26412]) filename = Inl (UnsupportedMediaType accepted_media_types)"
    and "detect_media_type F (encode_utf8 [65279, 97]) filename = Inl (UnsupportedMediaType accepted_media_types)"
proof -
  have "decode_utf8 (encode_utf8 [31532, 12288, 26412]) = Some [31532, 12288, 26412]" "decode_utf8 (encode_utf8 [65279, 97]) = Some [65279, 97]"
    by (rule decode_encoded; simp add: scalar_value_def)+
  then have "\<not> looks_like_text F (encode_utf8 [31532, 12288, 26412])" "\<not> looks_like_text F (encode_utf8 [65279, 97])"
    using assms by (simp_all add: looks_like_text_def is_printable_def allowed_control_chars_def)
  then show "detect_media_type F (encode_utf8 [31532, 12288, 26412]) filename = Inl (UnsupportedMediaType accepted_media_types)"
    and "detect_media_type F (encode_utf8 [65279, 97]) filename = Inl (UnsupportedMediaType accepted_media_types)"
    by (simp_all add: detect_media_type_def starts_with_def pdf_magic_def zip_magic_def encode_utf8_def encode_char_def)
qed

end
