(* ===== verification/KnowledgeStore.thy ===== *)
theory KnowledgeStore
  imports Chunker Artifacts Cleaner KbConfig CounterStore
begin

text \<open>
  The tables of the knowledge base as one tenant sees them, and the operations of
  \<open>backend/repositories/knowledge.py\<close> that ingestion, embedding and the document service use, with
  the status sets of \<open>backend/common/document_status.py\<close> and the failure record of
  \<open>backend/services/knowledge/failures.py\<close>. Each operation is one transaction. Lemmas: the guard of
  \<open>set_status\<close>, what replacing the chunks of a version leaves untouched.
\<close>

subsection \<open>Status\<close>

datatype document_status = UPLOADED | PARSING | CLEANED | CHUNKED | EMBEDDING | READY | FAILED

definition all_statuses :: "document_status list" where
  "all_statuses = [UPLOADED, PARSING, CLEANED, CHUNKED, EMBEDDING, READY, FAILED]"

definition terminal_statuses :: "document_status list" where
  "terminal_statuses = [READY, FAILED]"

definition in_progress_statuses :: "document_status list" where
  "in_progress_statuses = [PARSING, CLEANED, EMBEDDING]"

definition rescuable_statuses :: "document_status list" where
  "rescuable_statuses = [UPLOADED, CHUNKED]"

definition embeddable_statuses :: "document_status list" where
  "embeddable_statuses = [CHUNKED, EMBEDDING, READY]"

definition still_processing_statuses :: "document_status list" where
  "still_processing_statuses = filter (\<lambda>s. s \<notin> set terminal_statuses) all_statuses"

lemma statuses_partition:
  "set all_statuses = UNIV"
  "set still_processing_statuses = set in_progress_statuses \<union> set rescuable_statuses"
  "set in_progress_statuses \<inter> set rescuable_statuses = {}"
  using document_status.exhaust
  by (auto simp: all_statuses_def still_processing_statuses_def in_progress_statuses_def
      rescuable_statuses_def terminal_statuses_def)

subsection \<open>Failures\<close>

text \<open>An exception: whether it is one of the application's own, whether it is an \<open>OSError\<close>, its class, the cause in its details
  and its message.\<close>

record app_exn =
  ax_domain :: bool
  ax_os_error :: bool
  ax_class :: string
  ax_cause :: string
  ax_message :: ustring

record failure_note =
  fn_stage :: string
  fn_cause :: string
  fn_message :: ustring
  fn_retryable :: bool
  fn_attempts :: "nat option"

definition internal_failure_message :: ustring where
  "internal_failure_message =
     [34389, 29702, 22833, 25943, 65292, 35531, 31245, 24460, 37325, 35430, 25110, 32879, 32097, 31649, 29702, 21729]"

definition error_payload :: "app_exn \<Rightarrow> string \<times> ustring" where
  "error_payload e =
     (if ax_domain e then (if ax_cause e \<noteq> '''' then ax_cause e else ax_class e, ax_message e)
      else (ax_class e, internal_failure_message))"

definition failure_of :: "string \<Rightarrow> app_exn \<Rightarrow> bool \<Rightarrow> nat option \<Rightarrow> failure_note" where
  "failure_of stage e retryable attempts =
     \<lparr>fn_stage = stage, fn_cause = fst (error_payload e), fn_message = snd (error_payload e),
      fn_retryable = retryable, fn_attempts = attempts\<rparr>"

text \<open>A third-party exception never shows its message to the tenant.\<close>

lemma foreign_message_hidden:
  "\<not> ax_domain e \<Longrightarrow> fn_message (failure_of stage e r n) = internal_failure_message"
  by (simp add: failure_of_def error_payload_def)

subsection \<open>Tables\<close>

record doc_row =
  dr_kb :: uuid128
  dr_filename :: ustring
  dr_mime :: ustring
  dr_key :: ustring
  dr_hash :: ustring
  dr_size :: nat
  dr_uploaded_by :: "uuid128 option"
  dr_version :: int
  dr_status :: document_status
  dr_error :: "failure_note option"
  dr_created :: int
  dr_updated :: int
  dr_deleted :: "int option"

record kb_row =
  kb_model :: ustring
  kb_version :: int
  kb_config :: "obj option"
  kb_knowledge_version :: int
  kb_indexed_version :: int
  kb_deleted :: "int option"

record chunk_row =
  cr_id :: uuid128
  cr_doc :: uuid128
  cr_kb :: uuid128
  cr_version :: int
  cr_chunk :: text_chunk
  cr_superseded :: bool

text \<open>The statistics of a job; drop rate, quality warning and average are computed from these values.\<close>

datatype job_stats =
    NoStats
  | ExtractStats "json option" "json option"
  | CleanStats clean_stats
  | ChunkStats nat nat
  | EmbedStats nat int nat

record job_row =
  jr_status :: string
  jr_attempt :: nat
  jr_stats :: job_stats
  jr_error :: "(string \<times> ustring) option"

datatype reindex_status = R_PENDING | R_RECHUNKING | R_EMBEDDING | R_COMPLETED | R_FAILED

record reindex_row =
  rj_kb :: uuid128
  rj_model :: ustring
  rj_version :: int
  rj_knowledge :: int
  rj_rechunk :: bool
  rj_status :: reindex_status
  rj_total_chunks :: nat
  rj_embedded_chunks :: nat
  rj_total_documents :: nat
  rj_rechunked_documents :: nat
  rj_cursor :: "uuid128 option"
  rj_started :: "int option"
  rj_switched :: "int option"
  rj_purged :: "int option"
  rj_finished :: "int option"
  rj_error :: "(string \<times> ustring) option"
  rj_created :: int
  rj_updated :: int

datatype task = IngestTask uuid128 | EmbedTask uuid128 | ReindexTask uuid128
datatype notice_sent = ReadyNotice uuid128 | FailedNotice uuid128 failure_note

type_synonym job_key = "uuid128 \<times> int \<times> string"
type_synonym vector_key = "uuid128 \<times> ustring \<times> int"

record kstore =
  ks_docs :: "(uuid128 \<times> doc_row) list"
  ks_kbs :: "(uuid128 \<times> kb_row) list"
  ks_chunks :: "chunk_row list"
  ks_vectors :: "(vector_key \<times> rat list) list"
  ks_job_rows :: "(job_key \<times> job_row) list"
  ks_reindex :: "(uuid128 \<times> reindex_row) list"
  ks_queue :: "task list"
  ks_notices :: "notice_sent list"

definition ks_jobs :: "kstore \<Rightarrow> job_key \<Rightarrow> job_row option" where
  "ks_jobs s = map_of (ks_job_rows s)"

definition find_doc :: "uuid128 \<Rightarrow> kstore \<Rightarrow> doc_row option" where
  "find_doc d s = (case map_of (ks_docs s) d of Some r \<Rightarrow> if dr_deleted r = None then Some r else None | None \<Rightarrow> None)"

definition find_kb :: "uuid128 \<Rightarrow> kstore \<Rightarrow> kb_row option" where
  "find_kb k s = (case map_of (ks_kbs s) k of Some r \<Rightarrow> if kb_deleted r = None then Some r else None | None \<Rightarrow> None)"

definition put_doc :: "uuid128 \<Rightarrow> doc_row \<Rightarrow> kstore \<Rightarrow> kstore" where
  "put_doc d r s = s\<lparr>ks_docs := AList.update d r (ks_docs s)\<rparr>"

text \<open>\<open>set_status\<close>: one conditional update; the result says whether the row was hit.\<close>

definition set_status ::
  "int \<Rightarrow> uuid128 \<Rightarrow> document_status \<Rightarrow> failure_note option \<Rightarrow> document_status list option \<Rightarrow> int option
   \<Rightarrow> kstore \<Rightarrow> bool \<times> kstore" where
  "set_status now d status err expected_status expected_version s =
     (case find_doc d s of
        None \<Rightarrow> (False, s)
      | Some r \<Rightarrow>
          if (case expected_status of None \<Rightarrow> True | Some ss \<Rightarrow> dr_status r \<in> set ss)
             \<and> (case expected_version of None \<Rightarrow> True | Some v \<Rightarrow> dr_version r = v)
          then (True, put_doc d (r\<lparr>dr_status := status, dr_error := err, dr_updated := now\<rparr>) s)
          else (False, s))"

definition start_new_version :: "int \<Rightarrow> uuid128 \<Rightarrow> int \<Rightarrow> kstore \<Rightarrow> kstore" where
  "start_new_version now d v s =
     (case find_doc d s of
        None \<Rightarrow> s
      | Some r \<Rightarrow> put_doc d (r\<lparr>dr_version := v, dr_status := UPLOADED, dr_error := None, dr_updated := now\<rparr>) s)"

definition supersede_for_document :: "uuid128 \<Rightarrow> kstore \<Rightarrow> kstore" where
  "supersede_for_document d s =
     s\<lparr>ks_chunks := List.map (\<lambda>c. if cr_doc c = d then c\<lparr>cr_superseded := True\<rparr> else c) (ks_chunks s)\<rparr>"

definition active_for_version :: "uuid128 \<Rightarrow> int \<Rightarrow> kstore \<Rightarrow> chunk_row list" where
  "active_for_version d v s =
     sort_key (\<lambda>c. seq (cr_chunk c))
       (filter (\<lambda>c. cr_doc c = d \<and> cr_version c = v \<and> \<not> cr_superseded c) (ks_chunks s))"

text \<open>What both retrieval paths can return of a knowledge base.\<close>

definition for_retrieval :: "uuid128 \<Rightarrow> kstore \<Rightarrow> chunk_row list" where
  "for_retrieval kb s =
     sort_key (\<lambda>c. seq (cr_chunk c)) (filter (\<lambda>c. cr_kb c = kb \<and> \<not> cr_superseded c) (ks_chunks s))"

definition has_vector :: "uuid128 \<Rightarrow> kstore \<Rightarrow> bool" where
  "has_vector c s = list_ex (\<lambda>(k, _). fst k = c) (ks_vectors s)"

text \<open>Replacing the chunks of a version deletes the rows left over and writes the new ones; the delete
  is refused when a vector still refers to one of them (\<open>Embedding.chunk\<close> is \<open>PROTECT\<close>). The new rows
  get the given identifiers.\<close>

definition protected_error :: app_exn where
  "protected_error = \<lparr>ax_domain = False, ax_os_error = False, ax_class = ''ProtectedError'', ax_cause = '''', ax_message = []\<rparr>"

definition same_version :: "uuid128 \<Rightarrow> int \<Rightarrow> chunk_row \<Rightarrow> bool" where
  "same_version d v c = (cr_doc c = d \<and> cr_version c = v)"

definition chunk_rows :: "uuid128 \<Rightarrow> uuid128 \<Rightarrow> int \<Rightarrow> (nat \<Rightarrow> uuid128) \<Rightarrow> text_chunk list \<Rightarrow> chunk_row list" where
  "chunk_rows d kb v ids new_chunks =
     List.map (\<lambda>(i, c). \<lparr>cr_id = ids i, cr_doc = d, cr_kb = kb, cr_version = v, cr_chunk = c, cr_superseded = False\<rparr>)
       (enumerate 0 new_chunks)"

definition replace_for_version ::
  "uuid128 \<Rightarrow> uuid128 \<Rightarrow> int \<Rightarrow> (nat \<Rightarrow> uuid128) \<Rightarrow> text_chunk list \<Rightarrow> kstore \<Rightarrow> app_exn + kstore" where
  "replace_for_version d kb v ids new_chunks s =
     (if list_ex (\<lambda>c. same_version d v c \<and> has_vector (cr_id c) s) (ks_chunks s) then Inl protected_error
      else Inr (s\<lparr>ks_chunks := filter (\<lambda>c. \<not> same_version d v c) (ks_chunks s) @ chunk_rows d kb v ids new_chunks\<rparr>))"

subsection \<open>Jobs\<close>

definition start_job :: "job_key \<Rightarrow> kstore \<Rightarrow> kstore" where
  "start_job k s =
     (let old = or_else (ks_jobs s k) \<lparr>jr_status = ''pending'', jr_attempt = 0, jr_stats = NoStats, jr_error = None\<rparr>
      in s\<lparr>ks_job_rows := AList.update k (old\<lparr>jr_status := ''running'', jr_attempt := jr_attempt old + 1\<rparr>) (ks_job_rows s)\<rparr>)"

definition finish_job :: "job_key \<Rightarrow> string \<Rightarrow> job_stats \<Rightarrow> (string \<times> ustring) option \<Rightarrow> kstore \<Rightarrow> kstore" where
  "finish_job k status stats err s =
     (case ks_jobs s k of
        None \<Rightarrow> s
      | Some j \<Rightarrow> s\<lparr>ks_job_rows := AList.update k (j\<lparr>jr_status := status, jr_stats := stats, jr_error := err\<rparr>) (ks_job_rows s)\<rparr>)"

definition enqueue :: "task \<Rightarrow> kstore \<Rightarrow> kstore" where
  "enqueue t s = s\<lparr>ks_queue := ks_queue s @ [t]\<rparr>"

definition notify :: "notice_sent \<Rightarrow> kstore \<Rightarrow> kstore" where
  "notify n s = s\<lparr>ks_notices := ks_notices s @ [n]\<rparr>"

subsection \<open>Lemmas\<close>

lemma ks_jobs_frame [simp]:
  "ks_jobs (s\<lparr>ks_docs := x1\<rparr>) = ks_jobs s" "ks_jobs (s\<lparr>ks_kbs := x2\<rparr>) = ks_jobs s" "ks_jobs (s\<lparr>ks_chunks := x3\<rparr>) = ks_jobs s"
  "ks_jobs (s\<lparr>ks_vectors := x4\<rparr>) = ks_jobs s" "ks_jobs (s\<lparr>ks_reindex := x5\<rparr>) = ks_jobs s" "ks_jobs (s\<lparr>ks_queue := x6\<rparr>) = ks_jobs s"
  "ks_jobs (s\<lparr>ks_notices := x7\<rparr>) = ks_jobs s"
  by (simp_all add: ks_jobs_def)

lemma find_doc_put [simp]:
  "find_doc d' (put_doc d r s) = (if d' = d then (if dr_deleted r = None then Some r else None) else find_doc d' s)"
  by (simp add: find_doc_def put_doc_def update_conv')

lemma put_doc_frame [simp]:
  "ks_chunks (put_doc d r s) = ks_chunks s" "ks_vectors (put_doc d r s) = ks_vectors s"
  "ks_jobs (put_doc d r s) = ks_jobs s" "ks_queue (put_doc d r s) = ks_queue s"
  "ks_kbs (put_doc d r s) = ks_kbs s" "ks_reindex (put_doc d r s) = ks_reindex s" "ks_notices (put_doc d r s) = ks_notices s"
  by (simp_all add: put_doc_def)

lemma find_doc_not_deleted: "find_doc d s = Some r \<Longrightarrow> dr_deleted r = None"
  by (auto simp: find_doc_def split: option.splits if_splits)

text \<open>The guard: a conditional update that does not hit changes nothing; one that hits changes only the
  status, the error and the time of that row.\<close>

lemma set_status_missed: "set_status now d st err es ev s = (False, s') \<Longrightarrow> s' = s"
  by (auto simp: set_status_def split: option.splits if_splits)

lemma set_status_hit:
  assumes "set_status now d st err es ev s = (True, s')"
  obtains r where "find_doc d s = Some r" "\<And>ss. es = Some ss \<Longrightarrow> dr_status r \<in> set ss" "\<And>v. ev = Some v \<Longrightarrow> dr_version r = v"
    "s' = put_doc d (r\<lparr>dr_status := st, dr_error := err, dr_updated := now\<rparr>) s"
  using assms by (auto simp: set_status_def split: option.splits if_splits)

lemma set_status_frame [simp]:
  "ks_chunks (snd (set_status now d st err es ev s)) = ks_chunks s"
  "ks_vectors (snd (set_status now d st err es ev s)) = ks_vectors s"
  "ks_jobs (snd (set_status now d st err es ev s)) = ks_jobs s"
  "ks_queue (snd (set_status now d st err es ev s)) = ks_queue s"
  "ks_kbs (snd (set_status now d st err es ev s)) = ks_kbs s"
  "ks_reindex (snd (set_status now d st err es ev s)) = ks_reindex s"
  by (simp_all add: set_status_def split: option.split)

lemma find_doc_set_status:
  "find_doc d (snd (set_status now d st err None None s)) =
     map_option (\<lambda>r. r\<lparr>dr_status := st, dr_error := err, dr_updated := now\<rparr>) (find_doc d s)"
  by (auto simp: set_status_def split: option.split dest: find_doc_not_deleted)

lemma find_doc_set_status_other:
  "d' \<noteq> d \<Longrightarrow> find_doc d' (snd (set_status now d st err es ev s)) = find_doc d' s"
  by (simp add: set_status_def split: option.split)

lemma job_frame [simp]:
  "ks_docs (start_job k s) = ks_docs s" "ks_chunks (start_job k s) = ks_chunks s"
  "ks_vectors (start_job k s) = ks_vectors s" "ks_queue (start_job k s) = ks_queue s"
  "ks_docs (finish_job k st stats err s) = ks_docs s" "ks_chunks (finish_job k st stats err s) = ks_chunks s"
  "ks_vectors (finish_job k st stats err s) = ks_vectors s" "ks_queue (finish_job k st stats err s) = ks_queue s"
  by (simp_all add: start_job_def finish_job_def Let_def split: option.split)

lemma find_doc_job [simp]:
  "find_doc d (start_job k s) = find_doc d s" "find_doc d (finish_job k st stats err s) = find_doc d s"
  by (simp_all add: find_doc_def)

lemma outbox_frame [simp]:
  "find_doc d (notify n s) = find_doc d s" "find_doc d (enqueue t s) = find_doc d s"
  "ks_chunks (notify n s) = ks_chunks s" "ks_vectors (notify n s) = ks_vectors s" "ks_queue (notify n s) = ks_queue s"
  "ks_jobs (notify n s) = ks_jobs s" "ks_notices (notify n s) = ks_notices s @ [n]"
  by (simp_all add: notify_def enqueue_def find_doc_def)

lemma jobs_start: "ks_jobs (start_job k s) k' \<noteq> None \<longleftrightarrow> k' = k \<or> ks_jobs s k' \<noteq> None"
  by (auto simp: start_job_def Let_def ks_jobs_def update_conv')

lemma jobs_finish:
  "ks_jobs (finish_job k st stats err s) k' =
     (if k' = k then map_option (\<lambda>j. j\<lparr>jr_status := st, jr_stats := stats, jr_error := err\<rparr>) (ks_jobs s k)
      else ks_jobs s k')"
  by (auto simp: finish_job_def ks_jobs_def update_conv' split: option.split)

lemma jobs_start_other [simp]: "k' \<noteq> k \<Longrightarrow> ks_jobs (start_job k s) k' = ks_jobs s k'"
  by (simp add: start_job_def Let_def ks_jobs_def update_conv')

lemma chunk_rows_version: "list_all (same_version d v) (chunk_rows d kb v ids new_chunks)"
  by (auto simp: chunk_rows_def same_version_def list_all_iff)

lemma chunk_rows_chunks [simp]: "List.map cr_chunk (chunk_rows d kb v ids new_chunks) = new_chunks"
  by (simp add: chunk_rows_def case_prod_beta comp_def)

lemma filter_all: "list_all P xs \<Longrightarrow> filter P xs = xs" "list_all P xs \<Longrightarrow> filter (\<lambda>x. \<not> P x) xs = []"
  by (induction xs) auto

lemma replace_for_version_keeps_others:
  assumes "replace_for_version d kb v ids new_chunks s = Inr s'"
  shows "filter (\<lambda>c. \<not> same_version d v c) (ks_chunks s') = filter (\<lambda>c. \<not> same_version d v c) (ks_chunks s)"
    and "List.map cr_chunk (filter (same_version d v) (ks_chunks s')) = new_chunks"
    and "ks_docs s' = ks_docs s" and "ks_vectors s' = ks_vectors s" and "ks_jobs s' = ks_jobs s"
    and "ks_queue s' = ks_queue s" and "ks_kbs s' = ks_kbs s" and "ks_notices s' = ks_notices s"
  using assms filter_all [OF chunk_rows_version, of d v kb ids new_chunks]
  by (auto simp: replace_for_version_def split: if_splits)

lemma replace_for_version_active:
  assumes "replace_for_version d kb v ids new_chunks s = Inr s'" "c \<in> set (ks_chunks s')" "same_version d v c"
  shows "\<not> cr_superseded c"
  using assms by (auto simp: replace_for_version_def chunk_rows_def split: if_splits)

end
