(* ===== verification/Ingestion.thy ===== *)
theory Ingestion
  imports KnowledgeStore
begin

text \<open>
  \<open>backend/services/knowledge/ingestion.py\<close>: Extract, Clean and Chunk of one document as a sequence
  of transactions on the tables and the object store, with resumption from the cleaned artifact and
  the two classes of failure. The object store and the isolated extractor are parameters; cleaning,
  artifacts, chunking and the chunk parameters are the models of their own theories. Lemmas: what a
  run writes, that a resumed run writes the same chunks, how failures are recorded.
\<close>

subsection \<open>The environment\<close>

record ('o, 'b) ingest_env =
  obj_get :: "ustring \<Rightarrow> 'o \<Rightarrow> app_exn + 'b"
  obj_put :: "ustring \<Rightarrow> 'b \<Rightarrow> 'o \<Rightarrow> app_exn + 'o"
  extract_isolated :: "'b \<Rightarrow> ustring \<Rightarrow> app_exn + extracted_doc"
  json_dumps :: "json \<Rightarrow> 'b"
  json_loads :: "'b \<Rightarrow> string + json"
  ie_category :: category
  ie_rounding :: rounding
  ie_classifier :: classifier
  ie_tokens :: token_counter
  ie_settings :: app_settings
  ie_tenant_config :: "obj option"

record 'o ingest_state =
  is_store :: kstore
  is_objects :: 'o

record ingest_target =
  tg_doc :: uuid128
  tg_kb :: uuid128
  tg_version :: int
  tg_key :: ustring
  tg_mime :: ustring
  tg_config :: chunk_config

record ingest_result =
  in_status :: document_status
  in_chunks :: nat
  in_stats :: job_stats
  in_error :: "failure_note option"

definition on_store :: "(kstore \<Rightarrow> kstore) \<Rightarrow> 'o ingest_state \<Rightarrow> 'o ingest_state" where
  "on_store f st = st\<lparr>is_store := f (is_store st)\<rparr>"

text \<open>An exception ends the sequence; the state reached stays.\<close>

definition and_then ::
  "('e + 'a) \<times> 's \<Rightarrow> ('a \<Rightarrow> 's \<Rightarrow> ('e + 'b) \<times> 's) \<Rightarrow> ('e + 'b) \<times> 's" where
  "and_then r k = (case r of (Inl e, s) \<Rightarrow> (Inl e, s) | (Inr v, s) \<Rightarrow> k v s)"

lemma and_then_simps [simp]:
  "and_then (Inl e, s) k = (Inl e, s)" "and_then (Inr v, s) k = k v s"
  by (simp_all add: and_then_def)

definition foreign :: "string \<Rightarrow> app_exn" where
  "foreign cls = \<lparr>ax_domain = False, ax_os_error = False, ax_class = cls, ax_cause = '''', ax_message = []\<rparr>"

definition not_found :: app_exn where
  "not_found = \<lparr>ax_domain = True, ax_os_error = False, ax_class = ''NotFoundError'', ax_cause = '''', ax_message = []\<rparr>"

definition is_permanent :: "app_exn \<Rightarrow> bool" where
  "is_permanent e = (ax_domain e \<and> ax_class e \<in> set [''ExtractionFailedError'', ''ObjectNotFoundError''])"

definition job_of :: "ingest_target \<Rightarrow> string \<Rightarrow> job_key" where
  "job_of tg stage = (tg_doc tg, tg_version tg, stage)"

definition artifact_key :: "ingest_target \<Rightarrow> ustring" where
  "artifact_key tg = tg_key tg @ lit ''/v'' @ decimal (nat (tg_version tg)) @ lit ''/cleaned.json''"

text \<open>The typed view of an artifact; fields of other JSON types have none.\<close>

fun json_int :: "json \<Rightarrow> int option" where
  "json_int (JInt n) = Some n"
| "json_int _ = None"

fun json_str :: "json \<Rightarrow> ustring option" where
  "json_str (JStr s) = Some s"
| "json_str _ = None"

definition json_page :: "json \<Rightarrow> int option option" where
  "json_page j = (if j = JNull then Some None else map_option Some (json_int j))"

fun all_some :: "'a option list \<Rightarrow> 'a list option" where
  "all_some [] = Some []"
| "all_some (None # xs) = None"
| "all_some (Some x # xs) = map_option ((#) x) (all_some xs)"

definition typed_block :: "raw_block \<Rightarrow> block option" where
  "typed_block b =
     (case (json_str (raw_text b), json_int (raw_order b), json_page (raw_page b),
            all_some (List.map json_str (raw_heading_path b))) of
        (Some t, Some n, Some p, Some hs) \<Rightarrow>
          Some \<lparr>btype = raw_type b, btext = t, bmeta = \<lparr>order = n, bpage = p, bheading_path = hs\<rparr>\<rparr>
      | _ \<Rightarrow> None)"

definition typed_doc :: "raw_doc \<Rightarrow> extracted_doc option" where
  "typed_doc d =
     (case (all_some (List.map typed_block (raw_blocks d)),
            all_some (List.map (\<lambda>(k, v). map_option (\<lambda>s. (s, v)) (json_str k)) (raw_meta d))) of
        (Some bs, Some m) \<Rightarrow> Some \<lparr>blocks = bs, doc_meta = m\<rparr>
      | _ \<Rightarrow> None)"

subsection \<open>The stages\<close>

definition begin_stage :: "ingest_target \<Rightarrow> string \<Rightarrow> 'o ingest_state \<Rightarrow> 'o ingest_state" where
  "begin_stage tg stage = on_store (start_job (job_of tg stage))"

definition finish_stage :: "ingest_target \<Rightarrow> string \<Rightarrow> job_stats \<Rightarrow> 'o ingest_state \<Rightarrow> 'o ingest_state" where
  "finish_stage tg stage stats = on_store (finish_job (job_of tg stage) ''succeeded'' stats None)"

definition fail_stage :: "ingest_target \<Rightarrow> string \<Rightarrow> app_exn \<Rightarrow> 'o ingest_state \<Rightarrow> 'o ingest_state" where
  "fail_stage tg stage e = on_store (finish_job (job_of tg stage) ''failed'' NoStats (Some (error_payload e)))"

definition extract_stage ::
  "('o, 'b) ingest_env \<Rightarrow> ingest_target \<Rightarrow> 'o ingest_state \<Rightarrow> (app_exn + extracted_doc) \<times> 'o ingest_state" where
  "extract_stage E tg st =
     (let st1 = begin_stage tg ''extract'' st;
          result = (case obj_get E (tg_key tg) (is_objects st1) of
                      Inl e \<Rightarrow> Inl e | Inr content \<Rightarrow> extract_isolated E content (tg_mime tg))
      in case result of
           Inl e \<Rightarrow> (Inl e, fail_stage tg ''extract'' e st1)
         | Inr doc \<Rightarrow>
             (Inr doc, finish_stage tg ''extract''
                (ExtractStats (map_of (doc_meta doc) (lit ''page_count'')) (map_of (doc_meta doc) (lit ''block_count'')))
                st1))"

definition clean_stage ::
  "('o, 'b) ingest_env \<Rightarrow> ingest_target \<Rightarrow> extracted_doc \<Rightarrow> 'o ingest_state
   \<Rightarrow> (app_exn + extracted_doc \<times> job_stats) \<times> 'o ingest_state" where
  "clean_stage E tg doc st =
     (let st1 = begin_stage tg ''clean'' st in
      case clean (ie_category E) (ie_rounding E) (ie_classifier E) doc of
        (cleaned, stats) \<Rightarrow>
          (case obj_put E (artifact_key tg) (to_json (json_dumps E) cleaned) (is_objects st1) of
             Inl e \<Rightarrow> (Inl e, fail_stage tg ''clean'' e st1)
           | Inr objects \<Rightarrow>
               (Inr (cleaned, CleanStats stats),
                finish_stage tg ''clean'' (CleanStats stats) (st1\<lparr>is_objects := objects\<rparr>))))"

definition chunk_stage ::
  "('o, 'b) ingest_env \<Rightarrow> ingest_target \<Rightarrow> (nat \<Rightarrow> uuid128) \<Rightarrow> extracted_doc \<Rightarrow> 'o ingest_state
   \<Rightarrow> (app_exn + text_chunk list) \<times> 'o ingest_state" where
  "chunk_stage E tg ids cleaned st =
     (let st1 = begin_stage tg ''chunk'' st;
          made = chunk_document (ie_tokens E) (ie_rounding E) (tg_config tg) cleaned
      in case replace_for_version (tg_doc tg) (tg_kb tg) (tg_version tg) ids made (is_store st1) of
           Inl e \<Rightarrow> (Inl e, fail_stage tg ''chunk'' e st1)
         | Inr store \<Rightarrow>
             (Inr made, finish_stage tg ''chunk'' (ChunkStats (length made) (sum_list (List.map token_count made)))
                (st1\<lparr>is_store := store\<rparr>)))"

text \<open>What was cleaned before: the artifact and the statistics of the clean job, when that job
  succeeded and the artifact can be read; \<open>Inr None\<close> means that the work has to be done again.\<close>

definition resume_cleaned ::
  "('o, 'b) ingest_env \<Rightarrow> ingest_target \<Rightarrow> 'o ingest_state \<Rightarrow> app_exn + (extracted_doc \<times> job_stats) option" where
  "resume_cleaned E tg st =
     (case ks_jobs (is_store st) (job_of tg ''clean'') of
        None \<Rightarrow> Inr None
      | Some j \<Rightarrow>
          if jr_status j \<noteq> ''succeeded'' then Inr None
          else case obj_get E (artifact_key tg) (is_objects st) of
                 Inl e \<Rightarrow>
                   if ax_class e = ''CrossTenantObjectKeyError'' then Inl e
                   else if ax_domain e \<or> ax_os_error e then Inr None else Inl e
               | Inr payload \<Rightarrow>
                   (case from_json (json_loads E) payload of
                      Inl (ExtractionFailed cause) \<Rightarrow> Inr None
                    | Inl (Escaped exn) \<Rightarrow> Inl (foreign (exn_name exn))
                    | Inr raw \<Rightarrow>
                        (case typed_doc raw of
                           None \<Rightarrow> Inl (foreign ''TypeError'')
                         | Some doc \<Rightarrow> Inr (Some (doc, jr_stats j)))))"

definition materialise_cleaned ::
  "('o, 'b) ingest_env \<Rightarrow> ingest_target \<Rightarrow> 'o ingest_state
   \<Rightarrow> (app_exn + extracted_doc \<times> job_stats) \<times> 'o ingest_state" where
  "materialise_cleaned E tg st =
     (case resume_cleaned E tg st of
        Inl e \<Rightarrow> (Inl e, st)
      | Inr (Some resumed) \<Rightarrow> (Inr resumed, st)
      | Inr None \<Rightarrow> and_then (extract_stage E tg st) (clean_stage E tg))"

subsection \<open>The run\<close>

definition mark :: "int \<Rightarrow> uuid128 \<Rightarrow> document_status \<Rightarrow> failure_note option \<Rightarrow> 'o ingest_state \<Rightarrow> 'o ingest_state" where
  "mark now d status err = on_store (\<lambda>s. snd (set_status now d status err None None s))"

definition run_ingestion ::
  "('o, 'b) ingest_env \<Rightarrow> int \<Rightarrow> (nat \<Rightarrow> uuid128) \<Rightarrow> ingest_target \<Rightarrow> 'o ingest_state
   \<Rightarrow> (app_exn + ingest_result) \<times> 'o ingest_state" where
  "run_ingestion E now ids tg st =
     and_then (materialise_cleaned E tg (mark now (tg_doc tg) PARSING None st)) (\<lambda>(cleaned, stats) st1.
     and_then (chunk_stage E tg ids cleaned (mark now (tg_doc tg) CLEANED None st1)) (\<lambda>made st2.
       (Inr \<lparr>in_status = CHUNKED, in_chunks = length made, in_stats = stats, in_error = None\<rparr>,
        on_store (enqueue (EmbedTask (tg_doc tg))) (mark now (tg_doc tg) CHUNKED None st2))))"

definition load_target ::
  "('o, 'b) ingest_env \<Rightarrow> uuid128 \<Rightarrow> kstore \<Rightarrow> app_exn + ingest_target" where
  "load_target E d s =
     (case find_doc d s of
        None \<Rightarrow> Inl not_found
      | Some r \<Rightarrow>
          (case find_kb (dr_kb r) s of
             None \<Rightarrow> Inl not_found
           | Some kb \<Rightarrow>
               Inr \<lparr>tg_doc = d, tg_kb = dr_kb r, tg_version = dr_version r, tg_key = dr_key r, tg_mime = dr_mime r,
                    tg_config = chunk_config_from (ie_rounding E) (ie_settings E) (kb_config kb)
                                  (ie_tenant_config E)\<rparr>))"

definition stages :: "string list" where
  "stages = [''extract'', ''clean'', ''chunk'']"

definition failing_stage :: "ingest_target \<Rightarrow> kstore \<Rightarrow> string" where
  "failing_stage tg s =
     (case find (\<lambda>stage. case ks_jobs s (job_of tg stage) of Some j \<Rightarrow> jr_status j = ''failed'' | None \<Rightarrow> False) stages of
        Some stage \<Rightarrow> stage | None \<Rightarrow> ''extract'')"

definition fail_permanently ::
  "int \<Rightarrow> ingest_target \<Rightarrow> app_exn \<Rightarrow> 'o ingest_state \<Rightarrow> (app_exn + ingest_result) \<times> 'o ingest_state" where
  "fail_permanently now tg e st =
     (let err = failure_of (failing_stage tg (is_store st)) e False None in
      (Inr \<lparr>in_status = FAILED, in_chunks = 0, in_stats = NoStats, in_error = Some err\<rparr>,
       on_store (notify (FailedNotice (tg_doc tg) err)) (mark now (tg_doc tg) FAILED (Some err) st)))"

definition ingest ::
  "('o, 'b) ingest_env \<Rightarrow> int \<Rightarrow> (nat \<Rightarrow> uuid128) \<Rightarrow> uuid128 \<Rightarrow> 'o ingest_state
   \<Rightarrow> (app_exn + ingest_result) \<times> 'o ingest_state" where
  "ingest E now ids d st =
     (case load_target E d (is_store st) of
        Inl e \<Rightarrow> (Inl e, st)
      | Inr tg \<Rightarrow>
          (case run_ingestion E now ids tg st of
             (Inl e, st1) \<Rightarrow> if is_permanent e then fail_permanently now tg e st1 else (Inl e, st1)
           | (Inr result, st1) \<Rightarrow> (Inr result, st1)))"

definition last_running_stage :: "uuid128 \<Rightarrow> kstore \<Rightarrow> string" where
  "last_running_stage d s =
     (case find_doc d s of
        None \<Rightarrow> ''extract''
      | Some r \<Rightarrow>
          (case find (\<lambda>stage. case ks_jobs s (d, dr_version r, stage) of
                               Some j \<Rightarrow> jr_status j \<noteq> ''succeeded'' | None \<Rightarrow> True) stages of
             Some stage \<Rightarrow> stage | None \<Rightarrow> ''chunk''))"

definition ingest_retries_exhausted ::
  "int \<Rightarrow> uuid128 \<Rightarrow> app_exn \<Rightarrow> nat \<Rightarrow> 'o ingest_state \<Rightarrow> 'o ingest_state" where
  "ingest_retries_exhausted now d e attempts st =
     (let err = failure_of (last_running_stage d (is_store st)) e True (Some attempts) in
      on_store (notify (FailedNotice d err)) (mark now d FAILED (Some err) st))"

subsection \<open>Transactions one by one\<close>

definition stored_chunks :: "uuid128 \<Rightarrow> int \<Rightarrow> kstore \<Rightarrow> text_chunk list" where
  "stored_chunks d v s = List.map cr_chunk (filter (same_version d v) (ks_chunks s))"

lemma on_store_reads [simp]:
  "is_store (on_store f st) = f (is_store st)" "is_objects (on_store f st) = is_objects st"
  by (simp_all add: on_store_def)

lemma mark_reads [simp]:
  "is_objects (mark now d status err st) = is_objects st"
  "ks_chunks (is_store (mark now d status err st)) = ks_chunks (is_store st)"
  "ks_vectors (is_store (mark now d status err st)) = ks_vectors (is_store st)"
  "ks_jobs (is_store (mark now d status err st)) = ks_jobs (is_store st)"
  "ks_queue (is_store (mark now d status err st)) = ks_queue (is_store st)"
  "ks_kbs (is_store (mark now d status err st)) = ks_kbs (is_store st)"
  by (simp_all add: mark_def)

lemma find_doc_mark [simp]:
  "find_doc d' (is_store (mark now d status err st)) =
     (if d' = d then map_option (\<lambda>r. r\<lparr>dr_status := status, dr_error := err, dr_updated := now\<rparr>) (find_doc d (is_store st))
      else find_doc d' (is_store st))"
  by (simp add: mark_def find_doc_set_status find_doc_set_status_other)

text \<open>The part of the tables that the stages before chunking leave alone.\<close>

definition same_content :: "kstore \<Rightarrow> kstore \<Rightarrow> bool" where
  "same_content s s' =
     (ks_docs s' = ks_docs s \<and> ks_chunks s' = ks_chunks s \<and> ks_vectors s' = ks_vectors s \<and> ks_queue s' = ks_queue s
      \<and> ks_kbs s' = ks_kbs s \<and> ks_notices s' = ks_notices s)"

lemma same_content_refl [simp]: "same_content s s"
  by (simp add: same_content_def)

lemma same_content_trans: "same_content a b \<Longrightarrow> same_content b c \<Longrightarrow> same_content a c"
  by (simp add: same_content_def)

lemma same_content_job [simp]:
  "same_content s (start_job k s)" "same_content s (finish_job k st stats err s)"
  by (simp_all add: same_content_def start_job_def finish_job_def Let_def split: option.split)

lemma stage_content [simp]:
  "same_content (is_store st) (is_store (begin_stage tg stage st))"
  "same_content (is_store st) (is_store (finish_stage tg stage stats st))"
  "same_content (is_store st) (is_store (fail_stage tg stage e st))"
  by (simp_all add: begin_stage_def finish_stage_def fail_stage_def)

lemma stage_objects [simp]:
  "is_objects (begin_stage tg stage st) = is_objects st"
  "is_objects (finish_stage tg stage stats st) = is_objects st"
  "is_objects (fail_stage tg stage e st) = is_objects st"
  by (simp_all add: begin_stage_def finish_stage_def fail_stage_def)

lemma extract_stage_content: "same_content (is_store st) (is_store (snd (extract_stage E tg st)))"
  by (auto simp: extract_stage_def Let_def split: sum.split
      intro: same_content_trans [OF stage_content(1) stage_content(2)] same_content_trans [OF stage_content(1) stage_content(3)])

lemma clean_stage_content: "same_content (is_store st) (is_store (snd (clean_stage E tg doc st)))"
proof -
  have "same_content (is_store (begin_stage tg g st)) (is_store (finish_stage tg g stats ((begin_stage tg g st)\<lparr>is_objects := ob\<rparr>)))"
    for g stats ob
    by (simp add: finish_stage_def)
  then show ?thesis
    by (auto simp: clean_stage_def Let_def split: sum.split prod.split
        intro: same_content_trans [OF stage_content(1)] same_content_trans [OF stage_content(1) stage_content(3)])
qed

lemma materialise_content: "same_content (is_store st) (is_store (snd (materialise_cleaned E tg st)))"
  using extract_stage_content [of st E tg] clean_stage_content [of "snd (extract_stage E tg st)" E tg]
  by (auto simp: materialise_cleaned_def and_then_def split: sum.split prod.split option.split intro: same_content_trans)

text \<open>A stage that succeeds, and one that fails, in the job table.\<close>

lemma stage_job:
  "ks_jobs (is_store (finish_stage tg stage stats st)) (job_of tg stage) =
     map_option (\<lambda>j. j\<lparr>jr_status := ''succeeded'', jr_stats := stats, jr_error := None\<rparr>) (ks_jobs (is_store st) (job_of tg stage))"
  "ks_jobs (is_store (fail_stage tg stage e st)) (job_of tg stage) =
     map_option (\<lambda>j. j\<lparr>jr_status := ''failed'', jr_stats := NoStats, jr_error := Some (error_payload e)\<rparr>)
       (ks_jobs (is_store st) (job_of tg stage))"
  "\<exists>j. ks_jobs (is_store (begin_stage tg stage st)) (job_of tg stage) = Some j"
  by (simp_all add: finish_stage_def fail_stage_def begin_stage_def jobs_finish start_job_def Let_def)
    (simp add: ks_jobs_def update_conv')

lemma stage_job_other:
  assumes "k \<noteq> job_of tg stage"
  shows "ks_jobs (is_store (finish_stage tg stage stats st)) k = ks_jobs (is_store st) k"
    "ks_jobs (is_store (fail_stage tg stage e st)) k = ks_jobs (is_store st) k"
    "ks_jobs (is_store (begin_stage tg stage st)) k = ks_jobs (is_store st) k"
  using assms by (simp_all add: finish_stage_def fail_stage_def begin_stage_def jobs_finish)

lemma job_of_eq [simp]: "job_of tg a = job_of tg b \<longleftrightarrow> a = b"
  by (simp add: job_of_def)

text \<open>Resuming reads the clean job and the artifact, nothing else.\<close>

lemma resume_cong:
  "ks_jobs (is_store st) (job_of tg ''clean'') = ks_jobs (is_store st') (job_of tg ''clean'')
   \<Longrightarrow> is_objects st = is_objects st' \<Longrightarrow> resume_cleaned E tg st = resume_cleaned E tg st'"
  by (simp add: resume_cleaned_def split: option.split)

lemma resume_fresh: "ks_jobs (is_store st) (job_of tg ''clean'') = None \<Longrightarrow> resume_cleaned E tg st = Inr None"
  by (simp add: resume_cleaned_def)

lemma resume_no_extract: "resume_cleaned (E\<lparr>extract_isolated := f\<rparr>) tg st = resume_cleaned E tg st"
proof -
  have "obj_get (E\<lparr>extract_isolated := f\<rparr>) = obj_get E" "json_loads (E\<lparr>extract_isolated := f\<rparr>) = json_loads E"
    by simp_all
  then show ?thesis
    unfolding resume_cleaned_def by metis
qed

lemma materialise_fresh:
  assumes "materialise_cleaned E tg st = (Inr (cleaned, stats), st1)" "resume_cleaned E tg st = Inr None"
  obtains content raw cstats where "obj_get E (tg_key tg) (is_objects st) = Inr content"
    "extract_isolated E content (tg_mime tg) = Inr raw"
    "clean (ie_category E) (ie_rounding E) (ie_classifier E) raw = (cleaned, cstats)" "stats = CleanStats cstats"
  using assms
  by (auto simp: materialise_cleaned_def extract_stage_def clean_stage_def Let_def and_then_def
      split: sum.splits prod.splits)

lemma all_some_map: "(\<And>x. x \<in> set xs \<Longrightarrow> f x = Some (g x)) \<Longrightarrow> all_some (List.map f xs) = Some (List.map g xs)"
  by (induction xs) auto

lemma typed_raw_block: "typed_block (raw_of_block b) = Some b"
  using all_some_map [of "bheading_path (bmeta b)" "json_str \<circ> JStr" "\<lambda>t. t"]
  by (simp add: typed_block_def raw_of_block_def page_json_def json_page_def split: option.split)

lemma typed_raw_doc: "typed_doc (raw_of_doc doc) = Some doc"
  using all_some_map [of "blocks doc" "typed_block \<circ> raw_of_block" "\<lambda>b. b"] typed_raw_block
    all_some_map [of "doc_meta doc" "\<lambda>kv. map_option (\<lambda>t. (t, snd kv)) (json_str (JStr (fst kv)))" "\<lambda>kv. kv"]
  by (simp add: typed_doc_def raw_of_doc_def comp_def case_prod_beta)

text \<open>The documented behaviour of the object store and of the JSON library.\<close>

definition reads_back :: "('o, 'b) ingest_env \<Rightarrow> bool" where
  "reads_back E =
     ((\<forall>k b ob ob'. obj_put E k b ob = Inr ob' \<longrightarrow> obj_get E k ob' = Inr b)
      \<and> (\<forall>j. json_loads E (json_dumps E j) = Inr j))"

lemma reads_back_artifact:
  assumes "reads_back E" "obj_put E k (to_json (json_dumps E) doc) ob = Inr ob'"
  obtains payload where "obj_get E k ob' = Inr payload" "from_json (json_loads E) payload = Inr (raw_of_doc doc)"
  using assms from_json_payload [of "json_loads E" "to_json (json_dumps E) doc" doc]
  by (auto simp: reads_back_def to_json_def)

lemma clean_stage_ready:
  assumes "reads_back E" "clean_stage E tg doc st = (Inr (cleaned, stats), st')"
  shows "resume_cleaned E tg st' = Inr (Some (cleaned, stats))"
proof -
  let ?st1 = "begin_stage tg ''clean'' st"
  obtain cstats ob where put: "obj_put E (artifact_key tg) (to_json (json_dumps E) cleaned) (is_objects st) = Inr ob"
    and stats: "stats = CleanStats cstats"
    and st': "st' = finish_stage tg ''clean'' (CleanStats cstats) (?st1\<lparr>is_objects := ob\<rparr>)"
    using assms(2) by (auto simp: clean_stage_def Let_def split: sum.splits prod.splits)
  obtain payload where "obj_get E (artifact_key tg) ob = Inr payload"
    "from_json (json_loads E) payload = Inr (raw_of_doc cleaned)"
    using reads_back_artifact [OF assms(1) put] .
  moreover obtain j where "ks_jobs (is_store ?st1) (job_of tg ''clean'') = Some j"
    using stage_job(3) by blast
  ultimately show ?thesis
    by (simp add: resume_cleaned_def st' stage_job typed_raw_doc stats)
qed

lemma materialise_ready:
  assumes "reads_back E" "materialise_cleaned E tg st = (Inr (cleaned, stats), st')"
  shows "resume_cleaned E tg st' = Inr (Some (cleaned, stats))"
  using assms(2) clean_stage_ready [OF assms(1)]
  by (auto simp: materialise_cleaned_def and_then_def split: sum.splits prod.splits option.splits)

text \<open>Chunking, when it succeeds and when it does not.\<close>

lemma chunk_stage_done:
  assumes "chunk_stage E tg ids cleaned st = (Inr made, st')"
  shows "made = chunk_document (ie_tokens E) (ie_rounding E) (tg_config tg) cleaned"
    and "stored_chunks (tg_doc tg) (tg_version tg) (is_store st') = made"
    and "filter (\<lambda>c. \<not> same_version (tg_doc tg) (tg_version tg) c) (ks_chunks (is_store st')) =
         filter (\<lambda>c. \<not> same_version (tg_doc tg) (tg_version tg) c) (ks_chunks (is_store st))"
    and "find_doc d (is_store st') = find_doc d (is_store st)" "ks_queue (is_store st') = ks_queue (is_store st)"
    and "ks_vectors (is_store st') = ks_vectors (is_store st)" "ks_kbs (is_store st') = ks_kbs (is_store st)"
    and "is_objects st' = is_objects st" "ks_notices (is_store st') = ks_notices (is_store st)"
    and "k \<noteq> job_of tg ''chunk'' \<Longrightarrow> ks_jobs (is_store st') k = ks_jobs (is_store st) k"
proof -
  let ?s = "is_store (begin_stage tg ''chunk'' st)"
  obtain store where r: "replace_for_version (tg_doc tg) (tg_kb tg) (tg_version tg) ids made ?s = Inr store"
    and made: "made = chunk_document (ie_tokens E) (ie_rounding E) (tg_config tg) cleaned"
    and st': "st' = finish_stage tg ''chunk'' (ChunkStats (length made) (sum_list (List.map token_count made)))
                      ((begin_stage tg ''chunk'' st)\<lparr>is_store := store\<rparr>)"
    using assms by (auto simp: chunk_stage_def Let_def split: sum.splits)
  note rep = replace_for_version_keeps_others [OF r]
  have same: "same_content store (is_store st')" "same_content (is_store st) ?s"
    using stage_content(2) [of "(begin_stage tg ''chunk'' st)\<lparr>is_store := store\<rparr>"] by (simp_all add: st')
  show "made = chunk_document (ie_tokens E) (ie_rounding E) (tg_config tg) cleaned" by (rule made)
  show "stored_chunks (tg_doc tg) (tg_version tg) (is_store st') = made"
    and "filter (\<lambda>c. \<not> same_version (tg_doc tg) (tg_version tg) c) (ks_chunks (is_store st')) =
         filter (\<lambda>c. \<not> same_version (tg_doc tg) (tg_version tg) c) (ks_chunks (is_store st))"
    and "find_doc d (is_store st') = find_doc d (is_store st)" and "ks_queue (is_store st') = ks_queue (is_store st)"
    and "ks_vectors (is_store st') = ks_vectors (is_store st)" and "ks_kbs (is_store st') = ks_kbs (is_store st)"
    and "ks_notices (is_store st') = ks_notices (is_store st)"
    using rep same by (simp_all add: same_content_def stored_chunks_def find_doc_def)
  show "is_objects st' = is_objects st" by (simp add: st')
  show "k \<noteq> job_of tg ''chunk'' \<Longrightarrow> ks_jobs (is_store st') k = ks_jobs (is_store st) k"
    by (simp add: st' stage_job_other rep)
qed

lemma chunk_stage_failed:
  assumes "chunk_stage E tg ids cleaned st = (Inl e, st')"
  shows "e = protected_error" "same_content (is_store st) (is_store st')"
  using assms
  by (auto simp: chunk_stage_def Let_def replace_for_version_def split: sum.splits if_splits
      intro: same_content_trans [OF stage_content(1) stage_content(3)])

lemma chunk_stage_active:
  assumes "chunk_stage E tg ids cleaned st = (Inr made, st')" "c \<in> set (ks_chunks (is_store st'))"
    "same_version (tg_doc tg) (tg_version tg) c"
  shows "\<not> cr_superseded c"
  using assms replace_for_version_active
  by (fastforce simp: chunk_stage_def Let_def finish_stage_def split: sum.splits)

text \<open>The version's chunks cannot be replaced once one of them has a vector.\<close>

definition version_embedded :: "uuid128 \<Rightarrow> int \<Rightarrow> kstore \<Rightarrow> bool" where
  "version_embedded d v s = list_ex (\<lambda>c. same_version d v c \<and> has_vector (cr_id c) s) (ks_chunks s)"

lemma version_embedded_content: "same_content s s' \<Longrightarrow> version_embedded d v s' = version_embedded d v s"
  by (simp add: version_embedded_def same_content_def has_vector_def)

lemma version_embedded_mark [simp]:
  "version_embedded d v (is_store (mark now d' status err st)) = version_embedded d v (is_store st)"
  by (simp add: version_embedded_def has_vector_def)

lemma chunk_stage_embedded:
  "fst (chunk_stage E tg ids cleaned st) =
     (if version_embedded (tg_doc tg) (tg_version tg) (is_store st) then Inl protected_error
      else Inr (chunk_document (ie_tokens E) (ie_rounding E) (tg_config tg) cleaned))"
proof -
  have "version_embedded (tg_doc tg) (tg_version tg) (is_store (begin_stage tg ''chunk'' st)) =
        version_embedded (tg_doc tg) (tg_version tg) (is_store st)"
    by (rule version_embedded_content) simp
  then show ?thesis
    by (auto simp: chunk_stage_def Let_def replace_for_version_def version_embedded_def)
qed

subsection \<open>A whole run\<close>

lemma run_chunked:
  assumes "run_ingestion E now ids tg st = (Inr r, st')"
  obtains cleaned stats st1 made st2 where
    "materialise_cleaned E tg (mark now (tg_doc tg) PARSING None st) = (Inr (cleaned, stats), st1)"
    "chunk_stage E tg ids cleaned (mark now (tg_doc tg) CLEANED None st1) = (Inr made, st2)"
    "r = \<lparr>in_status = CHUNKED, in_chunks = length made, in_stats = stats, in_error = None\<rparr>"
    "st' = on_store (enqueue (EmbedTask (tg_doc tg))) (mark now (tg_doc tg) CHUNKED None st2)"
  using assms by (auto simp: run_ingestion_def and_then_def split: sum.splits prod.splits)

lemma run_failed:
  assumes "run_ingestion E now ids tg st = (Inl e, st')"
  obtains st0 status where "same_content (is_store (mark now (tg_doc tg) status None st0)) (is_store st')"
    "same_content (is_store (mark now (tg_doc tg) PARSING None st)) (is_store st0) \<or> st0 = st" "status \<in> {PARSING, CLEANED}"
proof -
  let ?st = "mark now (tg_doc tg) PARSING None st"
  have content: "same_content (is_store ?st) (is_store (snd (materialise_cleaned E tg ?st)))"
    by (rule materialise_content)
  consider "materialise_cleaned E tg ?st = (Inl e, st')"
    | v st1 where "materialise_cleaned E tg ?st = (Inr v, st1)"
        "chunk_stage E tg ids (fst v) (mark now (tg_doc tg) CLEANED None st1) = (Inl e, st')"
    using assms by (auto simp: run_ingestion_def and_then_def split: sum.splits prod.splits)
  then show thesis
  proof cases
    case 1
    then show thesis using that [of PARSING st] content by simp
  next
    case 2
    then show thesis using that [of CLEANED st1] content chunk_stage_failed(2) [OF 2(2)] by simp
  qed
qed

lemma same_content_doc: "same_content s s' \<Longrightarrow> find_doc d s' = find_doc d s"
  by (simp add: same_content_def find_doc_def)

lemma load_target_doc:
  assumes "load_target E d s = Inr tg"
  obtains r where "find_doc d s = Some r" "tg_doc tg = d" "tg_kb tg = dr_kb r" "tg_version tg = dr_version r"
  using assms by (auto simp: load_target_def split: option.splits)

lemma ingest_chunked:
  assumes "ingest E now ids d st = (Inr r, st')" "in_status r = CHUNKED"
  obtains tg where "load_target E d (is_store st) = Inr tg" "run_ingestion E now ids tg st = (Inr r, st')"
  using assms by (auto simp: ingest_def fail_permanently_def Let_def split: sum.splits prod.splits if_splits)

text \<open>What \<open>find_doc\<close> and \<open>load_target\<close> see after a run that chunked.\<close>

lemma run_chunked_doc:
  assumes "run_ingestion E now ids tg st = (Inr r, st')" "tg_doc tg = d"
  shows "find_doc d' (is_store st') =
     (if d' = d then map_option (\<lambda>x. x\<lparr>dr_status := CHUNKED, dr_error := None, dr_updated := now\<rparr>) (find_doc d (is_store st))
      else find_doc d' (is_store st))"
    and "ks_kbs (is_store st') = ks_kbs (is_store st)"
    and "ks_queue (is_store st') = ks_queue (is_store st) @ [EmbedTask d]"
    and "ks_vectors (is_store st') = ks_vectors (is_store st)"
    and "filter (\<lambda>c. \<not> same_version d (tg_version tg) c) (ks_chunks (is_store st')) =
         filter (\<lambda>c. \<not> same_version d (tg_version tg) c) (ks_chunks (is_store st))"
    and "in_status r = CHUNKED" "in_chunks r = length (stored_chunks d (tg_version tg) (is_store st'))"
    and "ks_notices (is_store st') = ks_notices (is_store (mark now d PARSING None st))"
proof -
  obtain cleaned stats st1 made st2 where
    m: "materialise_cleaned E tg (mark now (tg_doc tg) PARSING None st) = (Inr (cleaned, stats), st1)"
    and c: "chunk_stage E tg ids cleaned (mark now (tg_doc tg) CLEANED None st1) = (Inr made, st2)"
    and r: "r = \<lparr>in_status = CHUNKED, in_chunks = length made, in_stats = stats, in_error = None\<rparr>"
    and st': "st' = on_store (enqueue (EmbedTask (tg_doc tg))) (mark now (tg_doc tg) CHUNKED None st2)"
    using run_chunked [OF assms(1)] .
  note dn = chunk_stage_done [OF c]
  have content: "same_content (is_store (mark now d PARSING None st)) (is_store st1)"
    using materialise_content [of "mark now d PARSING None st" E tg] m assms(2) by simp
  have doc1: "find_doc x (is_store st1) = find_doc x (is_store (mark now d PARSING None st))" for x
    using same_content_doc [OF content] .
  have doc': "find_doc x (is_store st') = find_doc x (is_store (mark now d CHUNKED None st2))" for x
    by (simp add: st' enqueue_def find_doc_def assms(2))
  show "find_doc d' (is_store st') =
     (if d' = d then map_option (\<lambda>x. x\<lparr>dr_status := CHUNKED, dr_error := None, dr_updated := now\<rparr>) (find_doc d (is_store st))
      else find_doc d' (is_store st))"
    by (simp add: doc' dn(4) doc1 assms(2) option.map_comp comp_def)
  show "ks_kbs (is_store st') = ks_kbs (is_store st)" "ks_vectors (is_store st') = ks_vectors (is_store st)"
    "ks_queue (is_store st') = ks_queue (is_store st) @ [EmbedTask d]"
    "filter (\<lambda>c. \<not> same_version d (tg_version tg) c) (ks_chunks (is_store st')) =
       filter (\<lambda>c. \<not> same_version d (tg_version tg) c) (ks_chunks (is_store st))"
    using content dn assms(2) by (simp_all add: st' enqueue_def same_content_def)
  show "in_status r = CHUNKED" by (simp add: r)
  show "in_chunks r = length (stored_chunks d (tg_version tg) (is_store st'))"
    using dn(2) assms(2) by (simp add: r st' enqueue_def stored_chunks_def)
  show "ks_notices (is_store st') = ks_notices (is_store (mark now d PARSING None st))"
    using content dn(9) assms(2) by (simp add: st' enqueue_def same_content_def mark_def set_status_def put_doc_def split: option.split)
qed

text \<open>What a run needs to get through.\<close>

lemma materialise_total:
  assumes "obj_get E (tg_key tg) (is_objects st) = Inr content" "extract_isolated E content (tg_mime tg) = Inr raw"
    and "\<And>k b ob. \<exists>ob'. obj_put E k b ob = Inr ob'" "resume_cleaned E tg st = Inr None"
  shows "\<exists>v st'. materialise_cleaned E tg st = (Inr v, st')"
proof -
  obtain st1 where x: "extract_stage E tg st = (Inr raw, st1)"
    using assms(1,2) by (simp add: extract_stage_def Let_def)
  obtain cleaned cstats where c: "clean (ie_category E) (ie_rounding E) (ie_classifier E) raw = (cleaned, cstats)"
    by (rule prod.exhaust)
  obtain ob where "obj_put E (artifact_key tg) (to_json (json_dumps E) cleaned) (is_objects st1) = Inr ob"
    using assms(3) by blast
  then show ?thesis
    by (simp add: materialise_cleaned_def assms(4) x clean_stage_def Let_def c)
qed

lemma run_total:
  assumes "materialise_cleaned E tg (mark now (tg_doc tg) PARSING None st) = (Inr v, st1)"
    "\<not> version_embedded (tg_doc tg) (tg_version tg) (is_store st)"
  obtains r st' where "run_ingestion E now ids tg st = (Inr r, st')" "in_stats r = snd v"
proof -
  let ?st = "mark now (tg_doc tg) CLEANED None st1"
  have "version_embedded (tg_doc tg) (tg_version tg) (is_store st1) = version_embedded (tg_doc tg) (tg_version tg) (is_store st)"
    using version_embedded_content [OF materialise_content [of "mark now (tg_doc tg) PARSING None st" E tg]] assms(1) by simp
  then obtain made st2 where "chunk_stage E tg ids (fst v) ?st = (Inr made, st2)"
    using assms(2) chunk_stage_embedded [of E tg ids "fst v" ?st] by (metis prod.collapse version_embedded_mark)
  then show thesis
    using assms(1) that by (simp add: run_ingestion_def and_then_def case_prod_beta)
qed

lemma ingest_of_run:
  "load_target E d (is_store st) = Inr tg \<Longrightarrow> run_ingestion E now ids tg st = (Inr r, st')
   \<Longrightarrow> ingest E now ids d st = (Inr r, st')"
  by (simp add: ingest_def)

definition failed_job :: "uuid128 \<Rightarrow> int \<Rightarrow> string \<Rightarrow> (string \<times> ustring) \<Rightarrow> kstore \<Rightarrow> bool" where
  "failed_job d v stage payload s =
     (\<exists>j. ks_jobs s (d, v, stage) = Some j \<and> jr_status j = ''failed'' \<and> jr_error j = Some payload)"

lemma extract_failed_job:
  assumes "extract_stage E tg st = (Inl e, st')"
  shows "failed_job (tg_doc tg) (tg_version tg) ''extract'' (error_payload e) (is_store st')"
  using assms stage_job(3) [of tg "''extract''" st] stage_job(2) [of tg "''extract''" e "begin_stage tg ''extract'' st"]
  by (auto simp: extract_stage_def failed_job_def Let_def job_of_def split: sum.splits)

lemma extract_succeeded_job:
  assumes "extract_stage E tg st = (Inr doc, st')"
  shows "\<exists>j. ks_jobs (is_store st') (job_of tg ''extract'') = Some j \<and> jr_status j = ''succeeded''"
  using assms stage_job(3) [of tg "''extract''" st]
  by (auto simp: extract_stage_def Let_def stage_job(1) split: sum.splits)

lemma clean_failed_job:
  assumes "clean_stage E tg doc st = (Inl e, st')"
  shows "failed_job (tg_doc tg) (tg_version tg) ''clean'' (error_payload e) (is_store st')"
    and "ks_jobs (is_store st') (job_of tg ''extract'') = ks_jobs (is_store st) (job_of tg ''extract'')"
  using assms stage_job(3) [of tg "''clean''" st] stage_job(2) [of tg "''clean''" e "begin_stage tg ''clean'' st"]
  by (auto simp: clean_stage_def failed_job_def Let_def job_of_def stage_job_other [unfolded job_of_def] split: sum.splits prod.splits)

lemma resume_not_permanent: "resume_cleaned E tg st = Inl e \<Longrightarrow> \<not> is_permanent e"
  by (auto simp: resume_cleaned_def is_permanent_def foreign_def
      split: option.splits if_splits sum.splits artifact_error.splits)

lemma permanent_failure_stage:
  assumes "run_ingestion E now ids tg st = (Inl e, st')" "is_permanent e"
  shows "failed_job (tg_doc tg) (tg_version tg) (failing_stage tg (is_store st')) (error_payload e) (is_store st')"
proof -
  let ?st = "mark now (tg_doc tg) PARSING None st"
  have "materialise_cleaned E tg ?st = (Inl e, st')"
    using assms chunk_stage_failed(1)
    by (fastforce simp: run_ingestion_def and_then_def is_permanent_def protected_error_def split: sum.splits prod.splits)
  then consider "extract_stage E tg ?st = (Inl e, st')"
    | doc st1 where "extract_stage E tg ?st = (Inr doc, st1)" "clean_stage E tg doc st1 = (Inl e, st')"
    using resume_not_permanent assms(2)
    by (fastforce simp: materialise_cleaned_def and_then_def split: sum.splits option.splits prod.splits)
  then show ?thesis
  proof cases
    case 1
    from extract_failed_job [OF this] show ?thesis
      by (auto simp: failing_stage_def stages_def failed_job_def job_of_def)
  next
    case 2
    from clean_failed_job [OF 2(2)] extract_succeeded_job [OF 2(1)] show ?thesis
      by (auto simp: failing_stage_def stages_def failed_job_def job_of_def)
  qed
qed

lemma run_failed_frame:
  assumes "run_ingestion E now ids tg st = (Inl e, st')" "find_doc (tg_doc tg) (is_store st) = Some row"
  shows "ks_chunks (is_store st') = ks_chunks (is_store st)" "ks_vectors (is_store st') = ks_vectors (is_store st)"
    "ks_queue (is_store st') = ks_queue (is_store st)"
    "\<exists>row'. find_doc (tg_doc tg) (is_store st') = Some row' \<and> dr_status row' \<in> {PARSING, CLEANED}"
proof -
  obtain st0 status where a: "same_content (is_store (mark now (tg_doc tg) status None st0)) (is_store st')"
    and b: "same_content (is_store (mark now (tg_doc tg) PARSING None st)) (is_store st0) \<or> st0 = st"
    and s: "status \<in> {PARSING, CLEANED}"
    using run_failed [OF assms(1)] .
  from a b show "ks_chunks (is_store st') = ks_chunks (is_store st)" "ks_vectors (is_store st') = ks_vectors (is_store st)"
    "ks_queue (is_store st') = ks_queue (is_store st)"
    by (auto simp: same_content_def)
  have "find_doc (tg_doc tg) (is_store st0) \<noteq> None"
    using b assms(2) same_content_doc [of "is_store (mark now (tg_doc tg) PARSING None st)" "is_store st0" "tg_doc tg"] by auto
  then show "\<exists>row'. find_doc (tg_doc tg) (is_store st') = Some row' \<and> dr_status row' \<in> {PARSING, CLEANED}"
    using same_content_doc [OF a, of "tg_doc tg"] s by auto
qed

subsection \<open>A sample\<close>

text \<open>An object store that is a list, an extractor that finds one paragraph, one document that was chunked for an older
  version before.\<close>

definition ingest_sample_env :: "((ustring \<times> json) list, json) ingest_env" where
  "ingest_sample_env =
     \<lparr>obj_get = (\<lambda>k ob. case map_of ob k of
                    None \<Rightarrow> Inl \<lparr>ax_domain = True, ax_os_error = False, ax_class = ''ObjectNotFoundError'', ax_cause = '''',
                                ax_message = []\<rparr>
                  | Some b \<Rightarrow> Inr b),
      obj_put = (\<lambda>k b ob. Inr ((k, b) # ob)),
      extract_isolated = (\<lambda>b mime. Inr \<lparr>blocks = [\<lparr>btype = PARAGRAPH, btext = lit ''hello world'',
                                        bmeta = \<lparr>order = 0, bpage = Some 1, bheading_path = []\<rparr>\<rparr>], doc_meta = []\<rparr>),
      json_dumps = (\<lambda>j. j), json_loads = Inr, ie_category = (\<lambda>_. ''Ll''), ie_rounding = id,
      ie_classifier = (\<lambda>_. (''en'', 1)), ie_tokens = length, ie_settings = default_settings,
      ie_tenant_config = None\<rparr>"

definition ingest_sample_chunk :: "uuid128 \<Rightarrow> int \<Rightarrow> chunk_row" where
  "ingest_sample_chunk c v =
     \<lparr>cr_id = c, cr_doc = 1, cr_kb = 9, cr_version = v,
      cr_chunk = \<lparr>seq = 0, ctext = lit ''old'', token_count = 1, cpage = None, cheading_path = []\<rparr>,
      cr_superseded = (v = 1)\<rparr>"

definition sample_state :: "document_status \<Rightarrow> (ustring \<times> json) list ingest_state" where
  "sample_state status =
     \<lparr>is_store =
        \<lparr>ks_docs = [(1, \<lparr>dr_kb = 9, dr_filename = lit ''a.txt'', dr_mime = lit ''text/plain'', dr_key = lit ''a'', dr_hash = [],
                         dr_size = 11, dr_uploaded_by = None, dr_version = 2, dr_status = status, dr_error = None,
                         dr_created = 0, dr_updated = 0, dr_deleted = None\<rparr>)],
         ks_kbs = [(9, \<lparr>kb_model = lit ''m'', kb_version = 1, kb_config = None, kb_knowledge_version = 1,
                        kb_indexed_version = 1, kb_deleted = None\<rparr>)],
         ks_chunks = [ingest_sample_chunk 100 1], ks_vectors = [], ks_job_rows = [], ks_reindex = [], ks_queue = [], ks_notices = []\<rparr>,
      is_objects = [(lit ''a'', JNull)]\<rparr>"

lemma sample_no_jobs: "ks_jobs (is_store (sample_state status)) k = None"
  by (simp add: sample_state_def ks_jobs_def)

lemma sample_reads_back: "reads_back ingest_sample_env"
  by (simp add: reads_back_def ingest_sample_env_def)

definition fresh_id :: "nat \<Rightarrow> uuid128" where
  "fresh_id i = 200 + of_nat i"

lemma no_vectors: "ks_vectors s = [] \<Longrightarrow> \<not> version_embedded d v s"
  by (simp add: version_embedded_def has_vector_def list_ex_iff)

lemma sample_run:
  obtains r st' where "ingest ingest_sample_env now fresh_id 1 (sample_state status) = (Inr r, st')" "in_status r = CHUNKED"
    "\<forall>d v. \<not> version_embedded d v (is_store st')"
proof -
  obtain tg where tg: "load_target ingest_sample_env 1 (is_store (sample_state status)) = Inr tg"
    and key: "tg_doc tg = 1" "tg_key tg = lit ''a''" "tg_version tg = 2"
    by (simp add: load_target_def sample_state_def find_doc_def find_kb_def)
  let ?st = "mark now 1 PARSING None (sample_state status)"
  have upl: "obj_get ingest_sample_env (tg_key tg) (is_objects ?st) = Inr JNull"
    and put: "\<And>k b ob. \<exists>ob'. obj_put ingest_sample_env k b ob = Inr ob'"
    by (simp_all add: ingest_sample_env_def key sample_state_def)
  have res: "resume_cleaned ingest_sample_env tg ?st = Inr None"
    by (rule resume_fresh) (simp add: sample_no_jobs)
  obtain raw where "extract_isolated ingest_sample_env JNull (tg_mime tg) = Inr raw"
    by (simp add: ingest_sample_env_def)
  then obtain v st1 where "materialise_cleaned ingest_sample_env tg ?st = (Inr v, st1)"
    using materialise_total [OF upl _ put res] by blast
  moreover have "\<not> version_embedded 1 2 (is_store (sample_state status))"
    by (simp add: version_embedded_def sample_state_def same_version_def ingest_sample_chunk_def)
  ultimately obtain r st' where "run_ingestion ingest_sample_env now fresh_id tg (sample_state status) = (Inr r, st')"
    using run_total [of ingest_sample_env tg now "sample_state status"] key by metis
  note run = this
  have "ks_vectors (is_store (sample_state status)) = []" by (simp add: sample_state_def)
  then have "\<not> version_embedded d v (is_store st')" for d v
    using run_chunked_doc(4) [OF run key(1)] no_vectors by simp
  then show thesis
    using that ingest_of_run [OF tg run] run_chunked_doc(6) [OF run key(1)] by blast
qed

subsection \<open>Properties\<close>





text \<open>C29. A run that does not end in \<open>chunked\<close> leaves every chunk and vector as it was and queues nothing. When the
  failure is permanent (\<open>ExtractionFailedError\<close>, \<open>ObjectNotFoundError\<close>) the task returns normally, and the document
  is \<open>failed\<close> with a note that is not retryable, names a stage whose job failed, carries the cause and message recorded
  on that job, and is sent as a notification. Any other exception leaves the task with the document still in progress,
  so that it is tried again.\<close>


theorem failed_runs_classified:
  assumes "load_target E d (is_store st) = Inr tg" "ingest E now ids d st = (res, st')"
    and "\<forall>r. res = Inr r \<longrightarrow> in_status r \<noteq> CHUNKED"
  shows "ks_chunks (is_store st') = ks_chunks (is_store st) \<and> ks_vectors (is_store st') = ks_vectors (is_store st)
    \<and> ks_queue (is_store st') = ks_queue (is_store st)
    \<and> (case res of
         Inr r \<Rightarrow> \<exists>note row. in_status r = FAILED \<and> in_error r = Some note \<and> \<not> fn_retryable note
           \<and> failed_job d (tg_version tg) (fn_stage note) (fn_cause note, fn_message note) (is_store st')
           \<and> find_doc d (is_store st') = Some row \<and> dr_status row = FAILED \<and> dr_error row = Some note
           \<and> FailedNotice d note \<in> set (ks_notices (is_store st'))
       | Inl e \<Rightarrow> \<not> is_permanent e
           \<and> (\<exists>row. find_doc d (is_store st') = Some row \<and> dr_status row \<in> {PARSING, CLEANED}))"
proof -
  obtain row where d: "tg_doc tg = d" and row: "find_doc (tg_doc tg) (is_store st) = Some row"
    using load_target_doc [OF assms(1)] by metis
  obtain e st1 where run: "run_ingestion E now ids tg st = (Inl e, st1)"
    and res: "(res, st') = (if is_permanent e then fail_permanently now tg e st1 else (Inl e, st1))"
    using assms run_chunked_doc(6) [of E now ids tg st _ _ d] d by (fastforce simp: ingest_def split: sum.splits prod.splits)
  note frame = run_failed_frame [OF run row]
  show ?thesis
  proof (cases "is_permanent e")
    case True
    let ?note = "failure_of (failing_stage tg (is_store st1)) e False None"
    have "failed_job d (tg_version tg) (fn_stage ?note) (fn_cause ?note, fn_message ?note) (is_store st1)"
      using permanent_failure_stage [OF run True] d by (simp add: failure_of_def)
    then show ?thesis
      using res True frame d
      by (auto simp: fail_permanently_def Let_def failed_job_def failure_of_def)
  next
    case False
    then show ?thesis using res frame d by simp
  qed
qed

definition missing_upload :: "(ustring \<times> json) list ingest_state" where
  "missing_upload = (sample_state UPLOADED)\<lparr>is_objects := []\<rparr>"

lemma failed_runs_classified_witness:
  "\<exists>tg note row (st' :: (ustring \<times> json) list ingest_state). load_target ingest_sample_env 1 (is_store missing_upload) = Inr tg
    \<and> ks_chunks (is_store st') = ks_chunks (is_store missing_upload) \<and> ks_queue (is_store st') = []
    \<and> fn_cause note = ''ObjectNotFoundError'' \<and> \<not> fn_retryable note
    \<and> find_doc 1 (is_store st') = Some row \<and> dr_status row = FAILED \<and> dr_error row = Some note"
proof -
  obtain tg where tg: "load_target ingest_sample_env 1 (is_store missing_upload) = Inr tg"
    and key: "tg_doc tg = 1" "tg_key tg = lit ''a''" "tg_version tg = 2"
    by (simp add: load_target_def sample_state_def find_doc_def find_kb_def missing_upload_def)
  define e where "e = \<lparr>ax_domain = True, ax_os_error = False, ax_class = ''ObjectNotFoundError'', ax_cause = '''',
     ax_message = [] :: ustring\<rparr>"
  have "resume_cleaned ingest_sample_env tg (mark 7 1 PARSING None missing_upload) = Inr None"
    by (rule resume_fresh) (simp add: sample_no_jobs missing_upload_def)
  then obtain st1 where run: "run_ingestion ingest_sample_env 7 fresh_id tg missing_upload = (Inl e, st1)"
    by (simp add: run_ingestion_def materialise_cleaned_def extract_stage_def Let_def key ingest_sample_env_def missing_upload_def e_def)
  have ing: "ingest ingest_sample_env 7 fresh_id 1 missing_upload = fail_permanently 7 tg e st1"
    using tg run by (simp add: ingest_def) (simp add: is_permanent_def e_def)
  obtain r st' where f: "fail_permanently 7 tg e st1 = (Inr r, st')" "in_status r = FAILED"
    "in_error r = Some (failure_of (failing_stage tg (is_store st1)) e False None)"
    by (simp add: fail_permanently_def Let_def)
  have start: "ks_queue (is_store missing_upload) = []" by (simp add: missing_upload_def sample_state_def)
  let ?note = "failure_of (failing_stage tg (is_store st1)) e False None"
  have note_fields: "fn_cause ?note = ''ObjectNotFoundError''" "\<not> fn_retryable ?note"
    by (simp_all add: failure_of_def error_payload_def e_def)
  from failed_runs_classified [OF tg ing [unfolded f(1)]] f(2,3) start
  obtain row where "ks_chunks (is_store st') = ks_chunks (is_store missing_upload)" "ks_queue (is_store st') = []"
    "find_doc 1 (is_store st') = Some row" "dr_status row = FAILED" "dr_error row = Some ?note"
    by auto
  with tg note_fields show ?thesis by blast
qed

subsection \<open>What the guards do not cover\<close>

text \<open>Once a chunk of the version has a vector, ingesting that version again cannot end in \<open>chunked\<close>: deleting the rows
  is refused. A task delivered a second time after the document became \<open>ready\<close> therefore raises, and when its
  retries are used up the finished document is marked \<open>failed\<close>.\<close>

lemma embedded_version_cannot_be_ingested:
  assumes "load_target E d (is_store st) = Inr tg" "version_embedded d (tg_version tg) (is_store st)"
    and "ingest E now ids d st = (Inr r, st')"
  shows "in_status r \<noteq> CHUNKED"
proof
  assume "in_status r = CHUNKED"
  then obtain tg' where tg': "load_target E d (is_store st) = Inr tg'" and run: "run_ingestion E now ids tg' st = (Inr r, st')"
    using ingest_chunked [OF assms(3)] by blast
  obtain cleaned stats st1 made st2 where
    m: "materialise_cleaned E tg' (mark now (tg_doc tg') PARSING None st) = (Inr (cleaned, stats), st1)"
    and c: "chunk_stage E tg' ids cleaned (mark now (tg_doc tg') CLEANED None st1) = (Inr made, st2)"
    using run_chunked [OF run] .
  have "version_embedded (tg_doc tg') (tg_version tg') (is_store st1)"
    using version_embedded_content [OF materialise_content [of "mark now (tg_doc tg') PARSING None st" E tg']] m assms(1,2) tg'
      load_target_doc [OF tg'] by auto
  with c chunk_stage_embedded [of E tg' ids cleaned "mark now (tg_doc tg') CLEANED None st1"] show False by simp
qed

lemma redelivery_fails_a_finished_document:
  assumes "load_target E d (is_store st) = Inr tg" "version_embedded d (tg_version tg) (is_store st)"
    and "materialise_cleaned E tg (mark now d PARSING None st) = (Inr v, st1)"
  shows "\<exists>st2. ingest E now ids d st = (Inl protected_error, st2)
    \<and> map_option dr_status (find_doc d (is_store (ingest_retries_exhausted now d protected_error n st2))) = Some FAILED"
proof -
  have d: "tg_doc tg = d" using load_target_doc [OF assms(1)] by metis
  have "version_embedded d (tg_version tg) (is_store st1)"
    using version_embedded_content [OF materialise_content [of "mark now d PARSING None st" E tg]] assms(2,3) by simp
  then obtain st2 where "chunk_stage E tg ids (fst v) (mark now d CLEANED None st1) = (Inl protected_error, st2)"
    using chunk_stage_embedded [of E tg ids "fst v" "mark now d CLEANED None st1"] d by (metis prod.collapse version_embedded_mark)
  then have run: "run_ingestion E now ids tg st = (Inl protected_error, st2)"
    using assms(3) d by (simp add: run_ingestion_def and_then_def case_prod_beta)
  then have "ingest E now ids d st = (Inl protected_error, st2)"
    by (simp add: ingest_def assms(1) is_permanent_def protected_error_def)
  moreover obtain row where "find_doc d (is_store st) = Some row"
    using load_target_doc [OF assms(1)] by metis
  then obtain row' where "find_doc d (is_store st2) = Some row'"
    using run_failed_frame(4) [OF run] d by blast
  ultimately show ?thesis
    by (auto simp: ingest_retries_exhausted_def Let_def)
qed

text \<open>The run writes the status of the document whatever its version is by then. When the document was re-ingested
  after the task took its snapshot, the run stores the chunks of the old version as current ones and declares the new
  version \<open>chunked\<close>, of which no chunk was stored.\<close>

lemma stale_run_revives_old_version:
  assumes "run_ingestion E now ids tg st = (Inr r, st')" "find_doc (tg_doc tg) (is_store st) = Some row"
    and "dr_version row \<noteq> tg_version tg"
    and "\<forall>c \<in> set (ks_chunks (is_store st)). \<not> same_version (tg_doc tg) (dr_version row) c"
  shows "\<exists>row'. find_doc (tg_doc tg) (is_store st') = Some row' \<and> dr_version row' = dr_version row \<and> dr_status row' = CHUNKED
    \<and> stored_chunks (tg_doc tg) (dr_version row) (is_store st') = []
    \<and> (\<forall>c \<in> set (ks_chunks (is_store st')). same_version (tg_doc tg) (tg_version tg) c \<longrightarrow> \<not> cr_superseded c)"
proof -
  let ?d = "tg_doc tg"
  obtain cleaned stats st1 made st2 where c: "chunk_stage E tg ids cleaned (mark now ?d CLEANED None st1) = (Inr made, st2)"
    and st': "st' = on_store (enqueue (EmbedTask ?d)) (mark now ?d CHUNKED None st2)"
    using run_chunked [OF assms(1)] .
  have active: "\<forall>c \<in> set (ks_chunks (is_store st')). same_version ?d (tg_version tg) c \<longrightarrow> \<not> cr_superseded c"
    using chunk_stage_active [OF c] by (simp add: st' enqueue_def)
  have kept: "filter (\<lambda>c. \<not> same_version ?d (tg_version tg) c) (ks_chunks (is_store st')) =
      filter (\<lambda>c. \<not> same_version ?d (tg_version tg) c) (ks_chunks (is_store st))"
    by (rule run_chunked_doc(5) [OF assms(1) refl])
  have "\<not> same_version ?d (dr_version row) c" if "c \<in> set (ks_chunks (is_store st'))" for c
  proof
    assume v: "same_version ?d (dr_version row) c"
    with assms(3) that have "c \<in> set (filter (\<lambda>c. \<not> same_version ?d (tg_version tg) c) (ks_chunks (is_store st')))"
      by (simp add: same_version_def)
    with kept assms(4) v show False by (metis filter_is_subset subsetD)
  qed
  then have "stored_chunks ?d (dr_version row) (is_store st') = []"
    by (simp add: stored_chunks_def filter_empty_conv)
  with active run_chunked_doc(1) [OF assms(1) refl] assms(2) show ?thesis by simp
qed

text \<open>Neither does it look whether the document still exists: a run that finishes after the deletion stores current chunks,
  which retrieval returns although the document is deleted.\<close>

lemma late_run_revives_deleted_document:
  assumes "run_ingestion E now ids tg st = (Inr r, st')" "find_doc (tg_doc tg) (is_store st) = None"
  shows "find_doc (tg_doc tg) (is_store st') = None
    \<and> in_chunks r = length (stored_chunks (tg_doc tg) (tg_version tg) (is_store st'))
    \<and> (\<forall>c \<in> set (ks_chunks (is_store st')). same_version (tg_doc tg) (tg_version tg) c \<longrightarrow> c \<in> set (for_retrieval (cr_kb c) (is_store st')))"
proof -
  let ?d = "tg_doc tg"
  obtain cleaned stats st1 made st2 where c: "chunk_stage E tg ids cleaned (mark now ?d CLEANED None st1) = (Inr made, st2)"
    and st': "st' = on_store (enqueue (EmbedTask ?d)) (mark now ?d CHUNKED None st2)"
    using run_chunked [OF assms(1)] .
  have "\<forall>c \<in> set (ks_chunks (is_store st')). same_version ?d (tg_version tg) c \<longrightarrow> \<not> cr_superseded c"
    using chunk_stage_active [OF c] by (simp add: st' enqueue_def)
  with run_chunked_doc(1,7) [OF assms(1) refl] assms(2) show ?thesis
    by (simp add: for_retrieval_def)
qed

end
