(* ===== verification/Documents.thy ===== *)
theory Documents
  imports Uploads Ingestion
begin

text \<open>
  The life of a document outside the pipeline: \<open>backend/services/knowledge/documents.py\<close> (upload, re-ingest, requeue,
  delete), the rescue of stuck documents of \<open>rescue.py\<close>, the daily clean-up of \<open>cleanup.py\<close> and the hard deletion of
  \<open>purge.py\<close>, with the repository operations they use. The tasks sent are recorded in order; sending is best effort,
  so one of them may never arrive. Lemmas: what each operation leaves untouched, and what retrieval
  sees after it.
\<close>

subsection \<open>The environment\<close>

datatype service_error =
    UploadRefused upload_error
  | Conflict
  | NotFound
  | Raised app_exn

record 'o life_env =
  le_files :: file_env
  le_sha256 :: "byte list \<Rightarrow> ustring"
  le_quota :: "string \<Rightarrow> nat \<Rightarrow> kstore \<Rightarrow> app_exn option"
  le_document_key :: "uuid128 \<Rightarrow> uuid128 \<Rightarrow> ustring"
  le_put :: "ustring \<Rightarrow> byte list \<Rightarrow> 'o \<Rightarrow> app_exn + 'o"
  le_delete :: "ustring \<Rightarrow> 'o \<Rightarrow> app_exn + 'o"
  le_between :: "kstore \<Rightarrow> kstore"
  le_in_progress_stale :: int
  le_stuck_after :: int
  le_retention_days :: int
  le_purge_batch :: nat
  le_rollback_days :: int
  le_reindex_purge_batch :: nat

record doc_view =
  dv_id :: uuid128
  dv_kb :: uuid128
  dv_filename :: ustring
  dv_mime :: ustring
  dv_size :: nat
  dv_status :: document_status
  dv_version :: int
  dv_error :: "failure_note option"

definition day_seconds :: int where
  "day_seconds = 86400"

definition view_of :: "uuid128 \<Rightarrow> doc_row \<Rightarrow> doc_view" where
  "view_of d r =
     \<lparr>dv_id = d, dv_kb = dr_kb r, dv_filename = dr_filename r, dv_mime = dr_mime r, dv_size = dr_size r,
      dv_status = dr_status r, dv_version = dr_version r, dv_error = dr_error r\<rparr>"

definition mime_name :: "media_type \<Rightarrow> ustring" where
  "mime_name m =
     lit (case m of
            PDF \<Rightarrow> ''application/pdf''
          | DOCX \<Rightarrow> ''application/vnd.openxmlformats-officedocument.wordprocessingml.document''
          | XLSX \<Rightarrow> ''application/vnd.openxmlformats-officedocument.spreadsheetml.sheet''
          | TEXT \<Rightarrow> ''text/plain''
          | MARKDOWN \<Rightarrow> ''text/markdown'')"

subsection \<open>The document table\<close>

definition visible_docs :: "kstore \<Rightarrow> (uuid128 \<times> doc_row) list" where
  "visible_docs s = filter (\<lambda>(d, r). dr_deleted r = None) (ks_docs s)"

definition for_kb :: "uuid128 \<Rightarrow> kstore \<Rightarrow> (uuid128 \<times> doc_row) list" where
  "for_kb kb s = sort_key (\<lambda>(d, r). - dr_created r) (filter (\<lambda>(d, r). dr_kb r = kb) (visible_docs s))"

definition find_by_content_hash :: "uuid128 \<Rightarrow> ustring \<Rightarrow> kstore \<Rightarrow> (uuid128 \<times> doc_row) option" where
  "find_by_content_hash kb h s = find (\<lambda>(d, r). dr_kb r = kb \<and> dr_hash r = h) (visible_docs s)"

text \<open>The insert, with the primary key, the foreign key and the unique constraint \<open>uq_document_tenant_kb_hash\<close>, which
  knows nothing of \<open>deleted_at\<close>.\<close>

definition create_document :: "uuid128 \<Rightarrow> doc_row \<Rightarrow> kstore \<Rightarrow> app_exn + kstore" where
  "create_document d r s =
     (if map_of (ks_docs s) d \<noteq> None \<or> map_of (ks_kbs s) (dr_kb r) = None
         \<or> list_ex (\<lambda>(d', r'). dr_kb r' = dr_kb r \<and> dr_hash r' = dr_hash r) (ks_docs s)
      then Inl (foreign ''IntegrityError'')
      else Inr (put_doc d r s))"

definition soft_delete_doc :: "int \<Rightarrow> uuid128 \<Rightarrow> kstore \<Rightarrow> kstore" where
  "soft_delete_doc now d s =
     (case find_doc d s of None \<Rightarrow> s | Some r \<Rightarrow> put_doc d (r\<lparr>dr_deleted := Some now\<rparr>) s)"

definition stuck_in :: "document_status list \<Rightarrow> int \<Rightarrow> kstore \<Rightarrow> (uuid128 \<times> doc_row) list" where
  "stuck_in statuses cutoff s =
     sort_key (\<lambda>(d, r). dr_updated r)
       (filter (\<lambda>(d, r). dr_status r \<in> set statuses \<and> dr_updated r < cutoff) (visible_docs s))"

subsection \<open>The document service\<close>

definition list_for_kb :: "uuid128 \<Rightarrow> kstore \<Rightarrow> service_error + doc_view list" where
  "list_for_kb kb s =
     (case find_kb kb s of
        None \<Rightarrow> Inl NotFound
      | Some _ \<Rightarrow> Inr (List.map (\<lambda>(d, r). view_of d r) (for_kb kb s)))"

definition get_document :: "uuid128 \<Rightarrow> kstore \<Rightarrow> service_error + doc_view" where
  "get_document d s = (case find_doc d s of None \<Rightarrow> Inl NotFound | Some r \<Rightarrow> Inr (view_of d r))"

definition check_upload ::
  "'o life_env \<Rightarrow> uuid128 \<Rightarrow> ustring \<Rightarrow> byte list \<Rightarrow> kstore \<Rightarrow> service_error + media_type" where
  "check_upload L kb filename content s =
     (case ensure_within_limit (length content) of
        Some e \<Rightarrow> Inl (UploadRefused e)
      | None \<Rightarrow>
          (case le_quota L ''documents'' 1 s of
             Some e \<Rightarrow> Inl (Raised e)
           | None \<Rightarrow>
               (case le_quota L ''storage_bytes'' (length content) s of
                  Some e \<Rightarrow> Inl (Raised e)
                | None \<Rightarrow>
                    (case detect_media_type (le_files L) content filename of
                       Inl e \<Rightarrow> Inl (UploadRefused e)
                     | Inr m \<Rightarrow>
                         if find_kb kb s = None then Inl NotFound
                         else if find_by_content_hash kb (le_sha256 L content) s \<noteq> None then Inl Conflict
                         else Inr m))))"

definition discard :: "'o life_env \<Rightarrow> ustring \<Rightarrow> 'o \<Rightarrow> 'o" where
  "discard L key ob = (case le_delete L key ob of Inl e \<Rightarrow> ob | Inr ob' \<Rightarrow> ob')"

definition new_document ::
  "'o life_env \<Rightarrow> int \<Rightarrow> uuid128 \<Rightarrow> uuid128 \<Rightarrow> ustring \<Rightarrow> byte list \<Rightarrow> uuid128 option \<Rightarrow> media_type \<Rightarrow> doc_row" where
  "new_document L now d kb filename content uploaded_by m =
     \<lparr>dr_kb = kb, dr_filename = filename, dr_mime = mime_name m, dr_key = le_document_key L kb d,
      dr_hash = le_sha256 L content, dr_size = length content, dr_uploaded_by = uploaded_by, dr_version = 1,
      dr_status = UPLOADED, dr_error = None, dr_created = now, dr_updated = now, dr_deleted = None\<rparr>"

text \<open>Between the check and the insert other requests may commit (\<open>le_between\<close>).\<close>

definition upload ::
  "'o life_env \<Rightarrow> int \<Rightarrow> uuid128 \<Rightarrow> uuid128 \<Rightarrow> ustring \<Rightarrow> byte list \<Rightarrow> uuid128 option \<Rightarrow> 'o ingest_state
   \<Rightarrow> (service_error + doc_view) \<times> 'o ingest_state" where
  "upload L now d kb filename content uploaded_by st =
     (case check_upload L kb filename content (is_store st) of
        Inl e \<Rightarrow> (Inl e, st)
      | Inr m \<Rightarrow>
          let key = le_document_key L kb d;
              row = new_document L now d kb filename content uploaded_by m
          in case le_put L key content (is_objects st) of
               Inl e \<Rightarrow> (Inl (Raised e), st)
             | Inr ob \<Rightarrow>
                 let s1 = le_between L (is_store st)
                 in case create_document d row s1 of
                      Inl e \<Rightarrow>
                        (Inl (if ax_class e = ''IntegrityError'' then Conflict else Raised e),
                         \<lparr>is_store = s1, is_objects = discard L key ob\<rparr>)
                    | Inr s2 \<Rightarrow>
                        (Inr (view_of d row), \<lparr>is_store = enqueue (IngestTask d) s2, is_objects = ob\<rparr>))"

definition reingest :: "'o life_env \<Rightarrow> int \<Rightarrow> uuid128 \<Rightarrow> kstore \<Rightarrow> (service_error + doc_view) \<times> kstore" where
  "reingest L now d s =
     (case find_doc d s of
        None \<Rightarrow> (Inl NotFound, s)
      | Some r \<Rightarrow>
          if dr_status r \<in> set in_progress_statuses \<and> now - le_in_progress_stale L < dr_updated r
          then (Inl Conflict, s)
          else
            let s1 = start_new_version now d (dr_version r + 1) (supersede_for_document d s)
            in case find_doc d s1 of
                 None \<Rightarrow> (Inl NotFound, s)
               | Some r1 \<Rightarrow> (Inr (view_of d r1), enqueue (IngestTask d) s1))"

definition task_for :: "uuid128 \<Rightarrow> document_status \<Rightarrow> task" where
  "task_for d status = (if status = UPLOADED then IngestTask d else EmbedTask d)"

definition send_all :: "(uuid128 \<times> document_status) list \<Rightarrow> kstore \<Rightarrow> kstore" where
  "send_all found s = fold (\<lambda>(d, status). enqueue (task_for d status)) found s"

definition stuck_documents :: "document_status list \<Rightarrow> int \<Rightarrow> kstore \<Rightarrow> (uuid128 \<times> document_status) list" where
  "stuck_documents statuses cutoff s = List.map (\<lambda>(d, r). (d, dr_status r)) (stuck_in statuses cutoff s)"

definition requeue_stuck ::
  "int \<Rightarrow> int \<Rightarrow> bool \<Rightarrow> kstore \<Rightarrow> (uuid128 \<times> document_status) list \<times> kstore" where
  "requeue_stuck now stale_after_minutes dry_run s =
     (let found = stuck_documents [UPLOADED, CHUNKED] (now - stale_after_minutes * 60) s
      in (found, if dry_run then s else send_all found s))"

definition rescue_tenant :: "'o life_env \<Rightarrow> int \<Rightarrow> kstore \<Rightarrow> nat \<times> kstore" where
  "rescue_tenant L now s =
     (let stuck = stuck_documents rescuable_statuses (now - le_stuck_after L) s
      in (length stuck, send_all stuck s))"

definition delete_document :: "int \<Rightarrow> uuid128 \<Rightarrow> kstore \<Rightarrow> (service_error + unit) \<times> kstore" where
  "delete_document now d s =
     (case find_doc d s of
        None \<Rightarrow> (Inl NotFound, s)
      | Some r \<Rightarrow> (Inr (), soft_delete_doc now d (supersede_for_document d s)))"

subsection \<open>Clean-up\<close>

definition drop_chunks :: "(chunk_row \<Rightarrow> bool) \<Rightarrow> kstore \<Rightarrow> nat \<times> kstore" where
  "drop_chunks P s =
     (let gone = filter P (ks_chunks s)
      in (length gone,
          s\<lparr>ks_vectors := filter (\<lambda>(k, v). fst k \<notin> set (List.map cr_id gone)) (ks_vectors s),
            ks_chunks := filter (\<lambda>c. \<not> P c) (ks_chunks s)\<rparr>))"

definition purge_superseded_of_ready :: "kstore \<Rightarrow> nat \<times> kstore" where
  "purge_superseded_of_ready s =
     drop_chunks (\<lambda>c. cr_superseded c \<and> map_option dr_status (map_of (ks_docs s) (cr_doc c)) = Some READY) s"

definition purge_other_versions :: "uuid128 \<Rightarrow> ustring \<Rightarrow> int \<Rightarrow> kstore \<Rightarrow> nat \<times> kstore" where
  "purge_other_versions kb model version s =
     (let of_kb = List.map cr_id (filter (\<lambda>c. cr_kb c = kb) (ks_chunks s));
          goes = (\<lambda>(k, v). fst k \<in> set of_kb \<and> \<not> (fst (snd k) = model \<and> snd (snd k) = version))
      in (length (filter goes (ks_vectors s)), s\<lparr>ks_vectors := filter (\<lambda>x. \<not> goes x) (ks_vectors s)\<rparr>))"

definition switched_before :: "int \<Rightarrow> nat \<Rightarrow> kstore \<Rightarrow> (uuid128 \<times> reindex_row) list" where
  "switched_before cutoff n s =
     take n (sort_key (\<lambda>(j, r). or_else (rj_switched r) 0)
       (filter (\<lambda>(j, r). rj_status r = R_COMPLETED \<and> rj_purged r = None
                 \<and> (case rj_switched r of None \<Rightarrow> False | Some t \<Rightarrow> t < cutoff)) (ks_reindex s)))"

text \<open>\<open>update\<close> always moves \<open>updated_at\<close>.\<close>

definition update_reindex :: "int \<Rightarrow> uuid128 \<Rightarrow> (reindex_row \<Rightarrow> reindex_row) \<Rightarrow> kstore \<Rightarrow> kstore" where
  "update_reindex now j f s =
     (case map_of (ks_reindex s) j of
        None \<Rightarrow> s
      | Some r \<Rightarrow> s\<lparr>ks_reindex := AList.update j ((f r)\<lparr>rj_updated := now\<rparr>) (ks_reindex s)\<rparr>)"

definition purge_switched :: "'o life_env \<Rightarrow> int \<Rightarrow> kstore \<Rightarrow> nat \<times> kstore" where
  "purge_switched L now s =
     fold (\<lambda>(j, r) (n, s).
         case find_kb (rj_kb r) s of
           None \<Rightarrow> (n, update_reindex now j (\<lambda>r. r\<lparr>rj_purged := Some now\<rparr>) s)
         | Some kb \<Rightarrow>
             (case purge_other_versions (rj_kb r) (kb_model kb) (kb_version kb) s of
                (k, s') \<Rightarrow> (n + k, update_reindex now j (\<lambda>r. r\<lparr>rj_purged := Some now\<rparr>) s')))
       (switched_before (now - le_rollback_days L * day_seconds) (le_reindex_purge_batch L) s) (0, s)"

subsection \<open>Hard deletion\<close>

definition purgeable :: "int \<Rightarrow> nat \<Rightarrow> kstore \<Rightarrow> (uuid128 \<times> ustring) list" where
  "purgeable cutoff n s =
     List.map (\<lambda>(d, r). (d, dr_key r))
       (take n (sort_key (\<lambda>(d, r). dr_created r)
          (filter (\<lambda>(d, r). (case dr_deleted r of Some t \<Rightarrow> t < cutoff | None \<Rightarrow> False)
                      \<or> (case map_of (ks_kbs s) (dr_kb r) of
                           Some kb \<Rightarrow> (case kb_deleted kb of Some t \<Rightarrow> t < cutoff | None \<Rightarrow> False)
                         | None \<Rightarrow> False)) (ks_docs s))))"

definition purge_for_documents :: "uuid128 list \<Rightarrow> kstore \<Rightarrow> nat \<times> kstore" where
  "purge_for_documents ds = drop_chunks (\<lambda>c. cr_doc c \<in> set ds)"

definition purge_jobs_for_documents :: "uuid128 list \<Rightarrow> kstore \<Rightarrow> nat \<times> kstore" where
  "purge_jobs_for_documents ds s =
     (let keep = filter (\<lambda>(k, j). fst k \<notin> set ds) (ks_job_rows s)
      in (length (ks_job_rows s) - length keep, s\<lparr>ks_job_rows := keep\<rparr>))"

text \<open>The rows that refer to a document or to a knowledge base protect it.\<close>

definition hard_delete_documents :: "uuid128 list \<Rightarrow> kstore \<Rightarrow> app_exn + (nat \<times> kstore)" where
  "hard_delete_documents ds s =
     (if list_ex (\<lambda>c. cr_doc c \<in> set ds) (ks_chunks s) \<or> list_ex (\<lambda>(k, j). fst k \<in> set ds) (ks_job_rows s)
      then Inl protected_error
      else Inr (length (filter (\<lambda>(d, r). d \<in> set ds) (ks_docs s)),
                s\<lparr>ks_docs := filter (\<lambda>(d, r). d \<notin> set ds) (ks_docs s)\<rparr>))"

definition kbs_deleted_before :: "int \<Rightarrow> nat \<Rightarrow> kstore \<Rightarrow> uuid128 list" where
  "kbs_deleted_before cutoff n s =
     take n (List.map fst (sort_key (\<lambda>(k, r). or_else (kb_deleted r) 0)
       (filter (\<lambda>(k, r). case kb_deleted r of Some t \<Rightarrow> t < cutoff | None \<Rightarrow> False) (ks_kbs s))))"

definition count_all_in_kb :: "uuid128 \<Rightarrow> kstore \<Rightarrow> nat" where
  "count_all_in_kb kb s = length (filter (\<lambda>(d, r). dr_kb r = kb) (ks_docs s))"

definition hard_delete_kbs :: "uuid128 list \<Rightarrow> kstore \<Rightarrow> app_exn + (nat \<times> kstore)" where
  "hard_delete_kbs kbs s =
     (if list_ex (\<lambda>(d, r). dr_kb r \<in> set kbs) (ks_docs s) \<or> list_ex (\<lambda>c. cr_kb c \<in> set kbs) (ks_chunks s)
         \<or> list_ex (\<lambda>(j, r). rj_kb r \<in> set kbs) (ks_reindex s)
      then Inl protected_error
      else Inr (length (filter (\<lambda>(k, r). k \<in> set kbs) (ks_kbs s)),
                s\<lparr>ks_kbs := filter (\<lambda>(k, r). k \<notin> set kbs) (ks_kbs s)\<rparr>))"

definition purge_objects :: "'o life_env \<Rightarrow> ustring list \<Rightarrow> 'o \<Rightarrow> nat \<times> 'o" where
  "purge_objects L keys ob =
     fold (\<lambda>key (n, ob). case le_delete L key ob of Inl e \<Rightarrow> (n, ob) | Inr ob' \<Rightarrow> (n + 1, ob')) keys (0, ob)"

record purge_counts =
  pc_knowledge_bases :: nat
  pc_documents :: nat
  pc_chunks :: nat
  pc_objects :: nat

text \<open>The rows that go in the second transaction: the documents, and the knowledge bases that are empty then.\<close>

definition purge_rows :: "int \<Rightarrow> nat \<Rightarrow> uuid128 list \<Rightarrow> kstore \<Rightarrow> app_exn + (nat \<times> nat \<times> kstore)" where
  "purge_rows cutoff n ds s =
     (case hard_delete_documents ds s of
        Inl e \<Rightarrow> Inl e
      | Inr (documents, s1) \<Rightarrow>
          (case hard_delete_kbs (filter (\<lambda>k. count_all_in_kb k s1 = 0) (kbs_deleted_before cutoff n s1)) s1 of
             Inl e \<Rightarrow> Inl e
           | Inr (kbs, s2) \<Rightarrow> Inr (documents, kbs, s2)))"

definition purge_for_tenant ::
  "'o life_env \<Rightarrow> int \<Rightarrow> int option \<Rightarrow> 'o ingest_state \<Rightarrow> (app_exn + purge_counts) \<times> 'o ingest_state" where
  "purge_for_tenant L now deleted_before st =
     (let cutoff = or_else deleted_before (now - le_retention_days L * day_seconds);
          targets = purgeable cutoff (le_purge_batch L) (is_store st);
          ds = List.map fst targets
      in case purge_for_documents ds (is_store st) of
           (chunk_count, s1) \<Rightarrow>
             (case purge_jobs_for_documents ds s1 of
                (jobs, s2) \<Rightarrow>
                  (case purge_objects L (List.map snd targets) (is_objects st) of
                     (objects, ob) \<Rightarrow>
                       (case purge_rows cutoff (le_purge_batch L) ds s2 of
                          Inl e \<Rightarrow> (Inl e, \<lparr>is_store = s2, is_objects = ob\<rparr>)
                        | Inr (documents, kbs, s3) \<Rightarrow>
                            (Inr \<lparr>pc_knowledge_bases = kbs, pc_documents = documents, pc_chunks = chunk_count, pc_objects = objects\<rparr>,
                             \<lparr>is_store = s3, is_objects = ob\<rparr>)))))"

subsection \<open>What retrieval sees\<close>

lemma retrieval_cong: "ks_chunks s' = ks_chunks s \<Longrightarrow> for_retrieval kb s' = for_retrieval kb s"
  by (simp add: for_retrieval_def)

lemma supersede_frame [simp]:
  "ks_docs (supersede_for_document d s) = ks_docs s" "ks_kbs (supersede_for_document d s) = ks_kbs s"
  "ks_vectors (supersede_for_document d s) = ks_vectors s" "ks_queue (supersede_for_document d s) = ks_queue s"
  "ks_job_rows (supersede_for_document d s) = ks_job_rows s" "ks_reindex (supersede_for_document d s) = ks_reindex s"
  "find_doc d' (supersede_for_document d s) = find_doc d' s"
  by (simp_all add: supersede_for_document_def find_doc_def)

lemma for_retrieval_superseded: "for_retrieval kb (supersede_for_document d s) = filter (\<lambda>c. cr_doc c \<noteq> d) (for_retrieval kb s)"
proof -
  have "filter (\<lambda>c. cr_kb c = kb \<and> \<not> cr_superseded c) (List.map (\<lambda>c. if cr_doc c = d then c\<lparr>cr_superseded := True\<rparr> else c) cs) =
        filter (\<lambda>c. cr_doc c \<noteq> d) (filter (\<lambda>c. cr_kb c = kb \<and> \<not> cr_superseded c) cs)" for cs :: "chunk_row list"
    by (induction cs) auto
  then show ?thesis
    by (simp add: for_retrieval_def supersede_for_document_def filter_sort)
qed

lemma put_doc_retrieval [simp]: "for_retrieval kb (put_doc d r s) = for_retrieval kb s"
  by (rule retrieval_cong) simp

lemma update_rows: "set (AList.update k v al) \<subseteq> insert (k, v) (set al)"
  by (induction al) auto

lemma put_doc_rows: "set (ks_docs (put_doc d r s)) \<subseteq> insert (d, r) (set (ks_docs s))"
  using update_rows [of d r "ks_docs s"] by (simp add: put_doc_def)

lemma soft_delete_frame [simp]:
  "ks_chunks (soft_delete_doc now d s) = ks_chunks s" "ks_vectors (soft_delete_doc now d s) = ks_vectors s"
  "ks_queue (soft_delete_doc now d s) = ks_queue s" "ks_job_rows (soft_delete_doc now d s) = ks_job_rows s"
  by (simp_all add: soft_delete_doc_def put_doc_def split: option.split)

lemma find_doc_soft_delete:
  "find_doc d' (soft_delete_doc now d s) = (if d' = d then None else find_doc d' s)"
  by (auto simp: soft_delete_doc_def split: option.split)

lemma enqueue_frame [simp]:
  "ks_docs (enqueue t s) = ks_docs s" "ks_vectors (enqueue t s) = ks_vectors s" "ks_queue (enqueue t s) = ks_queue s @ [t]"
  "ks_chunks (enqueue t s) = ks_chunks s" "ks_kbs (enqueue t s) = ks_kbs s"
  by (simp_all add: enqueue_def)

lemma send_all_frame [simp]:
  "ks_docs (send_all found s) = ks_docs s" "ks_chunks (send_all found s) = ks_chunks s"
  "ks_vectors (send_all found s) = ks_vectors s"
  "ks_queue (send_all found s) = ks_queue s @ List.map (\<lambda>(d, st). task_for d st) found"
proof -
  show "ks_docs (send_all found s) = ks_docs s" "ks_chunks (send_all found s) = ks_chunks s"
    "ks_vectors (send_all found s) = ks_vectors s"
    unfolding send_all_def by (induction found arbitrary: s) auto
  show "ks_queue (send_all found s) = ks_queue s @ List.map (\<lambda>(d, st). task_for d st) found"
    unfolding send_all_def by (induction found arbitrary: s) auto
qed

lemma stuck_in_iff:
  "(d, r) \<in> set (stuck_in statuses cutoff s) \<longleftrightarrow>
     (d, r) \<in> set (ks_docs s) \<and> dr_deleted r = None \<and> dr_status r \<in> set statuses \<and> dr_updated r < cutoff"
  by (auto simp: stuck_in_def visible_docs_def)

lemma drop_chunks_retrieval:
  assumes "\<And>c. P c \<Longrightarrow> cr_superseded c"
  shows "for_retrieval kb (snd (drop_chunks P s)) = for_retrieval kb s"
proof -
  have "filter (\<lambda>c. cr_kb c = kb \<and> \<not> cr_superseded c) (filter (\<lambda>c. \<not> P c) cs) = filter (\<lambda>c. cr_kb c = kb \<and> \<not> cr_superseded c) cs" for cs
    using assms by (induction cs) auto
  then show ?thesis
    by (simp add: for_retrieval_def drop_chunks_def Let_def)
qed

lemma drop_chunks_vectors:
  assumes "distinct (List.map cr_id (ks_chunks s))" "c \<in> set (ks_chunks s)" "\<not> P c" "fst (fst kv) = cr_id c"
  shows "kv \<in> set (ks_vectors (snd (drop_chunks P s))) \<longleftrightarrow> kv \<in> set (ks_vectors s)"
proof -
  have "cr_id c \<notin> cr_id ` set (filter P (ks_chunks s))"
    using assms(1-3) by (auto simp: distinct_map dest: inj_onD)
  then show ?thesis
    using assms(4) by (auto simp: drop_chunks_def Let_def)
qed

subsection \<open>What a purge takes\<close>

definition before :: "int \<Rightarrow> int option \<Rightarrow> bool" where
  "before cutoff t = (case t of Some x \<Rightarrow> x < cutoff | None \<Rightarrow> False)"

text \<open>A document is past its retention when it, or its knowledge base, was deleted before the cut-off.\<close>

definition expired :: "int \<Rightarrow> kstore \<Rightarrow> doc_row \<Rightarrow> bool" where
  "expired cutoff s r =
     (before cutoff (dr_deleted r)
      \<or> (case map_of (ks_kbs s) (dr_kb r) of Some kb \<Rightarrow> before cutoff (kb_deleted kb) | None \<Rightarrow> False))"

lemma purgeable_expired:
  assumes "(d, key) \<in> set (purgeable cutoff n s)"
  obtains r where "(d, r) \<in> set (ks_docs s)" "key = dr_key r" "expired cutoff s r"
proof -
  obtain r where r: "(d, r) \<in> set (filter (\<lambda>(d, r). expired cutoff s r) (ks_docs s))" "key = dr_key r"
    using assms by (auto simp: purgeable_def expired_def before_def cong: option.case_cong dest!: in_set_takeD)
  show ?thesis by (rule that [of r]) (use r in auto)
qed

lemma kept_not_target:
  assumes "distinct (List.map fst (ks_docs s))" "(d, r) \<in> set (ks_docs s)" "\<not> expired cutoff s r"
  shows "d \<notin> set (List.map fst (purgeable cutoff n s))"
proof
  assume "d \<in> set (List.map fst (purgeable cutoff n s))"
  then obtain key where "(d, key) \<in> set (purgeable cutoff n s)" by auto
  then obtain r' where "(d, r') \<in> set (ks_docs s)" "expired cutoff s r'" by (rule purgeable_expired)
  with assms show False by (metis eq_key_imp_eq_value)
qed

lemma drop_chunks_frame [simp]:
  "ks_docs (snd (drop_chunks P s)) = ks_docs s" "ks_kbs (snd (drop_chunks P s)) = ks_kbs s"
  "ks_job_rows (snd (drop_chunks P s)) = ks_job_rows s" "ks_reindex (snd (drop_chunks P s)) = ks_reindex s"
  "ks_chunks (snd (drop_chunks P s)) = filter (\<lambda>c. \<not> P c) (ks_chunks s)"
  by (simp_all add: drop_chunks_def Let_def)

lemma drop_chunks_no_vector:
  "c \<in> set (ks_chunks s) \<Longrightarrow> P c \<Longrightarrow> kv \<in> set (ks_vectors (snd (drop_chunks P s))) \<Longrightarrow> fst (fst kv) \<noteq> cr_id c"
  by (auto simp: drop_chunks_def Let_def)

lemma purge_jobs_frame [simp]:
  "ks_docs (snd (purge_jobs_for_documents ds s)) = ks_docs s" "ks_kbs (snd (purge_jobs_for_documents ds s)) = ks_kbs s"
  "ks_chunks (snd (purge_jobs_for_documents ds s)) = ks_chunks s" "ks_vectors (snd (purge_jobs_for_documents ds s)) = ks_vectors s"
  "ks_reindex (snd (purge_jobs_for_documents ds s)) = ks_reindex s"
  "ks_job_rows (snd (purge_jobs_for_documents ds s)) = filter (\<lambda>(k, j). fst k \<notin> set ds) (ks_job_rows s)"
  by (simp_all add: purge_jobs_for_documents_def Let_def)

lemma kbs_deleted_before_sub:
  assumes "k \<in> set (kbs_deleted_before cutoff n s)"
  obtains r where "(k, r) \<in> set (ks_kbs s)" "before cutoff (kb_deleted r)"
  using assms unfolding kbs_deleted_before_def before_def
  by (fastforce dest!: in_set_takeD)

lemma purge_rows_done:
  assumes "purge_rows cutoff n ds s = Inr (documents, kbs, s')"
  shows "ks_docs s' = filter (\<lambda>(d, r). d \<notin> set ds) (ks_docs s)" "ks_chunks s' = ks_chunks s" "ks_vectors s' = ks_vectors s"
    "ks_job_rows s' = ks_job_rows s" "ks_reindex s' = ks_reindex s"
    "(k, r) \<in> set (ks_kbs s) \<Longrightarrow> (\<And>r'. (k, r') \<in> set (ks_kbs s) \<Longrightarrow> \<not> before cutoff (kb_deleted r')) \<Longrightarrow> (k, r) \<in> set (ks_kbs s')"
proof -
  obtain s1 where s1: "hard_delete_documents ds s = Inr (documents, s1)"
      "hard_delete_kbs (filter (\<lambda>k. count_all_in_kb k s1 = 0) (kbs_deleted_before cutoff n s1)) s1 = Inr (kbs, s')"
    using assms by (auto simp: purge_rows_def split: sum.splits prod.splits)
  show "ks_docs s' = filter (\<lambda>(d, r). d \<notin> set ds) (ks_docs s)" "ks_chunks s' = ks_chunks s" "ks_vectors s' = ks_vectors s"
    "ks_job_rows s' = ks_job_rows s" "ks_reindex s' = ks_reindex s"
    using s1 by (auto simp: hard_delete_documents_def hard_delete_kbs_def split: if_splits)
  show "(k, r) \<in> set (ks_kbs s')" if "(k, r) \<in> set (ks_kbs s)" "\<And>r'. (k, r') \<in> set (ks_kbs s) \<Longrightarrow> \<not> before cutoff (kb_deleted r')"
  proof -
    have "ks_kbs s1 = ks_kbs s"
      using s1(1) by (auto simp: hard_delete_documents_def split: if_splits)
    then have "k \<notin> set (kbs_deleted_before cutoff n s1)"
      using that(2) by (metis kbs_deleted_before_sub)
    with s1 that(1) show ?thesis
      by (auto simp: hard_delete_documents_def hard_delete_kbs_def split: if_splits)
  qed
qed

subsection \<open>Properties\<close>

text \<open>A deleted document is out of every query at once, also of retrieval, which does not look at the document table:
  the document is not found any more, the chunks that retrieval can return are those it could return before without
  the document's, and all other documents and all vectors are as they were.\<close>

theorem deleted_documents_leave_retrieval:
  assumes "delete_document now d s = (Inr (), s')"
  shows "find_doc d s' = None
    \<and> (\<forall>kb. for_retrieval kb s' = filter (\<lambda>c. cr_doc c \<noteq> d) (for_retrieval kb s))
    \<and> (\<forall>d'. d' \<noteq> d \<longrightarrow> find_doc d' s' = find_doc d' s) \<and> ks_vectors s' = ks_vectors s"
proof -
  have s': "s' = soft_delete_doc now d (supersede_for_document d s)"
    using assms by (auto simp: delete_document_def split: option.splits)
  have "for_retrieval kb s' = for_retrieval kb (supersede_for_document d s)" for kb
    by (rule retrieval_cong) (simp add: s')
  then show ?thesis
    by (simp add: s' find_doc_soft_delete for_retrieval_superseded)
qed

text \<open>A re-ingest is refused exactly while another task may be writing the document (in progress, and touched within the
  stale limit); otherwise it starts the next version: the version grows by one, the status is \<open>uploaded\<close> without an
  error, every chunk of the document is superseded, none is deleted, and one ingestion task is sent.\<close>

theorem reingest_starts_the_next_version:
  assumes "find_doc d s = Some r"
  shows "if dr_status r \<in> {PARSING, CLEANED, EMBEDDING} \<and> now - le_in_progress_stale L < dr_updated r
    then reingest L now d s = (Inl Conflict, s)
    else \<exists>v s'. reingest L now d s = (Inr v, s') \<and> dv_version v = dr_version r + 1
      \<and> find_doc d s' = Some (r\<lparr>dr_version := dr_version r + 1, dr_status := UPLOADED, dr_error := None, dr_updated := now\<rparr>)
      \<and> (\<forall>c \<in> set (ks_chunks s'). cr_doc c = d \<longrightarrow> cr_superseded c)
      \<and> List.map cr_id (ks_chunks s') = List.map cr_id (ks_chunks s) \<and> ks_vectors s' = ks_vectors s
      \<and> ks_queue s' = ks_queue s @ [IngestTask d]"
proof -
  have live: "dr_deleted r = None" by (rule find_doc_not_deleted [OF assms])
  have ids: "List.map cr_id (ks_chunks (supersede_for_document d s)) = List.map cr_id (ks_chunks s)"
    unfolding supersede_for_document_def by (simp add: comp_def if_distrib [of cr_id])
  have all: "\<forall>c \<in> set (ks_chunks (supersede_for_document d s)). cr_doc c = d \<longrightarrow> cr_superseded c"
    unfolding supersede_for_document_def by (simp add: ball_Un)
  let ?s1 = "put_doc d (r\<lparr>dr_version := dr_version r + 1, dr_status := UPLOADED, dr_error := None, dr_updated := now\<rparr>)
      (supersede_for_document d s)"
  have new: "start_new_version now d (dr_version r + 1) (supersede_for_document d s) = ?s1"
    by (simp add: start_new_version_def assms)
  show ?thesis
  proof (cases "dr_status r \<in> {PARSING, CLEANED, EMBEDDING} \<and> now - le_in_progress_stale L < dr_updated r")
    case True
    then show ?thesis using assms by (simp add: reingest_def in_progress_statuses_def)
  next
    case False
    then have "reingest L now d s =
        (Inr (view_of d (r\<lparr>dr_version := dr_version r + 1, dr_status := UPLOADED, dr_error := None, dr_updated := now\<rparr>)),
         enqueue (IngestTask d) ?s1)"
      using assms live by (simp add: reingest_def in_progress_statuses_def Let_def new del: put_doc_frame)
    with False live ids all show ?thesis
      by (simp only: if_False) (simp add: view_of_def)
  qed
qed

text \<open>The rescue sends exactly one task for every visible document that has sat in \<open>uploaded\<close> or \<open>chunked\<close> for longer
  than the threshold, ingestion for the former and embedding for the latter, oldest first, and none for any other
  document; it changes no row.\<close>

theorem rescue_sends_one_task_each:
  assumes "rescue_tenant L now s = (n, s')"
  shows "\<exists>found. sorted (List.map (\<lambda>(d, r). dr_updated r) found) \<and> n = length found
    \<and> ks_queue s' = ks_queue s @ List.map (\<lambda>(d, r). if dr_status r = UPLOADED then IngestTask d else EmbedTask d) found
    \<and> ks_docs s' = ks_docs s \<and> ks_chunks s' = ks_chunks s
    \<and> (\<forall>d r. (d, r) \<in> set found \<longleftrightarrow> (d, r) \<in> set (ks_docs s) \<and> dr_deleted r = None
         \<and> dr_status r \<in> {UPLOADED, CHUNKED} \<and> dr_updated r < now - le_stuck_after L)
    \<and> (distinct (List.map fst (ks_docs s)) \<longrightarrow> distinct (List.map fst found))"
proof -
  let ?found = "stuck_in rescuable_statuses (now - le_stuck_after L) s"
  have "sorted (List.map (\<lambda>(d, r). dr_updated r) ?found)"
    by (simp add: stuck_in_def)
  moreover have "distinct (List.map fst ?found)" if "distinct (List.map fst (ks_docs s))"
    using that unfolding stuck_in_def visible_docs_def
    by (simp add: distinct_map inj_on_def)
  moreover have "n = length ?found"
    "ks_queue s' = ks_queue s @ List.map (\<lambda>(d, r). if dr_status r = UPLOADED then IngestTask d else EmbedTask d) ?found"
    "ks_docs s' = ks_docs s" "ks_chunks s' = ks_chunks s"
    using assms by (auto simp: rescue_tenant_def Let_def stuck_documents_def task_for_def case_prod_beta comp_def)
  moreover have "\<forall>d r. (d, r) \<in> set ?found \<longleftrightarrow> (d, r) \<in> set (ks_docs s) \<and> dr_deleted r = None
         \<and> dr_status r \<in> {UPLOADED, CHUNKED} \<and> dr_updated r < now - le_stuck_after L"
    by (simp add: stuck_in_iff rescuable_statuses_def)
  ultimately show ?thesis by (intro exI [of _ ?found]) simp
qed

text \<open>The daily clean-up removes only superseded chunks of documents that are \<open>ready\<close>, with their vectors: retrieval
  returns in every knowledge base what it returned before, and a chunk that stays keeps its vectors.\<close>

theorem cleanup_keeps_what_is_served:
  assumes "purge_superseded_of_ready s = (n, s')" "distinct (List.map cr_id (ks_chunks s))"
  shows "(\<forall>kb. for_retrieval kb s' = for_retrieval kb s)
    \<and> (\<forall>c \<in> set (ks_chunks s). c \<in> set (ks_chunks s') \<or> cr_superseded c \<and> map_option dr_status (map_of (ks_docs s) (cr_doc c)) = Some READY)
    \<and> (\<forall>c \<in> set (ks_chunks s'). \<forall>kv. fst (fst kv) = cr_id c \<longrightarrow> (kv \<in> set (ks_vectors s') \<longleftrightarrow> kv \<in> set (ks_vectors s)))
    \<and> (\<forall>kv \<in> set (ks_vectors s'). \<forall>c \<in> set (ks_chunks s). cr_id c = fst (fst kv) \<longrightarrow> c \<in> set (ks_chunks s'))
    \<and> n + length (ks_chunks s') = length (ks_chunks s)"
proof -
  let ?P = "\<lambda>c. cr_superseded c \<and> map_option dr_status (map_of (ks_docs s) (cr_doc c)) = Some READY"
  have s': "s' = snd (drop_chunks ?P s)" and n: "n = length (filter ?P (ks_chunks s))"
    using assms(1) by (auto simp: purge_superseded_of_ready_def drop_chunks_def Let_def)
  have cs: "ks_chunks s' = filter (\<lambda>c. \<not> ?P c) (ks_chunks s)"
    unfolding s' by (simp add: drop_chunks_def Let_def)
  have "for_retrieval kb s' = for_retrieval kb s" for kb
    unfolding s' by (rule drop_chunks_retrieval) simp
  moreover have "kv \<in> set (ks_vectors s') \<longleftrightarrow> kv \<in> set (ks_vectors s)" if "c \<in> set (ks_chunks s')" "fst (fst kv) = cr_id c" for c kv
    unfolding s' by (rule drop_chunks_vectors [OF assms(2) _ _ that(2)]) (use that(1) cs in auto)
  moreover have "c \<in> set (ks_chunks s')" if "kv \<in> set (ks_vectors s')" "c \<in> set (ks_chunks s)" "cr_id c = fst (fst kv)" for kv c
    using that unfolding cs by (force simp: s' drop_chunks_def Let_def case_prod_beta)
  moreover have "n + length (ks_chunks s') = length (ks_chunks s)"
    using sum_length_filter_compl [of ?P "ks_chunks s"] by (simp add: n cs)
  ultimately show ?thesis by (auto simp: cs)
qed

text \<open>An upload leaves all or nothing. A refused one leaves the object store as it was and no row (the tables are those
  found before it, or what other requests made of them in between), given that the object store deletes what was just
  stored under the new key. An accepted one adds exactly one document, in version 1, \<open>uploaded\<close>, with the content
  stored under its key and one ingestion task sent, and no other document of the knowledge base has that content.\<close>

theorem upload_all_or_nothing:
  assumes "upload L now d kb filename content by_user st = (res, st')"
    and "\<And>ob'. le_put L (le_document_key L kb d) content (is_objects st) = Inr ob' \<Longrightarrow>
        le_delete L (le_document_key L kb d) ob' = Inr (is_objects st)"
  shows "case res of
      Inl e \<Rightarrow> is_objects st' = is_objects st \<and> is_store st' \<in> {is_store st, le_between L (is_store st)}
    | Inr v \<Rightarrow>
        (\<exists>m row. check_upload L kb filename content (is_store st) = Inr m
           \<and> row = new_document L now d kb filename content by_user m \<and> v = view_of d row
           \<and> dr_version row = 1 \<and> dr_status row = UPLOADED
           \<and> le_put L (dr_key row) content (is_objects st) = Inr (is_objects st')
           \<and> is_store st' = enqueue (IngestTask d) (put_doc d row (le_between L (is_store st)))
           \<and> find_doc d (is_store st') = Some row \<and> map_of (ks_docs (le_between L (is_store st))) d = None
           \<and> (\<forall>d' r'. (d', r') \<in> set (ks_docs (is_store st')) \<longrightarrow> dr_kb r' = kb \<longrightarrow> dr_hash r' = dr_hash row \<longrightarrow> d' = d))"
proof (cases "check_upload L kb filename content (is_store st)")
  case (Inl e)
  with assms(1) show ?thesis by (auto simp: upload_def)
next
  case (Inr m)
  let ?row = "new_document L now d kb filename content by_user m" and ?s1 = "le_between L (is_store st)"
  show ?thesis
  proof (cases "le_put L (le_document_key L kb d) content (is_objects st)")
    case (Inl e)
    with Inr assms(1) show ?thesis by (auto simp: upload_def Let_def)
  next
    case put: (Inr ob)
    show ?thesis
    proof (cases "create_document d ?row ?s1")
      case (Inl e)
      with Inr put assms show ?thesis by (auto simp: upload_def Let_def discard_def)
    next
      case (Inr s2)
      then have s2: "s2 = put_doc d ?row ?s1" and new: "map_of (ks_docs ?s1) d = None"
        and only: "\<forall>(d', r') \<in> set (ks_docs ?s1). \<not> (dr_kb r' = kb \<and> dr_hash r' = dr_hash ?row)"
        by (auto simp: create_document_def list_ex_iff new_document_def split: if_splits)
      have row: "dr_version ?row = 1" "dr_status ?row = UPLOADED" "dr_deleted ?row = None" "dr_key ?row = le_document_key L kb d"
        by (simp_all add: new_document_def)
      have "d' = d" if "(d', r') \<in> set (ks_docs s2)" "dr_kb r' = kb" "dr_hash r' = dr_hash ?row" for d' r'
        using that only put_doc_rows [of d ?row ?s1] by (auto simp: s2)
      moreover have "res = Inr (view_of d ?row)" "is_store st' = enqueue (IngestTask d) s2" "is_objects st' = ob"
        using assms(1) put Inr \<open>check_upload L kb filename content (is_store st) = Inr m\<close> by (auto simp: upload_def Let_def)
      ultimately show ?thesis
        using s2 new put row \<open>check_upload L kb filename content (is_store st) = Inr m\<close> by (auto simp del: put_doc_frame)
    qed
  qed
qed

text \<open>Hard deletion takes only what is past its retention. Documents and knowledge bases that are not keep their rows,
  chunks, vectors and jobs; after a successful run the purged documents have left no row, chunk, vector or job; after a
  run that raises, all document rows are still there.\<close>

theorem purge_takes_only_the_expired:
  assumes "purge_for_tenant L now deleted_before st = (res, st')" "s = is_store st" "s' = is_store st'"
    and "cutoff = or_else deleted_before (now - le_retention_days L * day_seconds)"
    and "distinct (List.map fst (ks_docs s))" "distinct (List.map cr_id (ks_chunks s))"
  shows "(\<forall>d r. (d, r) \<in> set (ks_docs s) \<and> \<not> expired cutoff s r \<longrightarrow>
         (d, r) \<in> set (ks_docs s') \<and> filter (\<lambda>c. cr_doc c = d) (ks_chunks s') = filter (\<lambda>c. cr_doc c = d) (ks_chunks s)
         \<and> (\<forall>c kv. c \<in> set (ks_chunks s) \<and> cr_doc c = d \<and> fst (fst kv) = cr_id c \<longrightarrow> (kv \<in> set (ks_vectors s') \<longleftrightarrow> kv \<in> set (ks_vectors s)))
         \<and> filter (\<lambda>(k, j). fst k = d) (ks_job_rows s') = filter (\<lambda>(k, j). fst k = d) (ks_job_rows s))
    \<and> (\<forall>k r. (k, r) \<in> set (ks_kbs s) \<and> (\<forall>r'. (k, r') \<in> set (ks_kbs s) \<longrightarrow> \<not> before cutoff (kb_deleted r')) \<longrightarrow> (k, r) \<in> set (ks_kbs s'))
    \<and> (case res of
         Inl e \<Rightarrow> ks_docs s' = ks_docs s
       | Inr n \<Rightarrow> (\<forall>(d, key) \<in> set (purgeable cutoff (le_purge_batch L) s).
           d \<notin> fst ` set (ks_docs s') \<and> (\<forall>c \<in> set (ks_chunks s'). cr_doc c \<noteq> d) \<and> (\<forall>(k, j) \<in> set (ks_job_rows s'). fst k \<noteq> d)
           \<and> (\<forall>c \<in> set (ks_chunks s). cr_doc c = d \<longrightarrow> (\<forall>kv \<in> set (ks_vectors s'). fst (fst kv) \<noteq> cr_id c))))"
proof -
  let ?ds = "List.map fst (purgeable cutoff (le_purge_batch L) s)" and ?P = "\<lambda>c. cr_doc c \<in> set (List.map fst (purgeable cutoff (le_purge_batch L) s))"
  let ?s1 = "snd (drop_chunks ?P s)"
  let ?s2 = "snd (purge_jobs_for_documents ?ds ?s1)"
  have mid: "ks_chunks s' = ks_chunks ?s2" "ks_vectors s' = ks_vectors ?s2" "ks_job_rows s' = ks_job_rows ?s2"
    and err: "\<And>e. res = Inl e \<Longrightarrow> s' = ?s2"
    and ok: "\<And>n. res = Inr n \<Longrightarrow> \<exists>documents kbs. purge_rows cutoff (le_purge_batch L) ?ds ?s2 = Inr (documents, kbs, s')"
    using assms(1-4) purge_rows_done(2-4) [of cutoff "le_purge_batch L" ?ds ?s2]
    by (auto simp: purge_for_tenant_def Let_def purge_for_documents_def case_prod_beta split: sum.splits)
  have keep: "(d, r) \<in> set (ks_docs s')" if "(d, r) \<in> set (ks_docs s)" "d \<notin> set ?ds" for d r
    using that err ok purge_rows_done(1) by (cases res) fastforce+
  have kbs: "(k, r) \<in> set (ks_kbs s')" if "(k, r) \<in> set (ks_kbs s)" "\<forall>r'. (k, r') \<in> set (ks_kbs s) \<longrightarrow> \<not> before cutoff (kb_deleted r')" for k r
    using that err ok purge_rows_done(6) by (cases res) fastforce+
  have chunks: "filter (\<lambda>c. cr_doc c = d) (ks_chunks s') = filter (\<lambda>c. cr_doc c = d) (ks_chunks s)"
    and jobs: "filter (\<lambda>(k, j). fst k = d) (ks_job_rows s') = filter (\<lambda>(k, j). fst k = d) (ks_job_rows s)"
    if "d \<notin> set ?ds" for d
    using that by (auto simp: mid intro!: filter_cong)
  have vectors: "kv \<in> set (ks_vectors s') \<longleftrightarrow> kv \<in> set (ks_vectors s)"
    if "c \<in> set (ks_chunks s)" "\<not> ?P c" "fst (fst kv) = cr_id c" for c kv
    using drop_chunks_vectors [where P = ?P, OF assms(6) that] by (simp add: mid)
  have gone: "kv \<in> set (ks_vectors s') \<Longrightarrow> fst (fst kv) \<noteq> cr_id c" if "c \<in> set (ks_chunks s)" "?P c" for c kv
    using drop_chunks_no_vector [of c s ?P, OF that] by (simp add: mid)
  have last: "case res of
         Inl e \<Rightarrow> ks_docs s' = ks_docs s
       | Inr n \<Rightarrow> (\<forall>(d, key) \<in> set (purgeable cutoff (le_purge_batch L) s).
           d \<notin> fst ` set (ks_docs s') \<and> (\<forall>c \<in> set (ks_chunks s'). cr_doc c \<noteq> d) \<and> (\<forall>(k, j) \<in> set (ks_job_rows s'). fst k \<noteq> d)
           \<and> (\<forall>c \<in> set (ks_chunks s). cr_doc c = d \<longrightarrow> (\<forall>kv \<in> set (ks_vectors s'). fst (fst kv) \<noteq> cr_id c)))"
  proof (cases res)
    case (Inl e)
    then show ?thesis using err by simp
  next
    case (Inr n)
    then have "ks_docs s' = filter (\<lambda>(d, r). d \<notin> set ?ds) (ks_docs s)"
      using ok purge_rows_done(1) by fastforce
    with Inr gone show ?thesis by (force simp: mid)
  qed
  show ?thesis
    using kept_not_target [OF assms(5)] keep kbs chunks jobs vectors last by meson
qed

subsection \<open>A sample\<close>

text \<open>An object store that is a list, no quota, no other requests, and a cut-off of days.\<close>

definition life_sample_env :: "(ustring \<times> byte list) list life_env" where
  "life_sample_env =
     \<lparr>le_files = \<lparr>fe_category = (\<lambda>c. ''Ll''), fe_lowercase = id, fe_zip_names = (\<lambda>b. None)\<rparr>,
      le_sha256 = (\<lambda>b. [length b]), le_quota = (\<lambda>metric n s. None), le_document_key = (\<lambda>kb d. [kb, d]),
      le_put = (\<lambda>k b ob. Inr ((k, b) # ob)), le_delete = (\<lambda>k ob. Inr (AList.delete k ob)), le_between = id,
      le_in_progress_stale = 100, le_stuck_after = 50, le_retention_days = 1, le_purge_batch = 10,
      le_rollback_days = 1, le_reindex_purge_batch = 10\<rparr>"

definition sample_doc :: "uuid128 \<Rightarrow> document_status \<Rightarrow> int option \<Rightarrow> doc_row" where
  "sample_doc kb status deleted =
     \<lparr>dr_kb = kb, dr_filename = lit ''a.txt'', dr_mime = lit ''text/plain'', dr_key = [kb], dr_hash = [99],
      dr_size = 11, dr_uploaded_by = None, dr_version = 2, dr_status = status, dr_error = None,
      dr_created = 0, dr_updated = 0, dr_deleted = deleted\<rparr>"

definition sample_kb :: "int option \<Rightarrow> kb_row" where
  "sample_kb deleted =
     \<lparr>kb_model = lit ''m'', kb_version = 1, kb_config = None, kb_knowledge_version = 1, kb_indexed_version = 1,
      kb_deleted = deleted\<rparr>"

text \<open>Document 1 is live, document 2 was deleted at time 5; chunk 100 of document 1 is of an old version, chunks 101 and 102
  are current, of documents 1 and 2.\<close>

definition life_sample :: "document_status \<Rightarrow> kstore" where
  "life_sample status =
     \<lparr>ks_docs = [(1, sample_doc 9 status None), (2, (sample_doc 9 READY (Some 5))\<lparr>dr_hash := [98]\<rparr>)],
      ks_kbs = [(9, sample_kb None)],
      ks_chunks = [ingest_sample_chunk 100 1, ingest_sample_chunk 101 2, (ingest_sample_chunk 102 2)\<lparr>cr_doc := 2\<rparr>],
      ks_vectors = [((101, lit ''m'', 1), [1]), ((102, lit ''m'', 1), [1])],
      ks_job_rows = [], ks_reindex = [], ks_queue = [], ks_notices = []\<rparr>"

lemmas life_sample_defs = life_sample_def sample_doc_def sample_kb_def life_sample_env_def ingest_sample_chunk_def

lemma life_sample_found: "find_doc 1 (life_sample status) = Some (sample_doc 9 status None)"
  by (simp add: life_sample_defs find_doc_def)

lemma deleted_documents_leave_retrieval_witness:
  "\<exists>s'. delete_document 3 1 (life_sample READY) = (Inr (), s') \<and> find_doc 1 s' = None
    \<and> for_retrieval 9 s' = filter (\<lambda>c. cr_doc c \<noteq> 1) (for_retrieval 9 (life_sample READY))"
proof -
  obtain s' where s': "delete_document 3 1 (life_sample READY) = (Inr (), s')"
    using life_sample_found [of READY] by (simp add: delete_document_def)
  with deleted_documents_leave_retrieval [OF s'] show ?thesis by blast
qed

lemma reingest_starts_the_next_version_witness:
  "reingest life_sample_env 50 1 (life_sample PARSING) = (Inl Conflict, life_sample PARSING)
   \<and> (\<exists>v s'. reingest life_sample_env 500 1 (life_sample PARSING) = (Inr v, s') \<and> dv_version v = 3 \<and> ks_queue s' = [IngestTask 1])"
  using reingest_starts_the_next_version [OF life_sample_found, of PARSING 50 life_sample_env]
    reingest_starts_the_next_version [OF life_sample_found, of PARSING 500 life_sample_env]
  by (auto simp: life_sample_defs)

lemma rescue_sends_one_task_each_witness:
  "\<exists>n s'. rescue_tenant life_sample_env 100 (life_sample CHUNKED) = (n, s') \<and> n = length (ks_queue s') \<and> EmbedTask 1 \<in> set (ks_queue s')"
proof -
  obtain n s' where run: "rescue_tenant life_sample_env 100 (life_sample CHUNKED) = (n, s')" by (cases "rescue_tenant life_sample_env 100 (life_sample CHUNKED)")
  from rescue_sends_one_task_each [OF run] obtain found where
    f: "n = length found" "ks_queue s' = List.map (\<lambda>(d, r). if dr_status r = UPLOADED then IngestTask d else EmbedTask d) found"
    "(1, sample_doc 9 CHUNKED None) \<in> set found"
    by (auto simp: life_sample_defs)
  then have "EmbedTask 1 \<in> set (ks_queue s')" by (force simp: sample_doc_def)
  with run f show ?thesis by simp
qed

lemma cleanup_keeps_what_is_served_witness:
  "\<exists>n s'. purge_superseded_of_ready (life_sample READY) = (n, s') \<and> n + length (ks_chunks s') = 3
    \<and> (\<forall>kb. for_retrieval kb s' = for_retrieval kb (life_sample READY))"
proof -
  obtain n s' where run: "purge_superseded_of_ready (life_sample READY) = (n, s')" by (cases "purge_superseded_of_ready (life_sample READY)")
  have "distinct (List.map cr_id (ks_chunks (life_sample READY)))" "length (ks_chunks (life_sample READY)) = 3"
    by (simp_all add: life_sample_defs)
  with cleanup_keeps_what_is_served [OF run] run show ?thesis by auto
qed

lemma upload_all_or_nothing_witness:
  "\<exists>res st'. upload life_sample_env 7 3 9 (lit ''b.txt'') (encode_utf8 (lit ''hi'')) None \<lparr>is_store = life_sample READY, is_objects = []\<rparr> = (res, st')
    \<and> (case res of Inl e \<Rightarrow> is_objects st' = [] | Inr v \<Rightarrow> dv_version v = 1)"
proof -
  let ?st = "\<lparr>is_store = life_sample READY, is_objects = []\<rparr>"
  obtain res st' where run: "upload life_sample_env 7 3 9 (lit ''b.txt'') (encode_utf8 (lit ''hi'')) None ?st = (res, st')"
    by (cases "upload life_sample_env 7 3 9 (lit ''b.txt'') (encode_utf8 (lit ''hi'')) None ?st")
  from upload_all_or_nothing [OF run] have "case res of Inl e \<Rightarrow> is_objects st' = [] | Inr v \<Rightarrow> dv_version v = 1"
    by (auto simp: life_sample_env_def view_of_def split: sum.splits)
  with run show ?thesis by blast
qed

lemma purge_takes_only_the_expired_witness:
  "\<exists>res st'. purge_for_tenant life_sample_env 100000 None \<lparr>is_store = life_sample READY, is_objects = []\<rparr> = (res, st')
    \<and> (1, sample_doc 9 READY None) \<in> set (ks_docs (is_store st'))"
proof -
  let ?st = "\<lparr>is_store = life_sample READY, is_objects = []\<rparr>"
  obtain res st' where run: "purge_for_tenant life_sample_env 100000 None ?st = (res, st')"
    by (cases "purge_for_tenant life_sample_env 100000 None ?st")
  have "distinct (List.map fst (ks_docs (is_store ?st)))" "distinct (List.map cr_id (ks_chunks (is_store ?st)))"
    "(1, sample_doc 9 READY None) \<in> set (ks_docs (is_store ?st))"
    "\<not> expired (or_else None (100000 - le_retention_days life_sample_env * day_seconds)) (is_store ?st) (sample_doc 9 READY None)"
    by (simp_all add: life_sample_defs expired_def before_def)
  with purge_takes_only_the_expired [OF run refl refl refl] run show ?thesis by blast
qed

subsection \<open>Deviations\<close>

text \<open>The reindex jobs of a knowledge base protect its row, and nothing deletes them: once the retention of such a knowledge
  base has passed, every run of the purge raises in its second transaction, and none of the documents of its batch is
  deleted, although their chunks and objects are gone.\<close>

lemma reindex_job_blocks_the_purge:
  assumes "k \<in> set (kbs_deleted_before cutoff n s)" "(j, r) \<in> set (ks_reindex s)" "rj_kb r = k"
    and "\<forall>(d, x) \<in> set (ks_docs s). dr_kb x = k \<longrightarrow> d \<in> set ds"
  shows "purge_rows cutoff n ds s = Inl protected_error"
proof (cases "hard_delete_documents ds s")
  case (Inl e)
  then show ?thesis by (auto simp: purge_rows_def hard_delete_documents_def split: if_splits)
next
  case (Inr x)
  then obtain documents s1 where s1: "hard_delete_documents ds s = Inr (documents, s1)" by (cases x) auto
  then have same: "ks_kbs s1 = ks_kbs s" "ks_reindex s1 = ks_reindex s" "ks_docs s1 = filter (\<lambda>(d, r). d \<notin> set ds) (ks_docs s)"
    by (auto simp: hard_delete_documents_def split: if_splits)
  then have "count_all_in_kb k s1 = 0"
    using assms(4) by (auto simp: count_all_in_kb_def filter_empty_conv)
  moreover have "k \<in> set (kbs_deleted_before cutoff n s1)"
    using assms(1) same by (simp add: kbs_deleted_before_def)
  ultimately have "list_ex (\<lambda>(j, r). rj_kb r \<in> set (filter (\<lambda>k. count_all_in_kb k s1 = 0) (kbs_deleted_before cutoff n s1))) (ks_reindex s1)"
    using assms(2,3) same by (auto simp: list_ex_iff)
  then have "hard_delete_kbs (filter (\<lambda>k. count_all_in_kb k s1 = 0) (kbs_deleted_before cutoff n s1)) s1 = Inl protected_error"
    unfolding hard_delete_kbs_def by (simp only: simp_thms if_True)
  with s1 show ?thesis by (simp add: purge_rows_def)
qed

text \<open>Only the uploaded object of a document is deleted: an object under any other key, such as the cleaned text that
  ingestion stores under \<open>{storage_key}/v{n}/cleaned.json\<close>, outlives the document.\<close>

lemma other_objects_survive_the_purge:
  assumes "\<And>key ob ob'. le_delete L key ob = Inr ob' \<Longrightarrow> key \<noteq> k \<Longrightarrow> content_at ob' = content_at ob" "k \<notin> set keys"
  shows "content_at (snd (purge_objects L keys ob)) = content_at ob"
proof -
  have "content_at (snd (fold (\<lambda>key (n, ob). case le_delete L key ob of Inl e \<Rightarrow> (n, ob) | Inr ob' \<Rightarrow> (n + 1, ob')) keys (n, ob))) = content_at ob" for n
    using assms(2) by (induction keys arbitrary: n ob) (auto split: sum.split dest: assms(1))
  then show ?thesis by (simp add: purge_objects_def)
qed

text \<open>A deleted document keeps its content hash, and the unique constraint does not look at \<open>deleted_at\<close>: uploading the same
  content again passes the check, stores the object, and is refused at the insert until the retention is over.\<close>

lemma deleted_content_cannot_come_back:
  assumes "(d', r') \<in> set (ks_docs (is_store st))" "dr_kb r' = kb" "dr_hash r' = le_sha256 L content"
    and "check_upload L kb filename content (is_store st) = Inr m" "le_between L (is_store st) = is_store st"
    and "le_put L (le_document_key L kb d) content (is_objects st) = Inr ob"
  shows "fst (upload L now d kb filename content by_user st) = Inl Conflict"
proof -
  have "create_document d (new_document L now d kb filename content by_user m) (is_store st) = Inl (foreign ''IntegrityError'')"
    using assms(1-3) by (auto simp: create_document_def new_document_def list_ex_iff)
  with assms(4-6) show ?thesis by (simp add: upload_def Let_def foreign_def)
qed

text \<open>While a version is reprocessed its document is out of retrieval: the chunks of the old version are superseded at once,
  and superseded chunks are never returned.\<close>

lemma reingested_document_is_not_searchable:
  assumes "reingest L now d s = (Inr v, s')"
  shows "\<forall>c \<in> set (for_retrieval kb s'). cr_doc c \<noteq> d"
proof -
  have "ks_chunks (start_new_version now d v' x) = ks_chunks x" for v' x
    by (simp add: start_new_version_def split: option.split)
  then have "ks_chunks s' = ks_chunks (supersede_for_document d s)"
    using assms by (auto simp: reingest_def Let_def split: option.splits if_splits)
  then show ?thesis
    by (simp add: retrieval_cong [of s' "supersede_for_document d s"] for_retrieval_superseded)
qed

text \<open>The clean-up after an old, completed reindex deletes every version but the current one, also the one a running
  reindex is computing.\<close>

lemma cleanup_deletes_a_running_reindex:
  assumes "switched_before (now - le_rollback_days L * day_seconds) (le_reindex_purge_batch L) s = [(j, r)]"
    and "find_kb (rj_kb r) s = Some kb" "c \<in> set (ks_chunks s)" "cr_kb c = rj_kb r"
    and "(model, version) \<noteq> (kb_model kb, kb_version kb)"
  shows "((cr_id c, model, version), v) \<notin> set (ks_vectors (snd (purge_switched L now s)))"
  using assms by (auto simp: purge_switched_def purge_other_versions_def Let_def update_reindex_def split: option.splits)

end
