(* ===== verification/Embedding.thy ===== *)
theory Embedding
  imports Ingestion
begin

text \<open>
  \<open>backend/services/knowledge/embedding.py\<close>: the last stage of the write path, from \<open>chunked\<close> to \<open>ready\<close>, as a sequence
  of transactions between which other tasks may change the tables in any way (the parameter \<open>ee_others\<close>).
  The gateway and Redis are parameters. The loop over the batches is a partial function, because the
  source re-reads its work list in the loop. A ghost field of the state keeps every transaction. Lemmas: what
  each transaction may change, when the loop ends, what it has done then.
\<close>

subsection \<open>The environment\<close>

record embed_reply =
  ep_vectors :: "rat list list"
  ep_model :: ustring
  ep_tokens :: int

datatype embed_exn = ProviderFailure app_exn bool | OtherFailure app_exn

fun exn_of :: "embed_exn \<Rightarrow> app_exn" where
  "exn_of (ProviderFailure e _) = e"
| "exn_of (OtherFailure e) = e"

record 'r embed_env =
  ee_gateway :: "nat \<Rightarrow> ustring list \<Rightarrow> ustring \<Rightarrow> embed_exn + embed_reply"
  ee_redis_get :: "ustring \<Rightarrow> 'r \<Rightarrow> app_exn + ustring option"
  ee_redis_set :: "ustring \<Rightarrow> ustring \<Rightarrow> 'r \<Rightarrow> app_exn + 'r"
  ee_default_model :: ustring
  ee_others :: "nat \<Rightarrow> kstore \<Rightarrow> kstore"

record embed_usage =
  eu_model :: ustring
  eu_prompt_tokens :: int
  eu_request_id :: "uuid128 \<times> int"

record 'r embed_world =
  ew_store :: kstore
  ew_redis :: 'r
  ew_usage :: "embed_usage list"
  ew_calls :: nat
  ew_trace :: "(kstore \<times> kstore) list"

record embed_target =
  et_doc :: uuid128
  et_version :: int
  et_status :: document_status
  et_model :: ustring
  et_embedding_version :: int

datatype embed_outcome =
    SkippedAt string
  | Embedded nat int nat
  | EmbedFailed failure_note

record embed_doc_result =
  er_status :: document_status
  er_embedded :: nat
  er_outcome :: embed_outcome

definition embed_batch_size :: nat where
  "embed_batch_size = 64"

definition vector_dimensions :: nat where
  "vector_dimensions = 1024"

text \<open>One transaction, after whatever the others committed since the last one.\<close>

definition transact :: "'r embed_env \<Rightarrow> (kstore \<Rightarrow> 'a \<times> kstore) \<Rightarrow> 'r embed_world \<Rightarrow> 'a \<times> 'r embed_world" where
  "transact E f w =
     (let s = ee_others E (length (ew_trace w)) (ew_store w)
      in case f s of (v, s') \<Rightarrow> (v, w\<lparr>ew_store := s', ew_trace := ew_trace w @ [(s, s')]\<rparr>))"

definition try_commit :: "(kstore \<Rightarrow> app_exn + kstore) \<Rightarrow> kstore \<Rightarrow> (app_exn + unit) \<times> kstore" where
  "try_commit f s = (case f s of Inl e \<Rightarrow> (Inl e, s) | Inr s' \<Rightarrow> (Inr (), s'))"

subsection \<open>Vectors\<close>

definition upsert_vectors ::
  "(uuid128 \<times> rat list) list \<Rightarrow> ustring \<Rightarrow> int \<Rightarrow> kstore \<Rightarrow> app_exn + kstore" where
  "upsert_vectors rows model version s =
     (if list_all (\<lambda>(c, v). c \<in> set (List.map cr_id (ks_chunks s))) rows
      then if list_all (\<lambda>(c, v). length v = vector_dimensions) rows
           then Inr (s\<lparr>ks_vectors := fold (\<lambda>(c, v). AList.update (c, model, version) v) rows (ks_vectors s)\<rparr>)
           else Inl (foreign ''DataError'')
      else Inl (foreign ''IntegrityError''))"

definition chunks_without_embedding :: "uuid128 list \<Rightarrow> ustring \<Rightarrow> int \<Rightarrow> kstore \<Rightarrow> uuid128 list" where
  "chunks_without_embedding ids model version s =
     filter (\<lambda>c. (c, model, version) \<notin> set (List.map fst (ks_vectors s))) ids"

definition pending_of :: "embed_target \<Rightarrow> ustring \<Rightarrow> kstore \<Rightarrow> (uuid128 \<times> ustring) list" where
  "pending_of tg model s =
     (let active = active_for_version (et_doc tg) (et_version tg) s;
          missing = chunks_without_embedding (List.map cr_id active) model (et_embedding_version tg) s
      in List.map (\<lambda>c. (cr_id c, ctext (cr_chunk c))) (filter (\<lambda>c. cr_id c \<in> set missing) active))"

definition pending_chunks ::
  "'r embed_env \<Rightarrow> embed_target \<Rightarrow> ustring \<Rightarrow> 'r embed_world \<Rightarrow> (uuid128 \<times> ustring) list \<times> 'r embed_world" where
  "pending_chunks E tg model = transact E (\<lambda>s. (pending_of tg model s, s))"

definition resolved_model :: "'r embed_env \<Rightarrow> ustring \<Rightarrow> 'r embed_world \<Rightarrow> app_exn + ustring" where
  "resolved_model E requested w =
     (case ee_redis_get E requested (ew_redis w) of
        Inl e \<Rightarrow> Inl e
      | Inr (Some cached) \<Rightarrow> Inr (if cached \<noteq> [] then cached else requested)
      | Inr None \<Rightarrow> Inr requested)"

definition remember_resolution ::
  "'r embed_env \<Rightarrow> ustring \<Rightarrow> ustring \<Rightarrow> 'r embed_world \<Rightarrow> app_exn + 'r embed_world" where
  "remember_resolution E requested reported w =
     (case ee_redis_set E requested reported (ew_redis w) of
        Inl e \<Rightarrow> Inl e | Inr r \<Rightarrow> Inr (w\<lparr>ew_redis := r\<rparr>))"

subsection \<open>The batches\<close>

record embed_loop_state =
  el_pending :: "(uuid128 \<times> ustring) list"
  el_start :: nat
  el_lookup :: ustring
  el_embedded :: nat
  el_tokens :: int
  el_batches :: nat
  el_reported :: ustring

definition other_exn :: "string \<Rightarrow> embed_exn" where
  "other_exn cls = OtherFailure (foreign cls)"

text \<open>One round of the loop.\<close>

definition embed_batch ::
  "'r embed_env \<Rightarrow> embed_target \<Rightarrow> embed_loop_state \<Rightarrow> 'r embed_world
   \<Rightarrow> (embed_exn + embed_loop_state) \<times> 'r embed_world" where
  "embed_batch E tg v w =
     (let batch = take embed_batch_size (drop (el_start v) (el_pending v));
          w1 = w\<lparr>ew_calls := ew_calls w + 1\<rparr>
      in case ee_gateway E (ew_calls w) (List.map snd batch) (et_model tg) of
           Inl e \<Rightarrow> (Inl e, w1)
         | Inr reply \<Rightarrow>
             if length (ep_vectors reply) \<noteq> length batch then (Inl (other_exn ''ValueError''), w1)
             else
               case transact E (try_commit (upsert_vectors (zip (List.map fst batch) (ep_vectors reply)) (ep_model reply)
                                              (et_embedding_version tg))) w1 of
                 (Inl e, w2) \<Rightarrow> (Inl (OtherFailure e), w2)
               | (Inr _, w2) \<Rightarrow>
                   let v2 = v\<lparr>el_embedded := el_embedded v + length batch, el_tokens := el_tokens v + ep_tokens reply,
                              el_batches := el_batches v + 1, el_start := el_start v + length batch,
                              el_reported := (if ep_model reply \<noteq> [] then ep_model reply else el_reported v)\<rparr>
                   in if ep_model reply \<noteq> [] \<and> ep_model reply \<noteq> el_lookup v then
                        (case remember_resolution E (et_model tg) (ep_model reply) w2 of
                           Inl e \<Rightarrow> (Inl (OtherFailure e), w2)
                         | Inr w3 \<Rightarrow>
                             (case pending_chunks E tg (ep_model reply) w3 of
                                (pending, w4) \<Rightarrow>
                                  (Inr (v2\<lparr>el_lookup := ep_model reply, el_pending := pending, el_start := 0\<rparr>), w4)))
                      else (Inr v2, w2))"

partial_function (option) embed_loop ::
  "'r embed_env \<Rightarrow> embed_target \<Rightarrow> embed_loop_state \<Rightarrow> 'r embed_world
   \<Rightarrow> ((embed_exn + embed_loop_state) \<times> 'r embed_world) option" where
  "embed_loop E tg v w =
     (if el_start v < length (el_pending v)
      then case embed_batch E tg v w of
             (Inl e, w') \<Rightarrow> Some (Inl e, w')
           | (Inr v', w') \<Rightarrow> embed_loop E tg v' w'
      else Some (Inr v, w))"

declare embed_loop.simps [code]

definition embed_pending ::
  "'r embed_env \<Rightarrow> embed_target \<Rightarrow> 'r embed_world
   \<Rightarrow> ((embed_exn + embed_loop_state) \<times> 'r embed_world) option" where
  "embed_pending E tg w =
     (case resolved_model E (et_model tg) w of
        Inl e \<Rightarrow> Some (Inl (OtherFailure e), w)
      | Inr lookup \<Rightarrow>
          (case pending_chunks E tg lookup w of
             (pending, w1) \<Rightarrow>
               embed_loop E tg
                 \<lparr>el_pending = pending, el_start = 0, el_lookup = lookup, el_embedded = 0, el_tokens = 0,
                  el_batches = 0, el_reported = et_model tg\<rparr> w1))"

subsection \<open>The service\<close>

definition model_for :: "'r embed_env \<Rightarrow> ustring \<Rightarrow> ustring" where
  "model_for E kb_embedding_model = (if kb_embedding_model \<noteq> [] then kb_embedding_model else ee_default_model E)"

definition embed_target_of :: "'r embed_env \<Rightarrow> uuid128 \<Rightarrow> kstore \<Rightarrow> app_exn + embed_target" where
  "embed_target_of E d s =
     (case find_doc d s of
        None \<Rightarrow> Inl not_found
      | Some r \<Rightarrow>
          (case find_kb (dr_kb r) s of
             None \<Rightarrow> Inl not_found
           | Some kb \<Rightarrow>
               Inr \<lparr>et_doc = d, et_version = dr_version r, et_status = dr_status r, et_model = model_for E (kb_model kb),
                    et_embedding_version = kb_version kb\<rparr>))"

definition embed_job :: "embed_target \<Rightarrow> job_key" where
  "embed_job tg = (et_doc tg, et_version tg, ''embed'')"

definition commit_tx :: "'r embed_env \<Rightarrow> (kstore \<Rightarrow> kstore) \<Rightarrow> 'r embed_world \<Rightarrow> 'r embed_world" where
  "commit_tx E f w = snd (transact E (\<lambda>s. ((), f s)) w)"

definition embed_fail_job :: "'r embed_env \<Rightarrow> embed_target \<Rightarrow> app_exn \<Rightarrow> 'r embed_world \<Rightarrow> 'r embed_world" where
  "embed_fail_job E tg e = commit_tx E (finish_job (embed_job tg) ''failed'' NoStats (Some (error_payload e)))"

definition skip_stale :: "embed_target \<Rightarrow> string \<Rightarrow> embed_doc_result" where
  "skip_stale tg place = \<lparr>er_status = et_status tg, er_embedded = 0, er_outcome = SkippedAt place\<rparr>"

definition embed_fail_permanently ::
  "'r embed_env \<Rightarrow> int \<Rightarrow> embed_target \<Rightarrow> app_exn \<Rightarrow> 'r embed_world \<Rightarrow> (embed_exn + embed_doc_result) \<times> 'r embed_world" where
  "embed_fail_permanently E now tg e w =
     (let err = failure_of ''embed'' e False None;
          w1 = embed_fail_job E tg e w
      in case transact E (set_status now (et_doc tg) FAILED (Some err) None (Some (et_version tg))) w1 of
           (False, w2) \<Rightarrow> (Inr (skip_stale tg ''mark_failed''), w2)
         | (True, w2) \<Rightarrow>
             (Inr \<lparr>er_status = FAILED, er_embedded = 0, er_outcome = EmbedFailed err\<rparr>,
              commit_tx E (notify (FailedNotice (et_doc tg) err)) w2))"

definition embed_settle ::
  "'r embed_env \<Rightarrow> int \<Rightarrow> embed_target \<Rightarrow> embed_loop_state \<Rightarrow> 'r embed_world
   \<Rightarrow> (embed_exn + embed_doc_result) \<times> 'r embed_world" where
  "embed_settle E now tg v w =
     (let w1 = commit_tx E (finish_job (embed_job tg) ''succeeded'' (EmbedStats (el_embedded v) (el_tokens v) (el_batches v)) None) w;
          w2 = (if 0 < el_tokens v
                then w1\<lparr>ew_usage := ew_usage w1 @ [\<lparr>eu_model = el_reported v, eu_prompt_tokens = el_tokens v,
                                                     eu_request_id = (et_doc tg, et_version tg)\<rparr>]\<rparr>
                else w1)
      in case transact E (set_status now (et_doc tg) READY None (Some [EMBEDDING]) (Some (et_version tg))) w2 of
           (False, w3) \<Rightarrow> (Inr (skip_stale tg ''promote_ready''), w3)
         | (True, w3) \<Rightarrow>
             (Inr \<lparr>er_status = READY, er_embedded = el_embedded v,
                   er_outcome = Embedded (el_embedded v) (el_tokens v) (el_batches v)\<rparr>,
              commit_tx E (notify (ReadyNotice (et_doc tg))) w3))"

definition embed_document ::
  "'r embed_env \<Rightarrow> int \<Rightarrow> uuid128 \<Rightarrow> 'r embed_world \<Rightarrow> ((embed_exn + embed_doc_result) \<times> 'r embed_world) option" where
  "embed_document E now d w =
     (case transact E (\<lambda>s. (embed_target_of E d s, s)) w of
        (Inl e, w0) \<Rightarrow> Some (Inl (OtherFailure e), w0)
      | (Inr tg, w0) \<Rightarrow>
          if et_status tg \<notin> set embeddable_statuses
          then Some (Inr (skip_stale tg ''document_not_chunked''), w0)
          else
            (case transact E (set_status now d EMBEDDING None (Some embeddable_statuses) (Some (et_version tg)))
                    (commit_tx E (start_job (embed_job tg)) w0) of
               (False, w1) \<Rightarrow> Some (Inr (skip_stale tg ''enter_embedding''), w1)
             | (True, w1) \<Rightarrow>
                 (case embed_pending E tg w1 of
                    None \<Rightarrow> None
                  | Some (Inr v, w2) \<Rightarrow> Some (embed_settle E now tg v w2)
                  | Some (Inl (ProviderFailure e False), w2) \<Rightarrow> Some (embed_fail_permanently E now tg e w2)
                  | Some (Inl exn, w2) \<Rightarrow> Some (Inl exn, embed_fail_job E tg (exn_of exn) w2))))"

definition embed_retries_exhausted ::
  "'r embed_env \<Rightarrow> int \<Rightarrow> uuid128 \<Rightarrow> app_exn \<Rightarrow> nat \<Rightarrow> 'r embed_world \<Rightarrow> 'r embed_world" where
  "embed_retries_exhausted E now d e attempts w =
     (let err = failure_of ''embed'' e True (Some attempts)
      in case transact E (set_status now d FAILED (Some err) (Some [CHUNKED, EMBEDDING]) None) w of
           (False, w1) \<Rightarrow> w1
         | (True, w1) \<Rightarrow> commit_tx E (notify (FailedNotice d err)) w1)"

subsection \<open>Every transaction of the task\<close>

text \<open>The transactions added to the trace all satisfy a relation.\<close>

definition extends :: "(kstore \<Rightarrow> kstore \<Rightarrow> bool) \<Rightarrow> 'r embed_world \<Rightarrow> 'r embed_world \<Rightarrow> bool" where
  "extends P w w' = (\<exists>new. ew_trace w' = ew_trace w @ new \<and> (\<forall>(s, s') \<in> set new. P s s'))"

lemma extends_refl [simp]: "extends P w w" "extends P w (w\<lparr>ew_calls := n\<rparr>)" "extends P w (w\<lparr>ew_usage := us\<rparr>)"
  "extends P w (w\<lparr>ew_redis := r\<rparr>)"
  by (simp_all add: extends_def)

lemma extends_fields [simp]: "extends P (w\<lparr>ew_calls := n\<rparr>) w' = extends P w w'" "extends P (w\<lparr>ew_redis := r\<rparr>) w' = extends P w w'"
  "extends P (w\<lparr>ew_usage := us\<rparr>) w' = extends P w w'"
  by (simp_all add: extends_def)

lemma extends_trans: "extends P a b \<Longrightarrow> extends P b c \<Longrightarrow> extends P a c"
  by (force simp: extends_def)

lemma extends_transact:
  assumes "transact E f w = (v, w')" "\<And>s. P s (snd (f s))"
  shows "extends P w w'"
proof -
  let ?s = "ee_others E (length (ew_trace w)) (ew_store w)"
  have "w' = w\<lparr>ew_store := snd (f ?s), ew_trace := ew_trace w @ [(?s, snd (f ?s))]\<rparr>"
    using assms(1) by (auto simp: transact_def Let_def split: prod.splits)
  then show ?thesis
    using assms(2) [of ?s] unfolding extends_def by (intro exI [of _ "[(?s, snd (f ?s))]"]) simp
qed

lemma extends_commit: "(\<And>s. P s (f s)) \<Longrightarrow> extends P w (commit_tx E f w)"
  unfolding commit_tx_def
  by (rule extends_transact [where E = E and f = "\<lambda>s. ((), f s)" and v = "()"]) (auto simp: prod_eq_iff)

text \<open>The contract of a transaction of the task, apart from those that set the status.\<close>

locale store_step =
  fixes P :: "kstore \<Rightarrow> kstore \<Rightarrow> bool"
  assumes unchanged: "P s s"
    and job_start: "P s (start_job k s)"
    and job_finish: "P s (finish_job k st stats err s)"
    and notice: "P s (notify n s)"
    and vectors: "upsert_vectors rows model version s = Inr s' \<Longrightarrow> P s s'"
begin

lemma extends_pending: "pending_chunks E tg model w = (ps, w') \<Longrightarrow> extends P w w'"
  unfolding pending_chunks_def by (erule extends_transact) (simp add: unchanged)

lemma extends_upsert: "transact E (try_commit (upsert_vectors rows model n)) w = (u, w') \<Longrightarrow> extends P w w'"
  by (erule extends_transact) (auto intro: unchanged vectors simp: try_commit_def split: sum.split)

lemma extends_remember: "remember_resolution E x y w = Inr w' \<Longrightarrow> extends P w w'"
  by (auto simp: remember_resolution_def split: sum.splits)

lemma extends_batch: "embed_batch E tg v w = (r, w') \<Longrightarrow> extends P w w'"
  by (auto simp: embed_batch_def Let_def split: sum.splits prod.splits if_splits
      dest!: extends_upsert extends_remember extends_pending intro: extends_trans)

lemma extends_loop:
  assumes "embed_loop E tg v w = Some (r, w')"
  shows "extends P w w'"
proof -
  have "extends P w (snd (r, w'))"
  proof (rule embed_loop.raw_induct [where P = "\<lambda>E tg v w y. extends P w (snd y)", rotated, OF assms])
    fix loop E tg v w y
    assume IH: "\<And>tg v w b y. loop tg v w b = Some y \<Longrightarrow> extends P b (snd y)"
      and body: "(if el_start v < length (el_pending v)
          then case embed_batch E tg v w of (Inl e, w') \<Rightarrow> Some (Inl e, w') | (Inr v', w') \<Rightarrow> loop E tg v' w'
          else Some (Inr v, w)) = Some y"
    show "extends P w (snd y)"
      using body
      by (auto split: if_splits sum.splits prod.splits dest!: extends_batch IH
          intro: extends_trans extends_batch [OF prod.collapse [symmetric]])
  qed
  then show ?thesis by simp
qed

lemma extends_embed_pending: "embed_pending E tg w = Some (r, w') \<Longrightarrow> extends P w w'"
  by (auto simp: embed_pending_def split: sum.splits prod.splits dest!: extends_loop extends_pending intro: extends_trans)

lemma extends_fail_job: "extends P w (embed_fail_job E tg e w)"
  unfolding embed_fail_job_def by (rule extends_commit) (rule job_finish)

end

text \<open>What a transaction of the task for one version of a document may do to the tables that are not its own.\<close>

inductive embed_write :: "uuid128 \<Rightarrow> int \<Rightarrow> kstore \<Rightarrow> kstore \<Rightarrow> bool" for d :: uuid128 and v :: int where
  own_tables: "ks_docs s' = ks_docs s \<Longrightarrow> ks_chunks s' = ks_chunks s \<Longrightarrow> ks_kbs s' = ks_kbs s \<Longrightarrow> ks_queue s' = ks_queue s
    \<Longrightarrow> embed_write d v s s'"
| enter: "find_doc d s = Some r \<Longrightarrow> dr_version r = v \<Longrightarrow> dr_status r \<in> {CHUNKED, EMBEDDING, READY}
    \<Longrightarrow> embed_write d v s (put_doc d (r\<lparr>dr_status := EMBEDDING, dr_error := None, dr_updated := t\<rparr>) s)"
| promote: "find_doc d s = Some r \<Longrightarrow> dr_version r = v \<Longrightarrow> dr_status r = EMBEDDING
    \<Longrightarrow> embed_write d v s (put_doc d (r\<lparr>dr_status := READY, dr_error := None, dr_updated := t\<rparr>) s)"
| fail: "find_doc d s = Some r \<Longrightarrow> dr_version r = v
    \<Longrightarrow> embed_write d v s (put_doc d (r\<lparr>dr_status := FAILED, dr_error := Some note, dr_updated := t\<rparr>) s)"

inductive_cases embed_write_cases: "embed_write d v s s'"

lemma upsert_frame:
  "upsert_vectors rows model n s = Inr s' \<Longrightarrow>
     ks_docs s' = ks_docs s \<and> ks_chunks s' = ks_chunks s \<and> ks_kbs s' = ks_kbs s \<and> ks_queue s' = ks_queue s
     \<and> ks_jobs s' = ks_jobs s \<and> ks_notices s' = ks_notices s"
  by (auto simp: upsert_vectors_def split: if_splits)

interpretation task: store_step "embed_write d v" for d v
proof
  show "embed_write d v s s" for s by (rule own_tables) simp_all
  show "embed_write d v s (start_job k s)" for s k by (rule own_tables) (simp_all add: start_job_def Let_def)
  show "embed_write d v s (finish_job k st stats err s)" for s k st stats err
    by (rule own_tables) (simp_all add: finish_job_def split: option.split)
  show "embed_write d v s (notify n s)" for s n by (rule own_tables) (simp_all add: notify_def)
  show "embed_write d v s s'" if "upsert_vectors rows model version s = Inr s'" for rows model version s s'
    using upsert_frame [OF that] by (intro own_tables) simp_all
qed

lemma embed_write_status:
  assumes "\<And>r. find_doc d s = Some r \<Longrightarrow> dr_version r = v
      \<Longrightarrow> (\<forall>ss. es = Some ss \<longrightarrow> dr_status r \<in> set ss)
      \<Longrightarrow> embed_write d v s (put_doc d (r\<lparr>dr_status := st, dr_error := err, dr_updated := now\<rparr>) s)"
  shows "embed_write d v s (snd (set_status now d st err es (Some v) s))"
proof (cases "fst (set_status now d st err es (Some v) s)")
  case True
  then have "set_status now d st err es (Some v) s = (True, snd (set_status now d st err es (Some v) s))"
    by (metis prod.collapse)
  from set_status_hit [OF this] show ?thesis using assms by metis
next
  case False
  then have "set_status now d st err es (Some v) s = (False, snd (set_status now d st err es (Some v) s))"
    by (metis prod.collapse)
  from set_status_missed [OF this] show ?thesis using task.unchanged by simp
qed

lemma embed_write_transitions:
  "embed_write d v s (snd (set_status now d EMBEDDING None (Some embeddable_statuses) (Some v) s))"
  "embed_write d v s (snd (set_status now d READY None (Some [EMBEDDING]) (Some v) s))"
  "embed_write d v s (snd (set_status now d FAILED (Some note) None (Some v) s))"
  by (rule embed_write_status; auto simp: embeddable_statuses_def intro: enter promote fail)+

subsection \<open>The loop ends\<close>

text \<open>A round either moves on in the list, or the provider reported a model that the list was not asked for.\<close>

definition batch_of :: "embed_loop_state \<Rightarrow> (uuid128 \<times> ustring) list" where
  "batch_of v = take embed_batch_size (drop (el_start v) (el_pending v))"

lemma batch_of_length: "length (batch_of v) = min (length (el_pending v) - el_start v) embed_batch_size"
  by (simp add: batch_of_def)

lemma embed_batch_Inr:
  assumes "embed_batch E tg v w = (Inr v', w')"
  obtains reply w2 where "ee_gateway E (ew_calls w) (List.map snd (batch_of v)) (et_model tg) = Inr reply"
    "length (ep_vectors reply) = length (batch_of v)"
    "transact E (try_commit (upsert_vectors (zip (List.map fst (batch_of v)) (ep_vectors reply)) (ep_model reply)
       (et_embedding_version tg))) (w\<lparr>ew_calls := ew_calls w + 1\<rparr>) = (Inr (), w2)"
    "el_batches v' = el_batches v + 1"
    "(ep_model reply = [] \<or> ep_model reply = el_lookup v) \<and> w' = w2 \<and> el_lookup v' = el_lookup v
       \<and> el_pending v' = el_pending v \<and> el_start v' = el_start v + length (batch_of v)
     \<or> ep_model reply \<noteq> [] \<and> ep_model reply \<noteq> el_lookup v \<and> el_lookup v' = ep_model reply \<and> el_start v' = 0
       \<and> (\<exists>w3. remember_resolution E (et_model tg) (ep_model reply) w2 = Inr w3
            \<and> pending_chunks E tg (ep_model reply) w3 = (el_pending v', w'))"
  using assms unfolding embed_batch_def Let_def batch_of_def [symmetric]
  by (auto split: sum.splits prod.splits if_splits)

lemma transact_calls: "transact E f w = (x, w') \<Longrightarrow> ew_calls w' = ew_calls w"
  by (auto simp: transact_def Let_def split: prod.splits)

lemma embed_batch_calls: "embed_batch E tg v w = (r, w') \<Longrightarrow> ew_calls w' = ew_calls w + 1"
  by (auto simp: embed_batch_def Let_def pending_chunks_def remember_resolution_def
      split: sum.splits prod.splits if_splits dest!: transact_calls)

text \<open>The provider resolves the requested name to one model.\<close>

definition stable_model :: "'r embed_env \<Rightarrow> ustring \<Rightarrow> bool" where
  "stable_model E m = (m \<noteq> [] \<and> (\<forall>n texts model reply. ee_gateway E n texts model = Inr reply \<longrightarrow> ep_model reply = m))"

definition rounds :: "nat \<Rightarrow> nat" where
  "rounds n = (n + (embed_batch_size - 1)) div embed_batch_size"

lemma rounds_step: "0 < n \<Longrightarrow> rounds n = 1 + rounds (n - min n embed_batch_size)"
  by (cases "n \<le> embed_batch_size") (auto simp: rounds_def embed_batch_size_def)

lemma rounds_mono: "a \<le> b \<Longrightarrow> rounds a \<le> rounds b"
  by (simp add: rounds_def div_le_mono)

lemma loop_ends_resolved:
  assumes "stable_model E m" "el_lookup v = m"
  shows "\<exists>r w'. embed_loop E tg v w = Some (r, w')
    \<and> ew_calls w' \<le> ew_calls w + rounds (length (el_pending v) - el_start v)"
  using assms(2)
proof (induction "length (el_pending v) - el_start v" arbitrary: v w rule: less_induct)
  case less
  show ?case
  proof (cases "el_start v < length (el_pending v)")
    case False
    then show ?thesis by (subst embed_loop.simps) simp
  next
    case True
    obtain r1 w1 where b: "embed_batch E tg v w = (r1, w1)" by (rule prod.exhaust)
    have calls: "ew_calls w1 = ew_calls w + 1" by (rule embed_batch_calls [OF b])
    have step: "rounds (length (el_pending v) - el_start v) = 1 + rounds (length (el_pending v) - el_start v - length (batch_of v))"
      using rounds_step [of "length (el_pending v) - el_start v"] True by (simp add: batch_of_length)
    show ?thesis
    proof (cases r1)
      case (Inl e)
      then show ?thesis using b True calls step by (subst embed_loop.simps) simp
    next
      case (Inr v')
      from embed_batch_Inr [OF b [unfolded Inr]] assms(1) less.prems
      have v': "el_lookup v' = m" "el_pending v' = el_pending v" "el_start v' = el_start v + length (batch_of v)"
        unfolding stable_model_def by metis+
      have pos: "0 < length (batch_of v)" using True by (simp add: batch_of_length embed_batch_size_def)
      have "length (el_pending v') - el_start v' < length (el_pending v) - el_start v"
        unfolding v' using True pos by linarith
      from less.hyps [OF this v'(1), of w1] obtain r w' where
        l: "embed_loop E tg v' w1 = Some (r, w')" "ew_calls w' \<le> ew_calls w1 + rounds (length (el_pending v') - el_start v')"
        by blast
      have "length (el_pending v') - el_start v' = length (el_pending v) - el_start v - length (batch_of v)"
        using v' by simp
      then show ?thesis
        using l b Inr True calls step by (subst embed_loop.simps) simp
    qed
  qed
qed

text \<open>Other tasks that leave the current chunks of the version alone, and remove no vector.\<close>

definition keeps_chunks :: "'r embed_env \<Rightarrow> uuid128 \<Rightarrow> int \<Rightarrow> bool" where
  "keeps_chunks E d v = (\<forall>n s. active_for_version d v (ee_others E n s) = active_for_version d v s)"

definition keeps_vectors :: "'r embed_env \<Rightarrow> bool" where
  "keeps_vectors E = (\<forall>n s. fst ` set (ks_vectors s) \<subseteq> fst ` set (ks_vectors (ee_others E n s)))"

definition active_now :: "embed_target \<Rightarrow> 'r embed_world \<Rightarrow> chunk_row list" where
  "active_now tg w = active_for_version (et_doc tg) (et_version tg) (ew_store w)"

lemma transact_active:
  assumes "transact E f w = (x, w')" "keeps_chunks E (et_doc tg) (et_version tg)" "\<And>s. ks_chunks (snd (f s)) = ks_chunks s"
  shows "active_now tg w' = active_now tg w"
proof -
  have "active_for_version (et_doc tg) (et_version tg) (snd (f s)) = active_for_version (et_doc tg) (et_version tg) s" for s
    by (simp add: active_for_version_def assms(3))
  with assms(1,2) show ?thesis
    by (auto simp: transact_def Let_def active_now_def keeps_chunks_def split: prod.splits) (metis snd_conv)
qed

lemma try_upsert_chunks: "ks_chunks (snd (try_commit (upsert_vectors rows model n) s)) = ks_chunks s"
  using upsert_frame by (simp add: try_commit_def split: sum.split)

lemma pending_length: "length (pending_of tg model s) \<le> length (active_for_version (et_doc tg) (et_version tg) s)"
  by (simp add: pending_of_def Let_def)

lemma pending_chunks_length:
  assumes "pending_chunks E tg model w = (ps, w')" "keeps_chunks E (et_doc tg) (et_version tg)"
  shows "length ps \<le> length (active_now tg w)" "active_now tg w' = active_now tg w"
proof -
  show "active_now tg w' = active_now tg w"
    by (rule transact_active [OF assms(1) [unfolded pending_chunks_def] assms(2)]) simp
  have "ps = pending_of tg model (ee_others E (length (ew_trace w)) (ew_store w))"
    using assms(1) by (auto simp: pending_chunks_def transact_def Let_def)
  then show "length ps \<le> length (active_now tg w)"
    using pending_length [of tg model "ee_others E (length (ew_trace w)) (ew_store w)"] assms(2)
    by (simp add: active_now_def keeps_chunks_def)
qed

lemma remember_reads:
  "remember_resolution E x y w = Inr w' \<Longrightarrow>
     ew_store w' = ew_store w \<and> ew_trace w' = ew_trace w \<and> ew_calls w' = ew_calls w \<and> ew_usage w' = ew_usage w"
  by (auto simp: remember_resolution_def split: sum.splits)

lemma active_now_cong: "ew_store w' = ew_store w \<Longrightarrow> active_now tg w' = active_now tg w"
  by (simp add: active_now_def)

lemma loop_ends:
  assumes "stable_model E m"
  shows "\<exists>r w'. embed_loop E tg v w = Some (r, w')
    \<and> (keeps_chunks E (et_doc tg) (et_version tg) \<and> length (el_pending v) - el_start v \<le> length (active_now tg w) \<longrightarrow>
        ew_calls w' \<le> ew_calls w + 1 + rounds (length (active_now tg w)))"
proof (cases "el_lookup v = m \<or> \<not> el_start v < length (el_pending v)")
  case True
  then show ?thesis
  proof
    assume "el_lookup v = m"
    from loop_ends_resolved [OF assms this, of tg w] show ?thesis
      using rounds_mono by (meson le_add1 le_trans nat_add_left_cancel_le add_mono le_refl)
  next
    assume "\<not> el_start v < length (el_pending v)"
    then show ?thesis by (subst embed_loop.simps) simp
  qed
next
  case False
  obtain r1 w1 where b: "embed_batch E tg v w = (r1, w1)" by (rule prod.exhaust)
  have calls: "ew_calls w1 = ew_calls w + 1" by (rule embed_batch_calls [OF b])
  show ?thesis
  proof (cases r1)
    case (Inl e)
    then show ?thesis using b False calls by (subst embed_loop.simps) simp
  next
    case (Inr v')
    obtain reply w2 where g: "ee_gateway E (ew_calls w) (List.map snd (batch_of v)) (et_model tg) = Inr reply"
      and len: "length (ep_vectors reply) = length (batch_of v)"
      and up: "transact E (try_commit (upsert_vectors (zip (List.map fst (batch_of v)) (ep_vectors reply)) (ep_model reply)
         (et_embedding_version tg))) (w\<lparr>ew_calls := ew_calls w + 1\<rparr>) = (Inr (), w2)"
      and bt: "el_batches v' = el_batches v + 1"
      and alt: "(ep_model reply = [] \<or> ep_model reply = el_lookup v) \<and> w1 = w2 \<and> el_lookup v' = el_lookup v
         \<and> el_pending v' = el_pending v \<and> el_start v' = el_start v + length (batch_of v)
       \<or> ep_model reply \<noteq> [] \<and> ep_model reply \<noteq> el_lookup v \<and> el_lookup v' = ep_model reply \<and> el_start v' = 0
         \<and> (\<exists>w3. remember_resolution E (et_model tg) (ep_model reply) w2 = Inr w3
              \<and> pending_chunks E tg (ep_model reply) w3 = (el_pending v', w1))"
      using embed_batch_Inr [OF b [unfolded Inr]] .
    have m: "ep_model reply = m" "m \<noteq> []"
      using assms g by (auto simp: stable_model_def)
    have "m \<noteq> el_lookup v" using False by blast
    with alt m obtain w3 where look: "el_lookup v' = m" and start: "el_start v' = 0"
      and rem: "remember_resolution E (et_model tg) m w2 = Inr w3" and pend: "pending_chunks E tg m w3 = (el_pending v', w1)"
      by auto
    obtain r w' where l: "embed_loop E tg v' w1 = Some (r, w')"
      and n: "ew_calls w' \<le> ew_calls w1 + rounds (length (el_pending v') - el_start v')"
      using loop_ends_resolved [OF assms look, of tg w1] by blast
    have "length (el_pending v') \<le> length (active_now tg w)" if keep: "keeps_chunks E (et_doc tg) (et_version tg)"
    proof -
      have "active_now tg w2 = active_now tg w"
        using transact_active [OF up keep try_upsert_chunks] active_now_cong [of "w\<lparr>ew_calls := ew_calls w + 1\<rparr>" w tg] by simp
      moreover have "active_now tg w3 = active_now tg w2"
        by (rule active_now_cong) (use remember_reads [OF rem] in simp)
      ultimately show ?thesis using pending_chunks_length(1) [OF pend keep] by simp
    qed
    then have "ew_calls w' \<le> ew_calls w + 1 + rounds (length (active_now tg w))" if "keeps_chunks E (et_doc tg) (et_version tg)"
      using that n start calls rounds_mono [of "length (el_pending v')" "length (active_now tg w)"] by simp
    then show ?thesis
      using l b Inr False by (subst embed_loop.simps) simp
  qed
qed

subsection \<open>Nothing is left without a vector\<close>

definition has_vector_for :: "ustring \<Rightarrow> int \<Rightarrow> kstore \<Rightarrow> chunk_row \<Rightarrow> bool" where
  "has_vector_for model n s c = ((cr_id c, model, n) \<in> fst ` set (ks_vectors s))"

lemma upsert_keys:
  "upsert_vectors rows model n s = Inr s' \<Longrightarrow>
     fst ` set (ks_vectors s') = fst ` set (ks_vectors s) \<union> (\<lambda>r. (fst r, model, n)) ` set rows"
proof -
  have "fst ` set (fold (\<lambda>(c, v). AList.update (c, model, n) v) rows vs) = fst ` set vs \<union> (\<lambda>r. (fst r, model, n)) ` set rows" for vs
    by (induction rows arbitrary: vs) (auto simp: dom_update split: prod.split)
  moreover assume "upsert_vectors rows model n s = Inr s'"
  then have "ks_vectors s' = fold (\<lambda>(c, v). AList.update (c, model, n) v) rows (ks_vectors s)"
    by (auto simp: upsert_vectors_def split: if_splits)
  ultimately show "fst ` set (ks_vectors s') = fst ` set (ks_vectors s) \<union> (\<lambda>r. (fst r, model, n)) ` set rows"
    by simp
qed

text \<open>The loop's invariant: a current chunk has its vector, or is still in the list.\<close>

definition covered :: "embed_target \<Rightarrow> embed_loop_state \<Rightarrow> 'r embed_world \<Rightarrow> bool" where
  "covered tg v w =
     (\<forall>c \<in> set (active_now tg w). has_vector_for (el_lookup v) (et_embedding_version tg) (ew_store w) c
        \<or> cr_id c \<in> fst ` set (drop (el_start v) (el_pending v)))"

lemma pending_chunks_covered:
  assumes "pending_chunks E tg model w = (ps, w')" "el_pending v = ps" "el_start v = 0" "el_lookup v = model"
  shows "covered tg v w'"
proof -
  let ?s = "ee_others E (length (ew_trace w)) (ew_store w)"
  have s: "ps = pending_of tg model ?s" "ew_store w' = ?s"
    using assms(1) by (auto simp: pending_chunks_def transact_def Let_def)
  have "c \<in> set (active_for_version (et_doc tg) (et_version tg) ?s)
      \<Longrightarrow> has_vector_for model (et_embedding_version tg) ?s c \<or> cr_id c \<in> fst ` set ps" for c
    by (force simp: s(1) pending_of_def Let_def chunks_without_embedding_def has_vector_for_def)
  then show ?thesis
    using assms(2-4) s(2) by (simp add: covered_def active_now_def)
qed

lemma drop_batch:
  "set (drop (el_start v) (el_pending v)) = set (batch_of v) \<union> set (drop (el_start v + length (batch_of v)) (el_pending v))"
proof -
  have "drop (el_start v) (el_pending v) = batch_of v @ drop (length (batch_of v)) (drop (el_start v) (el_pending v))"
    unfolding batch_of_def by (metis append_take_drop_id length_take min.commute take_all_iff drop_take min_def append_eq_conv_conj)
  then show ?thesis by (metis drop_drop set_append add.commute)
qed

lemma upsert_covered:
  assumes "transact E (try_commit (upsert_vectors (zip (List.map fst (batch_of v)) vs) model (et_embedding_version tg))) w = (Inr (), w')"
    and "length vs = length (batch_of v)" "covered tg v w" "model = el_lookup v"
    and "keeps_chunks E (et_doc tg) (et_version tg)" "keeps_vectors E"
    and "el_lookup v' = el_lookup v" "el_pending v' = el_pending v" "el_start v' = el_start v + length (batch_of v)"
  shows "covered tg v' w'"
proof -
  let ?s = "ee_others E (length (ew_trace w)) (ew_store w)"
  let ?rows = "zip (List.map fst (batch_of v)) vs"
  obtain s' where up: "upsert_vectors ?rows model (et_embedding_version tg) ?s = Inr s'" and w': "ew_store w' = s'"
    using assms(1) by (auto simp: transact_def Let_def try_commit_def split: sum.splits)
  have "map fst ?rows = map fst (batch_of v)" using assms(2) by simp
  then have ids: "fst ` set ?rows = fst ` set (batch_of v)" by (metis set_map)
  have keys: "fst ` set (ks_vectors s') = fst ` set (ks_vectors ?s) \<union> (\<lambda>i. (i, model, et_embedding_version tg)) ` fst ` set (batch_of v)"
    unfolding upsert_keys [OF up] ids [symmetric] by (simp add: image_image)
  have act: "active_now tg w' = active_now tg w"
    by (rule transact_active [OF assms(1) assms(5) try_upsert_chunks])
  have "has_vector_for (el_lookup v) (et_embedding_version tg) (ew_store w) c
      \<Longrightarrow> has_vector_for (el_lookup v) (et_embedding_version tg) s' c" for c
    using assms(6) unfolding has_vector_for_def keys keeps_vectors_def by blast
  moreover have "has_vector_for (el_lookup v) (et_embedding_version tg) s' c" if "cr_id c \<in> fst ` set (batch_of v)" for c
    using that assms(4) unfolding has_vector_for_def keys by blast
  moreover have "has_vector_for (el_lookup v) (et_embedding_version tg) (ew_store w) c \<or> cr_id c \<in> fst ` set (batch_of v)
      \<or> cr_id c \<in> fst ` set (drop (el_start v + length (batch_of v)) (el_pending v))" if "c \<in> set (active_now tg w)" for c
    using assms(3) that unfolding covered_def drop_batch by auto
  ultimately show ?thesis
    unfolding covered_def act w' assms(7-9) by blast
qed

definition names_model :: "'r embed_env \<Rightarrow> bool" where
  "names_model E = (\<forall>n texts model reply. ee_gateway E n texts model = Inr reply \<longrightarrow> ep_model reply \<noteq> [])"

lemma batch_covered:
  assumes "embed_batch E tg v w = (Inr v', w')" "covered tg v w" "names_model E"
    and "keeps_chunks E (et_doc tg) (et_version tg)" "keeps_vectors E"
  shows "covered tg v' w'"
proof -
  obtain reply w2 where g: "ee_gateway E (ew_calls w) (List.map snd (batch_of v)) (et_model tg) = Inr reply"
    and len: "length (ep_vectors reply) = length (batch_of v)"
    and up: "transact E (try_commit (upsert_vectors (zip (List.map fst (batch_of v)) (ep_vectors reply)) (ep_model reply)
       (et_embedding_version tg))) (w\<lparr>ew_calls := ew_calls w + 1\<rparr>) = (Inr (), w2)"
    and bt: "el_batches v' = el_batches v + 1"
    and alt: "(ep_model reply = [] \<or> ep_model reply = el_lookup v) \<and> w' = w2 \<and> el_lookup v' = el_lookup v
       \<and> el_pending v' = el_pending v \<and> el_start v' = el_start v + length (batch_of v)
     \<or> ep_model reply \<noteq> [] \<and> ep_model reply \<noteq> el_lookup v \<and> el_lookup v' = ep_model reply \<and> el_start v' = 0
       \<and> (\<exists>w3. remember_resolution E (et_model tg) (ep_model reply) w2 = Inr w3
            \<and> pending_chunks E tg (ep_model reply) w3 = (el_pending v', w'))"
    using embed_batch_Inr [OF assms(1)] .
  have named: "ep_model reply \<noteq> []" using assms(3) g by (auto simp: names_model_def)
  from alt show ?thesis
  proof
    assume a: "(ep_model reply = [] \<or> ep_model reply = el_lookup v) \<and> w' = w2 \<and> el_lookup v' = el_lookup v
       \<and> el_pending v' = el_pending v \<and> el_start v' = el_start v + length (batch_of v)"
    have "covered tg v (w\<lparr>ew_calls := ew_calls w + 1\<rparr>)"
      using assms(2) by (simp add: covered_def active_now_def)
    then show ?thesis using upsert_covered [OF up len _ _ assms(4,5)] a named by simp
  next
    assume "ep_model reply \<noteq> [] \<and> ep_model reply \<noteq> el_lookup v \<and> el_lookup v' = ep_model reply \<and> el_start v' = 0
       \<and> (\<exists>w3. remember_resolution E (et_model tg) (ep_model reply) w2 = Inr w3
            \<and> pending_chunks E tg (ep_model reply) w3 = (el_pending v', w'))"
    then show ?thesis using pending_chunks_covered by blast
  qed
qed

lemma loop_covered:
  fixes w :: "'r embed_world"
  assumes "embed_loop E tg v w = Some (Inr v', w')" "covered tg v w" "names_model E"
    and "keeps_chunks E (et_doc tg) (et_version tg)" "keeps_vectors E"
  shows "\<forall>c \<in> set (active_now tg w'). has_vector_for (el_lookup v') (et_embedding_version tg) (ew_store w') c"
proof -
  let ?P = "\<lambda>(E :: 'r embed_env) tg v (w :: 'r embed_world) (y :: (embed_exn + embed_loop_state) \<times> 'r embed_world).
    (\<forall>v' w'. y = (Inr v', w') \<longrightarrow> covered tg v w \<longrightarrow> names_model E
      \<longrightarrow> keeps_chunks E (et_doc tg) (et_version tg) \<longrightarrow> keeps_vectors E
      \<longrightarrow> (\<forall>c \<in> set (active_now tg w'). has_vector_for (el_lookup v') (et_embedding_version tg) (ew_store w') c))"
  have "?P E tg v w (Inr v', w')"
  proof (rule embed_loop.raw_induct [where P = ?P, rotated, OF assms(1)])
    fix loop E tg v w y
    assume IH: "\<And>tg v w b y. loop tg v w b = Some y \<Longrightarrow> ?P tg v w b y"
      and body: "(if el_start v < length (el_pending v)
          then case embed_batch E tg v w of (Inl e, w') \<Rightarrow> Some (Inl e, w') | (Inr v', w') \<Rightarrow> loop E tg v' w'
          else Some (Inr v, w)) = Some y"
    show "?P E tg v w y"
    proof (cases "el_start v < length (el_pending v)")
      case False
      then show ?thesis using body by (auto simp: covered_def)
    next
      case True
      obtain r1 w1 where b: "embed_batch E tg v w = (r1, w1)" by (rule prod.exhaust)
      show ?thesis
      proof (cases r1)
        case (Inl e)
        then show ?thesis using body True b by auto
      next
        case (Inr v1)
        then have "loop E tg v1 w1 = Some y" using body True b by simp
        from IH [OF this] show ?thesis using batch_covered [OF b [unfolded Inr]] by blast
      qed
    qed
  qed
  then show ?thesis using assms(2-5) by blast
qed

subsection \<open>Properties\<close>

text \<open>What the first transaction of the task sees.\<close>

definition first_seen :: "'r embed_env \<Rightarrow> 'r embed_world \<Rightarrow> kstore" where
  "first_seen E w = ee_others E (length (ew_trace w)) (ew_store w)"

definition version_seen :: "'r embed_env \<Rightarrow> uuid128 \<Rightarrow> 'r embed_world \<Rightarrow> int" where
  "version_seen E d w = (case find_doc d (first_seen E w) of Some r \<Rightarrow> dr_version r | None \<Rightarrow> 0)"

lemma embed_target_version:
  "embed_target_of E d s = Inr tg \<Longrightarrow> et_doc tg = d \<and> (\<exists>r. find_doc d s = Some r \<and> et_version tg = dr_version r)"
  by (auto simp: embed_target_of_def split: option.splits)

lemma embed_settle_extends:
  assumes "embed_settle E now tg v w = (r, w')"
  shows "extends (embed_write (et_doc tg) (et_version tg)) w w'"
proof -
  let ?P = "embed_write (et_doc tg) (et_version tg)"
  have a: "extends ?P u (commit_tx E (finish_job k st stats err) u)" for u k st stats err
    by (rule extends_commit) (rule task.job_finish)
  have b: "extends ?P u (commit_tx E (notify n) u)" for u n
    by (rule extends_commit) (rule task.notice)
  have c: "extends ?P u u'"
    if "transact E (set_status now (et_doc tg) READY None (Some [EMBEDDING]) (Some (et_version tg))) u = (h, u')" for u u' h
    by (rule extends_transact [OF that]) (rule embed_write_transitions)
  show ?thesis
    using assms by (auto simp: embed_settle_def Let_def split: prod.splits bool.splits if_splits
        dest!: c intro: extends_trans [OF a] extends_trans [OF extends_trans [OF a] b])
qed

lemma embed_fail_permanently_extends:
  assumes "embed_fail_permanently E now tg e w = (r, w')"
  shows "extends (embed_write (et_doc tg) (et_version tg)) w w'"
proof -
  let ?P = "embed_write (et_doc tg) (et_version tg)"
  have b: "extends ?P u (commit_tx E (notify n) u)" for u n
    by (rule extends_commit) (rule task.notice)
  have c: "extends ?P u u'"
    if "transact E (set_status now (et_doc tg) FAILED (Some nt) None (Some (et_version tg))) u = (h, u')" for u u' h nt
    by (rule extends_transact [OF that]) (rule embed_write_transitions)
  show ?thesis
    using assms by (auto simp: embed_fail_permanently_def Let_def split: prod.splits bool.splits
        dest!: c intro: extends_trans [OF task.extends_fail_job] extends_trans [OF extends_trans [OF task.extends_fail_job] b])
qed

lemma embed_document_extends:
  assumes "embed_document E now d w = Some (res, w')"
  shows "extends (embed_write d (version_seen E d w)) w w'"
proof -
  obtain r w0 where load: "transact E (\<lambda>s. (embed_target_of E d s, s)) w = (r, w0)" by (rule prod.exhaust)
  have r: "r = embed_target_of E d (first_seen E w)"
    using load by (auto simp: transact_def Let_def first_seen_def)
  have first: "extends (embed_write d (version_seen E d w)) w w0"
    by (rule extends_transact [OF load]) (simp add: task.unchanged)
  show ?thesis
  proof (cases r)
    case (Inl e)
    then show ?thesis using assms first load by (simp add: embed_document_def)
  next
    case (Inr tg)
    let ?P = "embed_write (et_doc tg) (et_version tg)"
    have d: "et_doc tg = d" and v: "et_version tg = version_seen E d w"
      using embed_target_version [of E d "first_seen E w" tg] r Inr by (auto simp: version_seen_def)
    have c: "extends ?P u u'"
      if "transact E (set_status now d EMBEDDING None (Some embeddable_statuses) (Some (et_version tg))) (commit_tx E (start_job k) u)
            = (h, u')" for u u' h k
    proof (rule extends_trans)
      show "extends ?P u (commit_tx E (start_job k) u)" by (rule extends_commit) (rule task.job_start)
      show "extends ?P (commit_tx E (start_job k) u) u'"
        by (rule extends_transact [OF that]) (simp only: d [symmetric] embed_write_transitions)
    qed
    have "extends ?P w0 w'"
      using assms load Inr
      by (auto simp: embed_document_def split: prod.splits bool.splits if_splits option.splits sum.splits embed_exn.splits
          dest!: c task.extends_embed_pending embed_settle_extends [of _ _ _ _ _ res w'] embed_fail_permanently_extends [of _ _ _ _ _ res w']
          intro: extends_trans task.extends_fail_job)
    with first show ?thesis unfolding d v by (rule extends_trans)
  qed
qed

lemma embed_write_effect:
  assumes "embed_write d v s s'"
  shows "(\<forall>d'. d' \<noteq> d \<longrightarrow> map_of (ks_docs s') d' = map_of (ks_docs s) d') \<and> ks_chunks s' = ks_chunks s
    \<and> (map_of (ks_docs s') d = map_of (ks_docs s) d
       \<or> (\<exists>r r'. find_doc d s = Some r \<and> find_doc d s' = Some r' \<and> dr_version r = v \<and> dr_version r' = v
            \<and> (dr_status r, dr_status r') \<in> {CHUNKED, EMBEDDING, READY} \<times> {EMBEDDING} \<union> {(EMBEDDING, READY)} \<union> UNIV \<times> {FAILED}))"
  using assms by (cases rule: embed_write.cases) (auto simp: put_doc_def find_doc_def update_conv' split: option.splits if_splits)

lemma commit_calls [simp]: "ew_calls (commit_tx E f w) = ew_calls w"
  using transact_calls unfolding commit_tx_def by (metis prod.collapse)

lemma fail_job_calls [simp]: "ew_calls (embed_fail_job E tg e w) = ew_calls w"
  by (simp add: embed_fail_job_def)

lemma settle_calls: "ew_calls (snd (embed_settle E now tg v w)) = ew_calls w"
  by (auto simp: embed_settle_def Let_def split: prod.splits bool.splits dest!: transact_calls)

lemma fail_permanently_calls: "ew_calls (snd (embed_fail_permanently E now tg e w)) = ew_calls w"
  by (auto simp: embed_fail_permanently_def Let_def split: prod.splits bool.splits dest!: transact_calls)

lemma commit_active:
  assumes "keeps_chunks E (et_doc tg) (et_version tg)" "\<And>s. ks_chunks (f s) = ks_chunks s"
  shows "active_now tg (commit_tx E f w) = active_now tg w"
  using transact_active [where E = E and f = "\<lambda>s. ((), f s)" and x = "()" and w' = "commit_tx E f w"] assms
  by (simp add: commit_tx_def prod_eq_iff)

text \<open>The state in which the loop starts.\<close>

lemma embed_document_cases:
  assumes "r0 = embed_target_of E d (first_seen E w)"
  obtains (skipped) res w' where "embed_document E now d w = Some (res, w')" "ew_calls w' = ew_calls w"
      "\<forall>r. res = Inr r \<longrightarrow> (\<exists>place. er_outcome r = SkippedAt place)"
  | (entered) tg w1 where "r0 = Inr tg" "et_doc tg = d" "et_version tg = version_seen E d w" "ew_calls w1 = ew_calls w"
      "keeps_chunks E d (et_version tg) \<Longrightarrow> active_now tg w1 = active_now tg w"
      "embed_document E now d w =
        (case embed_pending E tg w1 of
           None \<Rightarrow> None
         | Some (Inr v, w2) \<Rightarrow> Some (embed_settle E now tg v w2)
         | Some (Inl (ProviderFailure e False), w2) \<Rightarrow> Some (embed_fail_permanently E now tg e w2)
         | Some (Inl exn, w2) \<Rightarrow> Some (Inl exn, embed_fail_job E tg (exn_of exn) w2))"
proof -
  obtain r w0 where load: "transact E (\<lambda>s. (embed_target_of E d s, s)) w = (r, w0)" by (rule prod.exhaust)
  have r: "r = r0" using load assms by (auto simp: transact_def Let_def first_seen_def)
  note calls0 = transact_calls [OF load]
  show thesis
  proof (cases r)
    case (Inl e)
    then show thesis using skipped [of "Inl (OtherFailure e)" w0] load calls0 by (simp add: embed_document_def)
  next
    case (Inr tg)
    have d: "et_doc tg = d" and v: "et_version tg = version_seen E d w"
      using embed_target_version [of E d "first_seen E w" tg] r Inr assms by (auto simp: version_seen_def)
    let ?w0 = "commit_tx E (start_job (embed_job tg)) w0"
    obtain h w1 where enter: "transact E (set_status now d EMBEDDING None (Some embeddable_statuses) (Some (et_version tg))) ?w0 = (h, w1)"
      by (rule prod.exhaust)
    have calls1: "ew_calls w1 = ew_calls w" using transact_calls [OF enter] calls0 by simp
    show thesis
    proof (cases "et_status tg \<in> set embeddable_statuses \<and> h")
      case False
      then show thesis
        using skipped [of "Inr (skip_stale tg ''document_not_chunked'')" w0] skipped [of "Inr (skip_stale tg ''enter_embedding'')" w1]
          load enter Inr calls0 calls1
        by (cases "et_status tg \<in> set embeddable_statuses") (simp_all add: embed_document_def skip_stale_def)
    next
      case True
      have "active_now tg w1 = active_now tg w" if k: "keeps_chunks E d (et_version tg)"
      proof -
        have "active_now tg w1 = active_now tg ?w0"
          by (rule transact_active [OF enter]) (use k d in simp_all)
        also have "\<dots> = active_now tg w0"
          by (rule commit_active) (use k d in simp_all)
        also have "\<dots> = active_now tg w"
          by (rule transact_active [OF load]) (use k d in simp_all)
        finally show ?thesis .
      qed
      then show thesis
        using entered [of tg w1] r Inr d v calls1 load enter True by (simp add: embed_document_def)
    qed
  qed
qed

text \<open>C5. whatever other tasks commit between its transactions, an embedding task changes no other document and no
  chunk, and it changes the row of its own document only while that row still has the version the task
  started from: to \<open>embedding\<close> from \<open>chunked\<close>, \<open>embedding\<close> or \<open>ready\<close>, to \<open>ready\<close> only from \<open>embedding\<close>, or to \<open>failed\<close>.
  So a task that was overtaken by a re-ingest writes nothing to the new version.\<close>

theorem embedding_writes_only_its_version:
  assumes "embed_document E now d w = Some (res, w')"
  shows "\<exists>new. ew_trace w' = ew_trace w @ new \<and> (\<forall>(s, s') \<in> set new.
    (\<forall>d'. d' \<noteq> d \<longrightarrow> map_of (ks_docs s') d' = map_of (ks_docs s) d') \<and> ks_chunks s' = ks_chunks s
    \<and> (map_of (ks_docs s') d = map_of (ks_docs s) d
       \<or> (\<exists>r r'. find_doc d s = Some r \<and> find_doc d s' = Some r'
            \<and> dr_version r = version_seen E d w \<and> dr_version r' = version_seen E d w
            \<and> (dr_status r, dr_status r') \<in> {CHUNKED, EMBEDDING, READY} \<times> {EMBEDDING} \<union> {(EMBEDDING, READY)} \<union> UNIV \<times> {FAILED})))"
  using embed_document_extends [OF assms] embed_write_effect unfolding extends_def by blast

lemma embed_document_ends:
  assumes "stable_model E m"
  shows "\<exists>res w'. embed_document E now d w = Some (res, w')
    \<and> (keeps_chunks E d (version_seen E d w) \<longrightarrow>
        ew_calls w' \<le> ew_calls w + 1 + rounds (length (active_for_version d (version_seen E d w) (ew_store w))))"
proof (cases rule: embed_document_cases [OF refl, where E = E and d = d and w = w and now = now, case_names skipped entered])
  case (skipped res w')
  then show ?thesis by simp
next
  case (entered tg w1)
  let ?k = "keeps_chunks E d (version_seen E d w)"
  let ?n = "rounds (length (active_for_version d (version_seen E d w) (ew_store w)))"
  have pend: "\<exists>r w2. embed_pending E tg w1 = Some (r, w2) \<and> (?k \<longrightarrow> ew_calls w2 \<le> ew_calls w + 1 + ?n)"
  proof (cases "resolved_model E (et_model tg) w1")
    case (Inl e)
    then show ?thesis using entered(4) by (simp add: embed_pending_def)
  next
    case (Inr lookup)
    obtain ps w2 where ps: "pending_chunks E tg lookup w1 = (ps, w2)" by (rule prod.exhaust)
    have "length ps \<le> length (active_now tg w2)" "active_now tg w2 = active_now tg w" if ?k
      using pending_chunks_length [OF ps] entered(2,3,5) that by simp_all
    moreover have "ew_calls w2 = ew_calls w" using ps entered(4) by (simp add: pending_chunks_def transact_calls)
    moreover have "active_now tg w = active_for_version d (version_seen E d w) (ew_store w)"
      by (simp add: active_now_def entered(2,3))
    ultimately show ?thesis
      using loop_ends [OF assms, of tg "\<lparr>el_pending = ps, el_start = 0, el_lookup = lookup, el_embedded = 0, el_tokens = 0,
                  el_batches = 0, el_reported = et_model tg\<rparr>" w2] entered(2,3) Inr ps
      by (auto simp: embed_pending_def)
  qed
  then obtain r w2 where p: "embed_pending E tg w1 = Some (r, w2)" and n: "?k \<longrightarrow> ew_calls w2 \<le> ew_calls w + 1 + ?n" by blast
  show ?thesis
  proof (cases r)
    case (Inr v)
    then show ?thesis using entered(6) p n settle_calls [of E now tg v w2] by (auto split: prod.splits) (metis prod.collapse)
  next
    case (Inl exn)
    then show ?thesis
      using entered(6) p n fail_permanently_calls [of E now tg _ w2]
      by (cases exn) (auto split: prod.splits bool.splits intro: exI [of _ "fst _"], (metis prod.collapse)+)
  qed
qed

text \<open>C15. The task ends when the provider resolves the model name always to the same model, even if other tasks keep
  changing the tables; and when they leave the current chunks alone, it calls the provider at most once for every 64 of
  the \<open>n\<close> current chunks and once more, \<open>1 + \<lceil>n / 64\<rceil>\<close> times in all.\<close>

theorem embedding_terminates:
  assumes "stable_model E m"
  shows "\<exists>res w'. embed_document E now d w = Some (res, w')
    \<and> (keeps_chunks E d (version_seen E d w) \<longrightarrow>
        ew_calls w' \<le> ew_calls w + 1 + rounds (length (active_for_version d (version_seen E d w) (ew_store w))))"
  using assms by (rule embed_document_ends)

text \<open>Transactions that add to the vectors and leave the chunks keep what has a vector.\<close>

lemma transact_has_vector:
  assumes "transact E f w = (x, w')" "keeps_vectors E" "\<And>s. ks_vectors (snd (f s)) = ks_vectors s"
    and "has_vector_for m n (ew_store w) c"
  shows "has_vector_for m n (ew_store w') c"
proof -
  let ?s = "ee_others E (length (ew_trace w)) (ew_store w)"
  have "ew_store w' = snd (f ?s)" using assms(1) by (auto simp: transact_def Let_def split: prod.splits)
  moreover have "fst ` set (ks_vectors (ew_store w)) \<subseteq> fst ` set (ks_vectors ?s)"
    using assms(2) by (simp add: keeps_vectors_def)
  ultimately show ?thesis using assms(3) [of ?s] assms(4) by (auto simp: has_vector_for_def)
qed

definition all_have_vectors :: "embed_target \<Rightarrow> ustring \<Rightarrow> 'r embed_world \<Rightarrow> bool" where
  "all_have_vectors tg m w = (\<forall>c \<in> set (active_now tg w). has_vector_for m (et_embedding_version tg) (ew_store w) c)"

lemma transact_all_have:
  assumes "all_have_vectors tg m w" "transact E f w = (x, w')" "keeps_chunks E (et_doc tg) (et_version tg)" "keeps_vectors E"
    and "\<And>s. ks_vectors (snd (f s)) = ks_vectors s" "\<And>s. ks_chunks (snd (f s)) = ks_chunks s"
  shows "all_have_vectors tg m w'"
  using assms(1) transact_active [OF assms(2,3,6)] transact_has_vector [OF assms(2,4,5)] by (auto simp: all_have_vectors_def)

lemma commit_all_have:
  assumes "all_have_vectors tg m w" "keeps_chunks E (et_doc tg) (et_version tg)" "keeps_vectors E"
    and "\<And>s. ks_vectors (f s) = ks_vectors s" "\<And>s. ks_chunks (f s) = ks_chunks s"
  shows "all_have_vectors tg m (commit_tx E f w)"
  unfolding commit_tx_def
  by (rule transact_all_have [where E = E and f = "\<lambda>s. ((), f s)" and x = "()", OF assms(1)])
     (auto simp: prod_eq_iff assms(2-5))

lemma settle_all_have:
  assumes "all_have_vectors tg m w" "keeps_chunks E (et_doc tg) (et_version tg)" "keeps_vectors E"
    and "embed_settle E now tg v w = (Inr r, w')"
  shows "all_have_vectors tg m w'"
proof -
  let ?w1 = "commit_tx E (finish_job (embed_job tg) ''succeeded'' (EmbedStats (el_embedded v) (el_tokens v) (el_batches v)) None) w"
  have a: "all_have_vectors tg m ?w1" by (rule commit_all_have [OF assms(1-3)]) simp_all
  have u: "all_have_vectors tg m (?w1\<lparr>ew_usage := us\<rparr>)" for us
    using a by (simp add: all_have_vectors_def active_now_def)
  have t: "all_have_vectors tg m w3"
    if "transact E (set_status now (et_doc tg) READY None (Some [EMBEDDING]) (Some (et_version tg))) w2 = (h, w3)"
      "all_have_vectors tg m w2" for w2 w3 h
    by (rule transact_all_have [OF that(2,1) assms(2,3)]) simp_all
  have n: "all_have_vectors tg m (commit_tx E (notify x) w3)" if "all_have_vectors tg m w3" for x w3
    by (rule commit_all_have [OF that assms(2,3)]) simp_all
  show ?thesis
    using assms(4) a u by (auto simp: embed_settle_def Let_def split: prod.splits bool.splits if_splits dest!: t intro: n)
qed

text \<open>C11. When the task reports the document as embedded, every current chunk of the version has a vector under one model
  name and the embedding version of the knowledge base, also when the provider changed the name in between. Needs that
  the provider names the model it used, and that meanwhile nobody changes the version's current chunks or removes
  vectors.\<close>

theorem embedded_means_every_chunk_has_a_vector:
  assumes "embed_document E now d w = Some (Inr r, w')" "er_outcome r = Embedded a b c"
    and "names_model E" "keeps_chunks E d (version_seen E d w)" "keeps_vectors E"
  shows "\<exists>m tg. embed_target_of E d (first_seen E w) = Inr tg
    \<and> (\<forall>ch \<in> set (active_for_version d (version_seen E d w) (ew_store w')).
         (cr_id ch, m, et_embedding_version tg) \<in> fst ` set (ks_vectors (ew_store w')))"
proof (cases rule: embed_document_cases [OF refl, where E = E and d = d and w = w and now = now, case_names skipped entered])
  case (skipped res w2)
  then show ?thesis using assms(1,2) by auto
next
  case (entered tg w1)
  from assms(1,2) entered(6) obtain v w2 where p: "embed_pending E tg w1 = Some (Inr v, w2)"
    and settle: "embed_settle E now tg v w2 = (Inr r, w')"
    by (auto simp: embed_fail_permanently_def skip_stale_def Let_def
        split: option.splits prod.splits sum.splits embed_exn.splits bool.splits)
  have keep: "keeps_chunks E (et_doc tg) (et_version tg)" using assms(4) entered(2,3) by simp
  from p obtain lookup ps w3 where look: "resolved_model E (et_model tg) w1 = Inr lookup"
    and ps: "pending_chunks E tg lookup w1 = (ps, w3)"
    and loop: "embed_loop E tg \<lparr>el_pending = ps, el_start = 0, el_lookup = lookup, el_embedded = 0, el_tokens = 0,
                  el_batches = 0, el_reported = et_model tg\<rparr> w3 = Some (Inr v, w2)"
    by (auto simp: embed_pending_def split: sum.splits prod.splits)
  have "all_have_vectors tg (el_lookup v) w2"
    unfolding all_have_vectors_def
    by (rule loop_covered [OF loop pending_chunks_covered [OF ps] assms(3) keep assms(5)]) simp_all
  from settle_all_have [OF this keep assms(5) settle] have "all_have_vectors tg (el_lookup v) w'" .
  then show ?thesis
    using entered(1-3) by (auto simp: all_have_vectors_def has_vector_for_def active_now_def)
qed

subsection \<open>A sample\<close>

text \<open>One current chunk, a provider that resolves the name \<open>m\<close> to \<open>mx\<close>, and in the second environment a user
  who re-ingests the document while the provider works.\<close>

definition embed_sample_env :: "(nat \<Rightarrow> kstore \<Rightarrow> kstore) \<Rightarrow> (ustring \<Rightarrow> ustring option) embed_env" where
  "embed_sample_env others =
     \<lparr>ee_gateway = (\<lambda>n texts model. Inr \<lparr>ep_vectors = List.map (\<lambda>t. replicate vector_dimensions 0) texts,
                                           ep_model = lit ''mx'', ep_tokens = 5\<rparr>),
      ee_redis_get = (\<lambda>k r. Inr (r k)), ee_redis_set = (\<lambda>k x r. Inr (r(k \<mapsto> x))), ee_default_model = lit ''d'',
      ee_others = others\<rparr>"

definition embed_sample_world :: "(ustring \<Rightarrow> ustring option) embed_world" where
  "embed_sample_world =
     \<lparr>ew_store = (is_store (sample_state CHUNKED))\<lparr>ks_chunks := [ingest_sample_chunk 100 1, ingest_sample_chunk 101 2]\<rparr>,
      ew_redis = Map.empty, ew_usage = [], ew_calls = 0, ew_trace = []\<rparr>"

definition no_others :: "nat \<Rightarrow> kstore \<Rightarrow> kstore" where
  "no_others n s = s"

definition reingest_at :: "nat \<Rightarrow> nat \<Rightarrow> kstore \<Rightarrow> kstore" where
  "reingest_at k n s = (if n = k then start_new_version 9 1 3 (supersede_for_document 1 s) else s)"

lemma embed_sample_stable: "stable_model (embed_sample_env others) (lit ''mx'')" "names_model (embed_sample_env others)"
  by (auto simp: stable_model_def names_model_def embed_sample_env_def lit_def)

lemma embed_sample_run:
  "case embed_document (embed_sample_env no_others) 7 1 embed_sample_world of
     Some (Inr r, w') \<Rightarrow> er_outcome r = Embedded 1 5 1 | _ \<Rightarrow> False"
  by (simp add: embed_document_def embed_pending_def embed_loop.simps embed_batch_def transact_def commit_tx_def Let_def
      embed_sample_env_def embed_sample_world_def no_others_def sample_state_def embed_target_of_def find_doc_def find_kb_def
      embeddable_statuses_def set_status_def start_job_def finish_job_def pending_chunks_def pending_of_def resolved_model_def
      active_for_version_def ingest_sample_chunk_def chunks_without_embedding_def model_for_def embed_job_def put_doc_def lit_def
      embed_batch_size_def try_commit_def upsert_vectors_def remember_resolution_def embed_settle_def skip_stale_def
      notify_def or_else_def vector_dimensions_def ks_jobs_def) force

lemma embedding_writes_only_its_version_witness:
  "\<exists>res w' new. embed_document (embed_sample_env (reingest_at 5)) 7 1 embed_sample_world = Some (res, w')
    \<and> ew_trace w' = ew_trace embed_sample_world @ new \<and> (\<forall>(s, s') \<in> set new. ks_chunks s' = ks_chunks s)"
proof -
  obtain res w' where run: "embed_document (embed_sample_env (reingest_at 5)) 7 1 embed_sample_world = Some (res, w')"
    using embed_document_ends [OF embed_sample_stable(1)] by blast
  from embedding_writes_only_its_version [OF this] run show ?thesis by blast
qed

lemma embedding_terminates_witness:
  "\<exists>res w'. embed_document (embed_sample_env (reingest_at 5)) 7 1 embed_sample_world = Some (res, w')"
  using embedding_terminates [OF embed_sample_stable(1)] by blast

lemma embedded_means_every_chunk_has_a_vector_witness:
  "\<exists>r w' m (tg :: embed_target). embed_document (embed_sample_env no_others) 7 1 embed_sample_world = Some (Inr r, w')
    \<and> (\<forall>ch \<in> set (active_for_version 1 2 (ew_store w')).
         (cr_id ch, m, et_embedding_version tg) \<in> fst ` set (ks_vectors (ew_store w')))"
proof -
  obtain r w' where run: "embed_document (embed_sample_env no_others) 7 1 embed_sample_world = Some (Inr r, w')"
    and out: "er_outcome r = Embedded 1 5 1"
    using embed_sample_run by (auto split: option.splits prod.splits sum.splits)
  have quiet: "keeps_chunks (embed_sample_env no_others) 1 v" "keeps_vectors (embed_sample_env no_others)" for v
    by (auto simp: keeps_chunks_def keeps_vectors_def embed_sample_env_def no_others_def)
  have v: "version_seen (embed_sample_env no_others) 1 embed_sample_world = 2"
    by (simp add: version_seen_def first_seen_def embed_sample_env_def no_others_def embed_sample_world_def sample_state_def find_doc_def)
  from embedded_means_every_chunk_has_a_vector [OF run out embed_sample_stable(2) quiet] run show ?thesis
    unfolding v by blast
qed

subsection \<open>What the guards do not cover\<close>

text \<open>A document in \<open>chunked\<close> whose version has no chunk becomes \<open>ready\<close>: this is right for an empty file, but it is also
  the state that a stale ingestion run leaves (\<open>stale_run_revives_old_version\<close>), and then the version that the user
  asked for is never chunked.\<close>

text \<open>A provider that alternates between two model names keeps the loop going for ever, although the comment in the loop
  says that the list is read again at most once. The chunks \<open>pa\<close> have vectors only under \<open>A\<close>, the chunks \<open>pb\<close> only under
  \<open>B\<close> (with 65 chunks: the first 64 and the last one), and each answer under one name makes the loop start on the
  chunks that have only the other.\<close>

definition alternating :: "'r embed_env \<Rightarrow> ustring \<Rightarrow> ustring \<Rightarrow> bool" where
  "alternating E A B =
     (A \<noteq> [] \<and> B \<noteq> [] \<and> A \<noteq> B \<and> ee_others E = no_others \<and> (\<forall>k x r. \<exists>r'. ee_redis_set E k x r = Inr r')
      \<and> (\<forall>n texts model. ee_gateway E n texts model =
            Inr \<lparr>ep_vectors = List.map (\<lambda>t. replicate vector_dimensions 0) texts,
                 ep_model = (if even n then A else B), ep_tokens = 1\<rparr>))"

definition in_cycle ::
  "embed_target \<Rightarrow> ustring \<Rightarrow> ustring \<Rightarrow> (uuid128 \<times> ustring) list \<Rightarrow> (uuid128 \<times> ustring) list \<Rightarrow> embed_loop_state \<Rightarrow> 'r embed_world
   \<Rightarrow> bool" where
  "in_cycle tg A B pa pb v w =
     (el_start v = 0 \<and> pending_of tg A (ew_store w) = pb \<and> pending_of tg B (ew_store w) = pa
      \<and> (\<forall>x \<in> set pa. (fst x, A, et_embedding_version tg) \<in> fst ` set (ks_vectors (ew_store w)))
      \<and> (\<forall>x \<in> set pb. (fst x, B, et_embedding_version tg) \<in> fst ` set (ks_vectors (ew_store w)))
      \<and> (if even (ew_calls w) then el_lookup v = B \<and> el_pending v = pa else el_lookup v = A \<and> el_pending v = pb))"

lemma pending_of_same:
  "ks_chunks s' = ks_chunks s \<Longrightarrow> fst ` set (ks_vectors s') = fst ` set (ks_vectors s) \<Longrightarrow> pending_of tg m s' = pending_of tg m s"
  by (simp add: pending_of_def active_for_version_def chunks_without_embedding_def Let_def)

lemma pending_ids: "fst ` set (pending_of tg m s) \<subseteq> cr_id ` set (ks_chunks s)"
  by (auto simp: pending_of_def active_for_version_def Let_def)

lemma cycle_step:
  assumes "alternating E A B" "in_cycle tg A B pa pb v w" "length pa \<le> embed_batch_size" "length pb \<le> embed_batch_size"
  shows "\<exists>v' w'. embed_batch E tg v w = (Inr v', w') \<and> in_cycle tg A B pa pb v' w'"
proof -
  let ?s = "ew_store w" let ?p = "el_pending v" let ?n = "et_embedding_version tg"
  obtain m where m: "m = (if even (ew_calls w) then A else B)" by simp
  obtain vs where vs: "vs = List.map (\<lambda>t. replicate vector_dimensions (0 :: rat)) (List.map snd ?p)" by simp
  let ?rows = "zip (List.map fst ?p) vs"
  have p: "?p = (if even (ew_calls w) then pa else pb)" and start: "el_start v = 0" and look: "m \<noteq> el_lookup v" "m \<noteq> []"
    using assms(1,2) by (auto simp: in_cycle_def alternating_def m)
  have batch: "take embed_batch_size (drop (el_start v) ?p) = ?p" using p start assms(3,4) by simp
  have reply: "ee_gateway E (ew_calls w) (List.map snd ?p) (et_model tg) = Inr \<lparr>ep_vectors = vs, ep_model = m, ep_tokens = 1\<rparr>"
    using assms(1) by (simp add: alternating_def m vs)
  have ids: "fst ` set ?p \<subseteq> cr_id ` set (ks_chunks ?s)"
    using assms(2) p pending_ids [of tg A ?s] pending_ids [of tg B ?s] by (auto simp: in_cycle_def)
  have dims: "list_all (\<lambda>(c, v). length v = vector_dimensions) ?rows"
    by (auto simp: list_all_iff vs dest!: set_zip_rightD)
  have known: "list_all (\<lambda>(c, v). c \<in> set (List.map cr_id (ks_chunks ?s))) ?rows"
    using ids by (auto simp: list_all_iff dest!: set_zip_leftD)
  obtain s' where up: "upsert_vectors ?rows m ?n ?s = Inr s'"
    using dims known unfolding upsert_vectors_def by simp
  have old: "(\<lambda>r. (fst r, m, ?n)) ` set ?rows \<subseteq> fst ` set (ks_vectors ?s)"
    using assms(2) p by (auto simp: in_cycle_def m split: if_splits dest!: set_zip_leftD)
  have same: "ks_chunks s' = ks_chunks ?s" "fst ` set (ks_vectors s') = fst ` set (ks_vectors ?s)"
    using upsert_frame [OF up] upsert_keys [OF up] old by (simp, metis sup.absorb1)
  note pend = pending_of_same [OF same]
  obtain w2 where w2: "transact E (try_commit (upsert_vectors ?rows m ?n)) (w\<lparr>ew_calls := Suc (ew_calls w)\<rparr>) = (Inr (), w2)"
    "ew_store w2 = s'" "ew_calls w2 = ew_calls w + 1"
    using up assms(1) by (simp add: transact_def Let_def try_commit_def alternating_def no_others_def)
  obtain r' where "ee_redis_set E (et_model tg) m (ew_redis w2) = Inr r'"
    using assms(1) unfolding alternating_def by blast
  then obtain w3 where rem: "remember_resolution E (et_model tg) m w2 = Inr w3"
    by (simp add: remember_resolution_def)
  have w3: "ew_store w3 = s'" "ew_calls w3 = ew_calls w + 1" using remember_reads [OF rem] w2 by simp_all
  obtain w4 where w4: "pending_chunks E tg m w3 = (pending_of tg m s', w4)" "ew_store w4 = s'" "ew_calls w4 = ew_calls w + 1"
    using assms(1) w3 by (simp add: pending_chunks_def transact_def Let_def alternating_def no_others_def)
  obtain v' where v': "embed_batch E tg v w = (Inr v', w4)" "el_start v' = 0" "el_lookup v' = m" "el_pending v' = pending_of tg m s'"
    using look unfolding embed_batch_def Let_def batch by (simp add: reply w2(1) rem w4(1) vs [THEN arg_cong [where f = length]])
  have "in_cycle tg A B pa pb v' w4"
    using assms(2) v'(2-4) w4(2,3) pend same by (auto simp: in_cycle_def m)
  with v'(1) show ?thesis by blast
qed

lemma alternating_models_never_end:
  fixes w :: "'r embed_world"
  assumes "alternating E A B" "in_cycle tg A B pa pb v w" "pa \<noteq> []" "pb \<noteq> []"
    and "length pa \<le> embed_batch_size" "length pb \<le> embed_batch_size"
  shows "embed_loop E tg v w = None"
proof (rule ccontr)
  assume "embed_loop E tg v w \<noteq> None"
  then obtain y where y: "embed_loop E tg v w = Some y" by blast
  let ?P = "\<lambda>(E :: 'r embed_env) tg v (w :: 'r embed_world) (y :: (embed_exn + embed_loop_state) \<times> 'r embed_world).
    alternating E A B \<longrightarrow> \<not> in_cycle tg A B pa pb v w"
  have "?P E tg v w y"
  proof (rule embed_loop.raw_induct [where P = ?P, rotated, OF y])
    fix loop E tg v w y
    assume IH: "\<And>tg v w b y. loop tg v w b = Some y \<Longrightarrow> ?P tg v w b y"
      and body: "(if el_start v < length (el_pending v)
          then case embed_batch E tg v w of (Inl e, w') \<Rightarrow> Some (Inl e, w') | (Inr v', w') \<Rightarrow> loop E tg v' w'
          else Some (Inr v, w)) = Some y"
    show "?P E tg v w y"
    proof (intro impI notI)
      assume alt: "alternating E A B" and cyc: "in_cycle tg A B pa pb v w"
      obtain v' w' where b: "embed_batch E tg v w = (Inr v', w')" and c: "in_cycle tg A B pa pb v' w'"
        using cycle_step [OF alt cyc assms(5,6)] by blast
      have "el_start v < length (el_pending v)" using cyc assms(3,4) by (auto simp: in_cycle_def split: if_splits)
      then have "loop E tg v' w' = Some y" using body b by simp
      from IH [OF this] alt c show False by blast
    qed
  qed
  with assms(1,2) show False by blast
qed

end
