(* ===== verification/Reindex.thy ===== *)
theory Reindex
  imports Documents Embedding
begin

text \<open>
  Rebuilding a knowledge base: the rules of \<open>backend/services/knowledge/reindex_plan.py\<close>, the job of \<open>reindex.py\<close> with
  its four steps, the task of \<open>worker/reindex_tasks.py\<close> that drives it, and the rescue of stuck jobs of \<open>rescue.py\<close>. Each
  transaction is applied after whatever other tasks committed since the last one (\<open>re_others\<close>); a ghost field
  keeps every transaction. The gateway and the quota check are parameters. Lemmas: which moves of a job a
  transaction makes, what each leaves of the vectors in use, when the switch happens, and when a job ends.
\<close>

subsection \<open>The plan\<close>

definition reindex_active_statuses :: "reindex_status list" where
  "reindex_active_statuses = [R_PENDING, R_RECHUNKING, R_EMBEDDING]"

definition terminal_reindex_statuses :: "reindex_status list" where
  "terminal_reindex_statuses = [R_COMPLETED, R_FAILED]"

record reindex_plan =
  rp_model :: ustring
  rp_version :: int
  rp_knowledge :: int
  rp_rechunk :: bool

record reindex_progress =
  rg_total :: nat
  rg_embedded :: nat

datatype plan_error = EmptyTargetModel | RechunkWithNewModel

definition reindex_progress_of :: "nat \<Rightarrow> nat \<Rightarrow> reindex_progress option" where
  "reindex_progress_of chunks_total embedded =
     (if chunks_total < embedded then None else Some \<lparr>rg_total = chunks_total, rg_embedded = embedded\<rparr>)"

definition progress_ratio :: "reindex_progress \<Rightarrow> rat" where
  "progress_ratio p = (if rg_total p = 0 then 1 else of_nat (rg_embedded p) / of_nat (rg_total p))"

definition is_complete :: "reindex_progress \<Rightarrow> bool" where
  "is_complete p = (rg_total p \<le> rg_embedded p)"

definition needs_reindex :: "int \<Rightarrow> int \<Rightarrow> bool" where
  "needs_reindex knowledge_version indexed = (knowledge_version \<noteq> indexed)"

definition plan_reindex ::
  "ustring \<Rightarrow> int \<Rightarrow> int \<Rightarrow> int \<Rightarrow> ustring option \<Rightarrow> bool option \<Rightarrow> plan_error + reindex_plan" where
  "plan_reindex current_model current_version knowledge_version indexed target rechunk =
     (let model = (case target of None \<Rightarrow> current_model | Some t \<Rightarrow> strip t);
          should = (case rechunk of None \<Rightarrow> needs_reindex knowledge_version indexed | Some b \<Rightarrow> b)
      in if model = [] then Inl EmptyTargetModel
         else if should \<and> model \<noteq> current_model then Inl RechunkWithNewModel
         else Inr \<lparr>rp_model = model,
                   rp_version = (if should then current_version else current_version + 1),
                   rp_knowledge = (if should then knowledge_version else indexed),
                   rp_rechunk = should\<rparr>)"

fun next_status :: "reindex_status \<Rightarrow> bool \<Rightarrow> reindex_status" where
  "next_status R_COMPLETED _ = R_COMPLETED"
| "next_status R_FAILED _ = R_FAILED"
| "next_status R_PENDING rechunk = (if rechunk then R_RECHUNKING else R_EMBEDDING)"
| "next_status R_RECHUNKING _ = R_EMBEDDING"
| "next_status R_EMBEDDING _ = R_COMPLETED"

definition ready_to_switch :: "reindex_status \<Rightarrow> reindex_progress \<Rightarrow> bool" where
  "ready_to_switch status p = (status = R_EMBEDDING \<and> is_complete p)"

subsection \<open>The job table and the counts\<close>

definition find_reindex :: "uuid128 \<Rightarrow> kstore \<Rightarrow> reindex_row option" where
  "find_reindex j s = map_of (ks_reindex s) j"

definition active_for_kb :: "uuid128 \<Rightarrow> kstore \<Rightarrow> (uuid128 \<times> reindex_row) option" where
  "active_for_kb kb s = find (\<lambda>(j, r). rj_kb r = kb \<and> rj_status r \<in> set reindex_active_statuses) (ks_reindex s)"

definition latest_for_kb :: "uuid128 \<Rightarrow> kstore \<Rightarrow> (uuid128 \<times> reindex_row) option" where
  "latest_for_kb kb s =
     (case sort_key (\<lambda>(j, r). - rj_created r) (filter (\<lambda>(j, r). rj_kb r = kb) (ks_reindex s)) of
        [] \<Rightarrow> None | x # _ \<Rightarrow> Some x)"

text \<open>The insert, with the primary key, the foreign key and the partial unique constraint: one active job per knowledge
  base.\<close>

definition create_reindex :: "uuid128 \<Rightarrow> reindex_row \<Rightarrow> kstore \<Rightarrow> app_exn + kstore" where
  "create_reindex j r s =
     (if find_reindex j s \<noteq> None \<or> map_of (ks_kbs s) (rj_kb r) = None
         \<or> (rj_status r \<in> set reindex_active_statuses \<and> active_for_kb (rj_kb r) s \<noteq> None)
      then Inl (foreign ''IntegrityError'')
      else Inr (s\<lparr>ks_reindex := ks_reindex s @ [(j, r)]\<rparr>))"

text \<open>A change of status meets the partial unique constraint as well.\<close>

definition activate_reindex :: "int \<Rightarrow> uuid128 \<Rightarrow> (reindex_row \<Rightarrow> reindex_row) \<Rightarrow> kstore \<Rightarrow> app_exn + kstore" where
  "activate_reindex now j f s =
     (case find_reindex j s of
        None \<Rightarrow> Inr s
      | Some r \<Rightarrow>
          if rj_status (f r) \<in> set reindex_active_statuses
             \<and> list_ex (\<lambda>(j', r'). j' \<noteq> j \<and> rj_kb r' = rj_kb r \<and> rj_status r' \<in> set reindex_active_statuses) (ks_reindex s)
          then Inl (foreign ''IntegrityError'')
          else Inr (update_reindex now j f s))"

definition reindex_stuck_in :: "reindex_status list \<Rightarrow> int \<Rightarrow> kstore \<Rightarrow> (uuid128 \<times> reindex_row) list" where
  "reindex_stuck_in statuses cutoff s =
     sort_key (\<lambda>(j, r). rj_updated r)
       (filter (\<lambda>(j, r). rj_status r \<in> set statuses \<and> rj_updated r < cutoff) (ks_reindex s))"

definition count_active_for_kb :: "uuid128 \<Rightarrow> kstore \<Rightarrow> nat" where
  "count_active_for_kb kb s = length (filter (\<lambda>c. cr_kb c = kb \<and> \<not> cr_superseded c) (ks_chunks s))"

definition token_total_for_kb :: "uuid128 \<Rightarrow> kstore \<Rightarrow> nat" where
  "token_total_for_kb kb s =
     sum_list (List.map (\<lambda>c. token_count (cr_chunk c)) (filter (\<lambda>c. cr_kb c = kb \<and> \<not> cr_superseded c) (ks_chunks s)))"

definition count_for_kb :: "uuid128 \<Rightarrow> kstore \<Rightarrow> nat" where
  "count_for_kb kb s = length (filter (\<lambda>(d, r). dr_kb r = kb) (visible_docs s))"

definition for_kb_after :: "uuid128 \<Rightarrow> uuid128 option \<Rightarrow> nat \<Rightarrow> kstore \<Rightarrow> uuid128 list" where
  "for_kb_after kb after n s =
     take n (sort (List.map fst
       (filter (\<lambda>(d, r). dr_kb r = kb \<and> (case after of None \<Rightarrow> True | Some a \<Rightarrow> a < d)) (visible_docs s))))"

definition count_in_statuses_for_kb :: "uuid128 \<Rightarrow> document_status list \<Rightarrow> kstore \<Rightarrow> nat" where
  "count_in_statuses_for_kb kb statuses s =
     length (filter (\<lambda>(d, r). dr_kb r = kb \<and> dr_status r \<in> set statuses) (visible_docs s))"

text \<open>Every vector of the version counts, whether its chunk is superseded or not.\<close>

definition count_for_kb_version :: "uuid128 \<Rightarrow> ustring \<Rightarrow> int \<Rightarrow> kstore \<Rightarrow> nat" where
  "count_for_kb_version kb model version s =
     length (filter (\<lambda>(k, v). snd k = (model, version) \<and> list_ex (\<lambda>c. cr_id c = fst k \<and> cr_kb c = kb) (ks_chunks s))
       (ks_vectors s))"

definition update_kb :: "uuid128 \<Rightarrow> (kb_row \<Rightarrow> kb_row) \<Rightarrow> kstore \<Rightarrow> kstore" where
  "update_kb kb f s =
     (case find_kb kb s of None \<Rightarrow> s | Some r \<Rightarrow> s\<lparr>ks_kbs := AList.update kb (f r) (ks_kbs s)\<rparr>)"

subsection \<open>The environment\<close>

record 'o reindex_env =
  re_gateway :: "nat \<Rightarrow> ustring list \<Rightarrow> ustring \<Rightarrow> app_exn + embed_reply"
  re_default_model :: ustring
  re_headroom :: "nat \<Rightarrow> kstore \<Rightarrow> app_exn option"
  re_life :: "'o life_env"
  re_others :: "nat \<Rightarrow> kstore \<Rightarrow> kstore"
  re_stuck_after :: int

record reindex_usage =
  ru_model :: ustring
  ru_prompt_tokens :: int
  ru_request :: uuid128

record reindex_world =
  rw_store :: kstore
  rw_usage :: "reindex_usage list"
  rw_calls :: nat
  rw_trace :: "(kstore \<times> kstore) list"

record job_view =
  jv_id :: uuid128
  jv_kb :: uuid128
  jv_status :: reindex_status
  jv_model :: ustring
  jv_version :: int
  jv_knowledge :: int
  jv_rechunk :: bool
  jv_total_chunks :: nat
  jv_embedded_chunks :: nat
  jv_total_documents :: nat
  jv_rechunked_documents :: nat
  jv_started :: "int option"
  jv_switched :: "int option"
  jv_finished :: "int option"
  jv_error :: "(string \<times> ustring) option"

definition rechunk_batch_size :: nat where
  "rechunk_batch_size = 50"

definition job_view_of :: "uuid128 \<Rightarrow> reindex_row \<Rightarrow> job_view" where
  "job_view_of j r =
     \<lparr>jv_id = j, jv_kb = rj_kb r, jv_status = rj_status r, jv_model = rj_model r, jv_version = rj_version r,
      jv_knowledge = rj_knowledge r, jv_rechunk = rj_rechunk r, jv_total_chunks = rj_total_chunks r,
      jv_embedded_chunks = rj_embedded_chunks r, jv_total_documents = rj_total_documents r,
      jv_rechunked_documents = rj_rechunked_documents r, jv_started = rj_started r, jv_switched = rj_switched r,
      jv_finished = rj_finished r, jv_error = rj_error r\<rparr>"

text \<open>One transaction, after whatever the others committed since the last one; one that raises is rolled back.\<close>

definition rtx :: "'o reindex_env \<Rightarrow> (kstore \<Rightarrow> 'a \<times> kstore) \<Rightarrow> reindex_world \<Rightarrow> 'a \<times> reindex_world" where
  "rtx R f w =
     (let s = re_others R (length (rw_trace w)) (rw_store w)
      in case f s of (v, s') \<Rightarrow> (v, w\<lparr>rw_store := s', rw_trace := rw_trace w @ [(s, s')]\<rparr>))"

definition load_reindex :: "uuid128 \<Rightarrow> kstore \<Rightarrow> app_exn + job_view" where
  "load_reindex j s = (case find_reindex j s of None \<Rightarrow> Inl not_found | Some r \<Rightarrow> Inr (job_view_of j r))"

definition load_job :: "'o reindex_env \<Rightarrow> uuid128 \<Rightarrow> reindex_world \<Rightarrow> (app_exn + job_view) \<times> reindex_world" where
  "load_job R j = rtx R (\<lambda>s. (load_reindex j s, s))"

definition update_job :: "'o reindex_env \<Rightarrow> int \<Rightarrow> uuid128 \<Rightarrow> (reindex_row \<Rightarrow> reindex_row) \<Rightarrow> reindex_world \<Rightarrow> reindex_world" where
  "update_job R now j f w = snd (rtx R (\<lambda>s. ((), update_reindex now j f s)) w)"

subsection \<open>The service\<close>

definition validation_failed :: app_exn where
  "validation_failed = \<lparr>ax_domain = True, ax_os_error = False, ax_class = ''ValidationFailedError'', ax_cause = '''', ax_message = []\<rparr>"

definition start_checks ::
  "'o reindex_env \<Rightarrow> uuid128 \<Rightarrow> ustring option \<Rightarrow> bool option \<Rightarrow> kstore \<Rightarrow> service_error + reindex_plan" where
  "start_checks R kb target rechunk s =
     (case find_kb kb s of
        None \<Rightarrow> Inl NotFound
      | Some k \<Rightarrow>
          (case plan_reindex (if kb_model k \<noteq> [] then kb_model k else re_default_model R) (kb_version k)
                  (kb_knowledge_version k) (kb_indexed_version k) target rechunk of
             Inl e \<Rightarrow> Inl (Raised validation_failed)
           | Inr plan \<Rightarrow>
               (case re_headroom R (token_total_for_kb kb s) s of
                  Some e \<Rightarrow> Inl (Raised e)
                | None \<Rightarrow> if active_for_kb kb s \<noteq> None then Inl Conflict else Inr plan)))"

definition new_reindex :: "int \<Rightarrow> uuid128 \<Rightarrow> reindex_plan \<Rightarrow> kstore \<Rightarrow> reindex_row" where
  "new_reindex now kb plan s =
     \<lparr>rj_kb = kb, rj_model = rp_model plan, rj_version = rp_version plan, rj_knowledge = rp_knowledge plan,
      rj_rechunk = rp_rechunk plan, rj_status = R_PENDING, rj_total_chunks = count_active_for_kb kb s,
      rj_embedded_chunks = 0, rj_total_documents = count_for_kb kb s, rj_rechunked_documents = 0, rj_cursor = None,
      rj_started = None, rj_switched = None, rj_purged = None, rj_finished = None, rj_error = None,
      rj_created = now, rj_updated = now\<rparr>"

definition start_reindex ::
  "'o reindex_env \<Rightarrow> int \<Rightarrow> uuid128 \<Rightarrow> uuid128 \<Rightarrow> ustring option \<Rightarrow> bool option \<Rightarrow> kstore
   \<Rightarrow> (service_error + job_view) \<times> kstore" where
  "start_reindex R now j kb target rechunk s =
     (case start_checks R kb target rechunk s of
        Inl e \<Rightarrow> (Inl e, s)
      | Inr plan \<Rightarrow>
          (case create_reindex j (new_reindex now kb plan s) s of
             Inl e \<Rightarrow> (Inl Conflict, s)
           | Inr s' \<Rightarrow> (Inr (job_view_of j (new_reindex now kb plan s)), enqueue (ReindexTask j) s')))"

definition latest_reindex :: "uuid128 \<Rightarrow> kstore \<Rightarrow> service_error + job_view option" where
  "latest_reindex kb s =
     (case find_kb kb s of
        None \<Rightarrow> Inl NotFound
      | Some _ \<Rightarrow> Inr (map_option (\<lambda>(j, r). job_view_of j r) (latest_for_kb kb s)))"

text \<open>The batches of the missing vectors. When the provider reports another model name, the job takes it over.\<close>

definition store_batch ::
  "int \<Rightarrow> job_view \<Rightarrow> (uuid128 \<times> rat list) list \<Rightarrow> ustring \<Rightarrow> kstore \<Rightarrow> (app_exn + job_view) \<times> kstore" where
  "store_batch now job rows reported s =
     (case upsert_vectors rows (if reported \<noteq> [] then reported else jv_model job) (jv_version job) s of
        Inl e \<Rightarrow> (Inl e, s)
      | Inr s1 \<Rightarrow>
          if reported \<noteq> [] \<and> reported \<noteq> jv_model job then
            let s2 = update_reindex now (jv_id job) (\<lambda>r. r\<lparr>rj_model := reported\<rparr>) s1
            in case load_reindex (jv_id job) s2 of Inl e \<Rightarrow> (Inl e, s) | Inr job' \<Rightarrow> (Inr job', s2)
          else (Inr job, s1))"

function embed_batches ::
  "'o reindex_env \<Rightarrow> int \<Rightarrow> job_view \<Rightarrow> (uuid128 \<times> ustring) list \<Rightarrow> nat \<Rightarrow> int \<Rightarrow> reindex_world
   \<Rightarrow> (app_exn + nat \<times> int) \<times> reindex_world" where
  "embed_batches R now job pending embedded tokens w =
     (if pending = [] then (Inr (embedded, tokens), w)
      else
        let batch = take embed_batch_size pending;
            w1 = w\<lparr>rw_calls := rw_calls w + 1\<rparr>
        in case re_gateway R (rw_calls w) (List.map snd batch) (jv_model job) of
             Inl e \<Rightarrow> (Inl e, w1)
           | Inr reply \<Rightarrow>
               if length (ep_vectors reply) \<noteq> length batch then (Inl (foreign ''ValueError''), w1)
               else
                 case rtx R (store_batch now job (zip (List.map fst batch) (ep_vectors reply)) (ep_model reply)) w1 of
                   (Inl e, w2) \<Rightarrow> (Inl e, w2)
                 | (Inr job', w2) \<Rightarrow>
                     embed_batches R now job' (drop embed_batch_size pending) (embedded + length batch)
                       (tokens + ep_tokens reply) w2)"
  by pat_completeness auto

termination embed_batches
  by (relation "measure (\<lambda>(R, now, job, pending, embedded, tokens, w). length pending)") (auto simp: embed_batch_size_def)

declare embed_batches.simps [simp del]

definition missing_of :: "job_view \<Rightarrow> kstore \<Rightarrow> (uuid128 \<times> ustring) list" where
  "missing_of job s =
     (let active = for_retrieval (jv_kb job) s;
          missing = chunks_without_embedding (List.map cr_id active) (jv_model job) (jv_version job) s
      in List.map (\<lambda>c. (cr_id c, ctext (cr_chunk c))) (filter (\<lambda>c. cr_id c \<in> set missing) active))"

definition embed_missing ::
  "'o reindex_env \<Rightarrow> int \<Rightarrow> job_view \<Rightarrow> reindex_world \<Rightarrow> (app_exn + nat \<times> int) \<times> reindex_world" where
  "embed_missing R now job w =
     (case rtx R (\<lambda>s. (missing_of job s, s)) w of
        (pending, w1) \<Rightarrow> embed_batches R now job pending 0 0 w1)"

definition switch_kb :: "int \<Rightarrow> job_view \<Rightarrow> ustring \<Rightarrow> kstore \<Rightarrow> kstore" where
  "switch_kb now job model s =
     update_reindex now (jv_id job) (\<lambda>r. r\<lparr>rj_status := R_COMPLETED, rj_switched := Some now, rj_finished := Some now\<rparr>)
       (update_kb (jv_kb job)
          (\<lambda>k. k\<lparr>kb_model := model, kb_version := jv_version job, kb_indexed_version := jv_knowledge job\<rparr>) s)"

text \<open>The last transaction of a round: count, and switch when it is complete.\<close>

definition settle_round :: "int \<Rightarrow> job_view \<Rightarrow> ustring \<Rightarrow> kstore \<Rightarrow> (app_exn + unit) \<times> kstore" where
  "settle_round now job model s =
     (let chunks_total = count_active_for_kb (jv_kb job) s;
          embedded = count_for_kb_version (jv_kb job) model (jv_version job) s
      in case reindex_progress_of chunks_total (min embedded chunks_total) of
           None \<Rightarrow> (Inl (foreign ''ValueError''), s)
         | Some progress \<Rightarrow>
             let s1 = update_reindex now (jv_id job)
                        (\<lambda>r. r\<lparr>rj_total_chunks := chunks_total, rj_embedded_chunks := rg_embedded progress\<rparr>) s
             in (Inr (), if ready_to_switch R_EMBEDDING progress then switch_kb now job model s1 else s1))"

definition advance_embedding ::
  "'o reindex_env \<Rightarrow> int \<Rightarrow> job_view \<Rightarrow> reindex_world \<Rightarrow> (app_exn + job_view) \<times> reindex_world" where
  "advance_embedding R now job w =
     (let model = jv_model job
      in case embed_missing R now job w of
           (Inl e, w1) \<Rightarrow> (Inl e, w1)
         | (Inr (embedded, tokens), w1) \<Rightarrow>
             let w2 = (if 0 < tokens
                       then w1\<lparr>rw_usage := rw_usage w1 @ [\<lparr>ru_model = model, ru_prompt_tokens = tokens, ru_request = jv_id job\<rparr>]\<rparr>
                       else w1)
             in case rtx R (settle_round now job model) w2 of
                  (Inl e, w3) \<Rightarrow> (Inl e, w3)
                | (Inr _, w3) \<Rightarrow> load_job R (jv_id job) w3)"

text \<open>Rechunking: each document goes through the re-ingest of the document service. A busy document stops the batch; any other
  exception leaves it.\<close>

fun exn_of_service :: "service_error \<Rightarrow> app_exn" where
  "exn_of_service (UploadRefused e) = validation_failed"
| "exn_of_service Conflict = \<lparr>ax_domain = True, ax_os_error = False, ax_class = ''ConflictError'', ax_cause = '''', ax_message = []\<rparr>"
| "exn_of_service NotFound = not_found"
| "exn_of_service (Raised e) = e"

fun reingest_batch ::
  "'o reindex_env \<Rightarrow> int \<Rightarrow> uuid128 list \<Rightarrow> nat \<Rightarrow> uuid128 option \<Rightarrow> reindex_world
   \<Rightarrow> (app_exn + nat \<times> uuid128 option) \<times> reindex_world" where
  "reingest_batch R now [] processed last_id w = (Inr (processed, last_id), w)"
| "reingest_batch R now (d # ds) processed last_id w =
     (case rtx R (reingest (re_life R) now d) w of
        (Inr v, w1) \<Rightarrow> reingest_batch R now ds (processed + 1) (Some d) w1
      | (Inl e, w1) \<Rightarrow>
          if e = Conflict then (Inr (processed, last_id), w1) else (Inl (exn_of_service e), w1))"

definition heartbeat :: "'o reindex_env \<Rightarrow> int \<Rightarrow> uuid128 \<Rightarrow> reindex_world \<Rightarrow> reindex_world" where
  "heartbeat R now j = update_job R now j (\<lambda>r. r)"

definition enter_embedding :: "int \<Rightarrow> job_view \<Rightarrow> kstore \<Rightarrow> (app_exn + bool) \<times> kstore" where
  "enter_embedding now job s =
     (if 0 < count_in_statuses_for_kb (jv_kb job) still_processing_statuses s
      then (Inr False, update_reindex now (jv_id job) (\<lambda>r. r) s)
      else case activate_reindex now (jv_id job)
                  (\<lambda>r. r\<lparr>rj_status := R_EMBEDDING, rj_total_chunks := count_active_for_kb (jv_kb job) s\<rparr>) s of
             Inl e \<Rightarrow> (Inl e, s)
           | Inr s' \<Rightarrow> (Inr True, s'))"

definition rechunk_list :: "job_view \<Rightarrow> kstore \<Rightarrow> uuid128 list" where
  "rechunk_list job s =
     for_kb_after (jv_kb job) (case find_reindex (jv_id job) s of None \<Rightarrow> None | Some r \<Rightarrow> rj_cursor r) rechunk_batch_size s"

definition advance_rechunk ::
  "'o reindex_env \<Rightarrow> int \<Rightarrow> job_view \<Rightarrow> reindex_world \<Rightarrow> (app_exn + job_view) \<times> reindex_world" where
  "advance_rechunk R now job w =
     (case rtx R (\<lambda>s. (rechunk_list job s, s)) w of
        (batch, w1) \<Rightarrow>
          (case reingest_batch R now batch 0 None w1 of
             (Inl e, w2) \<Rightarrow> (Inl e, w2)
           | (Inr (processed, last_id), w2) \<Rightarrow>
               if 0 < processed then
                 load_job R (jv_id job)
                   (update_job R now (jv_id job)
                      (\<lambda>r. r\<lparr>rj_cursor := last_id, rj_rechunked_documents := jv_rechunked_documents job + processed\<rparr>) w2)
               else if batch \<noteq> [] then (Inr job, heartbeat R now (jv_id job) w2)
               else
                 (case rtx R (enter_embedding now job) w2 of
                    (Inl e, w3) \<Rightarrow> (Inl e, w3)
                  | (Inr False, w3) \<Rightarrow> (Inr job, w3)
                  | (Inr True, w3) \<Rightarrow>
                      (case load_job R (jv_id job) w3 of
                         (Inl e, w4) \<Rightarrow> (Inl e, w4)
                       | (Inr job', w4) \<Rightarrow> advance_embedding R now job' w4))))"

definition advance_step ::
  "'o reindex_env \<Rightarrow> int \<Rightarrow> job_view \<Rightarrow> reindex_world \<Rightarrow> (app_exn + job_view) \<times> reindex_world" where
  "advance_step R now job w =
     (if jv_status job = R_RECHUNKING then advance_rechunk R now job w else advance_embedding R now job w)"

definition record_failure :: "'o reindex_env \<Rightarrow> int \<Rightarrow> uuid128 \<Rightarrow> app_exn \<Rightarrow> reindex_world \<Rightarrow> reindex_world" where
  "record_failure R now j e =
     update_job R now j (\<lambda>r. r\<lparr>rj_status := R_FAILED, rj_error := Some (error_payload e), rj_finished := Some now\<rparr>)"

definition advance_guarded ::
  "'o reindex_env \<Rightarrow> int \<Rightarrow> uuid128 \<Rightarrow> job_view \<Rightarrow> reindex_world \<Rightarrow> (app_exn + job_view) \<times> reindex_world" where
  "advance_guarded R now j job w =
     (case advance_step R now job w of
        (Inr v, w1) \<Rightarrow> (Inr v, w1)
      | (Inl e, w1) \<Rightarrow> (Inl e, record_failure R now j e w1))"

definition begin_job :: "int \<Rightarrow> job_view \<Rightarrow> kstore \<Rightarrow> (app_exn + unit) \<times> kstore" where
  "begin_job now job =
     try_commit (activate_reindex now (jv_id job)
       (\<lambda>r. r\<lparr>rj_status := next_status R_PENDING (jv_rechunk job), rj_started := Some now\<rparr>))"

definition advance :: "'o reindex_env \<Rightarrow> int \<Rightarrow> uuid128 \<Rightarrow> reindex_world \<Rightarrow> (app_exn + job_view) \<times> reindex_world" where
  "advance R now j w =
     (case load_job R j w of
        (Inl e, w1) \<Rightarrow> (Inl e, w1)
      | (Inr job, w1) \<Rightarrow>
          if jv_status job \<in> set terminal_reindex_statuses then (Inr job, w1)
          else if jv_status job = R_PENDING then
            (case rtx R (begin_job now job) w1 of
               (Inl e, w2) \<Rightarrow> (Inl e, w2)
             | (Inr _, w2) \<Rightarrow>
                 (case load_job R j w2 of
                    (Inl e, w3) \<Rightarrow> (Inl e, w3)
                  | (Inr job', w3) \<Rightarrow> advance_guarded R now j job' w3))
          else advance_guarded R now j job w1)"

subsection \<open>The task and the rescue\<close>

datatype task_end = TaskMissing | TaskFinished job_view nat

definition max_rounds_per_task :: nat where
  "max_rounds_per_task = 20"

definition send_reindex :: "uuid128 \<Rightarrow> reindex_world \<Rightarrow> reindex_world" where
  "send_reindex j w = w\<lparr>rw_store := enqueue (ReindexTask j) (rw_store w)\<rparr>"

definition progress_mark :: "job_view \<Rightarrow> reindex_status \<times> nat \<times> nat" where
  "progress_mark v = (jv_status v, jv_rechunked_documents v, jv_embedded_chunks v)"

fun task_rounds ::
  "'o reindex_env \<Rightarrow> int \<Rightarrow> uuid128 \<Rightarrow> nat \<Rightarrow> job_view \<Rightarrow> nat \<Rightarrow> reindex_world \<Rightarrow> (app_exn + task_end) \<times> reindex_world" where
  "task_rounds R now j 0 v turns w =
     (Inr (TaskFinished v turns), if jv_status v \<in> set terminal_reindex_statuses then w else send_reindex j w)"
| "task_rounds R now j (Suc n) v turns w =
     (if jv_status v \<in> set terminal_reindex_statuses then (Inr (TaskFinished v turns), w)
      else case advance R now j w of
             (Inl e, w1) \<Rightarrow> (Inl e, w1)
           | (Inr v1, w1) \<Rightarrow>
               if progress_mark v1 = progress_mark v then (Inr (TaskFinished v1 (turns + 1)), send_reindex j w1)
               else task_rounds R now j n v1 (turns + 1) w1)"

definition reindex_task :: "'o reindex_env \<Rightarrow> int \<Rightarrow> uuid128 \<Rightarrow> reindex_world \<Rightarrow> (app_exn + task_end) \<times> reindex_world" where
  "reindex_task R now j w =
     (case advance R now j w of
        (Inl e, w1) \<Rightarrow> (if ax_class e = ''NotFoundError'' then Inr TaskMissing else Inl e, w1)
      | (Inr v, w1) \<Rightarrow> task_rounds R now j (max_rounds_per_task - 1) v 1 w1)"

definition stalled_error :: "string \<times> ustring" where
  "stalled_error =
     (''ReindexStalled'',
      [37325, 24314, 20572, 28399, 36926, 26178, 65292, 24050, 20013, 27490, 65307, 21487, 37325, 26032, 30332, 36215,
       65288, 24050, 31639, 22909, 30340, 21521, 37327, 26371, 27839, 29992, 65289])"

definition rescue_reindex :: "'o reindex_env \<Rightarrow> int \<Rightarrow> kstore \<Rightarrow> nat \<times> kstore" where
  "rescue_reindex R now s =
     (let cutoff = now - re_stuck_after R;
          pending = List.map fst (reindex_stuck_in [R_PENDING] cutoff s);
          stalled = List.map fst (reindex_stuck_in [R_RECHUNKING, R_EMBEDDING] cutoff s);
          s1 = fold (\<lambda>j. update_reindex now j
                 (\<lambda>r. r\<lparr>rj_status := R_FAILED, rj_error := Some stalled_error, rj_finished := Some now\<rparr>)) stalled s
      in (length pending + length stalled, fold (\<lambda>j. enqueue (ReindexTask j)) pending s1))"

subsection \<open>Every transaction of the task\<close>

definition radds :: "(kstore \<Rightarrow> kstore \<Rightarrow> bool) \<Rightarrow> reindex_world \<Rightarrow> reindex_world \<Rightarrow> bool" where
  "radds P w w' = (\<exists>new. rw_trace w' = rw_trace w @ new \<and> (\<forall>(s, s') \<in> set new. P s s'))"

lemma radds_refl [simp]: "radds P w w" "radds P w (w\<lparr>rw_calls := n\<rparr>)" "radds P w (send_reindex j w)"
  by (simp_all add: radds_def send_reindex_def)

lemma radds_fields [simp]: "radds P (w\<lparr>rw_calls := n\<rparr>) w' = radds P w w'" "radds P (w\<lparr>rw_usage := us\<rparr>) w' = radds P w w'"
  "radds P w (send_reindex j w') = radds P w w'"
  by (simp_all add: radds_def send_reindex_def)

lemma radds_trans: "radds P a b \<Longrightarrow> radds P b c \<Longrightarrow> radds P a c"
  by (force simp: radds_def)

lemma radds_rtx:
  assumes "rtx R f w = (v, w')" "\<And>s. P s (snd (f s))"
  shows "radds P w w'"
proof -
  let ?s = "re_others R (length (rw_trace w)) (rw_store w)"
  have "w' = w\<lparr>rw_store := snd (f ?s), rw_trace := rw_trace w @ [(?s, snd (f ?s))]\<rparr>"
    using assms(1) by (auto simp: rtx_def Let_def split: prod.splits)
  then show ?thesis
    using assms(2) [of ?s] unfolding radds_def by (intro exI [of _ "[(?s, snd (f ?s))]"]) simp
qed

lemma reingest_effect:
  "snd (reingest L now d s) = s
   \<or> (\<exists>r. find_doc d s = Some r
        \<and> snd (reingest L now d s) = enqueue (IngestTask d) (start_new_version now d (dr_version r + 1) (supersede_for_document d s)))"
  by (auto simp: reingest_def Let_def split: option.split)

text \<open>The contract of a transaction of the task.\<close>

locale reindex_step =
  fixes P :: "kstore \<Rightarrow> kstore \<Rightarrow> bool"
  assumes unchanged: "P s s"
    and job_fields: "(\<And>r. rj_status (f r) = rj_status r) \<Longrightarrow> P s (update_reindex now j f s)"
    and job_failed: "P s (update_reindex now j (\<lambda>r. r\<lparr>rj_status := R_FAILED, rj_error := e, rj_finished := t\<rparr>) s)"
    and job_begins: "P s (snd (begin_job now job s))"
    and embedding_entered: "P s (snd (enter_embedding now job s))"
    and batch_stored: "P s (snd (store_batch now job rows reported s))"
    and round_settled: "P s (snd (settle_round now job model s))"
    and document_restarted: "find_doc d s = Some r \<Longrightarrow>
      P s (enqueue (IngestTask d) (start_new_version now d (dr_version r + 1) (supersede_for_document d s)))"
begin

lemma adds_load: "load_job R j w = (v, w') \<Longrightarrow> radds P w w'"
  unfolding load_job_def by (erule radds_rtx) (simp add: unchanged)

lemma adds_update: "(\<And>r. rj_status (f r) = rj_status r) \<Longrightarrow> radds P w (update_job R now j f w)"
  unfolding update_job_def by (rule radds_rtx [OF prod.collapse [symmetric]]) (simp add: job_fields)

lemma adds_batches: "embed_batches R now job pending n t w = (v, w') \<Longrightarrow> radds P w w'"
proof (induction R now job pending n t w arbitrary: v w' rule: embed_batches.induct)
  case (1 R now job pending n t w)
  let ?w1 = "w\<lparr>rw_calls := rw_calls w + 1\<rparr>"
  show ?case
  proof (cases "pending = []")
    case True
    with 1(2) show ?thesis by (simp add: embed_batches.simps)
  next
    case False
    show ?thesis
    proof (cases "re_gateway R (rw_calls w) (List.map snd (take embed_batch_size pending)) (jv_model job)")
      case (Inl e)
      with False 1(2) show ?thesis by (auto simp: embed_batches.simps [of R now job pending])
    next
      case (Inr reply)
      show ?thesis
      proof (cases "length (ep_vectors reply) = length (take embed_batch_size pending)")
        case False
        with Inr \<open>pending \<noteq> []\<close> 1(2) show ?thesis by (auto simp: embed_batches.simps [of R now job pending])
      next
        case True
        obtain x w2 where tx: "rtx R (store_batch now job (zip (List.map fst (take embed_batch_size pending)) (ep_vectors reply)) (ep_model reply)) ?w1 = (x, w2)"
          by fastforce
        have "radds P w w2"
          using radds_rtx [OF tx, of P] batch_stored by simp
        moreover have "radds P w2 w'"
        proof (cases x)
          case (Inl e)
          with False Inr True tx 1(2) show ?thesis by (simp add: embed_batches.simps [of R now job pending] Let_def)
        next
          case (Inr job')
          show ?thesis
            using 1(1) [OF False refl refl \<open>re_gateway R _ _ _ = _\<close> _ tx [symmetric] Inr] 1(2) False True tx Inr \<open>re_gateway R _ _ _ = _\<close>
            by (simp add: embed_batches.simps [of R now job pending] Let_def)
        qed
        ultimately show ?thesis by (rule radds_trans)
      qed
    qed
  qed
qed
end

context reindex_step
begin

lemma adds_missing:
  assumes "embed_missing R now job w = (v, w')"
  shows "radds P w w'"
proof -
  obtain pending w1 where tx: "rtx R (\<lambda>s. (missing_of job s, s)) w = (pending, w1)" by fastforce
  have "radds P w w1" using radds_rtx [OF tx, of P] unchanged by simp
  moreover have "radds P w1 w'" using assms tx by (auto simp: embed_missing_def intro: adds_batches)
  ultimately show ?thesis by (rule radds_trans)
qed

lemma adds_settle: "rtx R (settle_round now job model) w = (v, w') \<Longrightarrow> radds P w w'"
  by (erule radds_rtx) (rule round_settled)

lemma adds_embedding: "advance_embedding R now job w = (v, w') \<Longrightarrow> radds P w w'"
  by (auto simp: advance_embedding_def Let_def split: sum.splits prod.splits if_splits
      dest!: adds_missing adds_settle adds_load) (meson radds_trans)+

lemma adds_reingests: "reingest_batch R now ds n last_id w = (v, w') \<Longrightarrow> radds P w w'"
proof (induction ds arbitrary: n last_id w)
  case Nil
  then show ?case by simp
next
  case (Cons d ds)
  obtain x w1 where tx: "rtx R (reingest (re_life R) now d) w = (x, w1)" by fastforce
  have "P s (snd (reingest (re_life R) now d s))" for s
    using reingest_effect [of "re_life R" now d s] unchanged document_restarted by metis
  then have "radds P w w1" using radds_rtx [OF tx, of P] by simp
  moreover have "radds P w1 w'" using Cons.prems tx Cons.IH by (cases x) (auto split: if_splits)
  ultimately show ?case by (rule radds_trans)
qed

lemma adds_enter: "rtx R (enter_embedding now job) w = (v, w') \<Longrightarrow> radds P w w'"
  by (erule radds_rtx) (rule embedding_entered)

lemma adds_list: "rtx R (\<lambda>s. (rechunk_list job s, s)) w = (v, w') \<Longrightarrow> radds P w w'"
  by (erule radds_rtx) (simp add: unchanged)

lemma adds_cursor:
  "load_job R j' (update_job R now j (\<lambda>r. r\<lparr>rj_cursor := c, rj_rechunked_documents := n\<rparr>) w) = (v, w') \<Longrightarrow> radds P w w'"
  by (rule radds_trans [OF adds_update adds_load]) simp_all

lemma adds_rechunk: "advance_rechunk R now job w = (v, w') \<Longrightarrow> radds P w w'"
  by (auto simp: advance_rechunk_def heartbeat_def split: sum.splits prod.splits if_splits bool.splits
      dest!: adds_list adds_reingests adds_enter adds_load adds_embedding adds_cursor intro!: radds_trans [OF _ adds_update])
    (meson radds_trans)+

lemma adds_failure: "radds P w (record_failure R now j e w)"
  unfolding record_failure_def update_job_def by (rule radds_rtx [OF prod.collapse [symmetric]]) (simp add: job_failed)

lemma adds_guarded: "advance_guarded R now j job w = (v, w') \<Longrightarrow> radds P w w'"
  by (auto simp: advance_guarded_def advance_step_def split: sum.splits prod.splits if_splits
      dest!: adds_rechunk adds_embedding intro: adds_failure radds_trans)

lemma adds_begin: "rtx R (begin_job now job) w = (v, w') \<Longrightarrow> radds P w w'"
  by (erule radds_rtx) (rule job_begins)

lemma adds_advance: "advance R now j w = (v, w') \<Longrightarrow> radds P w w'"
  by (auto simp: advance_def split: sum.splits prod.splits if_splits
      dest!: adds_load adds_begin adds_guarded intro: radds_trans)

lemma adds_rounds: "task_rounds R now j n v turns w = (x, w') \<Longrightarrow> radds P w w'"
proof (induction n arbitrary: v turns w)
  case 0
  then show ?case by (auto split: if_splits)
next
  case (Suc n)
  then show ?case
    by (auto split: if_splits sum.splits prod.splits dest!: adds_advance dest: Suc.IH intro: radds_trans)
qed

lemma adds_task: "reindex_task R now j w = (x, w') \<Longrightarrow> radds P w w'"
  by (auto simp: reindex_task_def split: sum.splits prod.splits dest!: adds_advance adds_rounds intro: radds_trans)

end

subsection \<open>When the switch is right\<close>

definition vector_keys :: "kstore \<Rightarrow> vector_key set" where
  "vector_keys s = fst ` set (ks_vectors s)"

definition kb_covered :: "uuid128 \<Rightarrow> ustring \<Rightarrow> int \<Rightarrow> kstore \<Rightarrow> bool" where
  "kb_covered kb model version s =
     (\<forall>c \<in> set (for_retrieval kb s). (cr_id c, model, version) \<in> vector_keys s)"

definition clean_target :: "uuid128 \<Rightarrow> int \<Rightarrow> kstore \<Rightarrow> bool" where
  "clean_target kb version s =
     (distinct (List.map fst (ks_vectors s)) \<and> distinct (List.map cr_id (ks_chunks s))
      \<and> (\<forall>c \<in> set (ks_chunks s). cr_kb c = kb \<longrightarrow> cr_superseded c \<longrightarrow>
           (\<forall>model. (cr_id c, model, version) \<notin> vector_keys s)))"

lemma retrieval_set: "set (for_retrieval kb s) = {c \<in> set (ks_chunks s). cr_kb c = kb \<and> \<not> cr_superseded c}"
  by (auto simp: for_retrieval_def)

lemma count_active_card:
  assumes "distinct (List.map cr_id (ks_chunks s))"
  shows "count_active_for_kb kb s = card (cr_id ` set (for_retrieval kb s))"
proof -
  let ?active = "filter (\<lambda>c. cr_kb c = kb \<and> \<not> cr_superseded c) (ks_chunks s)"
  have "distinct (List.map cr_id ?active)" using assms by (rule distinct_map_filter)
  then have "card (set (List.map cr_id ?active)) = length ?active" using distinct_card by fastforce
  then show ?thesis by (simp add: count_active_for_kb_def for_retrieval_def)
qed

lemma count_version_card:
  assumes "distinct (List.map fst (ks_vectors s))"
  shows "count_for_kb_version kb model version s =
    card {i. (i, model, version) \<in> vector_keys s \<and> (\<exists>c \<in> set (ks_chunks s). cr_id c = i \<and> cr_kb c = kb)}"
proof -
  let ?found = "filter (\<lambda>(k, v). snd k = (model, version) \<and> list_ex (\<lambda>c. cr_id c = fst k \<and> cr_kb c = kb) (ks_chunks s)) (ks_vectors s)"
  have "distinct (List.map fst ?found)" using assms by (rule distinct_map_filter)
  then have "length ?found = card (fst ` set ?found)"
    using distinct_card by fastforce
  also have "\<dots> = card (fst ` fst ` set ?found)"
    by (rule card_image [symmetric]) (auto simp: inj_on_def prod_eq_iff)
  also have "fst ` fst ` set ?found = {i. (i, model, version) \<in> vector_keys s \<and> (\<exists>c \<in> set (ks_chunks s). cr_id c = i \<and> cr_kb c = kb)}"
    by (force simp: vector_keys_def list_ex_iff image_iff)
  finally show ?thesis by (simp add: count_for_kb_version_def)
qed

lemma complete_covered:
  assumes "clean_target kb version s"
  shows "count_active_for_kb kb s \<le> count_for_kb_version kb model version s \<longleftrightarrow> kb_covered kb model version s"
proof -
  let ?K = "{i. (i, model, version) \<in> vector_keys s \<and> (\<exists>c \<in> set (ks_chunks s). cr_id c = i \<and> cr_kb c = kb)}"
  let ?A = "cr_id ` set (for_retrieval kb s)"
  have sub: "?K \<subseteq> ?A"
    using assms by (auto simp: clean_target_def retrieval_set)
  have fin: "finite ?A" by simp
  have "kb_covered kb model version s \<longleftrightarrow> ?A \<subseteq> ?K"
    by (auto simp: kb_covered_def retrieval_set)
  also have "\<dots> \<longleftrightarrow> card ?A \<le> card ?K"
    using card_seteq [OF fin sub] card_mono [OF finite_subset [OF sub fin], of ?A] by blast
  finally show ?thesis
    using assms by (simp add: clean_target_def count_active_card count_version_card)
qed

text \<open>What every transaction of the task leaves: no vector disappears, and a knowledge base is as it was or was switched to
  a version that covers it.\<close>

definition serves_on :: "kstore \<Rightarrow> kstore \<Rightarrow> bool" where
  "serves_on s s' =
     (vector_keys s \<subseteq> vector_keys s'
      \<and> (\<forall>kb. find_kb kb s' = find_kb kb s
           \<or> (\<exists>k. find_kb kb s' = Some k
                \<and> (clean_target kb (kb_version k) s \<longrightarrow> kb_covered kb (kb_model k) (kb_version k) s'))))"

lemma update_reindex_frame [simp]:
  "ks_docs (update_reindex now j f s) = ks_docs s" "ks_kbs (update_reindex now j f s) = ks_kbs s"
  "ks_chunks (update_reindex now j f s) = ks_chunks s" "ks_vectors (update_reindex now j f s) = ks_vectors s"
  "ks_queue (update_reindex now j f s) = ks_queue s" "ks_job_rows (update_reindex now j f s) = ks_job_rows s"
  by (simp_all add: update_reindex_def split: option.split)

lemma find_reindex_update [simp]:
  "find_reindex j' (update_reindex now j f s) =
     (if j' = j then map_option (\<lambda>r. (f r)\<lparr>rj_updated := now\<rparr>) (find_reindex j s) else find_reindex j' s)"
  by (auto simp: find_reindex_def update_reindex_def update_conv' split: option.split)

lemma activate_frame:
  assumes "activate_reindex now j f s = Inr s'"
  shows "s' = update_reindex now j f s"
  using assms by (auto simp: activate_reindex_def find_reindex_def update_reindex_def split: option.splits if_splits)

lemma update_kb_frame [simp]:
  "ks_docs (update_kb kb f s) = ks_docs s" "ks_chunks (update_kb kb f s) = ks_chunks s"
  "ks_vectors (update_kb kb f s) = ks_vectors s" "ks_reindex (update_kb kb f s) = ks_reindex s"
  "ks_queue (update_kb kb f s) = ks_queue s" "ks_job_rows (update_kb kb f s) = ks_job_rows s"
  by (simp_all add: update_kb_def split: option.split)

lemma find_reindex_update_kb [simp]: "find_reindex j (update_kb kb f s) = find_reindex j s"
  by (simp add: find_reindex_def)

lemma find_kb_update_kb:
  assumes "\<And>k. kb_deleted (f k) = kb_deleted k"
  shows "find_kb kb' (update_kb kb f s) = (if kb' = kb then map_option f (find_kb kb s) else find_kb kb' s)"
  using assms by (auto simp: find_kb_def update_kb_def update_conv' split: option.split)

lemma find_kb_update_reindex [simp]: "find_kb kb (update_reindex now j f s) = find_kb kb s"
  by (simp add: find_kb_def)

lemma find_kb_cong: "ks_kbs s' = ks_kbs s \<Longrightarrow> find_kb kb s' = find_kb kb s"
  by (simp add: find_kb_def)

lemma serves_on_same: "ks_kbs s' = ks_kbs s \<Longrightarrow> vector_keys s \<subseteq> vector_keys s' \<Longrightarrow> serves_on s s'"
  by (simp add: serves_on_def find_kb_def)

lemma upsert_grows: "upsert_vectors rows model n s = Inr s' \<Longrightarrow> ks_kbs s' = ks_kbs s \<and> vector_keys s \<subseteq> vector_keys s'"
  using upsert_frame upsert_keys unfolding vector_keys_def by blast

lemma store_batch_cases:
  obtains (kept) e where "store_batch now job rows reported s = (Inl e, s)"
  | (stored) s1 where "upsert_vectors rows (if reported \<noteq> [] then reported else jv_model job) (jv_version job) s = Inr s1"
      "store_batch now job rows reported s = (Inr job, s1)" "\<not> (reported \<noteq> [] \<and> reported \<noteq> jv_model job)"
  | (renamed) s1 job' where "upsert_vectors rows reported (jv_version job) s = Inr s1"
      "store_batch now job rows reported s = (Inr job', update_reindex now (jv_id job) (\<lambda>r. r\<lparr>rj_model := reported\<rparr>) s1)"
      "reported \<noteq> []" "reported \<noteq> jv_model job"
      "load_reindex (jv_id job) (update_reindex now (jv_id job) (\<lambda>r. r\<lparr>rj_model := reported\<rparr>) s1) = Inr job'"
proof (cases "upsert_vectors rows (if reported \<noteq> [] then reported else jv_model job) (jv_version job) s")
  case (Inl e)
  then show ?thesis using kept by (simp add: store_batch_def)
next
  case up: (Inr s1)
  show ?thesis
  proof (cases "reported \<noteq> [] \<and> reported \<noteq> jv_model job")
    case True
    with up kept renamed show ?thesis
      by (cases "load_reindex (jv_id job) (update_reindex now (jv_id job) (\<lambda>r. r\<lparr>rj_model := reported\<rparr>) s1)")
        (simp_all add: store_batch_def Let_def)
  next
    case False
    with up stored show ?thesis by (simp add: store_batch_def)
  qed
qed

text \<open>Counting the vectors and switching happen in one transaction.\<close>

lemma settle_round_cases:
  obtains (waits) "settle_round now job model s = (Inr (), update_reindex now (jv_id job)
        (\<lambda>r. r\<lparr>rj_total_chunks := count_active_for_kb (jv_kb job) s,
               rj_embedded_chunks := count_for_kb_version (jv_kb job) model (jv_version job) s\<rparr>) s)"
      "count_for_kb_version (jv_kb job) model (jv_version job) s < count_active_for_kb (jv_kb job) s"
  | (switches) "settle_round now job model s = (Inr (), switch_kb now job model (update_reindex now (jv_id job)
        (\<lambda>r. r\<lparr>rj_total_chunks := count_active_for_kb (jv_kb job) s, rj_embedded_chunks := count_active_for_kb (jv_kb job) s\<rparr>) s))"
      "count_active_for_kb (jv_kb job) s \<le> count_for_kb_version (jv_kb job) model (jv_version job) s"
  by (cases "count_active_for_kb (jv_kb job) s \<le> count_for_kb_version (jv_kb job) model (jv_version job) s")
    (auto simp: settle_round_def Let_def reindex_progress_of_def ready_to_switch_def is_complete_def min_def)

lemma kb_covered_cong:
  "ks_chunks s' = ks_chunks s \<Longrightarrow> vector_keys s' = vector_keys s \<Longrightarrow> kb_covered kb m v s' = kb_covered kb m v s"
  by (simp add: kb_covered_def for_retrieval_def)

lemma serves_on_settle: "serves_on s (snd (settle_round now job model s))"
proof (cases rule: settle_round_cases [of now job model s])
  case waits
  then show ?thesis by (simp add: serves_on_same vector_keys_def)
next
  case switches
  let ?s1 = "update_reindex now (jv_id job)
        (\<lambda>r. r\<lparr>rj_total_chunks := count_active_for_kb (jv_kb job) s, rj_embedded_chunks := count_active_for_kb (jv_kb job) s\<rparr>) s"
  let ?s2 = "switch_kb now job model ?s1"
  have same: "ks_chunks ?s2 = ks_chunks s" "vector_keys ?s2 = vector_keys s"
    by (simp_all add: switch_kb_def vector_keys_def)
  have kb: "find_kb kb ?s2 = (if kb = jv_kb job
      then map_option (\<lambda>k. k\<lparr>kb_model := model, kb_version := jv_version job, kb_indexed_version := jv_knowledge job\<rparr>) (find_kb kb s)
      else find_kb kb s)" for kb
    unfolding switch_kb_def by (simp add: find_kb_update_kb)
  have "kb_covered (jv_kb job) model (jv_version job) ?s2" if "clean_target (jv_kb job) (jv_version job) s"
    using complete_covered [OF that] switches(2) kb_covered_cong [OF same] by simp
  then have "serves_on s ?s2"
    unfolding serves_on_def using same(2) kb by (cases "find_kb (jv_kb job) s") auto
  with switches(1) show ?thesis by simp
qed

lemma serves_on_batch: "serves_on s (snd (store_batch now job rows reported s))"
proof (cases rule: store_batch_cases [of now job rows reported s])
  case kept
  then show ?thesis by (simp add: serves_on_same)
next
  case (stored s1)
  then show ?thesis using upsert_grows [OF stored(1)] by (simp add: serves_on_same)
next
  case (renamed s1 job')
  have "vector_keys (update_reindex now (jv_id job) (\<lambda>r. r\<lparr>rj_model := reported\<rparr>) s1) = vector_keys s1"
    by (simp add: vector_keys_def)
  with renamed show ?thesis using upsert_grows [OF renamed(1)] by (simp add: serves_on_same)
qed

lemma start_new_version_frame [simp]:
  "ks_chunks (start_new_version now d v s) = ks_chunks s" "ks_vectors (start_new_version now d v s) = ks_vectors s"
  "ks_kbs (start_new_version now d v s) = ks_kbs s" "ks_reindex (start_new_version now d v s) = ks_reindex s"
  "ks_job_rows (start_new_version now d v s) = ks_job_rows s"
  by (simp_all add: start_new_version_def put_doc_def split: option.split)

interpretation serving: reindex_step serves_on
proof
  show "serves_on s (snd (begin_job now job s))" for now job s
    by (auto simp: begin_job_def try_commit_def serves_on_same vector_keys_def split: sum.split dest!: activate_frame)
  show "serves_on s (snd (enter_embedding now job s))" for now job s
    by (auto simp: enter_embedding_def serves_on_same vector_keys_def split: sum.split dest!: activate_frame)
qed (simp_all add: serves_on_settle serves_on_batch serves_on_same vector_keys_def)

subsection \<open>How a task ends\<close>

definition job_settled :: "uuid128 \<Rightarrow> kstore \<Rightarrow> bool" where
  "job_settled j s =
     (case find_reindex j s of None \<Rightarrow> True | Some r \<Rightarrow> rj_status r \<in> {R_COMPLETED, R_FAILED})"

definition job_blocked :: "uuid128 \<Rightarrow> kstore \<Rightarrow> bool" where
  "job_blocked j s =
     (\<exists>r. find_reindex j s = Some r
        \<and> (\<exists>(j', r') \<in> set (ks_reindex s). j' \<noteq> j \<and> rj_kb r' = rj_kb r \<and> rj_status r' \<in> {R_PENDING, R_RECHUNKING, R_EMBEDDING}))"

lemma rtx_store:
  assumes "rtx R f w = (v, w')"
  obtains s where "f s = (v, rw_store w')"
  using assms by (auto simp: rtx_def Let_def split: prod.splits)

lemma load_job_missing: "load_job R j w = (Inl e, w') \<Longrightarrow> find_reindex j (rw_store w') = None"
  unfolding load_job_def by (erule rtx_store) (auto simp: load_reindex_def split: option.splits)

lemma record_failure_settles: "job_settled j (rw_store (record_failure R now j e w))"
proof -
  obtain s where store: "rw_store (record_failure R now j e w) =
      update_reindex now j (\<lambda>r. r\<lparr>rj_status := R_FAILED, rj_error := Some (error_payload e), rj_finished := Some now\<rparr>) s"
    by (simp add: record_failure_def update_job_def rtx_def Let_def)
  show ?thesis unfolding job_settled_def store by (simp split: option.split)
qed

lemma begin_refused: "begin_job now job s = (Inl e, s') \<Longrightarrow> job_blocked (jv_id job) s'"
  by (auto simp: begin_job_def try_commit_def activate_reindex_def job_blocked_def reindex_active_statuses_def list_ex_iff
      split: sum.splits option.splits if_splits)

lemma load_reindex_id: "load_reindex j s = Inr job \<Longrightarrow> jv_id job = j"
  by (auto simp: load_reindex_def job_view_of_def split: option.splits)

lemma load_job_id: "load_job R j w = (Inr job, w') \<Longrightarrow> jv_id job = j"
  unfolding load_job_def by (erule rtx_store) (auto dest: load_reindex_id)

lemma advance_guarded_error: "advance_guarded R now j job w = (Inl e, w') \<Longrightarrow> job_settled j (rw_store w')"
  using record_failure_settles by (auto simp: advance_guarded_def split: sum.splits prod.splits)

lemma advance_error:
  assumes "advance R now j w = (Inl e, w')"
  shows "job_settled j (rw_store w') \<or> job_blocked j (rw_store w')"
proof (cases "load_job R j w")
  case (Pair x w1)
  show ?thesis
  proof (cases x)
    case (Inl e')
    with Pair assms have "find_reindex j (rw_store w') = None" by (auto simp: advance_def intro: load_job_missing)
    then show ?thesis by (simp add: job_settled_def)
  next
    case job: (Inr job)
    consider "jv_status job \<noteq> R_PENDING" | "jv_status job = R_PENDING" by blast
    then show ?thesis
    proof cases
      case 1
      with Pair job assms show ?thesis by (auto simp: advance_def split: if_splits dest: advance_guarded_error)
    next
      case 2
      then have live: "jv_status job \<notin> set terminal_reindex_statuses" by (simp add: terminal_reindex_statuses_def)
      obtain y w2 where tx: "rtx R (begin_job now job) w1 = (y, w2)" by fastforce
      show ?thesis
      proof (cases y)
        case (Inl e')
        obtain s where "begin_job now job s = (Inl e', rw_store w2)" using rtx_store tx Inl by metis
        then have "job_blocked j (rw_store w2)"
          using begin_refused load_job_id [of R j w job w1] Pair job by auto
        then show ?thesis using Pair job 2 live tx Inl assms by (simp add: advance_def)
      next
        case (Inr u)
        obtain z w3 where load: "load_job R j w2 = (z, w3)" by fastforce
        show ?thesis
          using Pair job 2 live tx Inr assms load load_job_missing [of R j w2 _ w3]
          by (cases z) (auto simp: advance_def job_settled_def dest!: advance_guarded_error)
      qed
    qed
  qed
qed

lemma task_rounds_end:
  assumes "task_rounds R now j n v turns w = (res, w')"
  shows "case res of
      Inl e \<Rightarrow> job_settled j (rw_store w') \<or> job_blocked j (rw_store w')
    | Inr TaskMissing \<Rightarrow> False
    | Inr (TaskFinished v' turns') \<Rightarrow> turns \<le> turns' \<and> turns' \<le> turns + n
        \<and> (jv_status v' \<in> set terminal_reindex_statuses \<or> (\<exists>q. ks_queue (rw_store w') = q @ [ReindexTask j]))"
  using assms
proof (induction n arbitrary: v turns w)
  case 0
  then show ?case by (auto simp: send_reindex_def)
next
  case (Suc n)
  show ?case
  proof (cases "jv_status v \<in> set terminal_reindex_statuses")
    case True
    with Suc.prems show ?thesis by auto
  next
    case False
    obtain x w1 where adv: "advance R now j w = (x, w1)" by fastforce
    show ?thesis
    proof (cases x)
      case (Inl e)
      with Suc.prems False adv advance_error [of R now j w e w1] show ?thesis by auto
    next
      case (Inr v1)
      show ?thesis
      proof (cases "progress_mark v1 = progress_mark v")
        case True
        with Suc.prems False adv Inr show ?thesis by (auto simp: send_reindex_def)
      next
        case moved: False
        then have "task_rounds R now j n v1 (turns + 1) w1 = (res, w')"
          using Suc.prems False adv Inr by simp
        from Suc.IH [OF this] show ?thesis by (auto split: sum.splits task_end.splits)
      qed
    qed
  qed
qed

subsection \<open>Properties\<close>


text \<open>A task never abandons its job: it makes at most 20 rounds, and then the job is completed or failed or the task has
  sent itself again; when it raises or reports the job missing, the job is gone, completed or failed, or another job of the
  same knowledge base is active.\<close>

theorem task_never_abandons_its_job:
  assumes "reindex_task R now j w = (res, w')"
  shows "case res of
      Inr (TaskFinished v turns) \<Rightarrow> 1 \<le> turns \<and> turns \<le> 20
        \<and> (jv_status v \<in> {R_COMPLETED, R_FAILED} \<or> (\<exists>q. ks_queue (rw_store w') = q @ [ReindexTask j]))
    | _ \<Rightarrow> job_settled j (rw_store w') \<or> job_blocked j (rw_store w')"
proof -
  obtain x w1 where adv: "advance R now j w = (x, w1)" by fastforce
  show ?thesis
  proof (cases x)
    case (Inl e)
    with assms adv advance_error [of R now j w e w1] show ?thesis by (auto simp: reindex_task_def split: if_splits)
  next
    case (Inr v)
    then have "task_rounds R now j 19 v 1 w1 = (res, w')"
      using assms adv by (simp add: reindex_task_def max_rounds_per_task_def)
    from task_rounds_end [OF this] show ?thesis
      by (auto simp: terminal_reindex_statuses_def split: sum.splits task_end.splits)
  qed
qed

text \<open>Starting a rebuild opens exactly one job of the knowledge base and sends one task, and changes nothing that
  queries use; its target is either the same model and version, with new chunks, or the next version with the chunks as
  they are. A refused start changes nothing.\<close>

theorem start_opens_one_job:
  assumes "start_reindex R now j kb target rechunk s = (res, s')"
  shows "case res of
      Inl e \<Rightarrow> s' = s
    | Inr v \<Rightarrow> (\<exists>k row. find_kb kb s = Some k \<and> row = new_reindex now kb (\<lparr>rp_model = jv_model v, rp_version = jv_version v, rp_knowledge = jv_knowledge v, rp_rechunk = jv_rechunk v\<rparr>) s
        \<and> v = job_view_of j row \<and> filter (\<lambda>(i, r). rj_kb r = kb \<and> rj_status r \<in> {R_PENDING, R_RECHUNKING, R_EMBEDDING}) (ks_reindex s') = [(j, row)]
        \<and> ks_queue s' = ks_queue s @ [ReindexTask j] \<and> ks_kbs s' = ks_kbs s \<and> ks_chunks s' = ks_chunks s
        \<and> ks_vectors s' = ks_vectors s \<and> ks_docs s' = ks_docs s
        \<and> (if jv_rechunk v
           then jv_model v = (if kb_model k \<noteq> [] then kb_model k else re_default_model R) \<and> jv_version v = kb_version k
             \<and> jv_knowledge v = kb_knowledge_version k
           else jv_model v \<noteq> [] \<and> jv_version v = kb_version k + 1 \<and> jv_knowledge v = kb_indexed_version k))"
proof (cases "start_checks R kb target rechunk s")
  case (Inl e)
  with assms show ?thesis by (auto simp: start_reindex_def)
next
  case (Inr plan)
  then obtain k where k: "find_kb kb s = Some k"
      "plan_reindex (if kb_model k \<noteq> [] then kb_model k else re_default_model R) (kb_version k)
         (kb_knowledge_version k) (kb_indexed_version k) target rechunk = Inr plan" "active_for_kb kb s = None"
    by (auto simp: start_checks_def simp del: not_None_eq split: option.splits sum.splits if_splits)
  let ?row = "new_reindex now kb plan s"
  show ?thesis
  proof (cases "create_reindex j ?row s")
    case (Inl e)
    with Inr assms show ?thesis by (auto simp: start_reindex_def)
  next
    case created: (Inr s1)
    then have res: "res = Inr (job_view_of j ?row)" and s': "s' = enqueue (ReindexTask j) s1"
      using Inr assms by (auto simp: start_reindex_def)
    have s1: "s1 = s\<lparr>ks_reindex := ks_reindex s @ [(j, ?row)]\<rparr>"
      using created by (auto simp: create_reindex_def split: if_splits)
    have "filter (\<lambda>(i, r). rj_kb r = kb \<and> rj_status r \<in> {R_PENDING, R_RECHUNKING, R_EMBEDDING}) (ks_reindex s) = []"
      using k(3) by (auto simp: active_for_kb_def find_None_iff filter_empty_conv reindex_active_statuses_def)
    then have "filter (\<lambda>(i, r). rj_kb r = kb \<and> rj_status r \<in> {R_PENDING, R_RECHUNKING, R_EMBEDDING}) (ks_reindex s') = [(j, ?row)]"
      by (simp add: s' s1 enqueue_def new_reindex_def)
    moreover have "rp_model plan \<noteq> []" "if rp_rechunk plan
           then rp_model plan = (if kb_model k \<noteq> [] then kb_model k else re_default_model R) \<and> rp_version plan = kb_version k
             \<and> rp_knowledge plan = kb_knowledge_version k
           else rp_version plan = kb_version k + 1 \<and> rp_knowledge plan = kb_indexed_version k"
      using k(2) by (auto simp: plan_reindex_def Let_def split: if_splits)
    ultimately show ?thesis
      unfolding res by (simp add: k(1) s' s1 job_view_of_def new_reindex_def)
  qed
qed

lemma find_reindex_fold:
  "distinct js \<Longrightarrow> find_reindex i (fold (\<lambda>j. update_reindex now j f) js s) =
     (if i \<in> set js then map_option (\<lambda>r. (f r)\<lparr>rj_updated := now\<rparr>) (find_reindex i s) else find_reindex i s)"
  by (induction js arbitrary: s) auto

lemma enqueue_all:
  "fold (\<lambda>j. enqueue (ReindexTask j)) js s = s\<lparr>ks_queue := ks_queue s @ List.map ReindexTask js\<rparr>"
  by (induction js arbitrary: s) (simp_all add: enqueue_def)

lemma fold_update_reindex_frame:
  "ks_queue (fold (\<lambda>j. update_reindex now j f) js s) = ks_queue s" "ks_docs (fold (\<lambda>j. update_reindex now j f) js s) = ks_docs s"
  "ks_kbs (fold (\<lambda>j. update_reindex now j f) js s) = ks_kbs s" "ks_chunks (fold (\<lambda>j. update_reindex now j f) js s) = ks_chunks s"
  "ks_vectors (fold (\<lambda>j. update_reindex now j f) js s) = ks_vectors s"
  by (induction js arbitrary: s) simp_all

lemma reindex_stuck_ids:
  assumes "distinct (List.map fst (ks_reindex s))"
  shows "distinct (List.map fst (reindex_stuck_in statuses cutoff s))"
    and "j \<in> set (List.map fst (reindex_stuck_in statuses cutoff s)) \<longleftrightarrow>
      (\<exists>r. find_reindex j s = Some r \<and> rj_status r \<in> set statuses \<and> rj_updated r < cutoff)"
proof -
  have "distinct (List.map fst (filter (\<lambda>(j, r). rj_status r \<in> set statuses \<and> rj_updated r < cutoff) (ks_reindex s)))"
    using assms by (rule distinct_map_filter)
  then show "distinct (List.map fst (reindex_stuck_in statuses cutoff s))"
    unfolding reindex_stuck_in_def by (simp add: distinct_map)
  show "j \<in> set (List.map fst (reindex_stuck_in statuses cutoff s)) \<longleftrightarrow>
      (\<exists>r. find_reindex j s = Some r \<and> rj_status r \<in> set statuses \<and> rj_updated r < cutoff)"
    using assms by (auto simp: reindex_stuck_in_def find_reindex_def map_of_eq_Some_iff image_iff)
qed

text \<open>The rescue leaves no rebuild stuck: of the jobs that have not moved for the threshold, those that never began
  are sent again, oldest first, and those that stopped on the way are marked failed with the reason, so that the knowledge
  base accepts a new rebuild; no other job and no other table changes.\<close>

theorem rescue_frees_the_knowledge_base:
  assumes "rescue_reindex R now s = (n, s')" "distinct (List.map fst (ks_reindex s))"
  shows "(\<forall>j. find_reindex j s' = (case find_reindex j s of
        None \<Rightarrow> None
      | Some r \<Rightarrow> if rj_status r \<in> {R_RECHUNKING, R_EMBEDDING} \<and> rj_updated r < now - re_stuck_after R
          then Some (r\<lparr>rj_status := R_FAILED, rj_error := Some stalled_error, rj_finished := Some now, rj_updated := now\<rparr>)
          else Some r))
    \<and> (\<exists>sent. ks_queue s' = ks_queue s @ List.map ReindexTask sent \<and> distinct sent
        \<and> (\<forall>j. j \<in> set sent \<longleftrightarrow> (\<exists>r. find_reindex j s = Some r \<and> rj_status r = R_PENDING \<and> rj_updated r < now - re_stuck_after R)))
    \<and> ks_docs s' = ks_docs s \<and> ks_kbs s' = ks_kbs s \<and> ks_chunks s' = ks_chunks s \<and> ks_vectors s' = ks_vectors s"
proof -
  let ?cutoff = "now - re_stuck_after R"
  let ?pending = "List.map fst (reindex_stuck_in [R_PENDING] ?cutoff s)"
    and ?stalled = "List.map fst (reindex_stuck_in [R_RECHUNKING, R_EMBEDDING] ?cutoff s)"
  let ?f = "\<lambda>r :: reindex_row. r\<lparr>rj_status := R_FAILED, rj_error := Some stalled_error, rj_finished := Some now\<rparr>"
  have s': "s' = (fold (\<lambda>j. update_reindex now j ?f) ?stalled s)\<lparr>ks_queue := ks_queue s @ List.map ReindexTask ?pending\<rparr>"
    using assms(1) by (auto simp: rescue_reindex_def Let_def enqueue_all fold_update_reindex_frame)
  have row: "find_reindex j s' = find_reindex j (fold (\<lambda>j. update_reindex now j ?f) ?stalled s)" for j
    by (simp add: s' find_reindex_def)
  have "find_reindex j s' = (case find_reindex j s of
        None \<Rightarrow> None
      | Some r \<Rightarrow> if rj_status r \<in> {R_RECHUNKING, R_EMBEDDING} \<and> rj_updated r < ?cutoff
          then Some ((?f r)\<lparr>rj_updated := now\<rparr>) else Some r)" for j
    unfolding row find_reindex_fold [OF reindex_stuck_ids(1) [OF assms(2)]] reindex_stuck_ids(2) [OF assms(2)]
    by (simp split: option.split)
  moreover have "ks_queue s' = ks_queue s @ List.map ReindexTask ?pending" by (simp add: s')
  moreover have "distinct ?pending"
    "\<forall>j. j \<in> set ?pending \<longleftrightarrow> (\<exists>r. find_reindex j s = Some r \<and> rj_status r = R_PENDING \<and> rj_updated r < ?cutoff)"
    using reindex_stuck_ids(1) [OF assms(2), of "[R_PENDING]" ?cutoff]
      reindex_stuck_ids(2) [OF assms(2), of _ "[R_PENDING]" ?cutoff] by simp_all
  ultimately show ?thesis
    by (intro conjI exI [of _ ?pending]) (simp_all add: s' fold_update_reindex_frame)
qed

subsection \<open>When a rebuild is complete\<close>

text \<open>A provider that answers, under one resolved name, and no other tasks.\<close>

definition answers_as :: "'o reindex_env \<Rightarrow> ustring \<Rightarrow> ustring \<Rightarrow> bool" where
  "answers_as R requested resolved =
     (resolved \<noteq> []
      \<and> (\<forall>n texts model. model \<in> {requested, resolved} \<longrightarrow>
           (\<exists>vs k. re_gateway R n texts model = Inr \<lparr>ep_vectors = vs, ep_model = resolved, ep_tokens = k\<rparr>
              \<and> length vs = length texts \<and> (\<forall>v \<in> set vs. length v = vector_dimensions))))"

definition undisturbed :: "'o reindex_env \<Rightarrow> bool" where
  "undisturbed R = (\<forall>n s. re_others R n s = s)"

lemma rtx_undisturbed:
  "undisturbed R \<Longrightarrow> rtx R f w =
     (fst (f (rw_store w)), w\<lparr>rw_store := snd (f (rw_store w)), rw_trace := rw_trace w @ [(rw_store w, snd (f (rw_store w)))]\<rparr>)"
  by (simp add: rtx_def undisturbed_def Let_def case_prod_beta)

text \<open>What the batches do not touch.\<close>

definition same_base :: "kstore \<Rightarrow> kstore \<Rightarrow> bool" where
  "same_base s s' =
     (ks_chunks s' = ks_chunks s \<and> ks_kbs s' = ks_kbs s \<and> ks_docs s' = ks_docs s
      \<and> (distinct (List.map fst (ks_vectors s)) \<longrightarrow> distinct (List.map fst (ks_vectors s'))))"

lemma same_base_refl [simp]: "same_base s s"
  by (simp add: same_base_def)

lemma same_base_trans: "same_base a b \<Longrightarrow> same_base b c \<Longrightarrow> same_base a c"
  by (simp add: same_base_def)

lemma fold_update_distinct:
  "distinct (List.map fst vs) \<Longrightarrow> distinct (List.map fst (fold (\<lambda>(c, v). AList.update (c, model, n) v) rows vs))"
  by (induction rows arbitrary: vs) (auto simp: distinct_update split: prod.split)

lemma upsert_succeeds:
  assumes "length vs = length ids" "set ids \<subseteq> cr_id ` set (ks_chunks s)" "\<forall>v \<in> set vs. length v = vector_dimensions"
  obtains s1 where "upsert_vectors (zip ids vs) model n s = Inr s1" "same_base s s1" "ks_reindex s1 = ks_reindex s"
    "vector_keys s1 = vector_keys s \<union> (\<lambda>i. (i, model, n)) ` set ids"
proof -
  have "list_all (\<lambda>(c, v). c \<in> set (List.map cr_id (ks_chunks s))) (zip ids vs)" "list_all (\<lambda>(c, v). length v = vector_dimensions) (zip ids vs)"
    using assms(2,3) set_zip_leftD [of _ _ ids vs] set_zip_rightD [of _ _ ids vs] by (auto simp: list_all_iff)
  then obtain s1 where up: "upsert_vectors (zip ids vs) model n s = Inr s1"
    and s1: "s1 = s\<lparr>ks_vectors := fold (\<lambda>(c, v). AList.update (c, model, n) v) (zip ids vs) (ks_vectors s)\<rparr>"
    unfolding upsert_vectors_def by simp
  have "fst ` set (zip ids vs) = set ids"
    using assms(1) by (metis list.set_map map_fst_zip)
  then have "vector_keys s1 = vector_keys s \<union> (\<lambda>i. (i, model, n)) ` set ids"
    unfolding vector_keys_def upsert_keys [OF up] using image_image [of "\<lambda>i. (i, model, n)" fst "set (zip ids vs)"] by simp
  moreover have "same_base s s1" "ks_reindex s1 = ks_reindex s"
    by (simp_all add: same_base_def s1 fold_update_distinct)
  ultimately show ?thesis using up that by blast
qed

text \<open>The job as the task holds it agrees with its row.\<close>

definition agrees :: "job_view \<Rightarrow> kstore \<Rightarrow> bool" where
  "agrees job s = (\<exists>r. find_reindex (jv_id job) s = Some r \<and> jv_model job = rj_model r \<and> jv_version job = rj_version r
     \<and> jv_kb job = rj_kb r \<and> jv_knowledge job = rj_knowledge r)"

definition row_kept :: "job_view \<Rightarrow> ustring \<Rightarrow> kstore \<Rightarrow> kstore \<Rightarrow> bool" where
  "row_kept job model s s' =
     (\<exists>r r'. find_reindex (jv_id job) s = Some r \<and> find_reindex (jv_id job) s' = Some r' \<and> rj_model r' = model
        \<and> rj_version r' = rj_version r \<and> rj_kb r' = rj_kb r \<and> rj_knowledge r' = rj_knowledge r \<and> rj_status r' = rj_status r)"

lemma store_batch_done:
  assumes "agrees job s" "set ids \<subseteq> cr_id ` set (ks_chunks s)" "length vs = length ids"
    and "\<forall>v \<in> set vs. length v = vector_dimensions" "resolved \<noteq> []"
  obtains job' s' where "store_batch now job (zip ids vs) resolved s = (Inr job', s')" "same_base s s'"
    "vector_keys s' = vector_keys s \<union> (\<lambda>i. (i, resolved, jv_version job)) ` set ids"
    "agrees job' s'" "row_kept job resolved s s'" "jv_id job' = jv_id job" "jv_model job' = resolved" "jv_version job' = jv_version job"
proof -
  obtain s1 where up: "upsert_vectors (zip ids vs) resolved (jv_version job) s = Inr s1" "same_base s s1" "ks_reindex s1 = ks_reindex s"
    "vector_keys s1 = vector_keys s \<union> (\<lambda>i. (i, resolved, jv_version job)) ` set ids"
    using upsert_succeeds [OF assms(3,2,4)] .
  obtain r where r: "find_reindex (jv_id job) s = Some r" "jv_model job = rj_model r" "jv_version job = rj_version r"
      "jv_kb job = rj_kb r" "jv_knowledge job = rj_knowledge r"
    using assms(1) by (auto simp: agrees_def)
  have r1: "find_reindex (jv_id job) s1 = Some r" using r(1) up(3) by (simp add: find_reindex_def)
  show ?thesis
  proof (cases "resolved = jv_model job")
    case True
    have "store_batch now job (zip ids vs) resolved s = (Inr job, s1)"
      using up(1) True assms(5) by (simp add: store_batch_def)
    then show ?thesis
      by (rule that) (use up r r1 True in \<open>auto simp: agrees_def row_kept_def\<close>)
  next
    case False
    let ?s2 = "update_reindex now (jv_id job) (\<lambda>r. r\<lparr>rj_model := resolved\<rparr>) s1"
    let ?r2 = "r\<lparr>rj_model := resolved, rj_updated := now\<rparr>"
    have r2: "find_reindex (jv_id job) ?s2 = Some ?r2" using r1 by simp
    have "store_batch now job (zip ids vs) resolved s = (Inr (job_view_of (jv_id job) ?r2), ?s2)"
      using up(1) False assms(5) r1 by (simp add: store_batch_def load_reindex_def)
    then show ?thesis
      by (rule that) (use up r r2 False in \<open>auto simp: agrees_def row_kept_def job_view_of_def same_base_def vector_keys_def\<close>)
  qed
qed

lemma row_kept_trans:
  "row_kept job m s s' \<Longrightarrow> row_kept job' m' s' s'' \<Longrightarrow> jv_id job' = jv_id job \<Longrightarrow> row_kept job m' s s''"
  by (auto simp: row_kept_def)

lemma batches_done:
  assumes "answers_as R m resolved" "undisturbed R"
  shows "jv_model job \<in> {m, resolved} \<Longrightarrow> agrees job (rw_store w) \<Longrightarrow> fst ` set pending \<subseteq> cr_id ` set (ks_chunks (rw_store w)) \<Longrightarrow>
    \<exists>k t w'. embed_batches R now job pending n t0 w = (Inr (k, t), w') \<and> same_base (rw_store w) (rw_store w')
      \<and> vector_keys (rw_store w') = vector_keys (rw_store w) \<union> (\<lambda>i. (i, resolved, jv_version job)) ` fst ` set pending
      \<and> row_kept job (if pending = [] then jv_model job else resolved) (rw_store w) (rw_store w')"
proof (induction "length pending" arbitrary: pending job n t0 w rule: less_induct)
  case less
  let ?s = "rw_store w" and ?ids = "List.map fst (take embed_batch_size pending)"
  show ?case
  proof (cases "pending = []")
    case True
    with less.prems show ?thesis by (auto simp: embed_batches.simps agrees_def row_kept_def)
  next
    case False
    obtain vs k where reply: "re_gateway R (rw_calls w) (List.map snd (take embed_batch_size pending)) (jv_model job) =
        Inr \<lparr>ep_vectors = vs, ep_model = resolved, ep_tokens = k\<rparr>" "length vs = length (take embed_batch_size pending)"
        "\<forall>v \<in> set vs. length v = vector_dimensions"
      using assms(1) less.prems(1) unfolding answers_as_def by (metis length_map)
    have ids: "set ?ids \<subseteq> cr_id ` set (ks_chunks ?s)"
      using less.prems(3) set_take_subset [of embed_batch_size pending] by auto
    have name: "resolved \<noteq> []" using assms(1) by (simp add: answers_as_def)
    obtain job' s' where b: "store_batch now job (zip ?ids vs) resolved ?s = (Inr job', s')" "same_base ?s s'"
        "vector_keys s' = vector_keys ?s \<union> (\<lambda>i. (i, resolved, jv_version job)) ` set ?ids"
        "agrees job' s'" "row_kept job resolved ?s s'" "jv_id job' = jv_id job" "jv_model job' = resolved" "jv_version job' = jv_version job"
      using store_batch_done [OF less.prems(2) ids _ reply(3) name] reply(2) by (metis length_map)
    let ?w2 = "w\<lparr>rw_calls := rw_calls w + 1, rw_store := s', rw_trace := rw_trace w @ [(?s, s')]\<rparr>"
    have step: "embed_batches R now job pending n t0 w =
        embed_batches R now job' (drop embed_batch_size pending) (n + length (take embed_batch_size pending)) (t0 + k) ?w2"
      using False reply b(1) by (subst embed_batches.simps) (simp add: Let_def rtx_undisturbed [OF assms(2)])
    have shorter: "length (drop embed_batch_size pending) < length pending"
      using False by (simp add: embed_batch_size_def)
    have rest: "fst ` set (drop embed_batch_size pending) \<subseteq> cr_id ` set (ks_chunks (rw_store ?w2))"
      using less.prems(3) b(2) set_drop_subset [of embed_batch_size pending] by (auto simp: same_base_def)
    obtain k' t w' where done': "embed_batches R now job' (drop embed_batch_size pending) (n + length (take embed_batch_size pending)) (t0 + k) ?w2
          = (Inr (k', t), w')" "same_base s' (rw_store w')"
        "vector_keys (rw_store w') = vector_keys s' \<union> (\<lambda>i. (i, resolved, jv_version job)) ` fst ` set (drop embed_batch_size pending)"
        "row_kept job' resolved s' (rw_store w')"
      using less.hyps [OF shorter, of job' ?w2 "n + length (take embed_batch_size pending)" "t0 + k"] rest b by auto
    have "fst ` set pending = set ?ids \<union> fst ` set (drop embed_batch_size pending)"
      by (metis append_take_drop_id image_Un list.set_map set_append)
    then have "vector_keys (rw_store w') = vector_keys ?s \<union> (\<lambda>i. (i, resolved, jv_version job)) ` fst ` set pending"
      using done'(3) b(3) by auto
    moreover have "same_base ?s (rw_store w')" by (rule same_base_trans [OF b(2) done'(2)])
    moreover have "row_kept job resolved ?s (rw_store w')" by (rule row_kept_trans [OF b(5) done'(4) b(6)])
    ultimately show ?thesis using step done'(1) False by simp
  qed
qed

lemma missing_ids:
  "fst ` set (missing_of job s) = cr_id ` {c \<in> set (for_retrieval (jv_kb job) s). (cr_id c, jv_model job, jv_version job) \<notin> vector_keys s}"
  by (force simp: missing_of_def Let_def chunks_without_embedding_def vector_keys_def)

text \<open>The state in which a job leaves its knowledge base.\<close>

definition rebuilt :: "uuid128 \<Rightarrow> kstore \<Rightarrow> bool" where
  "rebuilt j s =
     (\<exists>r k. find_reindex j s = Some r \<and> rj_status r = R_COMPLETED \<and> find_kb (rj_kb r) s = Some k
        \<and> kb_version k = rj_version r \<and> kb_indexed_version k = rj_knowledge r
        \<and> kb_covered (rj_kb r) (kb_model k) (kb_version k) s)"

lemma clean_target_grows:
  assumes "clean_target kb version s" "same_base s s'"
    and "vector_keys s' = vector_keys s \<union> (\<lambda>i. (i, model, version)) ` A" "A \<subseteq> cr_id ` set (for_retrieval kb s)"
  shows "clean_target kb version s'"
proof -
  have False if "c \<in> set (ks_chunks s)" and "cr_superseded c" and "cr_id c \<in> A" for c
  proof -
    obtain c' where "c' \<in> set (ks_chunks s)" "\<not> cr_superseded c'" "cr_id c' = cr_id c"
      using assms(4) \<open>cr_id c \<in> A\<close> by (auto simp: retrieval_set)
    moreover have "inj_on cr_id (set (ks_chunks s))" using assms(1) by (simp add: clean_target_def distinct_map)
    ultimately show False using \<open>c \<in> set (ks_chunks s)\<close> \<open>cr_superseded c\<close> by (metis inj_onD)
  qed
  with assms show ?thesis by (auto simp: clean_target_def same_base_def)
qed

lemma embed_missing_done:
  assumes "answers_as R m resolved" "undisturbed R" "jv_model job \<in> {m, resolved}" "agrees job (rw_store w)"
  obtains k t w' where "embed_missing R now job w = (Inr (k, t), w')" "same_base (rw_store w) (rw_store w')"
    "vector_keys (rw_store w') = vector_keys (rw_store w) \<union> (\<lambda>i. (i, resolved, jv_version job)) ` fst ` set (missing_of job (rw_store w))"
    "row_kept job (if missing_of job (rw_store w) = [] then jv_model job else resolved) (rw_store w) (rw_store w')"
proof -
  let ?w1 = "w\<lparr>rw_trace := rw_trace w @ [(rw_store w, rw_store w)]\<rparr>"
  have tx: "rtx R (\<lambda>s. (missing_of job s, s)) w = (missing_of job (rw_store w), ?w1)"
    by (simp add: rtx_undisturbed [OF assms(2)])
  have "fst ` set (missing_of job (rw_store w)) \<subseteq> cr_id ` set (ks_chunks (rw_store ?w1))"
    by (auto simp: missing_ids retrieval_set)
  with batches_done [OF assms(1,2), of job ?w1 "missing_of job (rw_store w)" now 0 0] assms(3,4) tx that show ?thesis
    by (auto simp: embed_missing_def)
qed

definition round_result :: "job_view \<Rightarrow> ustring \<Rightarrow> kstore \<Rightarrow> job_view \<Rightarrow> kstore \<Rightarrow> bool" where
  "round_result job resolved s v s' =
     (rebuilt (jv_id job) s' \<and> jv_status v = R_COMPLETED
      \<or> jv_model job \<noteq> resolved \<and> v = job_view_of (jv_id job) (the (find_reindex (jv_id job) s')) \<and> agrees v s'
        \<and> jv_id v = jv_id job \<and> jv_model v = resolved \<and> jv_kb v = jv_kb job \<and> jv_version v = jv_version job
        \<and> rj_status (the (find_reindex (jv_id job) s')) = rj_status (the (find_reindex (jv_id job) s))
        \<and> find_kb (jv_kb job) s' = find_kb (jv_kb job) s \<and> clean_target (jv_kb job) (jv_version job) s')"

lemma embed_round:
  assumes "answers_as R m resolved" "undisturbed R" "jv_model job \<in> {m, resolved}" "agrees job (rw_store w)"
    and "find_kb (jv_kb job) (rw_store w) = Some k" "clean_target (jv_kb job) (jv_version job) (rw_store w)"
  obtains v w' where "advance_embedding R now job w = (Inr v, w')" "round_result job resolved (rw_store w) v (rw_store w')"
proof -
  let ?s = "rw_store w" and ?kb = "jv_kb job" and ?j = "jv_id job" and ?n = "jv_version job"
  obtain e t w1 where m: "embed_missing R now job w = (Inr (e, t), w1)" "same_base ?s (rw_store w1)"
    "vector_keys (rw_store w1) = vector_keys ?s \<union> (\<lambda>i. (i, resolved, ?n)) ` fst ` set (missing_of job ?s)"
    "row_kept job (if missing_of job ?s = [] then jv_model job else resolved) ?s (rw_store w1)"
    using embed_missing_done [OF assms(1-4)] .
  let ?s1 = "rw_store w1"
  have clean: "clean_target ?kb ?n ?s1"
    by (rule clean_target_grows [OF assms(6) m(2,3)]) (auto simp: missing_ids)
  have kb1: "find_kb ?kb ?s1 = Some k" using assms(5) m(2) by (simp add: same_base_def find_kb_def)
  have active: "set (for_retrieval ?kb ?s1) = set (for_retrieval ?kb ?s)" using m(2) by (simp add: same_base_def for_retrieval_def)
  obtain r r1 where rows: "find_reindex ?j ?s = Some r" "find_reindex ?j ?s1 = Some r1"
      "rj_model r1 = (if missing_of job ?s = [] then jv_model job else resolved)" "rj_version r1 = rj_version r" "rj_kb r1 = rj_kb r"
      "rj_knowledge r1 = rj_knowledge r" "rj_status r1 = rj_status r"
    using m(4) by (auto simp: row_kept_def)
  have view: "jv_model job = rj_model r" "?n = rj_version r" "?kb = rj_kb r" "jv_knowledge job = rj_knowledge r"
    using assms(4) rows(1) by (auto simp: agrees_def)
  obtain w2 where w2: "rw_store w2 = ?s1" and adv: "advance_embedding R now job w =
      (case rtx R (settle_round now job (jv_model job)) w2 of (Inl e, w3) \<Rightarrow> (Inl e, w3) | (Inr _, w3) \<Rightarrow> load_job R ?j w3)"
  proof
    let ?w2 = "if 0 < t then w1\<lparr>rw_usage := rw_usage w1 @ [\<lparr>ru_model = jv_model job, ru_prompt_tokens = t, ru_request = ?j\<rparr>]\<rparr> else w1"
    show "rw_store ?w2 = ?s1" by simp
    show "advance_embedding R now job w =
      (case rtx R (settle_round now job (jv_model job)) ?w2 of (Inl e, w3) \<Rightarrow> (Inl e, w3) | (Inr _, w3) \<Rightarrow> load_job R ?j w3)"
      by (simp add: advance_embedding_def Let_def m(1))
  qed
  show ?thesis
  proof (cases "kb_covered ?kb (jv_model job) ?n ?s1")
    case True
    let ?s2 = "switch_kb now job (jv_model job) (update_reindex now ?j
        (\<lambda>r. r\<lparr>rj_total_chunks := count_active_for_kb ?kb ?s1, rj_embedded_chunks := count_active_for_kb ?kb ?s1\<rparr>) ?s1)"
    have settle: "settle_round now job (jv_model job) ?s1 = (Inr (), ?s2)"
      using complete_covered [OF clean, of "jv_model job"] True
      by (cases rule: settle_round_cases [of now job "jv_model job" ?s1]) simp_all
    have cov: "kb_covered ?kb (jv_model job) ?n ?s2"
      using True by (subst kb_covered_cong [of _ ?s1]) (simp_all add: switch_kb_def vector_keys_def)
    have "rebuilt ?j ?s2"
      unfolding rebuilt_def using rows(2,4-6) view kb1 cov
      by (auto simp: switch_kb_def find_kb_update_kb)
    moreover have "load_reindex ?j ?s2 = Inr (job_view_of ?j (the (find_reindex ?j ?s2)))" "rj_status (the (find_reindex ?j ?s2)) = R_COMPLETED"
      using rows(2) by (auto simp: load_reindex_def switch_kb_def)
    ultimately show ?thesis
      using adv settle w2 by (intro that) (auto simp: rtx_undisturbed [OF assms(2)] load_job_def round_result_def job_view_of_def)
  next
    case False
    let ?s2 = "update_reindex now ?j (\<lambda>r. r\<lparr>rj_total_chunks := count_active_for_kb ?kb ?s1,
        rj_embedded_chunks := count_for_kb_version ?kb (jv_model job) ?n ?s1\<rparr>) ?s1"
    have settle: "settle_round now job (jv_model job) ?s1 = (Inr (), ?s2)"
      using complete_covered [OF clean, of "jv_model job"] False
      by (cases rule: settle_round_cases [of now job "jv_model job" ?s1]) simp_all
    have "\<not> (jv_model job = resolved \<or> missing_of job ?s = [])"
    proof
      assume a: "jv_model job = resolved \<or> missing_of job ?s = []"
      have "(cr_id c, jv_model job, ?n) \<in> vector_keys ?s1" if "c \<in> set (for_retrieval ?kb ?s)" for c
        using that a missing_ids [of job ?s] m(3) by (cases "(cr_id c, jv_model job, ?n) \<in> vector_keys ?s") auto
      with False active show False by (simp add: kb_covered_def)
    qed
    then have diff: "jv_model job \<noteq> resolved" and model: "rj_model r1 = resolved" using rows(3) by auto
    have clean2: "clean_target ?kb ?n ?s2" using clean by (simp add: clean_target_def vector_keys_def)
    have load: "load_reindex ?j ?s2 = Inr (job_view_of ?j (the (find_reindex ?j ?s2)))"
      using rows(2) by (simp add: load_reindex_def)
    show ?thesis
      using adv settle w2 load diff model clean2 kb1 assms(5) rows view
      by (intro that) (auto simp: rtx_undisturbed [OF assms(2)] load_job_def round_result_def job_view_of_def agrees_def)
  qed
qed

text \<open>A job that only has vectors left to compute.\<close>

definition embeddable :: "uuid128 \<Rightarrow> kstore \<Rightarrow> reindex_row \<Rightarrow> bool" where
  "embeddable j s r =
     (find_reindex j s = Some r \<and> find_kb (rj_kb r) s \<noteq> None \<and> clean_target (rj_kb r) (rj_version r) s
      \<and> (rj_status r = R_EMBEDDING
         \<or> (\<forall>(j', r') \<in> set (ks_reindex s). j' \<noteq> j \<longrightarrow> rj_kb r' = rj_kb r \<longrightarrow> rj_status r' \<notin> set reindex_active_statuses)
           \<and> (rj_status r = R_PENDING \<and> \<not> rj_rechunk r
              \<or> rj_status r = R_RECHUNKING \<and> for_kb_after (rj_kb r) (rj_cursor r) rechunk_batch_size s = []
                \<and> count_in_statuses_for_kb (rj_kb r) still_processing_statuses s = 0)))"

definition round_ends :: "uuid128 \<Rightarrow> reindex_row \<Rightarrow> ustring \<Rightarrow> job_view \<Rightarrow> kstore \<Rightarrow> bool" where
  "round_ends j r resolved v s' =
     (rebuilt j s' \<and> jv_status v = R_COMPLETED
      \<or> rj_model r \<noteq> resolved \<and> jv_status v = R_EMBEDDING \<and> (\<exists>r'. embeddable j s' r' \<and> rj_model r' = resolved))"

lemma embedding_row:
  assumes "answers_as R m resolved" "undisturbed R" "rj_model r \<in> {m, resolved}" "find_reindex j (rw_store w) = Some r"
    and "rj_status r = R_EMBEDDING" "find_kb (rj_kb r) (rw_store w) \<noteq> None" "clean_target (rj_kb r) (rj_version r) (rw_store w)"
  obtains v w' where "advance_embedding R now (job_view_of j r) w = (Inr v, w')" "round_ends j r resolved v (rw_store w')"
proof -
  let ?job = "job_view_of j r"
  have job: "jv_id ?job = j" "jv_model ?job = rj_model r" "jv_kb ?job = rj_kb r" "jv_version ?job = rj_version r" "agrees ?job (rw_store w)"
    using assms(4) by (simp_all add: job_view_of_def agrees_def)
  obtain k where "find_kb (jv_kb ?job) (rw_store w) = Some k" using assms(6) job(3) by auto
  then obtain v w' where adv: "advance_embedding R now ?job w = (Inr v, w')" and res: "round_result ?job resolved (rw_store w) v (rw_store w')"
    using embed_round [OF assms(1,2), of ?job w k now] assms(3,7) job by auto
  show ?thesis
  proof (rule that [OF adv])
    show "round_ends j r resolved v (rw_store w')"
    proof (cases "rebuilt j (rw_store w') \<and> jv_status v = R_COMPLETED")
      case True
      then show ?thesis by (simp add: round_ends_def)
    next
      case False
      with res job assms(4) have o: "rj_model r \<noteq> resolved" "v = job_view_of j (the (find_reindex j (rw_store w')))" "agrees v (rw_store w')"
          "jv_model v = resolved" "jv_kb v = rj_kb r" "jv_version v = rj_version r"
          "rj_status (the (find_reindex j (rw_store w'))) = rj_status r" "find_kb (rj_kb r) (rw_store w') = find_kb (rj_kb r) (rw_store w)"
          "clean_target (rj_kb r) (rj_version r) (rw_store w')" "jv_id v = j"
        unfolding round_result_def by (simp only: option.sel simp_thms; elim disjE conjE; blast)+
      then obtain r' where r': "find_reindex j (rw_store w') = Some r'" "rj_model r' = resolved" "rj_kb r' = rj_kb r" "rj_version r' = rj_version r"
        by (auto simp: agrees_def)
      then have "embeddable j (rw_store w') r'" "jv_status v = R_EMBEDDING"
        using o assms(5,6) by (simp_all add: embeddable_def job_view_of_def)
      with r'(2) o(1) show ?thesis unfolding round_ends_def by blast
    qed
  qed
qed

lemma load_job_undisturbed:
  assumes "undisturbed R" "find_reindex j (rw_store w) = Some r"
  obtains w' where "load_job R j w = (Inr (job_view_of j r), w')" "rw_store w' = rw_store w"
  using assms by (simp add: load_job_def load_reindex_def rtx_undisturbed)

lemma activate_succeeds:
  assumes "find_reindex j s = Some r"
    and "\<forall>(j', r') \<in> set (ks_reindex s). j' \<noteq> j \<longrightarrow> rj_kb r' = rj_kb r \<longrightarrow> rj_status r' \<notin> set reindex_active_statuses"
  shows "activate_reindex now j f s = Inr (update_reindex now j f s)"
  using assms by (auto simp: activate_reindex_def list_ex_iff)

lemma clean_target_update [simp]: "clean_target kb n (update_reindex now j f s) = clean_target kb n s"
  by (simp add: clean_target_def vector_keys_def)

lemma advance_embeds:
  assumes "answers_as R m resolved" "undisturbed R" "rj_model r \<in> {m, resolved}" "embeddable j (rw_store w) r"
  obtains v w' where "advance R now j w = (Inr v, w')" "round_ends j r resolved v (rw_store w')"
proof -
  let ?s = "rw_store w"
  have row: "find_reindex j ?s = Some r" "find_kb (rj_kb r) ?s \<noteq> None" "clean_target (rj_kb r) (rj_version r) ?s"
    using assms(4) by (simp_all add: embeddable_def)
  obtain w1 where w1: "load_job R j w = (Inr (job_view_of j r), w1)" "rw_store w1 = ?s"
    using load_job_undisturbed [OF assms(2) row(1)] .
  have id: "jv_id (job_view_of j r) = j" "jv_status (job_view_of j r) = rj_status r" "jv_kb (job_view_of j r) = rj_kb r"
      "jv_rechunk (job_view_of j r) = rj_rechunk r" by (simp_all add: job_view_of_def)
  consider (embedding) "rj_status r = R_EMBEDDING"
    | (others) "\<forall>(j', r') \<in> set (ks_reindex ?s). j' \<noteq> j \<longrightarrow> rj_kb r' = rj_kb r \<longrightarrow> rj_status r' \<notin> set reindex_active_statuses"
        "rj_status r = R_PENDING \<and> \<not> rj_rechunk r
              \<or> rj_status r = R_RECHUNKING \<and> for_kb_after (rj_kb r) (rj_cursor r) rechunk_batch_size ?s = []
                \<and> count_in_statuses_for_kb (rj_kb r) still_processing_statuses ?s = 0"
    using assms(4) unfolding embeddable_def by blast
  then show ?thesis
  proof cases
    case embedding
    obtain v w' where "advance_embedding R now (job_view_of j r) w1 = (Inr v, w')" "round_ends j r resolved v (rw_store w')"
      using embedding_row [OF assms(1-3), of j w1 now] row w1(2) embedding by auto
    with w1(1) embedding id that show ?thesis
      by (simp add: advance_def advance_guarded_def advance_step_def terminal_reindex_statuses_def)
  next
    case others
    note begun = activate_succeeds [OF row(1) others(1)]
    from others(2) show ?thesis
    proof
      assume new: "rj_status r = R_PENDING \<and> \<not> rj_rechunk r"
      let ?f = "\<lambda>r :: reindex_row. r\<lparr>rj_status := R_EMBEDDING, rj_started := Some now\<rparr>"
      let ?r = "(?f r)\<lparr>rj_updated := now\<rparr>" and ?s1 = "update_reindex now j ?f ?s"
      obtain w2 where w2: "rtx R (begin_job now (job_view_of j r)) w1 = (Inr (), w2)" "rw_store w2 = ?s1"
        using w1(2) new id begun by (simp add: rtx_undisturbed [OF assms(2)] begin_job_def try_commit_def)
      have row2: "find_reindex j (rw_store w2) = Some ?r" using row(1) w2(2) by simp
      obtain w3 where w3: "load_job R j w2 = (Inr (job_view_of j ?r), w3)" "rw_store w3 = ?s1"
        using load_job_undisturbed [OF assms(2) row2] w2(2) by auto
      obtain v w' where "advance_embedding R now (job_view_of j ?r) w3 = (Inr v, w')" "round_ends j ?r resolved v (rw_store w')"
        using embedding_row [OF assms(1,2), of ?r j w3 now] assms(3) row w3(2) by auto
      with w1(1) w2(1) w3(1) new id that show ?thesis
        by (simp add: advance_def advance_guarded_def advance_step_def terminal_reindex_statuses_def job_view_of_def round_ends_def)
    next
      assume last: "rj_status r = R_RECHUNKING \<and> for_kb_after (rj_kb r) (rj_cursor r) rechunk_batch_size ?s = []
                \<and> count_in_statuses_for_kb (rj_kb r) still_processing_statuses ?s = 0"
      let ?f = "\<lambda>x :: reindex_row. x\<lparr>rj_status := R_EMBEDDING, rj_total_chunks := count_active_for_kb (rj_kb r) ?s\<rparr>"
      let ?r = "(?f r)\<lparr>rj_updated := now\<rparr>" and ?s1 = "update_reindex now j ?f ?s"
      obtain w2 where w2: "rtx R (\<lambda>s. (rechunk_list (job_view_of j r) s, s)) w1 = ([], w2)" "rw_store w2 = ?s"
        using w1(2) last id row(1) by (simp add: rtx_undisturbed [OF assms(2)] rechunk_list_def)
      obtain w3 where w3: "rtx R (enter_embedding now (job_view_of j r)) w2 = (Inr True, w3)" "rw_store w3 = ?s1"
        using w2(2) last id begun by (simp add: rtx_undisturbed [OF assms(2)] enter_embedding_def)
      have row3: "find_reindex j (rw_store w3) = Some ?r" using row(1) w3(2) by simp
      obtain w4 where w4: "load_job R j w3 = (Inr (job_view_of j ?r), w4)" "rw_store w4 = ?s1"
        using load_job_undisturbed [OF assms(2) row3] w3(2) by auto
      obtain v w' where "advance_embedding R now (job_view_of j ?r) w4 = (Inr v, w')" "round_ends j ?r resolved v (rw_store w')"
        using embedding_row [OF assms(1,2), of ?r j w4 now] assms(3) row w4(2) by auto
      with w1(1) w2(1) w3(1) w4(1) last id that show ?thesis
        by (simp add: advance_def advance_guarded_def advance_step_def advance_rechunk_def terminal_reindex_statuses_def job_view_of_def round_ends_def)
    qed
  qed
qed


subsection \<open>A sample\<close>

text \<open>A provider that resolves \<open>m\<close> to \<open>mx\<close>, a knowledge base with two current chunks, and a re-embedding that was just
  started.\<close>

definition reindex_sample_env :: "(ustring \<times> byte list) list reindex_env" where
  "reindex_sample_env =
     \<lparr>re_gateway = (\<lambda>n texts model. Inr \<lparr>ep_vectors = List.map (\<lambda>t. replicate vector_dimensions 0) texts,
                                           ep_model = lit ''mx'', ep_tokens = 5\<rparr>),
      re_default_model = lit ''d'', re_headroom = (\<lambda>n s. None), re_life = life_sample_env, re_others = (\<lambda>n s. s),
      re_stuck_after = 50\<rparr>"

definition sample_plan :: reindex_plan where
  "sample_plan = \<lparr>rp_model = lit ''m'', rp_version = 2, rp_knowledge = 1, rp_rechunk = False\<rparr>"

definition reindex_sample_world :: reindex_world where
  "reindex_sample_world =
     \<lparr>rw_store = (life_sample READY)\<lparr>ks_reindex := [(5, new_reindex 7 9 sample_plan (life_sample READY))]\<rparr>,
      rw_usage = [], rw_calls = 0, rw_trace = []\<rparr>"


lemma task_never_abandons_its_job_witness:
  "\<exists>res w'. reindex_task reindex_sample_env 8 5 reindex_sample_world = (res, w')
    \<and> (case res of Inr (TaskFinished v turns) \<Rightarrow> turns \<le> 20 | _ \<Rightarrow> job_settled 5 (rw_store w') \<or> job_blocked 5 (rw_store w'))"
proof -
  obtain res w' where run: "reindex_task reindex_sample_env 8 5 reindex_sample_world = (res, w')" by fastforce
  from task_never_abandons_its_job [OF run] run show ?thesis by (auto split: sum.splits task_end.splits)
qed

lemma start_opens_one_job_witness:
  "\<exists>v s'. start_reindex reindex_sample_env 7 5 9 (Some (lit '' m2 '')) None (life_sample READY) = (Inr v, s')
    \<and> jv_version v = 2 \<and> ks_queue s' = [ReindexTask 5]"
proof -
  obtain v s' where run: "start_reindex reindex_sample_env 7 5 9 (Some (lit '' m2 '')) None (life_sample READY) = (Inr v, s')"
    "\<not> jv_rechunk v"
    by (simp add: start_reindex_def start_checks_def life_sample_defs find_kb_def plan_reindex_def Let_def needs_reindex_def
        reindex_sample_env_def active_for_kb_def create_reindex_def find_reindex_def job_view_of_def new_reindex_def
        strip_def lstrip_def rstrip_def lit_def is_space_def)
  from start_opens_one_job [OF run(1)] run show ?thesis by (auto simp: life_sample_defs find_kb_def)
qed

lemma rescue_frees_the_knowledge_base_witness:
  "\<exists>n s'. rescue_reindex reindex_sample_env 100 (rw_store reindex_sample_world) = (n, s') \<and> ks_vectors s' = ks_vectors (life_sample READY)
    \<and> ReindexTask 5 \<in> set (ks_queue s')"
proof -
  obtain n s' where run: "rescue_reindex reindex_sample_env 100 (rw_store reindex_sample_world) = (n, s')" by fastforce
  from rescue_frees_the_knowledge_base [OF run] run show ?thesis
    by (auto simp: reindex_sample_world_def find_reindex_def new_reindex_def reindex_sample_env_def)
qed


subsection \<open>Deviations\<close>

text \<open>The count of finished vectors includes those of superseded chunks, and \<open>min\<close> hides that it exceeds the number of
  current chunks. When a document is re-ingested during a rebuild, the vectors of its old chunks make the rebuild look
  complete: the knowledge base is switched although a current chunk has no vector of the new version.\<close>

definition early_store :: kstore where
  "early_store = (rw_store reindex_sample_world)
     \<lparr>ks_chunks := [ingest_sample_chunk 100 1, ingest_sample_chunk 101 2], ks_vectors := [((101, lit ''m'', 1), [1]), ((100, lit ''m'', 2), [1])]\<rparr>"

lemma superseded_vectors_switch_early:
  defines "s' \<equiv> snd (settle_round 9 (job_view_of 5 (new_reindex 7 9 sample_plan (life_sample READY))) (lit ''m'') early_store)"
  shows "(101, lit ''m'', 2) \<notin> vector_keys early_store" "map_option kb_version (find_kb 9 s') = Some 2"
    "\<not> kb_covered 9 (lit ''m'') 2 s'"
proof -
  let ?job = "job_view_of 5 (new_reindex 7 9 sample_plan (life_sample READY))"
  have job: "jv_kb ?job = 9" "jv_version ?job = 2" "jv_id ?job = 5"
    by (simp_all add: job_view_of_def new_reindex_def sample_plan_def)
  have counts: "count_active_for_kb 9 early_store = 1" "count_for_kb_version 9 (lit ''m'') 2 early_store = 1"
    by (simp_all add: early_store_def count_active_for_kb_def count_for_kb_version_def ingest_sample_chunk_def)
  have s': "s' = switch_kb 9 ?job (lit ''m'') (update_reindex 9 5 (\<lambda>r. r\<lparr>rj_total_chunks := 1, rj_embedded_chunks := 1\<rparr>) early_store)"
    unfolding s'_def by (cases rule: settle_round_cases [of 9 ?job "lit ''m''" early_store]) (simp_all add: job counts)
  show miss: "(101, lit ''m'', 2) \<notin> vector_keys early_store"
    by (simp add: early_store_def vector_keys_def)
  have "find_kb 9 early_store = Some (sample_kb None)"
    by (simp add: early_store_def reindex_sample_world_def life_sample_def find_kb_def sample_kb_def)
  then show "map_option kb_version (find_kb 9 s') = Some 2"
    by (simp add: s' switch_kb_def find_kb_update_kb job)
  have "ks_chunks s' = ks_chunks early_store" "vector_keys s' = vector_keys early_store"
    by (simp_all add: s' switch_kb_def vector_keys_def)
  moreover have "ingest_sample_chunk 101 2 \<in> set (for_retrieval 9 early_store)" "cr_id (ingest_sample_chunk 101 2) = 101"
    by (simp_all add: retrieval_set early_store_def ingest_sample_chunk_def)
  ultimately show "\<not> kb_covered 9 (lit ''m'') 2 s'"
    using miss kb_covered_cong [of s' early_store] unfolding kb_covered_def by metis
qed

text \<open>A document that is deleted between the listing of a batch and its own re-ingest makes the whole rebuild fail, and the
  task reports the job as missing.\<close>

definition deleting_env :: "(ustring \<times> byte list) list reindex_env" where
  "deleting_env = reindex_sample_env\<lparr>re_others := (\<lambda>n s. if n = 2 then soft_delete_doc 8 1 s else s)\<rparr>"

definition rechunk_row :: reindex_row where
  "rechunk_row = (new_reindex 7 9 (sample_plan\<lparr>rp_rechunk := True\<rparr>) (life_sample READY))\<lparr>rj_status := R_RECHUNKING\<rparr>"

definition rechunk_world :: reindex_world where
  "rechunk_world = reindex_sample_world\<lparr>rw_store := (life_sample READY)\<lparr>ks_reindex := [(5, rechunk_row)]\<rparr>\<rparr>"

lemma deleted_document_fails_the_rebuild:
  "fst (reindex_task deleting_env 8 5 rechunk_world) = Inr TaskMissing
   \<and> map_option rj_status (find_reindex 5 (rw_store (snd (reindex_task deleting_env 8 5 rechunk_world)))) = Some R_FAILED"
proof -
  let ?s = "rw_store rechunk_world" and ?job = "job_view_of 5 rechunk_row"
  have kb: "jv_kb ?job = 9" "jv_id ?job = 5" "jv_status ?job = R_RECHUNKING" "rj_cursor rechunk_row = None"
    by (simp_all add: job_view_of_def rechunk_row_def new_reindex_def)
  have row: "find_reindex 5 ?s = Some rechunk_row" by (simp add: rechunk_world_def find_reindex_def)
  have start: "rw_trace rechunk_world = []" by (simp add: rechunk_world_def reindex_sample_world_def)
  obtain w1 where w1: "load_job deleting_env 5 rechunk_world = (Inr ?job, w1)" "rw_store w1 = ?s" "length (rw_trace w1) = 1"
    using row start by (simp add: load_job_def rtx_def Let_def load_reindex_def deleting_env_def)
  have listed: "rechunk_list ?job ?s = [1]"
    using row kb by (simp add: rechunk_list_def for_kb_after_def visible_docs_def rechunk_world_def life_sample_def sample_doc_def rechunk_batch_size_def)
  obtain w2 where w2: "rtx deleting_env (\<lambda>s. (rechunk_list ?job s, s)) w1 = ([1], w2)" "rw_store w2 = ?s" "length (rw_trace w2) = 2"
    using w1(2,3) listed by (simp add: rtx_def Let_def deleting_env_def)
  have gone: "find_doc 1 (soft_delete_doc 8 1 ?s) = None" by (simp add: find_doc_soft_delete)
  obtain w3 where w3: "rtx deleting_env (reingest (re_life deleting_env) 8 1) w2 = (Inl NotFound, w3)" "rw_store w3 = soft_delete_doc 8 1 ?s"
    "length (rw_trace w3) = 3"
    using w2(2,3) gone by (simp add: rtx_def Let_def deleting_env_def reingest_def)
  have "advance_step deleting_env 8 ?job w1 = (Inl not_found, w3)"
    using kb w2(1) w3(1) by (simp add: advance_step_def advance_rechunk_def)
  then have adv: "advance deleting_env 8 5 rechunk_world = (Inl not_found, record_failure deleting_env 8 5 not_found w3)"
    using w1(1) kb by (simp add: advance_def advance_guarded_def terminal_reindex_statuses_def)
  have "ks_reindex (soft_delete_doc 8 1 ?s) = ks_reindex ?s"
    by (simp add: soft_delete_doc_def split: option.split)
  then have "map_option rj_status (find_reindex 5 (rw_store (record_failure deleting_env 8 5 not_found w3))) = Some R_FAILED"
    using w3(2,3) row by (simp add: record_failure_def update_job_def rtx_def Let_def deleting_env_def find_reindex_def [of 5 "soft_delete_doc _ _ _"] find_reindex_def [of 5 ?s])
  with adv show ?thesis by (simp add: reindex_task_def not_found_def)
qed

text \<open>The writes of a round do not look at the status of the job: a job that the rescue declared failed, and whose knowledge
  base is free for another rebuild, is completed by a worker that was only slow.\<close>

lemma failed_job_is_revived:
  assumes "find_reindex (jv_id job) s = Some r" "rj_status r = R_FAILED"
    and "count_active_for_kb (jv_kb job) s \<le> count_for_kb_version (jv_kb job) model (jv_version job) s"
  shows "\<exists>r'. find_reindex (jv_id job) (snd (settle_round now job model s)) = Some r' \<and> rj_status r' = R_COMPLETED \<and> rj_error r' = rj_error r"
  using assms by (cases rule: settle_round_cases [of now job model s]) (simp_all add: switch_kb_def)

end
