(* ===== verification/Cursors.thy ===== *)
theory Cursors
  imports Uploads KbConfig CounterStore
begin

text \<open>
  \<open>backend/common/cursors.py\<close>, the opaque page cursors, and the page helpers of
  \<open>backend/repositories/base.py\<close>. Base 64 is written out as Python's \<open>base64\<close> and \<open>binascii\<close> compute it, the lenient
  decoder included, which skips what is not in the alphabet. Parameters: the JSON text of a dictionary and the time and
  identifier formats. Lemmas: a cursor comes back as it was handed out.
\<close>

subsection \<open>Base 64\<close>

fun sextets :: "nat list \<Rightarrow> nat list" where
  "sextets [] = []"
| "sextets [a] = [a div 4, (a mod 4) * 16]"
| "sextets [a, b] = [a div 4, (a mod 4) * 16 + b div 16, (b mod 16) * 4]"
| "sextets (a # b # c # cs) = a div 4 # ((a mod 4) * 16 + b div 16) # ((b mod 16) * 4 + c div 64) # (c mod 64) # sextets cs"

definition b64_char :: "nat \<Rightarrow> codepoint" where
  "b64_char v = (if v < 26 then 65 + v else if v < 52 then 71 + v else if v < 62 then v - 4 else if v = 62 then 45 else 95)"

definition b64_value :: "codepoint \<Rightarrow> nat option" where
  "b64_value c =
     (if 65 \<le> c \<and> c \<le> 90 then Some (c - 65) else if 97 \<le> c \<and> c \<le> 122 then Some (c - 71)
      else if 48 \<le> c \<and> c \<le> 57 then Some (c + 4) else if c = 43 \<or> c = 45 then Some 62
      else if c = 47 \<or> c = 95 then Some 63 else None)"

definition b64_pad :: codepoint where
  "b64_pad = 61"

definition urlsafe_b64encode :: "byte list \<Rightarrow> ustring" where
  "urlsafe_b64encode bs =
     List.map b64_char (sextets (List.map unat bs)) @ replicate ((3 - length bs mod 3) mod 3) b64_pad"

text \<open>\<open>binascii.a2b_base64\<close> without \<open>strict_mode\<close>: the position in the group of four, the bits left over, the padding
  seen.\<close>

fun b64_scan :: "ustring \<Rightarrow> nat \<Rightarrow> nat \<Rightarrow> nat \<Rightarrow> nat list \<Rightarrow> nat list option" where
  "b64_scan [] quad left pads out = (if quad = 0 then Some out else None)"
| "b64_scan (c # cs) quad left pads out =
     (if c = b64_pad then
        (if 2 \<le> quad then (if 4 \<le> quad + (pads + 1) then Some out else b64_scan cs quad left (pads + 1) out)
         else b64_scan cs quad left pads out)
      else
        case b64_value c of
          None \<Rightarrow> b64_scan cs quad left pads out
        | Some v \<Rightarrow>
            (if quad = 0 then b64_scan cs 1 v 0 out
             else if quad = 1 then b64_scan cs 2 (v mod 16) 0 (out @ [left * 4 + v div 16])
             else if quad = 2 then b64_scan cs 3 (v mod 4) 0 (out @ [left * 16 + v div 4])
             else b64_scan cs 0 0 0 (out @ [left * 64 + v])))"

definition urlsafe_b64decode :: "ustring \<Rightarrow> byte list option" where
  "urlsafe_b64decode s = (if list_all (\<lambda>c. c < 128) s then map_option (List.map of_nat) (b64_scan s 0 0 0 []) else None)"

subsection \<open>Cursors\<close>

datatype cursor_value = Plain json | Moment int

record cursor_env =
  ke_dumps :: "obj \<Rightarrow> ustring"
  ke_loads :: "byte list \<Rightarrow> string + json"
  ke_iso :: "int \<Rightarrow> ustring"
  ke_of_iso :: "ustring \<Rightarrow> int option"
  ke_of_uuid :: "ustring \<Rightarrow> uuid128 option"
  ke_str :: "json \<Rightarrow> ustring"

datatype cursor_failure = CursorError | Uncaught string

definition cursor_payload :: "cursor_env \<Rightarrow> (ustring \<times> cursor_value) list \<Rightarrow> obj" where
  "cursor_payload E values =
     List.map (\<lambda>(k, v). (k, case v of Plain j \<Rightarrow> j | Moment t \<Rightarrow> JStr (ke_iso E t))) values"

definition encode_cursor :: "cursor_env \<Rightarrow> (ustring \<times> cursor_value) list \<Rightarrow> ustring" where
  "encode_cursor E values =
     rev (dropWhile (\<lambda>c. c = b64_pad) (rev (urlsafe_b64encode (encode_utf8 (ke_dumps E (cursor_payload E values))))))"

text \<open>\<open>UnicodeDecodeError\<close> and \<open>JSONDecodeError\<close> are \<open>ValueError\<close>s.\<close>

definition decode_cursor :: "cursor_env \<Rightarrow> ustring \<Rightarrow> cursor_failure + obj" where
  "decode_cursor E cursor =
     (let padded = cursor @ replicate ((4 - length cursor mod 4) mod 4) b64_pad
      in case urlsafe_b64decode padded of
           None \<Rightarrow> Inl CursorError
         | Some bs \<Rightarrow>
             (case ke_loads E bs of
                Inl cls \<Rightarrow>
                  Inl (if cls \<in> set [''ValueError'', ''UnicodeDecodeError'', ''JSONDecodeError'', ''TypeError''] then CursorError
                       else Uncaught cls)
              | Inr (JObj payload) \<Rightarrow> Inr payload
              | Inr _ \<Rightarrow> Inl CursorError))"

text \<open>\<open>cursor_key\<close> and \<open>split_page\<close> of the repositories.\<close>

definition cursor_key :: "cursor_env \<Rightarrow> obj \<Rightarrow> (int \<times> uuid128) option" where
  "cursor_key E cursor =
     (case (map_of cursor (lit ''k''), map_of cursor (lit ''id'')) of
        (Some k, Some i) \<Rightarrow>
          (case (ke_of_iso E (ke_str E k), ke_of_uuid E (ke_str E i)) of
             (Some t, Some u) \<Rightarrow> Some (t, u)
           | _ \<Rightarrow> None)
      | _ \<Rightarrow> None)"

definition split_page :: "int \<Rightarrow> ('a \<Rightarrow> 'b) \<Rightarrow> 'a list \<Rightarrow> 'a list \<times> 'b option" where
  "split_page limit cursor_of rows =
     (if int (length rows) \<le> limit then (rows, None)
      else let page = slice_to limit rows in (page, Some (cursor_of (last page))))"

subsection \<open>The round trip\<close>

lemma b64_value_char: "v < 64 \<Longrightarrow> b64_value (b64_char v) = Some v"
  by (auto simp: b64_char_def b64_value_def)

lemma b64_char_not_pad: "v < 64 \<Longrightarrow> b64_char v \<noteq> b64_pad"
  by (auto simp: b64_char_def b64_pad_def)

lemma b64_char_ascii: "v < 64 \<Longrightarrow> b64_char v < 128"
  by (auto simp: b64_char_def)

lemma sextets_range: "list_all (\<lambda>b. b < 256) bs \<Longrightarrow> list_all (\<lambda>v. v < 64) (sextets bs)"
  by (induction bs rule: sextets.induct) auto

lemma sextets_nonempty: "bs \<noteq> [] \<Longrightarrow> sextets bs \<noteq> []"
  by (induction bs rule: sextets.induct) auto

lemma sextet_arith:
  "b < 256 \<Longrightarrow> (a mod 4 * 16 + b div 16) div 16 = a mod (4::nat)"
  "b < 256 \<Longrightarrow> (a mod 4 * 16 + b div 16) mod 16 = b div (16::nat)"
  "c < 256 \<Longrightarrow> (b mod 16 * 4 + c div 64) div 4 = b mod (16::nat)"
  "c < 256 \<Longrightarrow> (b mod 16 * 4 + c div 64) mod 4 = c div (64::nat)"
  by (simp_all add: div_add1_eq mod_add_eq)

lemma group_back:
  fixes a :: nat
  shows "a div 4 * 4 + a mod 4 = a" "b div 16 * 16 + b mod 16 = (b::nat)" "c div 64 * 64 + c mod 64 = (c::nat)"
  by simp_all

lemma scan_char:
  "v < 64 \<Longrightarrow> b64_scan (b64_char v # cs) quad left pads out =
     (if quad = 0 then b64_scan cs 1 v 0 out
      else if quad = 1 then b64_scan cs 2 (v mod 16) 0 (out @ [left * 4 + v div 16])
      else if quad = 2 then b64_scan cs 3 (v mod 4) 0 (out @ [left * 16 + v div 4])
      else b64_scan cs 0 0 0 (out @ [left * 64 + v]))"
  by (simp add: b64_char_not_pad b64_value_char)

lemma scan_pad:
  "b64_scan (b64_pad # cs) quad left pads out =
     (if 2 \<le> quad then (if 4 \<le> quad + (pads + 1) then Some out else b64_scan cs quad left (pads + 1) out)
      else b64_scan cs quad left pads out)"
  by simp

declare b64_scan.simps(2) [simp del]

lemma scan_sextets:
  "list_all (\<lambda>b. b < 256) bs \<Longrightarrow>
   b64_scan (List.map b64_char (sextets bs) @ replicate ((3 - length bs mod 3) mod 3) b64_pad) 0 0 pads out = Some (out @ bs)"
proof (induction bs arbitrary: out pads rule: sextets.induct)
  case (2 a)
  then have "a div 4 < 64" "a mod 4 * 16 < 64" by auto
  then show ?case by (simp add: scan_char scan_pad numeral_2_eq_2)
next
  case (3 a b)
  then have "a div 4 < 64" "a mod 4 * 16 + b div 16 < 64" "b mod 16 * 4 < 64" by auto
  moreover have "(b mod 16 * 4) div 4 = b mod 16" "b div 16 < 16" "b div 16 * 16 + b mod 16 = b" using 3 by auto
  ultimately show ?case using 3 by (simp add: sextet_arith scan_char scan_pad)
next
  case (4 a b c cs)
  then have "a div 4 < 64" "a mod 4 * 16 + b div 16 < 64" "b mod 16 * 4 + c div 64 < 64" "c mod 64 < 64" by auto
  moreover have "b div 16 < 16" "c div 64 < 4" "b div 16 * 16 + b mod 16 = b" "c div 64 * 64 + c mod 64 = c" using 4 by auto
  moreover have "(3 - length (a # b # c # cs) mod 3) mod 3 = (3 - length cs mod 3) mod 3" by simp
  ultimately show ?case using 4 by (simp add: sextet_arith scan_char)
qed simp

lemma sextets_pads:
  "(4 - length (sextets bs) mod 4) mod 4 = (3 - length bs mod 3) mod 3"
proof (induction bs rule: sextets.induct)
  case (4 a b c cs)
  have "length (sextets (a # b # c # cs)) mod 4 = length (sextets cs) mod 4" "length (a # b # c # cs) mod 3 = length cs mod 3"
    by simp_all
  with 4 show ?case by simp
qed simp_all

lemma unat_lt_byte: "unat (b :: byte) < 256"
proof -
  have "unat b < 2 ^ LENGTH(8)" by (rule unsigned_less)
  then show ?thesis by simp
qed

lemma bytes_small: "list_all (\<lambda>b. b < 256) (List.map unat (bs :: byte list))"
  by (auto simp: list_all_iff intro: unat_lt_byte)

lemma stripped_b64: "rev (dropWhile (\<lambda>c. c = b64_pad) (rev (urlsafe_b64encode bs))) = List.map b64_char (sextets (List.map unat bs))"
proof -
  have "list_all (\<lambda>v. v < 64) (sextets (List.map unat bs))" by (rule sextets_range [OF bytes_small])
  then have "list_all (\<lambda>c. c \<noteq> b64_pad) (List.map b64_char (sextets (List.map unat bs)))"
    by (auto simp: list_all_iff b64_char_not_pad)
  then have "dropWhile (\<lambda>c. c = b64_pad) (rev (List.map b64_char (sextets (List.map unat bs)))) = rev (List.map b64_char (sextets (List.map unat bs)))"
    unfolding dropWhile_eq_self_iff list_all_iff by (metis hd_in_set set_rev)
  moreover have "dropWhile (\<lambda>c. c = b64_pad) (replicate n b64_pad @ xs) = dropWhile (\<lambda>c. c = b64_pad) xs" for n xs
    by (induction n) simp_all
  ultimately show ?thesis by (simp add: urlsafe_b64encode_def)
qed

lemma b64_round_trip:
  "urlsafe_b64decode (List.map b64_char (sextets (List.map unat bs)) @ replicate ((3 - length bs mod 3) mod 3) b64_pad) = Some bs"
proof -
  let ?s = "sextets (List.map unat bs)"
  have "list_all (\<lambda>v. v < 64) ?s" by (rule sextets_range [OF bytes_small])
  then have "list_all (\<lambda>c. c < 128) (List.map b64_char ?s @ replicate ((3 - length bs mod 3) mod 3) b64_pad)"
    by (auto simp: list_all_iff b64_char_ascii b64_pad_def)
  then show ?thesis using scan_sextets [OF bytes_small, of bs 0 "[]"]
    by (simp add: urlsafe_b64decode_def comp_def)
qed

definition url_safe :: "codepoint \<Rightarrow> bool" where
  "url_safe c \<longleftrightarrow> 65 \<le> c \<and> c \<le> 90 \<or> 97 \<le> c \<and> c \<le> 122 \<or> 48 \<le> c \<and> c \<le> 57 \<or> c = 45 \<or> c = 95"

lemma b64_char_url_safe: "v < 64 \<Longrightarrow> url_safe (b64_char v)"
  by (auto simp: b64_char_def url_safe_def)

lemma cursor_decodes:
  assumes "ke_loads E (encode_utf8 (ke_dumps E (cursor_payload E values))) = Inr (JObj (cursor_payload E values))"
  shows "decode_cursor E (encode_cursor E values) = Inr (cursor_payload E values)
     \<and> list_all url_safe (encode_cursor E values)"
proof -
  let ?bs = "encode_utf8 (ke_dumps E (cursor_payload E values))"
  have enc: "encode_cursor E values = List.map b64_char (sextets (List.map unat ?bs))"
    by (simp add: encode_cursor_def stripped_b64)
  moreover have "urlsafe_b64decode (encode_cursor E values @ replicate ((4 - length (encode_cursor E values) mod 4) mod 4) b64_pad)
      = Some ?bs"
    using b64_round_trip [of ?bs] sextets_pads [of "List.map unat ?bs"] enc by simp
  moreover have "list_all url_safe (encode_cursor E values)"
    using sextets_range [OF bytes_small, of ?bs] enc by (auto simp: list_all_iff b64_char_url_safe)
  ultimately show ?thesis using assms by (simp add: decode_cursor_def)
qed

text \<open>C38. A cursor comes back as it was handed out: decoding an encoded cursor gives the same dictionary, its times as ISO
  texts, and the text needs no quoting in a URL. (The JSON module reads back what it wrote.)\<close>

theorem cursor_round_trip:
  assumes "ke_loads E (encode_utf8 (ke_dumps E (cursor_payload E values))) = Inr (JObj (cursor_payload E values))"
  shows "decode_cursor E (encode_cursor E values) = Inr (cursor_payload E values)
     \<and> list_all url_safe (encode_cursor E values)"
  by (rule cursor_decodes [OF assms])

text \<open>Every failure of the decoder is a \<open>CursorError\<close> as long as the JSON module fails with a \<open>ValueError\<close>.\<close>

lemma cursor_failures:
  assumes "decode_cursor E cursor = Inl e" "\<And>bs cls. ke_loads E bs = Inl cls \<Longrightarrow> cls = ''JSONDecodeError'' \<or> cls = ''UnicodeDecodeError''"
  shows "e = CursorError"
  using assms by (force simp: decode_cursor_def Let_def split: option.splits sum.splits json.splits)

text \<open>Deeply nested input makes the JSON module raise a \<open>RecursionError\<close>, which is none of the three classes.\<close>

lemma nested_cursor_escapes:
  assumes "\<And>bs. n \<le> length (takeWhile (\<lambda>b. b = 91) bs) \<Longrightarrow> ke_loads E bs = Inl ''RecursionError''"
  shows "\<exists>cursor. decode_cursor E cursor = Inl (Uncaught ''RecursionError'')"
proof -
  let ?bs = "replicate n (91 :: byte)"
  let ?c = "List.map b64_char (sextets (List.map unat ?bs))"
  have "urlsafe_b64decode (?c @ replicate ((4 - length ?c mod 4) mod 4) b64_pad) = Some ?bs"
    using b64_round_trip [of ?bs] sextets_pads [of "List.map unat ?bs"] by simp
  moreover have "ke_loads E ?bs = Inl ''RecursionError''" by (rule assms) simp
  ultimately have "decode_cursor E ?c = Inl (Uncaught ''RecursionError'')" by (simp add: decode_cursor_def)
  then show ?thesis by blast
qed

definition sample_cursor :: "(ustring \<times> cursor_value) list" where
  "sample_cursor = [(lit ''id'', Plain (JStr (lit ''ab''))), (lit ''k'', Moment 7)]"

definition sample_cursor_env :: cursor_env where
  "sample_cursor_env =
     (let tok = [123, 34, 105, 100, 34, 58, 34, 97, 98, 34, 44, 34, 107, 34, 58, 34, 55, 34, 125]
      in \<lparr>ke_dumps = (\<lambda>_. tok),
          ke_loads = (\<lambda>bs. if bs = encode_utf8 tok then Inr (JObj [(lit ''id'', JStr (lit ''ab'')), (lit ''k'', JStr [55])])
                           else Inl ''JSONDecodeError''),
          ke_iso = (\<lambda>t. [48 + nat t]), ke_of_iso = (\<lambda>s. if s = [55] then Some 7 else None),
          ke_of_uuid = (\<lambda>s. if s = lit ''ab'' then Some 171 else None),
          ke_str = (\<lambda>v. case v of JStr s \<Rightarrow> s | _ \<Rightarrow> [])\<rparr>)"

theorem cursor_round_trip_witness:
  "decode_cursor sample_cursor_env (encode_cursor sample_cursor_env sample_cursor)
     = Inr [(lit ''id'', JStr (lit ''ab'')), (lit ''k'', JStr [55])]
   \<and> list_all url_safe (encode_cursor sample_cursor_env sample_cursor)"
proof -
  have p: "cursor_payload sample_cursor_env sample_cursor = [(lit ''id'', JStr (lit ''ab'')), (lit ''k'', JStr [55])]"
    by (simp add: cursor_payload_def sample_cursor_def sample_cursor_env_def Let_def)
  have "ke_loads sample_cursor_env (encode_utf8 (ke_dumps sample_cursor_env (cursor_payload sample_cursor_env sample_cursor)))
      = Inr (JObj (cursor_payload sample_cursor_env sample_cursor))"
    unfolding p by (simp add: sample_cursor_env_def Let_def)
  from cursor_round_trip [OF this] show ?thesis unfolding p .
qed

lemma sample_cursor_text:
  "encode_cursor sample_cursor_env sample_cursor = lit ''eyJpZCI6ImFiIiwiayI6IjcifQ''"
  by code_simp

subsection \<open>Reading page after page\<close>

text \<open>What a client sees that follows the cursor of each page until there is none.\<close>

fun read_all :: "nat \<Rightarrow> ('c option \<Rightarrow> 'e + 'a list \<times> 'c option) \<Rightarrow> 'c option \<Rightarrow> 'a list option" where
  "read_all 0 fetch cursor = None"
| "read_all (Suc n) fetch cursor =
     (case fetch cursor of
        Inl e \<Rightarrow> None
      | Inr (items, None) \<Rightarrow> Some items
      | Inr (items, Some c) \<Rightarrow> map_option (append items) (read_all n fetch (Some c)))"

text \<open>The contract of a page query with a key cursor, in any state that is \<open>ok\<close>: the rows have a strict order, the first
  page is its beginning, and the page after the cursor of a row goes on right behind that row.\<close>

locale keyset_paging =
  fixes ok :: "'s \<Rightarrow> bool" and rows :: "'s \<Rightarrow> 'row list" and key :: "'row \<Rightarrow> 'k::linorder"
    and cursor_of :: "'row \<Rightarrow> 'c" and fetch :: "'s \<Rightarrow> int \<Rightarrow> 'c option \<Rightarrow> 'e + 'row list \<times> 'c option"
  assumes rows_sorted: "ok s \<Longrightarrow> sorted_wrt (<) (List.map key (rows s))"
    and first_page: "ok s \<Longrightarrow> fetch s limit None = Inr (split_page limit cursor_of (slice_to (limit + 1) (rows s)))"
    and next_page: "ok s \<Longrightarrow> r \<in> set (rows s) \<Longrightarrow> fetch s limit (Some (cursor_of r))
      = Inr (split_page limit cursor_of (slice_to (limit + 1) (filter (\<lambda>x. key r < key x) (rows s))))"
begin

lemma after_prefix:
  assumes "ok s" "rows s = xs @ ys" "xs \<noteq> []"
  shows "filter (\<lambda>x. key (last xs) < key x) (rows s) = ys"
proof -
  have sorted: "sorted_wrt (<) (List.map key (xs @ ys))" using rows_sorted [OF assms(1)] assms(2) by simp
  have "\<forall>x \<in> set ys. key (last xs) < key x" using sorted assms(3) by (auto simp: sorted_wrt_append)
  moreover have "\<forall>x \<in> set xs. \<not> key (last xs) < key x"
  proof -
    have "xs = butlast xs @ [last xs]" using assms(3) by simp
    with sorted have "sorted_wrt (<) (List.map key (butlast xs @ [last xs]))" by (metis map_append sorted_wrt_append)
    then have "\<forall>x \<in> set (butlast xs). key x < key (last xs)" by (simp add: sorted_wrt_append)
    then show ?thesis by (metis \<open>xs = butlast xs @ [last xs]\<close> append_butlast_last_id in_set_butlastD less_asym less_irrefl rotate1.simps(2) set_ConsD set_rotate1 assms(3))
  qed
  ultimately show ?thesis using assms(2) by (simp add: filter_id_conv filter_empty_conv)
qed

lemma split_step:
  assumes "1 \<le> limit"
  shows "split_page limit c (slice_to (limit + 1) ys) =
    (if int (length ys) \<le> limit then (ys, None) else (slice_to limit ys, Some (c (last (slice_to limit ys)))))"
  using assms by (auto simp: split_page_def slice_to_def Let_def min_def nat_add_distrib)

lemma read_after:
  assumes "ok s" "1 \<le> limit" "rows s = xs @ ys" "xs \<noteq> []" "length ys < n"
  shows "read_all n (fetch s limit) (Some (cursor_of (last xs))) = Some ys"
  using assms(3-5)
proof (induction n arbitrary: xs ys)
  case (Suc n)
  have page: "fetch s limit (Some (cursor_of (last xs))) = Inr (split_page limit cursor_of (slice_to (limit + 1) ys))"
    using next_page [OF assms(1), of "last xs" limit] after_prefix [OF assms(1) Suc.prems(1,2)] Suc.prems(1,2) by simp
  show ?case
  proof (cases "int (length ys) \<le> limit")
    case True
    then show ?thesis by (simp add: page split_step [OF assms(2)])
  next
    case False
    let ?a = "slice_to limit ys"
    define b where "b = drop (nat limit) ys"
    have b: "ys = ?a @ b" using assms(2) by (simp add: slice_to_def b_def)
    have ne: "?a \<noteq> []" "length b < n" using assms(2) False Suc.prems(3) by (auto simp: slice_to_def b_def)
    have "rows s = (xs @ ?a) @ b" using Suc.prems(1) b by simp
    from Suc.IH [OF this _ ne(2)] ne(1) have "read_all n (fetch s limit) (Some (cursor_of (last ?a))) = Some b" by simp
    then show ?thesis using False b by (simp add: page split_step [OF assms(2)])
  qed
qed simp

theorem reads_everything:
  assumes "ok s" "1 \<le> limit" "length (rows s) < n"
  shows "read_all n (fetch s limit) None = Some (rows s)"
proof -
  obtain m where m: "n = Suc m" using assms(3) by (cases n) auto
  show ?thesis
  proof (cases "int (length (rows s)) \<le> limit")
    case True
    then show ?thesis by (simp add: m first_page [OF assms(1)] split_step [OF assms(2)])
  next
    case False
    let ?a = "slice_to limit (rows s)"
    define b where "b = drop (nat limit) (rows s)"
    have b: "rows s = ?a @ b" using assms(2) by (simp add: slice_to_def b_def)
    have "?a \<noteq> []" "length b < m" using assms(2,3) False m by (auto simp: slice_to_def b_def)
    then have "read_all m (fetch s limit) (Some (cursor_of (last ?a))) = Some b"
      using read_after [OF assms(1,2) b] by simp
    then show ?thesis using False b by (simp add: m first_page [OF assms(1)] split_step [OF assms(2)])
  qed
qed

end

end
