(* ===== verification/Conversations.thy ===== *)
theory Conversations
  imports Cursors ChatTurn KnowledgeStore Ingestion
begin

text \<open>
  Conversations and their messages: \<open>backend/services/conversation/conversations.py\<close>, the repository functions of
  \<open>backend/repositories/conversation.py\<close> and \<open>base.py\<close> it calls, the first half of a turn (\<open>ChatService.start_turn\<close>, the gate
  of the stream endpoint and the write of the result), the retention purge (\<open>purge.py\<close>) and the rescue of stuck messages
  (\<open>rescue.py\<close>). One tenant; a function body under one \<open>unit_of_work\<close> is one transaction. New identifiers and the clock
  are arguments; \<open>updated_at\<close>, which nothing reads, and the log lines are left out. Lemmas: pages, ownership, the
  counters of a conversation, what the clean-up removes.
\<close>

subsection \<open>The tables\<close>

record conv_row =
  cv_user :: uuid128
  cv_title :: ustring
  cv_kbs :: "uuid128 list"
  cv_prompt :: ustring
  cv_status :: ustring
  cv_pinned :: bool
  cv_count :: int
  cv_last :: "int option"
  cv_created :: int
  cv_deleted :: "int option"

record msg_row =
  mg_conv :: uuid128
  mg_role :: ustring
  mg_content :: ustring
  mg_citations :: "citation list"
  mg_model :: ustring
  mg_version :: "int option"
  mg_usage :: "turn_usage option"
  mg_rag :: "rag_stats option"
  mg_status :: string
  mg_error :: "(string \<times> string option) option"
  mg_created :: int

record memory_row =
  ms_conv :: uuid128
  ms_summary :: ustring
  ms_tokens :: int
  ms_upto :: "uuid128 option"
  ms_version :: int

record chat_store =
  cs_convs :: "(uuid128 \<times> conv_row) list"
  cs_msgs :: "(uuid128 \<times> msg_row) list"
  cs_memory :: "(uuid128 \<times> memory_row) list"

definition validation_failed :: app_exn where
  "validation_failed = \<lparr>ax_domain = True, ax_os_error = False, ax_class = ''ValidationFailedError'', ax_cause = '''', ax_message = []\<rparr>"

definition empty_message :: app_exn where
  "empty_message = \<lparr>ax_domain = True, ax_os_error = False, ax_class = ''EmptyMessageError'', ax_cause = '''', ax_message = []\<rparr>"

subsection \<open>The repositories\<close>

definition find_conv :: "uuid128 \<Rightarrow> chat_store \<Rightarrow> conv_row option" where
  "find_conv c s =
     (case map_of (cs_convs s) c of Some r \<Rightarrow> if cv_deleted r = None then Some r else None | None \<Rightarrow> None)"

definition create_conv ::
  "uuid128 \<Rightarrow> int \<Rightarrow> uuid128 \<Rightarrow> ustring \<Rightarrow> uuid128 list \<Rightarrow> ustring \<Rightarrow> chat_store \<Rightarrow> conv_row \<times> chat_store" where
  "create_conv c now user title kbs prompt s =
     (let r = \<lparr>cv_user = user, cv_title = title, cv_kbs = kbs, cv_prompt = prompt, cv_status = lit ''active'', cv_pinned = False,
               cv_count = 0, cv_last = None, cv_created = now, cv_deleted = None\<rparr>
      in (r, s\<lparr>cs_convs := cs_convs s @ [(c, r)]\<rparr>))"

definition update_conv :: "uuid128 \<Rightarrow> (conv_row \<Rightarrow> conv_row) \<Rightarrow> chat_store \<Rightarrow> chat_store" where
  "update_conv c f s =
     s\<lparr>cs_convs := List.map (\<lambda>(i, r). (i, if i = c \<and> cv_deleted r = None then f r else r)) (cs_convs s)\<rparr>"

definition soft_delete_conv :: "int \<Rightarrow> uuid128 \<Rightarrow> chat_store \<Rightarrow> chat_store" where
  "soft_delete_conv now c s = update_conv c (\<lambda>r. r\<lparr>cv_deleted := Some now\<rparr>) s"

text \<open>\<open>COALESCE(last_message_at, created_at)\<close>, newest first, the identifier as second key.\<close>

definition recency :: "conv_row \<Rightarrow> int" where
  "recency r = (case cv_last r of None \<Rightarrow> cv_created r | Some t \<Rightarrow> t)"

definition conv_key :: "uuid128 \<times> conv_row \<Rightarrow> int \<times> int" where
  "conv_key x = (- recency (snd x), - int (fst x))"

definition conv_rows :: "uuid128 \<Rightarrow> chat_store \<Rightarrow> (uuid128 \<times> conv_row) list" where
  "conv_rows user s = sort_key conv_key (filter (\<lambda>(c, r). cv_deleted r = None \<and> cv_user r = user) (cs_convs s))"

definition page_for_user ::
  "uuid128 \<Rightarrow> int \<Rightarrow> (int \<times> uuid128) option \<Rightarrow> chat_store \<Rightarrow> (uuid128 \<times> conv_row) list \<times> (int \<times> uuid128) option" where
  "page_for_user user limit cursor s =
     (let rows = (case cursor of
                    None \<Rightarrow> conv_rows user s
                  | Some (k, i) \<Rightarrow> filter (\<lambda>(c, r). recency r < k \<or> recency r = k \<and> c < i) (conv_rows user s))
      in split_page limit (\<lambda>(c, r). (recency r, c)) (slice_to (limit + 1) rows))"

definition deleted_before :: "int \<Rightarrow> int \<Rightarrow> chat_store \<Rightarrow> uuid128 list" where
  "deleted_before cutoff limit s =
     slice_to limit (List.map fst (sort_key (\<lambda>(c, r). or_else (cv_deleted r) 0)
       (filter (\<lambda>(c, r). \<exists>t. cv_deleted r = Some t \<and> t < cutoff) (cs_convs s))))"

definition protected_conv :: app_exn where
  "protected_conv = foreign ''ProtectedError''"

definition hard_delete_convs :: "uuid128 list \<Rightarrow> chat_store \<Rightarrow> app_exn + nat \<times> chat_store" where
  "hard_delete_convs cs s =
     (if \<exists>(i, m) \<in> set (cs_msgs s). mg_conv m \<in> set cs then Inl protected_conv
      else if \<exists>(i, m) \<in> set (cs_memory s). ms_conv m \<in> set cs then Inl protected_conv
      else Inr (length (filter (\<lambda>(c, r). c \<in> set cs) (cs_convs s)),
                s\<lparr>cs_convs := filter (\<lambda>(c, r). c \<notin> set cs) (cs_convs s)\<rparr>))"

definition messages_of :: "uuid128 \<Rightarrow> chat_store \<Rightarrow> (uuid128 \<times> msg_row) list" where
  "messages_of c s = filter (\<lambda>(i, m). mg_conv m = c) (cs_msgs s)"

definition msg_key :: "uuid128 \<times> msg_row \<Rightarrow> int \<times> int" where
  "msg_key x = (mg_created (snd x), int (fst x))"

definition msg_rows :: "uuid128 \<Rightarrow> chat_store \<Rightarrow> (uuid128 \<times> msg_row) list" where
  "msg_rows c s = sort_key msg_key (messages_of c s)"

text \<open>The newest \<open>n\<close>, in the order of time.\<close>

definition for_conversation :: "uuid128 \<Rightarrow> int option \<Rightarrow> chat_store \<Rightarrow> (uuid128 \<times> msg_row) list" where
  "for_conversation c limit s =
     (case limit of
        None \<Rightarrow> msg_rows c s
      | Some n \<Rightarrow>
          let newest = slice_to n (sort_key (\<lambda>x. (- fst (msg_key x), - snd (msg_key x))) (messages_of c s))
          in sort_key msg_key newest)"

definition purge_messages :: "uuid128 list \<Rightarrow> chat_store \<Rightarrow> nat \<times> chat_store" where
  "purge_messages cs s =
     (length (filter (\<lambda>(i, m). mg_conv m \<in> set cs) (cs_msgs s)),
      s\<lparr>cs_msgs := filter (\<lambda>(i, m). mg_conv m \<notin> set cs) (cs_msgs s)\<rparr>)"

definition stuck_streaming :: "int \<Rightarrow> chat_store \<Rightarrow> (uuid128 \<times> msg_row) list" where
  "stuck_streaming started_before s =
     sort_key (\<lambda>(i, m). mg_created m)
       (filter (\<lambda>(i, m). mg_status m = ''streaming'' \<and> mg_created m < started_before) (cs_msgs s))"

definition assistant_since :: "int \<Rightarrow> chat_store \<Rightarrow> nat" where
  "assistant_since since s =
     length (filter (\<lambda>(i, m). mg_role m = lit ''assistant'' \<and> since \<le> mg_created m) (cs_msgs s))"

definition page_for_conversation ::
  "uuid128 \<Rightarrow> int \<Rightarrow> (int \<times> uuid128) option \<Rightarrow> chat_store \<Rightarrow> (uuid128 \<times> msg_row) list \<times> (int \<times> uuid128) option" where
  "page_for_conversation c limit cursor s =
     (let rows = (case cursor of
                    None \<Rightarrow> msg_rows c s
                  | Some (k, i) \<Rightarrow> filter (\<lambda>(j, m). k < mg_created m \<or> mg_created m = k \<and> i < j) (msg_rows c s))
      in split_page limit (\<lambda>(i, m). (mg_created m, i)) (slice_to (limit + 1) rows))"

text \<open>A message and the two fields of its conversation, in one step.\<close>

definition append_msg ::
  "uuid128 \<Rightarrow> int \<Rightarrow> uuid128 \<Rightarrow> ustring \<Rightarrow> ustring \<Rightarrow> string \<Rightarrow> chat_store \<Rightarrow> chat_store" where
  "append_msg i now c role body state s =
     (let m = \<lparr>mg_conv = c, mg_role = role, mg_content = body, mg_citations = [], mg_model = [], mg_version = None,
               mg_usage = None, mg_rag = None, mg_status = state, mg_error = None, mg_created = now\<rparr>
      in s\<lparr>cs_msgs := cs_msgs s @ [(i, m)],
           cs_convs := List.map (\<lambda>(j, r). (j, if j = c then r\<lparr>cv_count := cv_count r + 1, cv_last := Some now\<rparr> else r))
                         (cs_convs s)\<rparr>)"

definition set_msg_status ::
  "uuid128 \<Rightarrow> string \<Rightarrow> (string \<times> string option) option \<Rightarrow> (msg_row \<Rightarrow> msg_row) \<Rightarrow> chat_store \<Rightarrow> chat_store" where
  "set_msg_status i state err f s =
     s\<lparr>cs_msgs := List.map (\<lambda>(j, m). (j, if j = i then f (m\<lparr>mg_status := state, mg_error := err\<rparr>) else m)) (cs_msgs s)\<rparr>"

definition purge_memory :: "uuid128 list \<Rightarrow> chat_store \<Rightarrow> chat_store" where
  "purge_memory cs s = s\<lparr>cs_memory := filter (\<lambda>(i, m). ms_conv m \<notin> set cs) (cs_memory s)\<rparr>"

definition latest_memory :: "uuid128 \<Rightarrow> chat_store \<Rightarrow> memory_row option" where
  "latest_memory c s =
     (case sort_key (\<lambda>m. - ms_version m) (filter (\<lambda>m. ms_conv m = c) (List.map snd (cs_memory s))) of [] \<Rightarrow> None | m # _ \<Rightarrow> Some m)"

definition create_memory ::
  "uuid128 \<Rightarrow> uuid128 \<Rightarrow> ustring \<Rightarrow> int \<Rightarrow> uuid128 option \<Rightarrow> int option \<Rightarrow> chat_store \<Rightarrow> app_exn + memory_row \<times> chat_store" where
  "create_memory i c summary tokens covered version s =
     (let v = (case version of
                 Some v \<Rightarrow> v
               | None \<Rightarrow> (case latest_memory c s of None \<Rightarrow> 1 | Some m \<Rightarrow> ms_version m + 1));
          r = \<lparr>ms_conv = c, ms_summary = summary, ms_tokens = tokens, ms_upto = covered, ms_version = v\<rparr>
      in if \<exists>(j, m) \<in> set (cs_memory s). ms_conv m = c \<and> ms_version m = v then Inl (foreign ''IntegrityError'')
         else Inr (r, s\<lparr>cs_memory := cs_memory s @ [(i, r)]\<rparr>))"

subsection \<open>The service\<close>

record conv_view =
  vw_id :: uuid128
  vw_title :: ustring
  vw_kbs :: "uuid128 list"
  vw_prompt :: ustring
  vw_status :: ustring
  vw_pinned :: bool
  vw_count :: int
  vw_last :: "int option"

record message_view =
  mv_id :: uuid128
  mv_role :: ustring
  mv_content :: ustring
  mv_citations :: "citation list"
  mv_model :: ustring
  mv_status :: string
  mv_usage :: "turn_usage option \<times> rag_stats option"
  mv_created :: int

record 'a page =
  pg_items :: "'a list"
  pg_next :: "ustring option"

definition conv_view_of :: "uuid128 \<times> conv_row \<Rightarrow> conv_view" where
  "conv_view_of x =
     (case x of (c, r) \<Rightarrow>
        \<lparr>vw_id = c, vw_title = cv_title r, vw_kbs = cv_kbs r, vw_prompt = cv_prompt r, vw_status = cv_status r,
         vw_pinned = cv_pinned r, vw_count = cv_count r, vw_last = cv_last r\<rparr>)"

definition message_view_of :: "uuid128 \<times> msg_row \<Rightarrow> message_view" where
  "message_view_of x =
     (case x of (i, m) \<Rightarrow>
        \<lparr>mv_id = i, mv_role = mg_role m, mv_content = mg_content m, mv_citations = mg_citations m, mv_model = mg_model m,
         mv_status = mg_status m, mv_usage = (mg_usage m, mg_rag m), mv_created = mg_created m\<rparr>)"

definition require_own :: "uuid128 \<Rightarrow> uuid128 \<Rightarrow> chat_store \<Rightarrow> app_exn + conv_row" where
  "require_own user c s =
     (case find_conv c s of
        None \<Rightarrow> Inl not_found
      | Some r \<Rightarrow> if cv_user r \<noteq> user then Inl not_found else Inr r)"

text \<open>All or nothing, against the knowledge bases that are not deleted.\<close>

definition require_knowledge_bases :: "uuid128 list \<Rightarrow> kstore \<Rightarrow> bool" where
  "require_knowledge_bases kbs k = list_all (\<lambda>kb. find_kb kb k \<noteq> None) kbs"

definition create_conversation ::
  "kstore \<Rightarrow> uuid128 \<Rightarrow> int \<Rightarrow> uuid128 \<Rightarrow> ustring \<Rightarrow> uuid128 list option \<Rightarrow> ustring \<Rightarrow> chat_store
   \<Rightarrow> (app_exn + conv_view) \<times> chat_store" where
  "create_conversation k c now user title kbs prompt s =
     (if \<not> require_knowledge_bases (or_else kbs []) k then (Inl not_found, s)
      else case create_conv c now user title (or_else kbs []) prompt s of (r, s1) \<Rightarrow> (Inr (conv_view_of (c, r)), s1))"

definition decode_opt :: "cursor_env \<Rightarrow> ustring option \<Rightarrow> app_exn + obj option" where
  "decode_opt E cursor =
     (case cursor of
        None \<Rightarrow> Inr None
      | Some tok \<Rightarrow>
          (case decode_cursor E tok of
             Inl CursorError \<Rightarrow> Inl validation_failed
           | Inl (Uncaught cls) \<Rightarrow> Inl (foreign cls)
           | Inr payload \<Rightarrow> Inr (Some payload)))"

text \<open>The repositories read the two keys of the dictionary; there nothing turns a \<open>CursorError\<close> into a validation error.\<close>

definition read_key :: "cursor_env \<Rightarrow> obj option \<Rightarrow> app_exn + (int \<times> uuid128) option" where
  "read_key E cursor =
     (case cursor of
        None \<Rightarrow> Inr None
      | Some payload \<Rightarrow> (case cursor_key E payload of None \<Rightarrow> Inl (foreign ''CursorError'') | Some k \<Rightarrow> Inr (Some k)))"

definition page_cursor :: "cursor_env \<Rightarrow> ustring option \<Rightarrow> app_exn + (int \<times> uuid128) option" where
  "page_cursor E cursor = (case decode_opt E cursor of Inl e \<Rightarrow> Inl e | Inr p \<Rightarrow> read_key E p)"

definition next_cursor :: "cursor_env \<Rightarrow> (int \<times> uuid128) option \<Rightarrow> ustring option" where
  "next_cursor E key =
     map_option (\<lambda>(t, i). encode_cursor E [(lit ''k'', Plain (JStr (ke_iso E t))), (lit ''id'', Plain (JStr (uuid_text i)))]) key"

definition list_for_user ::
  "cursor_env \<Rightarrow> uuid128 \<Rightarrow> int \<Rightarrow> ustring option \<Rightarrow> chat_store \<Rightarrow> app_exn + conv_view page" where
  "list_for_user E user limit cursor s =
     (case page_cursor E cursor of
        Inl e \<Rightarrow> Inl e
      | Inr key \<Rightarrow>
          (case page_for_user user limit key s of
             (rows, nxt) \<Rightarrow> Inr \<lparr>pg_items = List.map conv_view_of rows, pg_next = next_cursor E nxt\<rparr>))"

definition get_conversation :: "uuid128 \<Rightarrow> uuid128 \<Rightarrow> chat_store \<Rightarrow> app_exn + conv_view" where
  "get_conversation user c s = map_sum id (\<lambda>r. conv_view_of (c, r)) (require_own user c s)"

text \<open>The fields of a patch that the white list lets through; anything else a client sends is dropped.\<close>

record patch =
  pa_title :: "ustring option"
  pa_pinned :: "bool option"
  pa_status :: "ustring option"
  pa_other :: "string list"

definition apply_patch :: "patch \<Rightarrow> conv_row \<Rightarrow> conv_row" where
  "apply_patch p r =
     r\<lparr>cv_title := or_else (pa_title p) (cv_title r), cv_pinned := or_else (pa_pinned p) (cv_pinned r),
       cv_status := or_else (pa_status p) (cv_status r)\<rparr>"

definition update_conversation ::
  "uuid128 \<Rightarrow> uuid128 \<Rightarrow> patch \<Rightarrow> chat_store \<Rightarrow> (app_exn + conv_view) \<times> chat_store" where
  "update_conversation user c p s =
     (case require_own user c s of
        Inl e \<Rightarrow> (Inl e, s)
      | Inr _ \<Rightarrow>
          let s1 = (if pa_title p = None \<and> pa_pinned p = None \<and> pa_status p = None then s else update_conv c (apply_patch p) s)
          in (map_sum id (\<lambda>r. conv_view_of (c, r)) (require_own user c s1), s1))"

definition delete_conversation :: "int \<Rightarrow> uuid128 \<Rightarrow> uuid128 \<Rightarrow> chat_store \<Rightarrow> (app_exn + unit) \<times> chat_store" where
  "delete_conversation now user c s =
     (case require_own user c s of Inl e \<Rightarrow> (Inl e, s) | Inr _ \<Rightarrow> (Inr (), soft_delete_conv now c s))"

text \<open>The owner is checked first; the cursor's text is decoded after that, and its keys inside the query.\<close>

definition list_messages ::
  "cursor_env \<Rightarrow> uuid128 \<Rightarrow> uuid128 \<Rightarrow> int \<Rightarrow> ustring option \<Rightarrow> chat_store \<Rightarrow> app_exn + message_view page" where
  "list_messages E user c limit cursor s =
     (case require_own user c s of
        Inl e \<Rightarrow> Inl e
      | Inr _ \<Rightarrow>
          (case page_cursor E cursor of
             Inl e \<Rightarrow> Inl e
           | Inr key \<Rightarrow>
               (case page_for_conversation c limit key s of
                  (rows, nxt) \<Rightarrow> Inr \<lparr>pg_items = List.map message_view_of rows, pg_next = next_cursor E nxt\<rparr>)))"

subsection \<open>The first half of a turn\<close>

record turn_started =
  ts_message :: uuid128
  ts_conv :: uuid128
  ts_user_message :: uuid128
  ts_model :: ustring
  ts_question :: ustring
  ts_kbs :: "uuid128 list"
  ts_user :: uuid128
  ts_tokens :: "reservation option"
  ts_stream :: "reservation option"

text \<open>The transaction: an optional failure of the database rolls it back.\<close>

definition create_turn ::
  "app_exn option \<Rightarrow> ustring \<Rightarrow> int \<times> int \<Rightarrow> uuid128 \<times> uuid128 \<Rightarrow> uuid128 \<Rightarrow> uuid128 \<Rightarrow> ustring \<Rightarrow> chat_store
   \<Rightarrow> (app_exn + turn_started) \<times> chat_store" where
  "create_turn failure model moments ids user c question s =
     (case require_own user c s of
        Inl e \<Rightarrow> (Inl e, s)
      | Inr r \<Rightarrow>
          (case failure of
             Some e \<Rightarrow> (Inl e, s)
           | None \<Rightarrow>
               (Inr \<lparr>ts_message = snd ids, ts_conv = c, ts_user_message = fst ids, ts_model = model, ts_question = question,
                     ts_kbs = cv_kbs r, ts_user = user, ts_tokens = None, ts_stream = None\<rparr>,
                append_msg (snd ids) (snd moments) c (lit ''assistant'') [] ''streaming''
                  (append_msg (fst ids) (fst moments) c (lit ''user'') question ''completed'' s))))"

datatype turn_refusal = EmptyQuestion | OverQuota quota_exceeded | TurnFailed app_exn

definition start_turn ::
  "quota_env \<Rightarrow> 'r counter_ops \<Rightarrow> int \<Rightarrow> datetime \<times> datetime \<times> datetime \<Rightarrow> app_exn option \<Rightarrow> ustring \<Rightarrow> int \<times> int
   \<Rightarrow> uuid128 \<times> uuid128 \<Rightarrow> uuid128 \<Rightarrow> uuid128 \<Rightarrow> uuid128 \<Rightarrow> ustring \<Rightarrow> 'r quota_state \<times> chat_store
   \<Rightarrow> (turn_refusal + turn_started) \<times> 'r quota_state \<times> chat_store" where
  "start_turn env R estimate clock failure model moments ids tenant user c body st =
     (case st of (q, s) \<Rightarrow>
        let question = strip body
        in if question = [] then (Inl EmptyQuestion, q, s)
           else
             case reserve_turn env R estimate clock tenant question q of
               (Inl e, q1) \<Rightarrow> (Inl (OverQuota e), q1, s)
             | (Inr reserved, q1) \<Rightarrow>
                 (case create_turn failure model moments ids user c question s of
                    (Inl e, s1) \<Rightarrow> (Inl (TurnFailed e), release_all R (all_reserved reserved) q1, s1)
                  | (Inr t, s1) \<Rightarrow>
                      (Inr (t\<lparr>ts_tokens := tokens_reserved reserved, ts_stream := stream_reserved reserved\<rparr>), q1, s1)))"

definition require_readable :: "uuid128 \<Rightarrow> uuid128 \<Rightarrow> uuid128 \<Rightarrow> chat_store \<Rightarrow> app_exn + string" where
  "require_readable user c i s =
     (case require_own user c s of
        Inl e \<Rightarrow> Inl e
      | Inr _ \<Rightarrow>
          (case find (\<lambda>(j, m). j = i \<and> mg_conv m = c) (cs_msgs s) of
             None \<Rightarrow> Inl not_found
           | Some (j, m) \<Rightarrow> Inr (mg_status m)))"

definition read_message :: "uuid128 \<Rightarrow> chat_store \<Rightarrow> app_exn + message_view" where
  "read_message i s = (case map_of (cs_msgs s) i of None \<Rightarrow> Inl not_found | Some m \<Rightarrow> Inr (message_view_of (i, m)))"

text \<open>The write that closes a turn: the snapshot of theory ChatTurn on the row.\<close>

definition persist :: "uuid128 \<Rightarrow> snapshot \<Rightarrow> chat_store \<Rightarrow> chat_store" where
  "persist i sn s =
     set_msg_status i (s_status sn) (s_error sn)
       (\<lambda>m. m\<lparr>mg_content := s_content sn, mg_usage := s_turn_usage sn, mg_rag := s_rag sn, mg_model := s_model sn,
              mg_version := s_prompt_version sn, mg_citations := s_citations sn\<rparr>) s"

subsection \<open>Clean-up\<close>

definition purge_conversations :: "int \<Rightarrow> int \<Rightarrow> int \<Rightarrow> chat_store \<Rightarrow> (app_exn + nat \<times> nat) \<times> chat_store" where
  "purge_conversations now window limit s =
     (let cs = deleted_before (now - window) limit s;
          s1 = purge_memory cs s
      in case purge_messages cs s1 of
           (messages, s2) \<Rightarrow>
             (case hard_delete_convs cs s2 of
                Inl e \<Rightarrow> (Inl e, s)
              | Inr (convs, s3) \<Rightarrow> (Inr (convs, messages), s3)))"

definition rescue_streams :: "int \<Rightarrow> int \<Rightarrow> chat_store \<Rightarrow> nat \<times> chat_store" where
  "rescue_streams now stuck_after s =
     (let stuck = List.map fst (stuck_streaming (now - stuck_after) s)
      in (length stuck, fold (\<lambda>i. set_msg_status i ''interrupted'' (Some (''STREAM_INTERRUPTED'', Some ''worker_lost'')) id) stuck s))"

text \<open>The rounds over the active tenants: a tenant whose transaction fails is skipped.\<close>

fun purge_all_conversations ::
  "int \<Rightarrow> int \<Rightarrow> int \<Rightarrow> (uuid128 \<Rightarrow> bool) \<Rightarrow> uuid128 list \<Rightarrow> nat \<times> nat \<Rightarrow> (uuid128 \<Rightarrow> chat_store) \<Rightarrow> (nat \<times> nat) \<times> (uuid128 \<Rightarrow> chat_store)" where
  "purge_all_conversations now window limit fails [] counts st = (counts, st)"
| "purge_all_conversations now window limit fails (t # ts) counts st =
     (if fails t then purge_all_conversations now window limit fails ts counts st
      else
        case purge_conversations now window limit (st t) of
          (Inl e, s) \<Rightarrow> purge_all_conversations now window limit fails ts counts st
        | (Inr (c, m), s) \<Rightarrow>
            purge_all_conversations now window limit fails ts (fst counts + c, snd counts + m) (st(t := s)))"

fun rescue_all_streams ::
  "int \<Rightarrow> int \<Rightarrow> (uuid128 \<Rightarrow> bool) \<Rightarrow> uuid128 list \<Rightarrow> nat \<Rightarrow> (uuid128 \<Rightarrow> chat_store) \<Rightarrow> nat \<times> (uuid128 \<Rightarrow> chat_store)" where
  "rescue_all_streams now stuck_after fails [] n st = (n, st)"
| "rescue_all_streams now stuck_after fails (t # ts) n st =
     (if fails t then rescue_all_streams now stuck_after fails ts n st
      else
        case rescue_streams now stuck_after (st t) of
          (k, s) \<Rightarrow> rescue_all_streams now stuck_after fails ts (n + k) (st(t := s)))"

subsection \<open>Pages\<close>

lemma strict_sort_key: "distinct (List.map f xs) \<Longrightarrow> sorted_wrt (<) (List.map f (sort_key f xs))"
  by (simp add: strict_sorted_iff distinct_map)

definition ids_ok :: "chat_store \<Rightarrow> bool" where
  "ids_ok s \<longleftrightarrow> distinct (List.map fst (cs_convs s)) \<and> distinct (List.map fst (cs_msgs s))
     \<and> (\<forall>x \<in> set (cs_convs s). fst x < 2 ^ 128) \<and> (\<forall>x \<in> set (cs_msgs s). fst x < 2 ^ 128)"

lemma conv_rows_strict:
  assumes "ids_ok s"
  shows "sorted_wrt (<) (List.map conv_key (conv_rows user s))"
  unfolding conv_rows_def
proof (rule strict_sort_key)
  have "distinct (List.map fst (filter (\<lambda>(c, r). cv_deleted r = None \<and> cv_user r = user) (cs_convs s)))"
    using assms by (auto simp: ids_ok_def intro: distinct_map_filter)
  then show "distinct (List.map conv_key (filter (\<lambda>(c, r). cv_deleted r = None \<and> cv_user r = user) (cs_convs s)))"
    by (auto simp: distinct_map inj_on_def conv_key_def)
qed

lemma msg_rows_strict:
  assumes "ids_ok s"
  shows "sorted_wrt (<) (List.map msg_key (msg_rows c s))"
  unfolding msg_rows_def
proof (rule strict_sort_key)
  have "distinct (List.map fst (messages_of c s))"
    using assms by (auto simp: ids_ok_def messages_of_def intro: distinct_map_filter)
  then show "distinct (List.map msg_key (messages_of c s))"
    by (auto simp: distinct_map inj_on_def msg_key_def)
qed

interpretation conv_pages: keyset_paging "\<lambda>(user, s). ids_ok s" "\<lambda>(user, s). conv_rows user s" conv_key
  "\<lambda>(c, r). (recency r, c)" "\<lambda>(user, s) limit cursor. Inr (page_for_user user limit cursor s)"
proof unfold_locales
  show "(case (r :: uuid128 \<times> chat_store) of (user, s) \<Rightarrow> ids_ok s) \<Longrightarrow>
      sorted_wrt (<) (List.map conv_key (case r of (user, s) \<Rightarrow> conv_rows user s))" for r
    using conv_rows_strict by (cases r) simp
qed (auto simp: page_for_user_def conv_key_def split_beta intro!: arg_cong [of _ _ "\<lambda>p. split_page _ _ (slice_to _ (filter p _))"])

interpretation msg_pages: keyset_paging "\<lambda>(c, s). ids_ok s" "\<lambda>(c, s). msg_rows c s" msg_key
  "\<lambda>(i, m). (mg_created m, i)" "\<lambda>(c, s) limit cursor. Inr (page_for_conversation c limit cursor s)"
proof unfold_locales
  show "(case (r :: uuid128 \<times> chat_store) of (c, s) \<Rightarrow> ids_ok s) \<Longrightarrow>
      sorted_wrt (<) (List.map msg_key (case r of (c, s) \<Rightarrow> msg_rows c s))" for r
    using msg_rows_strict by (cases r) simp
qed (auto simp: page_for_conversation_def msg_key_def split_beta intro!: arg_cong [of _ _ "\<lambda>p. split_page _ _ (slice_to _ (filter p _))"])

text \<open>What the tok of a cursor is built with: the JSON module reads back the two keys, and the formats of a time and of an
  identifier can be read back.\<close>

definition key_payload :: "cursor_env \<Rightarrow> int \<times> uuid128 \<Rightarrow> (ustring \<times> cursor_value) list" where
  "key_payload E k = [(lit ''k'', Plain (JStr (ke_iso E (fst k)))), (lit ''id'', Plain (JStr (uuid_text (snd k))))]"

definition cursors_lawful :: "cursor_env \<Rightarrow> bool" where
  "cursors_lawful E \<longleftrightarrow>
     (\<forall>t u. u < 2 ^ 128 \<longrightarrow>
        ke_loads E (encode_utf8 (ke_dumps E (cursor_payload E (key_payload E (t, u))))) = Inr (JObj (cursor_payload E (key_payload E (t, u))))
        \<and> ke_of_uuid E (uuid_text u) = Some u)
     \<and> (\<forall>t. ke_of_iso E (ke_iso E t) = Some t) \<and> (\<forall>x. ke_str E (JStr x) = x)"

lemma cursor_comes_back:
  assumes "cursors_lawful E" "snd k < 2 ^ 128" "next_cursor E (Some k) = Some tok"
  shows "page_cursor E (Some tok) = Inr (Some k)"
proof -
  have tok: "tok = encode_cursor E (key_payload E k)"
    using assms(3) by (cases k) (simp add: next_cursor_def key_payload_def)
  have "ke_loads E (encode_utf8 (ke_dumps E (cursor_payload E (key_payload E k)))) = Inr (JObj (cursor_payload E (key_payload E k)))"
    using assms(1,2) unfolding cursors_lawful_def by (metis prod.collapse)
  then have "decode_cursor E tok = Inr (cursor_payload E (key_payload E k))"
    unfolding tok by (blast dest: cursor_decodes)
  moreover have "cursor_key E (cursor_payload E (key_payload E k)) = Some k"
    using assms(1,2) by (simp add: cursor_key_def cursor_payload_def key_payload_def cursors_lawful_def lit_def)
  ultimately show ?thesis by (simp add: page_cursor_def decode_opt_def read_key_def)
qed

text \<open>The service wraps a page query: its items are views of the rows and its cursor is the tok of the key.\<close>

definition page_of :: "'e + 'a page \<Rightarrow> 'e + 'a list \<times> ustring option" where
  "page_of r = map_sum id (\<lambda>p. (pg_items p, pg_next p)) r"

lemma read_all_service:
  assumes "\<And>k. fetch (Some k) = Inr (pq k)"
    and "\<And>tok k. page_cursor E (Some tok) = Inr (Some k) \<Longrightarrow> page_of (service (Some tok)) = Inr (List.map view (fst (pq k)), next_cursor E (snd (pq k)))"
    and "\<And>k k'. snd (pq k) = Some k' \<Longrightarrow> snd k' < 2 ^ 128" "cursors_lawful E"
    and "page_cursor E (Some tok) = Inr (Some k)"
  shows "read_all n (\<lambda>c. page_of (service c)) (Some tok) = map_option (List.map view) (read_all n fetch (Some k))"
  using assms(5)
proof (induction n arbitrary: tok k)
  case (Suc n)
  obtain items nxt where p: "pq k = (items, nxt)" by fastforce
  show ?case
  proof (cases nxt)
    case None
    with p assms(2) [OF Suc.prems] assms(1) show ?thesis by (simp add: next_cursor_def)
  next
    case (Some k')
    then obtain tok' where t: "next_cursor E (Some k') = Some tok'" by (cases k') (simp add: next_cursor_def)
    have "page_cursor E (Some tok') = Inr (Some k')"
      using cursor_comes_back [OF assms(4) _ t] assms(3) [of k k'] p Some by simp
    from Suc.IH [OF this] show ?thesis
      using p assms(2) [OF Suc.prems] assms(1) Some t by (simp add: option.map_comp comp_def)
  qed
qed simp

lemma read_all_first:
  assumes "\<And>k. fetch k = Inr (pq k)" "\<And>k k'. snd (pq k) = Some k' \<Longrightarrow> snd k' < 2 ^ 128" "cursors_lawful E"
    and "\<And>cursor k. page_cursor E cursor = Inr k \<Longrightarrow> page_of (service cursor) = Inr (List.map view (fst (pq k)), next_cursor E (snd (pq k)))"
  shows "read_all n (\<lambda>c. page_of (service c)) None = map_option (List.map view) (read_all n fetch None)"
proof (cases n)
  case (Suc m)
  obtain items nxt where p: "pq None = (items, nxt)" by fastforce
  have first: "page_of (service None) = Inr (List.map view items, next_cursor E nxt)"
    using assms(4) [of None None] p by (simp add: page_cursor_def decode_opt_def read_key_def)
  show ?thesis
  proof (cases nxt)
    case None
    with Suc first p assms(1) show ?thesis by (simp add: next_cursor_def)
  next
    case (Some k')
    then obtain tok' where t: "next_cursor E (Some k') = Some tok'" by (cases k') (simp add: next_cursor_def)
    have ret: "page_cursor E (Some tok') = Inr (Some k')"
      using cursor_comes_back [OF assms(3) _ t] assms(2) [of None k'] p Some by simp
    have "read_all m (\<lambda>c. page_of (service c)) (Some tok') = map_option (List.map view) (read_all m fetch (Some k'))"
      by (rule read_all_service [where pq = "\<lambda>k. pq (Some k)", OF _ _ _ assms(3) ret]) (use assms(1,2,4) in auto)
    then show ?thesis using Suc first p assms(1) Some t by (simp add: option.map_comp comp_def)
  qed
qed simp

lemma split_page_cursor: "snd (split_page limit f xs) = Some k \<Longrightarrow> 1 \<le> limit \<Longrightarrow> \<exists>x \<in> set xs. k = f x"
proof -
  assume k: "snd (split_page limit f xs) = Some k" and l: "1 \<le> limit"
  then have "slice_to limit xs \<noteq> []" "k = f (last (slice_to limit xs))"
    by (auto simp: split_page_def Let_def slice_to_def split: if_splits)
  then have "last (slice_to limit xs) \<in> set xs" using slice_to_prefix [of limit xs] set_mono_prefix last_in_set by blast
  then show ?thesis using \<open>k = f _\<close> by blast
qed

lemma conversation_pages:
  assumes "cursors_lawful E" "ids_ok s" "1 \<le> limit" "length (conv_rows user s) < n"
  shows "read_all n (\<lambda>cursor. page_of (list_for_user E user limit cursor s)) None = Some (List.map conv_view_of (conv_rows user s))"
proof -
  have bound: "\<forall>x \<in> set (conv_rows user s). fst x < 2 ^ 128"
    using assms(2) by (auto simp: conv_rows_def ids_ok_def)
  have small: "snd k' < 2 ^ 128" if "snd (page_for_user user limit k s) = Some k'" for k k'
    using that bound unfolding page_for_user_def Let_def
    by (fastforce dest!: split_page_cursor [OF _ assms(3)] set_mp [OF slice_to_subset] split: option.splits)
  have "read_all n (\<lambda>cursor. page_of (list_for_user E user limit cursor s)) None =
      map_option (List.map conv_view_of) (read_all n (\<lambda>cursor. Inr (page_for_user user limit cursor s) :: unit + _) None)"
    by (rule read_all_first [OF _ small assms(1)])
      (auto simp: list_for_user_def page_of_def split_beta)
  moreover have "read_all n (\<lambda>cursor. Inr (page_for_user user limit cursor s) :: unit + _) None = Some (conv_rows user s)"
    by (rule conv_pages.reads_everything [of "(user, s)" limit n, simplified]) (use assms in auto)
  ultimately show ?thesis by simp
qed

lemma message_pages:
  assumes "cursors_lawful E" "ids_ok s" "1 \<le> limit" "length (msg_rows c s) < n" "require_own user c s = Inr r"
  shows "read_all n (\<lambda>cursor. page_of (list_messages E user c limit cursor s)) None = Some (List.map message_view_of (msg_rows c s))"
proof -
  have bound: "\<forall>x \<in> set (msg_rows c s). fst x < 2 ^ 128"
    using assms(2) by (auto simp: msg_rows_def messages_of_def ids_ok_def)
  have small: "snd k' < 2 ^ 128" if "snd (page_for_conversation c limit k s) = Some k'" for k k'
    using that bound unfolding page_for_conversation_def Let_def
    by (fastforce dest!: split_page_cursor [OF _ assms(3)] set_mp [OF slice_to_subset] split: option.splits)
  have "read_all n (\<lambda>cursor. page_of (list_messages E user c limit cursor s)) None =
      map_option (List.map message_view_of) (read_all n (\<lambda>cursor. Inr (page_for_conversation c limit cursor s) :: unit + _) None)"
    by (rule read_all_first [OF _ small assms(1)])
      (auto simp: list_messages_def page_of_def split_beta assms(5))
  moreover have "read_all n (\<lambda>cursor. Inr (page_for_conversation c limit cursor s) :: unit + _) None = Some (msg_rows c s)"
    by (rule msg_pages.reads_everything [of "(c, s)" limit n, simplified]) (use assms in auto)
  ultimately show ?thesis by simp
qed

text \<open>C30. A client that follows the cursors from page to page, with any page size, sees every conversation of its user
  exactly once, newest first, and every message of a conversation of its user exactly once, oldest first, as long as
  nothing is written in between: no row at the border of two pages is lost or repeated, also when times are equal.\<close>

theorem pages_are_complete:
  assumes "cursors_lawful E" "ids_ok s" "1 \<le> limit" "length (cs_convs s) < n" "length (cs_msgs s) < n"
  shows "read_all n (\<lambda>cursor. page_of (list_for_user E user limit cursor s)) None = Some (List.map conv_view_of (conv_rows user s))
     \<and> (\<forall>c r. require_own user c s = Inr r \<longrightarrow>
          read_all n (\<lambda>cursor. page_of (list_messages E user c limit cursor s)) None = Some (List.map message_view_of (msg_rows c s)))"
proof -
  have "length (conv_rows user s) < n" "length (msg_rows c s) < n" for c
    using assms(4,5) by (auto simp: conv_rows_def msg_rows_def messages_of_def intro: le_less_trans [OF length_filter_le])
  then show ?thesis using conversation_pages [OF assms(1-3)] message_pages [OF assms(1-3)] by blast
qed

subsection \<open>Who sees and changes what\<close>

text \<open>What belongs to a user: the conversations and their messages. A request of a user is one of the service's operations.\<close>

definition own_ids :: "uuid128 \<Rightarrow> chat_store \<Rightarrow> uuid128 set" where
  "own_ids user s = {c. \<exists>r. (c, r) \<in> set (cs_convs s) \<and> cv_user r = user}"

definition own_part :: "uuid128 \<Rightarrow> chat_store \<Rightarrow> chat_store" where
  "own_part user s =
     \<lparr>cs_convs = filter (\<lambda>x. cv_user (snd x) = user) (cs_convs s),
      cs_msgs = filter (\<lambda>x. mg_conv (snd x) \<in> own_ids user s) (cs_msgs s), cs_memory = []\<rparr>"

datatype request =
    CreateConv uuid128 ustring "uuid128 list option" ustring
  | ListConvs int "ustring option"
  | GetConv uuid128
  | UpdateConv uuid128 patch
  | DeleteConv uuid128
  | ListMessages uuid128 int "ustring option"
  | StartTurn uuid128 ustring "uuid128 \<times> uuid128"
  | ReadStream uuid128 uuid128

datatype response =
    AConversation "app_exn + conv_view"
  | APage "app_exn + conv_view page"
  | AMessagePage "app_exn + message_view page"
  | ATurn "app_exn + turn_started"
  | AState "app_exn + string"
  | ADeletion "app_exn + unit"

definition serve :: "cursor_env \<Rightarrow> kstore \<Rightarrow> ustring \<Rightarrow> int \<Rightarrow> uuid128 \<Rightarrow> request \<Rightarrow> chat_store \<Rightarrow> response \<times> chat_store" where
  "serve E k model now user req s =
     (case req of
        CreateConv c title kbs prompt \<Rightarrow> map_prod AConversation id (create_conversation k c now user title kbs prompt s)
      | ListConvs limit cursor \<Rightarrow> (APage (list_for_user E user limit cursor s), s)
      | GetConv c \<Rightarrow> (AConversation (get_conversation user c s), s)
      | UpdateConv c p \<Rightarrow> map_prod AConversation id (update_conversation user c p s)
      | DeleteConv c \<Rightarrow> map_prod ADeletion id (delete_conversation now user c s)
      | ListMessages c limit cursor \<Rightarrow> (AMessagePage (list_messages E user c limit cursor s), s)
      | StartTurn c question ids \<Rightarrow> map_prod ATurn id (create_turn None model (now, now + 1) ids user c question s)
      | ReadStream c i \<Rightarrow> (AState (require_readable user c i s), s))"

text \<open>New identifiers are new.\<close>

definition fresh_ids :: "request \<Rightarrow> chat_store \<Rightarrow> bool" where
  "fresh_ids req s =
     (case req of
        CreateConv c title kbs prompt \<Rightarrow> c \<notin> fst ` set (cs_convs s) \<and> (\<forall>x \<in> set (cs_msgs s). mg_conv (snd x) \<noteq> c)
      | _ \<Rightarrow> True)"

definition unique_convs :: "chat_store \<Rightarrow> bool" where
  "unique_convs s \<longleftrightarrow> distinct (List.map fst (cs_convs s))"

lemma unique_row: "unique_convs s \<Longrightarrow> (c, r) \<in> set (cs_convs s) \<Longrightarrow> (c, r') \<in> set (cs_convs s) \<Longrightarrow> r = r'"
  by (metis unique_convs_def map_of_eq_Some_iff option.inject)

lemma require_own_iff:
  "unique_convs s \<Longrightarrow> require_own user c s = Inr r \<longleftrightarrow> (c, r) \<in> set (cs_convs s) \<and> cv_user r = user \<and> cv_deleted r = None"
proof -
  assume "unique_convs s"
  then have m: "(c, r) \<in> set (cs_convs s) \<longleftrightarrow> map_of (cs_convs s) c = Some r" for c r by (simp add: unique_convs_def)
  show ?thesis unfolding m by (cases "map_of (cs_convs s) c") (auto simp: require_own_def find_conv_def)
qed

lemma require_own_error: "require_own user c s = Inl e \<Longrightarrow> e = not_found"
  by (auto simp: require_own_def split: option.splits if_splits)

lemma unique_own_part: "unique_convs s \<Longrightarrow> unique_convs (own_part user s)"
  by (auto simp: unique_convs_def own_part_def intro: distinct_map_filter)

lemma require_own_own_part:
  assumes "unique_convs s"
  shows "require_own user c (own_part user s) = require_own user c s"
proof (cases "require_own user c s")
  case (Inr r)
  with require_own_iff [OF assms] have "(c, r) \<in> set (cs_convs (own_part user s)) \<and> cv_user r = user \<and> cv_deleted r = None"
    by (simp add: own_part_def)
  with Inr require_own_iff [OF unique_own_part [OF assms]] show ?thesis by metis
next
  case (Inl e)
  have "\<nexists>r. require_own user c (own_part user s) = Inr r"
    using Inl require_own_iff [OF unique_own_part [OF assms]] require_own_iff [OF assms, of user c]
    by (auto simp: own_part_def)
  then show ?thesis using Inl require_own_error by (metis sum.exhaust)
qed

lemma conv_rows_own_part: "conv_rows user (own_part user s) = conv_rows user s"
proof -
  have "filter (\<lambda>(c, r). cv_deleted r = None \<and> cv_user r = user) (filter (\<lambda>x. cv_user (snd x) = user) xs)
      = filter (\<lambda>(c, r). cv_deleted r = None \<and> cv_user r = user) xs" for xs :: "(uuid128 \<times> conv_row) list"
    unfolding filter_filter by (rule filter_cong) auto
  then show ?thesis by (simp only: conv_rows_def own_part_def chat_store.select_convs)
qed

lemma own_id: "unique_convs s \<Longrightarrow> require_own user c s = Inr r \<Longrightarrow> c \<in> own_ids user s"
  by (auto simp: require_own_iff own_ids_def)

lemma messages_own_part: "c \<in> own_ids user s \<Longrightarrow> messages_of c (own_part user s) = messages_of c s"
  by (auto simp: messages_of_def own_part_def intro!: filter_cong)

lemma own_ids_own_part: "own_ids user (own_part user s) = own_ids user s"
  by (auto simp: own_ids_def own_part_def)

lemma filter_map_rows:
  "(\<And>x. x \<in> set xs \<Longrightarrow> P (g x) = P x) \<Longrightarrow> filter P (List.map g xs) = List.map g (filter P xs)"
  by (induction xs) auto

text \<open>An update of one row that does not change its owner: within the part of the owner, and not outside it.\<close>

lemma own_ids_update: "(\<And>r. cv_user (f r) = cv_user r) \<Longrightarrow> own_ids user (update_conv c f s) = own_ids user s"
  by (force simp: own_ids_def update_conv_def split: if_splits)

lemma update_own_part:
  assumes "\<And>r. cv_user (f r) = cv_user r"
  shows "own_part user (update_conv c f s) = update_conv c f (own_part user s)"
proof -
  have "filter (\<lambda>x. cv_user (snd x) = user) (List.map (\<lambda>(i, r). (i, if i = c \<and> cv_deleted r = None then f r else r)) (cs_convs s))
      = List.map (\<lambda>(i, r). (i, if i = c \<and> cv_deleted r = None then f r else r)) (filter (\<lambda>x. cv_user (snd x) = user) (cs_convs s))"
    by (rule filter_map_rows) (auto simp: assms)
  then show ?thesis using own_ids_update [of f user c s] assms by (simp add: own_part_def update_conv_def)
qed

lemma update_other:
  assumes "unique_convs s" "(c, r) \<in> set (cs_convs s)" "cv_user r \<noteq> v" "\<And>r. cv_user (f r) = cv_user r"
  shows "own_part v (update_conv c f s) = own_part v s"
proof -
  have "List.map (\<lambda>(i, r). (i, if i = c \<and> cv_deleted r = None then f r else r)) (filter (\<lambda>x. cv_user (snd x) = v) (cs_convs s))
      = filter (\<lambda>x. cv_user (snd x) = v) (cs_convs s)"
    using unique_row [OF assms(1,2)] assms(3) by (intro map_idI) auto
  then show ?thesis unfolding update_own_part [OF assms(4)] by (simp add: own_part_def update_conv_def)
qed

lemma append_own_ids: "own_ids user (append_msg i now c role body st s) = own_ids user s"
  by (force simp: own_ids_def append_msg_def Let_def split: if_splits)

lemma append_own_part:
  assumes "c \<in> own_ids user s"
  shows "own_part user (append_msg i now c role body st s) = append_msg i now c role body st (own_part user s)"
proof -
  have "filter (\<lambda>x. cv_user (snd x) = user) (List.map (\<lambda>(j, r). (j, if j = c then r\<lparr>cv_count := cv_count r + 1, cv_last := Some now\<rparr> else r)) (cs_convs s))
      = List.map (\<lambda>(j, r). (j, if j = c then r\<lparr>cv_count := cv_count r + 1, cv_last := Some now\<rparr> else r)) (filter (\<lambda>x. cv_user (snd x) = user) (cs_convs s))"
    by (rule filter_map_rows) auto
  then show ?thesis using append_own_ids [of user i now c role body st s] assms by (simp add: own_part_def append_msg_def Let_def)
qed

lemma append_other:
  assumes "unique_convs s" "c \<in> own_ids user s" "user \<noteq> v"
  shows "own_part v (append_msg i now c role body st s) = own_part v s"
proof -
  obtain r where r: "(c, r) \<in> set (cs_convs s)" "cv_user r = user" using assms(2) by (auto simp: own_ids_def)
  let ?g = "\<lambda>(j, r). (j, if j = c then r\<lparr>cv_count := cv_count r + 1, cv_last := Some now\<rparr> else r)"
  have "filter (\<lambda>x. cv_user (snd x) = v) (List.map ?g (cs_convs s)) = List.map ?g (filter (\<lambda>x. cv_user (snd x) = v) (cs_convs s))"
    by (rule filter_map_rows) auto
  also have "\<dots> = filter (\<lambda>x. cv_user (snd x) = v) (cs_convs s)"
    using unique_row [OF assms(1) r(1)] r(2) assms(3) by (intro map_idI) auto
  finally have "filter (\<lambda>x. cv_user (snd x) = v) (List.map ?g (cs_convs s)) = filter (\<lambda>x. cv_user (snd x) = v) (cs_convs s)" .
  moreover have "c \<notin> own_ids v s" using unique_row [OF assms(1) r(1)] r(2) assms(3) by (auto simp: own_ids_def)
  ultimately show ?thesis using append_own_ids [of v i now c role body st s] by (simp add: own_part_def append_msg_def Let_def)
qed

lemma unique_append: "unique_convs (append_msg i now c role body st s) = unique_convs s"
proof -
  have "List.map fst (List.map (\<lambda>(j, r). (j, f j r)) xs) = List.map fst xs" for f and xs :: "(uuid128 \<times> conv_row) list"
    by (induction xs) auto
  then show ?thesis by (simp add: unique_convs_def append_msg_def Let_def comp_def split_beta)
qed

lemma unique_update: "unique_convs (update_conv c f s) = unique_convs s"
proof -
  have "List.map fst (cs_convs (update_conv c f s)) = List.map fst (cs_convs s)"
    by (simp add: update_conv_def comp_def split_beta)
  then show ?thesis by (simp add: unique_convs_def)
qed

lemma apply_patch_user: "cv_user (apply_patch p r) = cv_user r"
  by (simp add: apply_patch_def)

lemma create_own_part:
  assumes "c \<notin> fst ` set (cs_convs s)" "\<forall>x \<in> set (cs_msgs s). mg_conv (snd x) \<noteq> c"
  shows "own_part v (snd (create_conv c now user title kbs prompt s)) =
    (if v = user then snd (create_conv c now user title kbs prompt (own_part v s)) else own_part v s)"
proof -
  have "own_ids v (snd (create_conv c now user title kbs prompt s)) = (if v = user then insert c (own_ids v s) else own_ids v s)"
  proof -
    obtain r where "cs_convs (snd (create_conv c now user title kbs prompt s)) = cs_convs s @ [(c, r)]" "cv_user r = user"
      by (simp add: create_conv_def Let_def)
    then show ?thesis unfolding own_ids_def by auto
  qed
  moreover have "filter (\<lambda>x. mg_conv (snd x) \<in> insert c (own_ids v s)) (cs_msgs s) = filter (\<lambda>x. mg_conv (snd x) \<in> own_ids v s) (cs_msgs s)"
    using assms(2) by (intro filter_cong) auto
  ultimately show ?thesis by (cases "v = user") (simp_all add: own_part_def create_conv_def Let_def)
qed

lemma page_for_user_own_part: "page_for_user user limit key (own_part user s) = page_for_user user limit key s"
  unfolding page_for_user_def conv_rows_own_part ..

lemma list_for_user_own_part: "list_for_user E user limit cursor (own_part user s) = list_for_user E user limit cursor s"
  by (simp add: list_for_user_def page_for_user_own_part split: sum.split)

lemma page_for_conversation_own_part:
  "c \<in> own_ids user s \<Longrightarrow> page_for_conversation c limit key (own_part user s) = page_for_conversation c limit key s"
  unfolding page_for_conversation_def msg_rows_def by (simp only: messages_own_part)

lemma list_messages_own_part:
  "unique_convs s \<Longrightarrow> list_messages E user c limit cursor (own_part user s) = list_messages E user c limit cursor s"
  using own_id [of s user c]
  by (auto simp: list_messages_def require_own_own_part page_for_conversation_own_part split: sum.split)

lemma readable_own_part:
  assumes "unique_convs s"
  shows "require_readable user c i (own_part user s) = require_readable user c i s"
proof (cases "require_own user c s")
  case (Inr r)
  have f: "find P (filter Q xs) = find P xs" if "\<And>x. P x \<Longrightarrow> Q x" for P Q and xs :: "(uuid128 \<times> msg_row) list"
    using that by (induction xs) auto
  have "find (\<lambda>(j, m). j = i \<and> mg_conv m = c) (cs_msgs (own_part user s)) = find (\<lambda>(j, m). j = i \<and> mg_conv m = c) (cs_msgs s)"
    using own_id [OF assms Inr] by (simp add: own_part_def) (rule f, auto)
  with Inr show ?thesis by (simp add: require_readable_def require_own_own_part [OF assms])
qed (simp add: require_readable_def require_own_own_part [OF assms])

lemma update_conversation_own_part:
  assumes "unique_convs s"
  shows "update_conversation user c p (own_part user s) = map_prod id (own_part user) (update_conversation user c p s)"
  using require_own_own_part [OF assms] require_own_own_part [of "update_conv c (apply_patch p) s" user c]
  by (auto simp: update_conversation_def unique_update assms update_own_part apply_patch_user Let_def split: sum.split)

lemma delete_conversation_own_part:
  "unique_convs s \<Longrightarrow> delete_conversation now user c (own_part user s) = map_prod id (own_part user) (delete_conversation now user c s)"
  by (auto simp: delete_conversation_def require_own_own_part soft_delete_conv_def update_own_part split: sum.split)

lemma create_turn_own_part:
  "unique_convs s \<Longrightarrow> create_turn failure model moments ids user c question (own_part user s) =
     map_prod id (own_part user) (create_turn failure model moments ids user c question s)"
  by (auto simp: create_turn_def require_own_own_part append_own_part append_own_ids own_id split: sum.split option.split)

lemma create_turn_other:
  assumes "unique_convs s" "v \<noteq> user"
  shows "own_part v (snd (create_turn failure model moments ids user c question s)) = own_part v s"
proof (cases "require_own user c s")
  case (Inr r)
  have c: "c \<in> own_ids user s" by (rule own_id [OF assms(1) Inr])
  have "own_part v (append_msg j n c role' body' st' (append_msg i m c role body st s)) = own_part v s"
    for i j m n role role' body body' st st'
    using append_other [OF assms(1) c not_sym [OF assms(2)]] append_other [of "append_msg i m c role body st s" c user v] assms c
    by (simp add: unique_append append_own_ids)
  with Inr show ?thesis by (simp add: create_turn_def split: option.split)
qed (simp add: create_turn_def)

text \<open>C16. A request of a user is answered from what belongs to that user alone, and changes nothing that belongs to another:
  whatever other users have stored, the answer and the user's part of the result are the same, and the existence of
  another user's conversation cannot be told from its absence.\<close>

theorem users_are_isolated:
  assumes "unique_convs s" "fresh_ids req s"
  shows "serve E k model now user req (own_part user s) = map_prod id (own_part user) (serve E k model now user req s)
    \<and> (\<forall>v. v \<noteq> user \<longrightarrow> own_part v (snd (serve E k model now user req s)) = own_part v s)"
proof (intro conjI allI impI)
  show "serve E k model now user req (own_part user s) = map_prod id (own_part user) (serve E k model now user req s)"
  proof (cases req)
    case (CreateConv c title kbs prompt)
    then show ?thesis using assms(2) create_own_part [of c s user now user title "or_else kbs []" prompt]
      by (auto simp: serve_def create_conversation_def fresh_ids_def create_conv_def Let_def)
  next
    case (StartTurn c question ids)
    then show ?thesis using create_turn_own_part [OF assms(1)] by (simp add: serve_def map_prod_def split_beta)
  qed (auto simp: serve_def list_for_user_own_part get_conversation_def assms(1) require_own_own_part
      update_conversation_own_part delete_conversation_own_part list_messages_own_part readable_own_part map_prod_def split_beta)
next
  fix v assume v: "v \<noteq> user"
  show "own_part v (snd (serve E k model now user req s)) = own_part v s"
  proof (cases req)
    case (CreateConv c title kbs prompt)
    then show ?thesis using assms(2) v create_own_part [of c s v now user title "or_else kbs []" prompt]
      by (auto simp: serve_def create_conversation_def fresh_ids_def split_beta)
  next
    case (UpdateConv c p)
    then show ?thesis using v require_own_iff [OF assms(1)] update_other [OF assms(1)]
      by (auto simp: serve_def update_conversation_def Let_def apply_patch_user split: sum.split)
  next
    case (DeleteConv c)
    then show ?thesis using v require_own_iff [OF assms(1)] update_other [OF assms(1)]
      by (auto simp: serve_def delete_conversation_def soft_delete_conv_def split: sum.split)
  next
    case (StartTurn c question ids)
    then show ?thesis using v create_turn_other [OF assms(1) v] by (simp add: serve_def)
  qed (simp_all add: serve_def)
qed


subsection \<open>The counters of a conversation\<close>

text \<open>Messages belong to a conversation that exists, and the two derived fields of a conversation tell the truth.\<close>

definition no_orphans :: "chat_store \<Rightarrow> bool" where
  "no_orphans s \<longleftrightarrow> (\<forall>x \<in> set (cs_msgs s). mg_conv (snd x) \<in> fst ` set (cs_convs s))"

definition counted_right :: "chat_store \<Rightarrow> uuid128 \<times> conv_row \<Rightarrow> bool" where
  "counted_right s x \<longleftrightarrow>
     cv_count (snd x) = int (length (messages_of (fst x) s))
     \<and> (case cv_last (snd x) of
          None \<Rightarrow> messages_of (fst x) s = []
        | Some t \<Rightarrow> \<exists>m \<in> set (messages_of (fst x) s). mg_created (snd m) = t)"

definition chat_ok :: "chat_store \<Rightarrow> bool" where
  "chat_ok s \<longleftrightarrow> unique_convs s \<and> no_orphans s \<and> (\<forall>x \<in> set (cs_convs s). counted_right s x)"

lemma counted_right_eq:
  "messages_of (fst x) s' = messages_of (fst x) s \<Longrightarrow> fst x = fst y \<Longrightarrow> cv_count (snd x) = cv_count (snd y)
     \<Longrightarrow> cv_last (snd x) = cv_last (snd y) \<Longrightarrow> counted_right s' x = counted_right s y"
  by (simp only: counted_right_def)

lemma update_conv_rows:
  "x \<in> set (cs_convs (update_conv c f s)) \<Longrightarrow>
     \<exists>r. (fst x, r) \<in> set (cs_convs s) \<and> snd x = (if fst x = c \<and> cv_deleted r = None then f r else r)"
  by (auto simp: update_conv_def)

lemma append_conv_rows:
  "x \<in> set (cs_convs (append_msg i now c role body st s)) \<Longrightarrow>
     \<exists>r. (fst x, r) \<in> set (cs_convs s) \<and> snd x = (if fst x = c then r\<lparr>cv_count := cv_count r + 1, cv_last := Some now\<rparr> else r)"
  by (auto simp: append_msg_def Let_def)

lemma chat_ok_update:
  assumes "chat_ok s" "\<And>r. cv_count (f r) = cv_count r \<and> cv_last (f r) = cv_last r"
  shows "chat_ok (update_conv c f s)"
proof -
  have msgs: "messages_of d (update_conv c f s) = messages_of d s" for d by (simp add: messages_of_def update_conv_def)
  have "counted_right (update_conv c f s) x" if x: "x \<in> set (cs_convs (update_conv c f s))" for x
  proof -
    obtain r where r: "(fst x, r) \<in> set (cs_convs s)" "snd x = (if fst x = c \<and> cv_deleted r = None then f r else r)"
      using update_conv_rows [OF x] by blast
    have "counted_right s (fst x, r)" using assms(1) r by (auto simp: chat_ok_def)
    moreover have "counted_right (update_conv c f s) x = counted_right s (fst x, r)"
      by (rule counted_right_eq) (use r(2) assms(2) [of r] in \<open>simp_all add: msgs\<close>)
    ultimately show ?thesis by simp
  qed
  moreover have "fst ` set (cs_convs (update_conv c f s)) = fst ` set (cs_convs s)"
    by (force simp: update_conv_def image_iff)
  ultimately show ?thesis using assms(1) by (simp add: chat_ok_def unique_update no_orphans_def) (simp add: update_conv_def)
qed

lemma chat_ok_append:
  assumes "chat_ok s" "c \<in> fst ` set (cs_convs s)"
  shows "chat_ok (append_msg i now c role body st s)"
proof -
  let ?s = "append_msg i now c role body st s"
  have ids: "fst ` set (cs_convs ?s) = fst ` set (cs_convs s)" by (force simp: append_msg_def Let_def image_iff)
  have msgs: "messages_of d ?s = messages_of d s @ (if d = c then [last (cs_msgs ?s)] else [])"
    "mg_created (snd (last (cs_msgs ?s))) = now" "mg_conv (snd (last (cs_msgs ?s))) = c" for d
    by (auto simp: messages_of_def append_msg_def Let_def)
  have "counted_right ?s x" if x: "x \<in> set (cs_convs ?s)" for x
  proof -
    obtain r where r: "(fst x, r) \<in> set (cs_convs s)"
      "snd x = (if fst x = c then r\<lparr>cv_count := cv_count r + 1, cv_last := Some now\<rparr> else r)"
      using append_conv_rows [OF x] by blast
    then have "counted_right s (fst x, r)" using assms(1) by (auto simp: chat_ok_def)
    with r(2) msgs show ?thesis by (auto simp: counted_right_def split: option.splits)
  qed
  moreover have "no_orphans ?s"
  proof -
    have "mg_conv (snd x) \<in> fst ` set (cs_convs s)" if x: "x \<in> set (cs_msgs ?s)" for x
    proof -
      have "x \<in> set (cs_msgs s) \<or> mg_conv (snd x) = c" using x by (auto simp: append_msg_def Let_def)
      then show ?thesis using assms unfolding chat_ok_def no_orphans_def by metis
    qed
    then show ?thesis by (simp only: no_orphans_def ids) blast
  qed
  ultimately show ?thesis using assms(1) by (simp add: chat_ok_def unique_append)
qed

lemma chat_ok_set_status:
  assumes "chat_ok s" "\<And>m. mg_conv (f m) = mg_conv m \<and> mg_created (f m) = mg_created m"
  shows "chat_ok (set_msg_status i st err f s)"
proof -
  let ?g = "\<lambda>(j, m). (j, if j = i then f (m\<lparr>mg_status := st, mg_error := err\<rparr>) else m)"
  have keep: "mg_conv (snd (?g x)) = mg_conv (snd x) \<and> mg_created (snd (?g x)) = mg_created (snd x)" for x
    using assms(2) by (cases x) simp
  have "messages_of d (set_msg_status i st err f s) = List.map ?g (messages_of d s)" for d
    unfolding messages_of_def set_msg_status_def using assms(2)
    by (simp add: filter_map comp_def) (rule arg_cong [where f = "List.map _"], rule filter_cong, auto)
  then have "counted_right (set_msg_status i st err f s) x = counted_right s x" for x
    using keep by (simp add: counted_right_def split: option.split)
  moreover have "no_orphans (set_msg_status i st err f s) = no_orphans s"
    using keep by (simp add: no_orphans_def set_msg_status_def)
  ultimately show ?thesis using assms(1) by (simp add: chat_ok_def unique_convs_def set_msg_status_def)
qed

lemma chat_ok_persist: "chat_ok s \<Longrightarrow> chat_ok (persist i sn s)"
  unfolding persist_def by (rule chat_ok_set_status) simp_all

lemma chat_ok_rescue: "chat_ok s \<Longrightarrow> chat_ok (snd (rescue_streams now stuck_after s))"
proof -
  have "chat_ok (fold (\<lambda>i. set_msg_status i ''interrupted'' e id) xs s)" if "chat_ok s" for xs s e
    using that by (induction xs arbitrary: s) (simp_all add: chat_ok_set_status)
  then show "chat_ok s \<Longrightarrow> ?thesis" by (simp add: rescue_streams_def Let_def)
qed

lemma chat_ok_create:
  assumes "chat_ok s" "c \<notin> fst ` set (cs_convs s)"
  shows "chat_ok (snd (create_conv c now user title kbs prompt s))"
proof -
  have none: "messages_of c s = []" 
  proof -
    have "mg_conv (snd x) \<noteq> c" if "x \<in> set (cs_msgs s)" for x
      using assms that unfolding chat_ok_def no_orphans_def by metis
    then show ?thesis by (fastforce simp: messages_of_def filter_empty_conv)
  qed
  have "messages_of d (snd (create_conv c now user title kbs prompt s)) = messages_of d s" for d
    by (simp add: messages_of_def create_conv_def Let_def)
  then have same: "counted_right (snd (create_conv c now user title kbs prompt s)) x = counted_right s x" for x
    by (intro counted_right_eq) simp_all
  have "counted_right s (c, fst (create_conv c now user title kbs prompt s))"
    using none by (simp add: counted_right_def create_conv_def Let_def)
  then show ?thesis using assms
    by (simp add: chat_ok_def same) (auto simp: unique_convs_def no_orphans_def create_conv_def Let_def)
qed

lemma purge_result:
  fixes now window limit :: int and s :: chat_store
  defines "gone \<equiv> deleted_before (now - window) limit s"
  shows "purge_conversations now window limit s =
    (Inr (length (filter (\<lambda>(c, r). c \<in> set gone) (cs_convs s)), length (filter (\<lambda>(i, m). mg_conv m \<in> set gone) (cs_msgs s))),
     \<lparr>cs_convs = filter (\<lambda>(c, r). c \<notin> set gone) (cs_convs s), cs_msgs = filter (\<lambda>(i, m). mg_conv m \<notin> set gone) (cs_msgs s),
      cs_memory = filter (\<lambda>(i, m). ms_conv m \<notin> set gone) (cs_memory s)\<rparr>)"
  by (auto simp: purge_conversations_def gone_def Let_def purge_memory_def purge_messages_def hard_delete_convs_def)

lemma chat_ok_purge:
  assumes "chat_ok s"
  shows "chat_ok (snd (purge_conversations now window limit s))"
proof -
  let ?gone = "set (deleted_before (now - window) limit s)" and ?s = "snd (purge_conversations now window limit s)"
  have msgs: "messages_of c ?s = messages_of c s" if "c \<notin> ?gone" for c
    using that by (auto simp: purge_result messages_of_def split_beta intro!: filter_cong)
  have convs: "cs_convs ?s = filter (\<lambda>x. fst x \<notin> ?gone) (cs_convs s)" "cs_msgs ?s = filter (\<lambda>x. mg_conv (snd x) \<notin> ?gone) (cs_msgs s)"
    by (simp_all add: purge_result, (rule filter_cong; auto)+)
  have "unique_convs ?s" using assms by (auto simp: unique_convs_def convs chat_ok_def intro: distinct_map_filter)
  moreover have "no_orphans ?s" using assms unfolding no_orphans_def convs chat_ok_def by fastforce
  moreover have "counted_right ?s x" if x: "x \<in> set (cs_convs ?s)" for x
  proof -
    have "counted_right ?s x = counted_right s x" by (rule counted_right_eq) (use x msgs convs in auto)
    then show ?thesis using x assms by (simp add: convs(1) chat_ok_def)
  qed
  ultimately show ?thesis by (simp add: chat_ok_def)
qed



subsection \<open>What the clean-up removes\<close>

text \<open>The purge never fails on a reference between the tables, removes only conversations that were deleted before the
  cutoff, removes with each of them exactly its messages and memories, touches nothing of the other conversations, and
  leaves no expired conversation behind when there are not more of them than the limit.\<close>

theorem purge_removes_only_the_expired:
  assumes "unique_convs s" "purge_conversations now window limit s = (result, s')"
  shows "(\<exists>counts. result = Inr counts)
    \<and> (\<forall>x \<in> set (cs_convs s) - set (cs_convs s'). \<exists>t. cv_deleted (snd x) = Some t \<and> t < now - window)
    \<and> set (cs_convs s') \<subseteq> set (cs_convs s)
    \<and> (\<forall>c. (if c \<in> fst ` (set (cs_convs s) - set (cs_convs s')) then messages_of c s' = [] else messages_of c s' = messages_of c s))
    \<and> (0 \<le> limit \<and> int (length (filter (\<lambda>x. \<exists>t. cv_deleted (snd x) = Some t \<and> t < now - window) (cs_convs s))) \<le> limit \<longrightarrow>
        (\<forall>x \<in> set (cs_convs s'). \<forall>t. cv_deleted (snd x) = Some t \<longrightarrow> now - window \<le> t))"
proof -
  let ?old = "\<lambda>x. \<exists>t. cv_deleted (snd x) = Some t \<and> t < now - window"
  let ?sorted = "sort_key (\<lambda>(c, r). or_else (cv_deleted r) 0) (filter (\<lambda>(c, r). \<exists>t. cv_deleted r = Some t \<and> t < now - window) (cs_convs s))"
  define gone where "gone = deleted_before (now - window) limit s"
  have s': "s' = snd (purge_conversations now window limit s)" using assms(2) by simp
  note res = purge_result [where now = now and window = window and limit = limit and s = s, folded gone_def]
  have convs: "cs_convs s' = filter (\<lambda>x. fst x \<notin> set gone) (cs_convs s)"
    "cs_msgs s' = filter (\<lambda>x. mg_conv (snd x) \<notin> set gone) (cs_msgs s)"
    by (simp_all add: s' res, (rule filter_cong; auto)+)
  have gone: "\<exists>r. (c, r) \<in> set (cs_convs s) \<and> ?old (c, r)" if "c \<in> set gone" for c
  proof -
    have "c \<in> set (List.map fst ?sorted)"
      using that unfolding gone_def deleted_before_def by (rule set_mp [OF slice_to_subset])
    then show ?thesis by auto
  qed
  have lost: "fst ` (set (cs_convs s) - set (cs_convs s')) = set gone"
  proof
    show "fst ` (set (cs_convs s) - set (cs_convs s')) \<subseteq> set gone" by (auto simp: convs)
    show "set gone \<subseteq> fst ` (set (cs_convs s) - set (cs_convs s'))" using gone by (force simp: convs image_iff)
  qed
  have expired: "?old x" if x: "x \<in> set (cs_convs s) - set (cs_convs s')" for x
  proof -
    obtain r where r: "(fst x, r) \<in> set (cs_convs s)" "?old (fst x, r)" using lost x gone by blast
    have "(fst x, snd x) \<in> set (cs_convs s)" using x by simp
    then have "snd x = r" using unique_row [OF assms(1)] r(1) by blast
    then show ?thesis using r(2) by simp
  qed
  have msgs: "if c \<in> set gone then messages_of c s' = [] else messages_of c s' = messages_of c s" for c
    by (auto simp: convs messages_of_def filter_empty_conv intro!: filter_cong)
  have all_gone: "now - window \<le> t"
    if "0 \<le> limit \<and> int (length (filter ?old (cs_convs s))) \<le> limit" "x \<in> set (cs_convs s')" "cv_deleted (snd x) = Some t" for x t
  proof (rule ccontr)
    assume "\<not> now - window \<le> t"
    then have "x \<in> set (filter (\<lambda>(c, r). \<exists>t. cv_deleted r = Some t \<and> t < now - window) (cs_convs s))"
      using that(2,3) by (auto simp: convs split_beta)
    moreover have "filter (\<lambda>(c, r). \<exists>t. cv_deleted r = Some t \<and> t < now - window) (cs_convs s) = filter ?old (cs_convs s)"
      by (rule filter_cong) auto
    then have "slice_to limit (List.map fst ?sorted) = List.map fst ?sorted" using that(1) by (simp add: slice_to_def) linarith
    ultimately have "fst x \<in> set gone" by (auto simp: gone_def deleted_before_def)
    then show False using that(2) by (simp add: convs)
  qed
  have "\<exists>counts. result = Inr counts" using assms(2) res by auto
  then show ?thesis using expired lost msgs all_gone by (auto simp: convs)
qed

text \<open>C5. The rescue closes every message that has been streaming for longer than the time limit as interrupted with the
  reason, keeps its text, and changes no other message and no conversation.\<close>

definition closed_as_lost :: "msg_row \<Rightarrow> msg_row" where
  "closed_as_lost m = m\<lparr>mg_status := ''interrupted'', mg_error := Some (''STREAM_INTERRUPTED'', Some ''worker_lost'')\<rparr>"

lemma set_many_status:
  "cs_msgs (fold (\<lambda>i. set_msg_status i st err id) is s) =
     List.map (\<lambda>(j, m). (j, if j \<in> set is then m\<lparr>mg_status := st, mg_error := err\<rparr> else m)) (cs_msgs s)
   \<and> cs_convs (fold (\<lambda>i. set_msg_status i st err id) is s) = cs_convs s"
proof (induction "is" arbitrary: s)
  case (Cons i ids)
  let ?s = "set_msg_status i st err id s"
  have step: "cs_msgs ?s = List.map (\<lambda>(j, m). (j, if j = i then m\<lparr>mg_status := st, mg_error := err\<rparr> else m)) (cs_msgs s)"
    "cs_convs ?s = cs_convs s"
    by (auto simp: set_msg_status_def)
  show ?case using Cons.IH [of ?s] by (simp only: fold.simps comp_def step) auto
qed (simp add: split_beta)

theorem stuck_streams_are_closed:
  assumes "distinct (List.map fst (cs_msgs s))" "rescue_streams now stuck_after s = (n, s')"
  shows "cs_msgs s' = List.map (\<lambda>(i, m). (i, if mg_status m = ''streaming'' \<and> mg_created m < now - stuck_after then closed_as_lost m else m)) (cs_msgs s)
    \<and> cs_convs s' = cs_convs s \<and> stuck_streaming (now - stuck_after) s' = []"
proof -
  let ?stuck = "\<lambda>m. mg_status m = ''streaming'' \<and> mg_created m < now - stuck_after"
  have in_stuck: "j \<in> fst ` {x \<in> set (cs_msgs s). ?stuck (snd x)} \<longleftrightarrow> ?stuck m" if "(j, m) \<in> set (cs_msgs s)" for j m
  proof -
    have "m' = m" if "(j, m') \<in> set (cs_msgs s)" for m'
      using that \<open>(j, m) \<in> set (cs_msgs s)\<close> assms(1) by (metis map_of_eq_Some_iff option.inject)
    then have "?stuck m" if "x \<in> set (cs_msgs s)" "?stuck (snd x)" "j = fst x" for x
      using that by (metis prod.collapse)
    moreover have "j \<in> fst ` {x \<in> set (cs_msgs s). ?stuck (snd x)}" if "?stuck m"
      using that \<open>(j, m) \<in> set (cs_msgs s)\<close> by (intro image_eqI [of _ _ "(j, m)"]) simp_all
    ultimately show ?thesis by blast
  qed
  let ?ids = "List.map fst (stuck_streaming (now - stuck_after) s)"
  have ids: "set ?ids = fst ` {x \<in> set (cs_msgs s). ?stuck (snd x)}"
    by (force simp: stuck_streaming_def)
  have s': "s' = fold (\<lambda>i. set_msg_status i ''interrupted'' (Some (''STREAM_INTERRUPTED'', Some ''worker_lost'')) id) ?ids s"
    using assms(2) by (simp add: rescue_streams_def Let_def)
  have "(i, if i \<in> set ?ids then m\<lparr>mg_status := ''interrupted'', mg_error := Some (''STREAM_INTERRUPTED'', Some ''worker_lost'')\<rparr> else m)
      = (i, if ?stuck m then closed_as_lost m else m)" if "(i, m) \<in> set (cs_msgs s)" for i m
    using in_stuck [OF that] unfolding ids by (simp add: closed_as_lost_def)
  then have msgs: "cs_msgs s' = List.map (\<lambda>(i, m). (i, if ?stuck m then closed_as_lost m else m)) (cs_msgs s)"
    unfolding s' set_many_status [THEN conjunct1] by (intro map_cong) auto
  have convs: "cs_convs s' = cs_convs s" unfolding s' by (rule set_many_status [THEN conjunct2])
  have "filter (\<lambda>(i, m). ?stuck m) (cs_msgs s') = []"
    by (auto simp: msgs filter_empty_conv closed_as_lost_def split: if_splits)
  then have "stuck_streaming (now - stuck_after) s' = []" by (simp add: stuck_streaming_def split_beta)
  then show ?thesis using msgs convs by simp
qed


text \<open>C23. Starting a turn is all or nothing: a refused turn (an empty question, a quota that is used up, a conversation that
  is not the user's, a failure of the database) leaves both tables as they were and all three quota counters where
  they were; an admitted one appends exactly the question, stripped, and the streaming answer to a conversation of the user and
  takes the reservation.\<close>

theorem turn_start_all_or_nothing:
  fixes env R tenant q t1 t2 t3
  defines "mk \<equiv> counter_key tenant messages_day t1" and "tk \<equiv> counter_key tenant tokens_month t2"
    and "sk \<equiv> counter_key tenant streams_res t3"
  assumes "store_ok R" "valid_datetime t1" "valid_datetime t2" "valid_datetime t3"
    and "0 \<le> counter R (redis q) mk" "0 \<le> counter R (redis q) tk" "0 \<le> counter R (redis q) sk"
    and "start_turn env R est (t1, t2, t3) failure model moments ids tenant user c body (q, s) = (result, q', s')"
  shows "case result of
      Inl e \<Rightarrow> s' = s \<and> (\<forall>k \<in> {mk, tk, sk}. counter R (redis q') k = counter R (redis q) k)
    | Inr t \<Rightarrow> ts_question t = strip body \<and> strip body \<noteq> [] \<and> (\<exists>r. require_own user c s = Inr r \<and> ts_kbs t = cv_kbs r)
        \<and> (\<exists>m a. cs_msgs s' = cs_msgs s @ [(fst ids, m), (snd ids, a)]
             \<and> mg_conv m = c \<and> mg_role m = lit ''user'' \<and> mg_content m = strip body \<and> mg_status m = ''completed''
             \<and> mg_conv a = c \<and> mg_role a = lit ''assistant'' \<and> mg_content a = [] \<and> mg_status a = ''streaming'')
        \<and> (\<exists>q0. reserve_turn env R est (t1, t2, t3) tenant (strip body) q = (Inr q0, q')
             \<and> ts_tokens t = tokens_reserved q0 \<and> ts_stream t = stream_reserved q0)"
proof (cases "strip body = []")
  case True
  then show ?thesis using assms(11) by (auto simp: start_turn_def)
next
  case False
  obtain reserved q1 where r: "reserve_turn env R est (t1, t2, t3) tenant (strip body) q = (reserved, q1)" by fastforce
  note effect = reserve_turn_effect [OF assms(4-9) [unfolded mk_def tk_def] r, folded mk_def tk_def sk_def]
  show ?thesis
  proof (cases reserved)
    case (Inl e)
    then show ?thesis using assms(11) False r effect by (auto simp: start_turn_def)
  next
    case (Inr rs)
    note rs = this
    show ?thesis
    proof (cases "fst (create_turn failure model moments ids user c (strip body) s)")
      case (Inl e)
      then have "create_turn failure model moments ids user c (strip body) s = (Inl e, s)"
        by (auto simp: create_turn_def split: sum.splits option.splits)
      then have "result = Inl (TurnFailed e)" "q' = release_all R (all_reserved rs) q1" "s' = s"
        using assms(11) False r rs by (simp_all add: start_turn_def)
      then show ?thesis using effect rs assms(10) by simp
    next
      case (Inr t)
      then obtain r where own: "require_own user c s = Inr r" and "failure = None"
        by (auto simp: create_turn_def split: sum.splits option.splits)
      then show ?thesis using assms(11) False r rs
        by (auto simp: start_turn_def create_turn_def append_msg_def Let_def)
    qed
  qed
qed

text \<open>The service turns a cursor that cannot be decoded into a validation error. One that decodes to a dictionary without its
  two keys fails later, in the repository, and is not converted.\<close>

lemma keyless_cursor_escapes:
  assumes "decode_cursor E tok = Inr []"
  shows "list_for_user E user limit (Some tok) s = Inl (foreign ''CursorError'')"
    and "decode_cursor E tok' = Inl CursorError \<Longrightarrow> list_for_user E user limit (Some tok') s = Inl validation_failed"
  using assms by (simp_all add: list_for_user_def page_cursor_def decode_opt_def read_key_def cursor_key_def)


subsection \<open>Concrete instances\<close>

text \<open>A cursor environment whose formats can be read back: signed decimals and hexadecimal identifiers.\<close>

definition unhex_digit :: "codepoint \<Rightarrow> nat" where
  "unhex_digit c = (if c < 58 then c - 48 else c - 87)"

fun unhex :: "nat \<Rightarrow> ustring \<Rightarrow> nat" where
  "unhex acc [] = acc"
| "unhex acc (c # cs) = unhex (16 * acc + unhex_digit c) cs"

lemma unhex_append: "unhex acc (xs @ ys) = unhex (unhex acc xs) ys"
  by (induction acc xs rule: unhex.induct) auto

lemma unhex_hex_text: "n < 16 ^ w \<Longrightarrow> unhex 0 (hex_text w n) = n"
proof (induction w arbitrary: n)
  case (Suc w)
  have "n div 16 < 16 ^ w" using Suc.prems by (auto intro: less_mult_imp_div_less simp: mult.commute)
  moreover have "unhex_digit (hex_digit (n mod 16)) = n mod 16"
    by (auto simp: unhex_digit_def hex_digit_def)
  ultimately show ?case using Suc.IH [of "n div 16"] by (simp add: unhex_append)
qed simp

definition unsigned :: "ustring \<Rightarrow> int option" where
  "unsigned s =
     (case s of [] \<Rightarrow> None | c # cs \<Rightarrow> Some (if c = 45 then - int (undecimal 0 cs) else int (undecimal 0 (c # cs))))"

lemma unsigned_signed: "unsigned (int_str t) = Some t"
proof (cases "t < 0")
  case False
  obtain c cs where d: "decimal (nat t) = c # cs" by (cases "decimal (nat t)") auto
  then have "c \<noteq> 45" using decimal_digits [of c "nat t"] by simp
  then show ?thesis using False d undecimal_decimal [of "nat t"] by (simp add: int_str_def unsigned_def)
qed (simp add: int_str_def unsigned_def)

definition page_env :: cursor_env where
  "page_env =
     \<lparr>ke_dumps = (\<lambda>kvs. concat (List.map (\<lambda>kv. case snd kv of JStr t \<Rightarrow> t | _ \<Rightarrow> []) kvs)),
      ke_loads = (\<lambda>bs. case decode_utf8 bs of
                         None \<Rightarrow> Inl ''UnicodeDecodeError''
                       | Some t \<Rightarrow> Inr (JObj [(lit ''k'', JStr (take (length t - 36) t)), (lit ''id'', JStr (drop (length t - 36) t))])),
      ke_iso = int_str, ke_of_iso = unsigned, ke_of_uuid = (\<lambda>t. Some (unhex 0 (filter (\<lambda>c. c \<noteq> 45) t))),
      ke_str = (\<lambda>v. case v of JStr t \<Rightarrow> t | _ \<Rightarrow> [])\<rparr>"

lemma uuid_text_length: "length (uuid_text n) = 36"
  by (simp add: uuid_text_def Let_def)

lemma page_env_lawful: "cursors_lawful page_env"
proof -
  have hex: "\<forall>c \<in> set (hex_text w n). c < 128" for w n
    by (induction w arbitrary: n) (auto simp: hex_digit_def)
  have "list_all scalar_value (uuid_text u)" for u
    using hex [of 32 u] by (auto simp: uuid_text_def Let_def list_all_iff scalar_value_def dest!: in_set_takeD in_set_dropD)
  moreover have "list_all scalar_value (int_str t)" for t
    using decimal_digits by (fastforce simp: int_str_def list_all_iff scalar_value_def)
  ultimately have dec: "decode_utf8 (encode_utf8 (int_str t @ uuid_text u)) = Some (int_str t @ uuid_text u)" for t u
    by (intro decode_encoded) (simp add: list_all_append)
  have pay: "cursor_payload page_env (key_payload page_env (t, u)) = [(lit ''k'', JStr (int_str t)), (lit ''id'', JStr (uuid_text u))]" for t u
    by (simp add: cursor_payload_def key_payload_def page_env_def)
  have "ke_of_uuid page_env (uuid_text u) = Some u" if "u < 2 ^ 128" for u
    using unhex_hex_text [of u 32] that by (simp add: page_env_def uuid_text_hex)
  moreover have "ke_dumps page_env [(lit ''k'', JStr (int_str t)), (lit ''id'', JStr (uuid_text u))] = int_str t @ uuid_text u" for t u
    by (simp add: page_env_def)
  moreover have "ke_loads page_env (encode_utf8 (int_str t @ uuid_text u))
      = Inr (JObj [(lit ''k'', JStr (int_str t)), (lit ''id'', JStr (uuid_text u))])" for t u
    by (simp add: page_env_def dec uuid_text_length)
  ultimately show ?thesis
    by (simp add: cursors_lawful_def pay) (simp add: page_env_def unsigned_signed)
qed

definition chat_sample_conv :: "uuid128 \<Rightarrow> int \<Rightarrow> int option \<Rightarrow> conv_row" where
  "chat_sample_conv user n deleted =
     \<lparr>cv_user = user, cv_title = [], cv_kbs = [], cv_prompt = [], cv_status = lit ''active'', cv_pinned = False,
      cv_count = n, cv_last = (if n = 0 then None else Some 40), cv_created = 10, cv_deleted = deleted\<rparr>"

definition chat_sample_msg :: "uuid128 \<Rightarrow> string \<Rightarrow> msg_row" where
  "chat_sample_msg c st =
     \<lparr>mg_conv = c, mg_role = lit ''assistant'', mg_content = lit ''par'', mg_citations = [], mg_model = [], mg_version = None,
      mg_usage = None, mg_rag = None, mg_status = st, mg_error = None, mg_created = 40\<rparr>"

definition chat_sample :: chat_store where
  "chat_sample =
     \<lparr>cs_convs = [(1, chat_sample_conv 5 1 None), (2, chat_sample_conv 6 0 None), (3, chat_sample_conv 5 1 (Some 50))],
      cs_msgs = [(11, chat_sample_msg 1 ''streaming''), (12, chat_sample_msg 3 ''completed'')], cs_memory = []\<rparr>"

lemma chat_sample_ok: "chat_ok chat_sample"
  by (auto simp: chat_sample_def chat_ok_def unique_convs_def no_orphans_def counted_right_def messages_of_def
      chat_sample_conv_def chat_sample_msg_def)

lemma chat_sample_ids: "ids_ok chat_sample" "unique_convs chat_sample"
  by (simp_all add: chat_sample_def ids_ok_def unique_convs_def)

theorem pages_are_complete_witness:
  "read_all 4 (\<lambda>cursor. page_of (list_for_user page_env 5 1 cursor chat_sample)) None
     = Some (List.map conv_view_of (conv_rows 5 chat_sample))"
  using pages_are_complete [OF page_env_lawful chat_sample_ids(1), of 1 4 5] by (simp add: chat_sample_def)

theorem users_are_isolated_witness:
  "\<forall>k. own_part 6 (snd (serve page_env k [] 60 5 (DeleteConv 1) chat_sample)) = own_part 6 chat_sample"
proof
  show "own_part 6 (snd (serve page_env k [] 60 5 (DeleteConv 1) chat_sample)) = own_part 6 chat_sample" for k
    using users_are_isolated [OF chat_sample_ids(2), of "DeleteConv 1" page_env k "[]" 60 5]
    by (simp add: fresh_ids_def)
qed


theorem purge_removes_only_the_expired_witness:
  "\<exists>result s'. purge_conversations 100 30 10 chat_sample = (result, s')
     \<and> (\<forall>x \<in> set (cs_convs s'). \<forall>t. cv_deleted (snd x) = Some t \<longrightarrow> 70 \<le> t)"
proof -
  obtain result s' where p: "purge_conversations 100 30 10 chat_sample = (result, s')" by fastforce
  have "int (length (filter (\<lambda>x. \<exists>t. cv_deleted (snd x) = Some t \<and> t < 100 - 30) (cs_convs chat_sample))) \<le> 10"
    by (simp add: chat_sample_def chat_sample_conv_def)
  with purge_removes_only_the_expired [OF chat_sample_ids(2) p] p show ?thesis by auto
qed

theorem stuck_streams_are_closed_witness:
  "\<exists>n s'. rescue_streams 100 30 chat_sample = (n, s') \<and> stuck_streaming 70 s' = [] \<and> cs_convs s' = cs_convs chat_sample"
proof -
  obtain n s' where p: "rescue_streams 100 30 chat_sample = (n, s')" by fastforce
  have "distinct (List.map fst (cs_msgs chat_sample))" by (simp add: chat_sample_def)
  from stuck_streams_are_closed [OF this p] p show ?thesis by auto
qed

theorem turn_start_all_or_nothing_witness:
  "\<exists>result q' s'. start_turn sample_env mem_ops 2000 (sample_now, sample_now, sample_now) None [] (60, 61) (13, 14) 7 6 1 (lit ''q'')
      (\<lparr>redis = Map.empty, notices = []\<rparr>, chat_sample) = (result, q', s')
    \<and> s' = chat_sample \<and> counter mem_ops (redis q') (counter_key 7 streams_res sample_now) = 0"
proof -
  let ?q = "\<lparr>redis = Map.empty :: mem, notices = []\<rparr>"
  have z: "counter mem_ops (\<lambda>_. None) k = 0" for k by (simp add: counter_def mem_ops_def)
  obtain result q' s' where r: "start_turn sample_env mem_ops 2000 (sample_now, sample_now, sample_now) None [] (60, 61) (13, 14) 7 6 1
      (lit ''q'') (?q, chat_sample) = (result, q', s')" by (metis prod_cases3)
  have foreign: "require_own 6 1 chat_sample = Inl not_found"
    by (simp add: require_own_def find_conv_def chat_sample_def chat_sample_conv_def)
  show ?thesis
    using turn_start_all_or_nothing [OF mem_store_ok sample_now_valid sample_now_valid sample_now_valid _ _ _ r] r foreign
    by (auto simp: z split: sum.splits)
qed

end
