(* ===== verification/Prompts.thy ===== *)
theory Prompts
  imports Ingestion Citation Conversations
begin

text \<open>
  Prompts: the context block and the templates of \<open>backend/ai/prompts/__init__.py\<close>, the versions of
  \<open>backend/repositories/ai.py\<close> and the service of \<open>backend/services/ai/prompts.py\<close>. The template engine (jinja2) and the
  schema check (jsonschema) are parameters. Lemmas: what is between the two delimiters of the block never closes
  it, and which version of which template is rendered.
\<close>

subsection \<open>The context block\<close>

definition context_start :: ustring where
  "context_start = lit ''<<<KNOWLEDGE_CONTEXT>>>''"

definition context_end :: ustring where
  "context_end = lit ''<<<END_KNOWLEDGE_CONTEXT>>>''"

definition defused :: ustring where
  "defused = lit ''<<redacted-delimiter>>''"

record context_chunk =
  xc_marker :: ustring
  xc_content :: ustring
  xc_doc :: ustring
  xc_page :: "int option"
  xc_heading :: "ustring list"

text \<open>\<open>str.replace\<close> of a pattern that is not empty: from the left, without overlap.\<close>

function str_replace :: "ustring \<Rightarrow> ustring \<Rightarrow> ustring \<Rightarrow> ustring" where
  "str_replace pat rep s =
     (if s = [] then []
      else if pat \<noteq> [] \<and> prefix pat s then rep @ str_replace pat rep (drop (length pat) s)
      else hd s # str_replace pat rep (tl s))"
  by pat_completeness auto
termination
  by (relation "measure (\<lambda>(pat, rep, s). length s)") auto

declare str_replace.simps [simp del]

definition defuse :: "ustring \<Rightarrow> ustring" where
  "defuse t = str_replace context_end defused (str_replace context_start defused t)"

definition unnamed_document :: ustring where
  "unnamed_document = [26410, 21629, 21517, 25991, 20214]"

definition source_line :: "context_chunk \<Rightarrow> ustring" where
  "source_line c =
     (let named = (if xc_doc c = [] then unnamed_document else xc_doc c);
          paged = (case xc_page c of None \<Rightarrow> named | Some p \<Rightarrow> named @ [32, 31532, 32] @ int_str p @ [32, 38913]);
          headed = (if xc_heading c = [] then paged else paged @ [65288] @ join [32, 8250, 32] (xc_heading c) @ [65289])
      in lit ''[c:'' @ xc_marker c @ lit '']'' @ [32, 20358, 28304, 65306] @ headed)"

definition build_context_block :: "context_chunk list \<Rightarrow> ustring" where
  "build_context_block cs =
     join [10] ([context_start] @ concat (List.map (\<lambda>c. [source_line c, defuse (xc_content c), []]) cs) @ [context_end])"

definition build_user_turn :: "ustring \<Rightarrow> ustring \<Rightarrow> ustring" where
  "build_user_turn question ctx =
     (if ctx = [] then question else ctx @ [10, 10, 21839, 38988, 65306] @ question)"

subsection \<open>Templates\<close>

text \<open>What the sandboxed engine does with a template and its variables, and what the schema check answers.\<close>

datatype template_result = Rendered ustring | UndefinedError | SecurityError | TemplateSyntaxError nat | OtherTemplateError string

datatype schema_result = SchemaOk | SchemaMismatch ustring | SchemaError ustring

record prompt_env =
  pe_engine :: "ustring \<Rightarrow> obj \<Rightarrow> template_result"
  pe_schema :: "obj \<Rightarrow> obj \<Rightarrow> schema_result"

text \<open>The three failures that are turned into a validation error; the others go through. Messages are left out.\<close>

definition render_template :: "prompt_env \<Rightarrow> ustring \<Rightarrow> obj \<Rightarrow> app_exn + ustring" where
  "render_template P template variables =
     (case pe_engine P template variables of
        Rendered t \<Rightarrow> Inr t
      | UndefinedError \<Rightarrow> Inl validation_failed
      | SecurityError \<Rightarrow> Inl validation_failed
      | TemplateSyntaxError line \<Rightarrow> Inl validation_failed
      | OtherTemplateError cls \<Rightarrow> Inl (foreign cls))"

text \<open>\<open>set(...)\<close> of a value read from JSON: the keys of an object, the characters of a string, the elements of a list, which
  must be hashable. The names of it are its strings; the flag says whether it has any element.\<close>

definition as_set :: "json \<Rightarrow> app_exn + bool \<times> ustring list" where
  "as_set v =
     (case v of
        JObj kvs \<Rightarrow> Inr (kvs \<noteq> [], List.map fst kvs)
      | JStr t \<Rightarrow> Inr (t \<noteq> [], List.map (\<lambda>c. [c]) t)
      | JList xs \<Rightarrow>
          if list_all (\<lambda>x. case x of JList _ \<Rightarrow> False | JObj _ \<Rightarrow> False | _ \<Rightarrow> True) xs
          then Inr (xs \<noteq> [], List.map_filter (\<lambda>x. case x of JStr t \<Rightarrow> Some t | _ \<Rightarrow> None) xs)
          else Inl (foreign ''TypeError'')
      | _ \<Rightarrow> Inl (foreign ''TypeError''))"

definition validate_variables :: "prompt_env \<Rightarrow> obj \<Rightarrow> obj \<Rightarrow> app_exn option" where
  "validate_variables P schema variables =
     (if schema = [] then None
      else
        case as_set (or_else (map_of schema (lit ''properties'')) (JObj [])) of
          Inl e \<Rightarrow> Some e
        | Inr (some, declared) \<Rightarrow>
            if some \<and> (\<exists>kv \<in> set variables. fst kv \<notin> set declared) then Some validation_failed
            else (case pe_schema P variables schema of SchemaOk \<Rightarrow> None | _ \<Rightarrow> Some validation_failed))"

subsection \<open>The versions\<close>

record prompt_row =
  pr_tenant :: "uuid128 option"
  pr_key :: ustring
  pr_active :: "uuid128 option"
  pr_deleted :: bool

record version_row =
  pv_prompt :: uuid128
  pv_number :: int
  pv_status :: ustring
  pv_template :: ustring
  pv_schema :: "obj option"
  pv_hint :: "obj option"

record prompt_store =
  ps_prompts :: "(uuid128 \<times> prompt_row) list"
  ps_versions :: "(uuid128 \<times> version_row) list"

definition published :: ustring where
  "published = lit ''published''"

definition visible_prompts :: "uuid128 \<Rightarrow> prompt_store \<Rightarrow> (uuid128 \<times> prompt_row) list" where
  "visible_prompts tenant s =
     filter (\<lambda>(p, r). (pr_tenant r = Some tenant \<or> pr_tenant r = None) \<and> \<not> pr_deleted r) (ps_prompts s)"

definition prompt_by_key :: "uuid128 \<Rightarrow> ustring \<Rightarrow> prompt_store \<Rightarrow> (uuid128 \<times> prompt_row) option" where
  "prompt_by_key tenant key s =
     (case sort_key (\<lambda>(p, r). if pr_tenant r = None then 1 else 0 :: nat)
             (filter (\<lambda>(p, r). pr_key r = key) (visible_prompts tenant s)) of
        [] \<Rightarrow> None
      | x # _ \<Rightarrow> Some x)"

definition active_version :: "uuid128 \<Rightarrow> ustring \<Rightarrow> prompt_store \<Rightarrow> version_row option" where
  "active_version tenant key s =
     (case prompt_by_key tenant key s of
        None \<Rightarrow> None
      | Some (p, r) \<Rightarrow>
          (case pr_active r of
             None \<Rightarrow> None
           | Some v \<Rightarrow>
               map_option snd (find (\<lambda>(i, w). i = v \<and> pv_prompt w = p \<and> pv_status w = published) (ps_versions s))))"

definition version_for :: "uuid128 \<Rightarrow> ustring \<Rightarrow> int \<Rightarrow> prompt_store \<Rightarrow> version_row option" where
  "version_for tenant key number s =
     (case prompt_by_key tenant key s of
        None \<Rightarrow> None
      | Some (p, r) \<Rightarrow>
          map_option snd (find (\<lambda>(i, w). pv_prompt w = p \<and> pv_number w = number \<and> pv_status w = published) (ps_versions s)))"

record rendered_prompt =
  rp_key :: ustring
  rp_version :: int
  rp_system :: ustring
  rp_hint :: obj

definition render ::
  "prompt_env \<Rightarrow> prompt_store \<Rightarrow> uuid128 \<Rightarrow> ustring \<Rightarrow> obj option \<Rightarrow> int option \<Rightarrow> app_exn + rendered_prompt" where
  "render P s tenant key variables number =
     (let payload = or_else variables [] in
      case (case number of Some n \<Rightarrow> version_for tenant key n s | None \<Rightarrow> active_version tenant key s) of
        None \<Rightarrow> Inl not_found
      | Some w \<Rightarrow>
          (case validate_variables P (or_else (pv_schema w) []) payload of
             Some e \<Rightarrow> Inl e
           | None \<Rightarrow>
               (case render_template P (pv_template w) payload of
                  Inl e \<Rightarrow> Inl e
                | Inr system \<Rightarrow>
                    Inr \<lparr>rp_key = key, rp_version = pv_number w, rp_system = system, rp_hint = or_else (pv_hint w) []\<rparr>)))"

definition get_active_version :: "prompt_store \<Rightarrow> uuid128 \<Rightarrow> ustring \<Rightarrow> int option" where
  "get_active_version s tenant key = map_option pv_number (active_version tenant key s)"

subsection \<open>Occurrences\<close>

fun occurrences :: "ustring \<Rightarrow> ustring \<Rightarrow> nat" where
  "occurrences p [] = (if p = [] then 1 else 0)"
| "occurrences p (x # xs) = (if prefix p (x # xs) then 1 else 0) + occurrences p xs"

lemma occurrences_0: "occurrences p s = 0 \<longleftrightarrow> \<not> sublist p s"
  by (induction s) (auto simp: sublist_Cons_right)

lemma prefix_sep: "z \<notin> set p \<Longrightarrow> prefix p (a @ z # b) = prefix p a"
proof (induction a arbitrary: p)
  case Nil
  then show ?case by (cases p) auto
next
  case (Cons x a)
  then show ?case by (cases p) auto
qed

lemma occurrences_sep: "p \<noteq> [] \<Longrightarrow> z \<notin> set p \<Longrightarrow> occurrences p (a @ z # b) = occurrences p a + occurrences p b"
proof (induction a)
  case Nil
  then show ?case by (cases p) auto
next
  case (Cons x a)
  then show ?case using prefix_sep [of z p "x # a" b] by (cases "prefix p (x # a)") simp_all
qed

lemma occurrences_join:
  "p \<noteq> [] \<Longrightarrow> z \<notin> set p \<Longrightarrow> occurrences p (join [z] ls) = (\<Sum>l\<leftarrow>ls. occurrences p l)"
  by (induction "[z]" ls rule: join.induct) (auto simp: occurrences_sep)

lemma no_occurrence: "p \<noteq> [] \<Longrightarrow> hd p \<notin> set s \<Longrightarrow> occurrences p s = 0"
  by (induction s) (auto simp: prefix_Cons)

lemma str_replace_step:
  "str_replace pat rep [] = []"
  "s \<noteq> [] \<Longrightarrow> pat \<noteq> [] \<and> prefix pat s \<Longrightarrow> str_replace pat rep s = rep @ str_replace pat rep (drop (length pat) s)"
  "s \<noteq> [] \<Longrightarrow> \<not> (pat \<noteq> [] \<and> prefix pat s) \<Longrightarrow> str_replace pat rep s = hd s # str_replace pat rep (tl s)"
  by (subst str_replace.simps, auto)+

text \<open>A pattern and a replacement that share nothing at their ends: the replacement creates no occurrence.\<close>

definition unrelated :: "ustring \<Rightarrow> ustring \<Rightarrow> bool" where
  "unrelated p rep \<longleftrightarrow>
     list_all (\<lambda>q. q = [] \<or> \<not> prefix q rep \<and> \<not> prefix rep q) (suffixes p)
     \<and> list_all (\<lambda>u. u = [] \<or> \<not> prefix u p \<and> \<not> prefix p u) (suffixes rep)"

lemma replace_prefix:
  "unrelated p rep \<Longrightarrow> suffix q p \<Longrightarrow> q \<noteq> [] \<Longrightarrow> prefix q (str_replace pat rep s) \<Longrightarrow> prefix q s"
proof (induction pat rep s arbitrary: q rule: str_replace.induct)
  case (1 pat rep s)
  consider "s = []" | "s \<noteq> []" "pat \<noteq> [] \<and> prefix pat s" | "s \<noteq> []" "\<not> (pat \<noteq> [] \<and> prefix pat s)" by blast
  then show ?case
  proof cases
    case 2
    have "prefix q (rep @ str_replace pat rep (drop (length pat) s))"
      using 1(6) unfolding str_replace_step(2) [OF 2] .
    then have "prefix q rep \<or> prefix rep q" by (rule prefix_same_cases) simp
    moreover have "\<not> prefix q rep \<and> \<not> prefix rep q" using 1(3-5) by (auto simp: unrelated_def list_all_iff)
    ultimately show ?thesis by blast
  next
    case 3
    have pre: "prefix q (hd s # str_replace pat rep (tl s))" using 1(6) unfolding str_replace_step(3) [OF 3] .
    then obtain r where r: "q = hd s # r" "prefix r (str_replace pat rep (tl s))" using 1(5) by (cases q) auto
    have "prefix r (tl s)"
    proof (cases "r = []")
      case False
      have "suffix r p" using 1(4) unfolding r(1) by (rule suffix_ConsD)
      then show ?thesis by (rule 1(2) [OF 3 1(3) _ False r(2)])
    qed simp
    then show ?thesis using r(1) 3(1) by (cases s) auto
  qed (use 1(6) in \<open>simp add: str_replace_step\<close>)
qed

lemma sublist_append_cases:
  "sublist p (xs @ ys) \<Longrightarrow> (\<exists>u. suffix u xs \<and> u \<noteq> [] \<and> (prefix p u \<or> prefix u p)) \<or> sublist p ys"
proof (induction xs)
  case (Cons x xs)
  from Cons.prems have "prefix p ((x # xs) @ ys) \<or> sublist p (xs @ ys)" by (simp add: sublist_Cons_right)
  then show ?case
  proof
    assume "prefix p ((x # xs) @ ys)"
    then have "prefix p (x # xs) \<or> prefix (x # xs) p" by (rule prefix_same_cases) simp
    then show ?thesis by blast
  next
    assume "sublist p (xs @ ys)"
    from Cons.IH [OF this] show ?thesis by (metis suffix_ConsI)
  qed
qed simp

lemma replace_sublist:
  "unrelated p rep \<Longrightarrow> p \<noteq> [] \<Longrightarrow> sublist p (str_replace pat rep s) \<Longrightarrow> sublist p s \<and> p \<noteq> pat"
proof (induction pat rep s rule: str_replace.induct)
  case (1 pat rep s)
  consider "s = []" | "s \<noteq> []" "pat \<noteq> [] \<and> prefix pat s" | "s \<noteq> []" "\<not> (pat \<noteq> [] \<and> prefix pat s)" by blast
  then show ?case
  proof cases
    case 2
    have "sublist p (rep @ str_replace pat rep (drop (length pat) s))"
      using 1(5) unfolding str_replace_step(2) [OF 2] .
    moreover have "\<not> (\<exists>u. suffix u rep \<and> u \<noteq> [] \<and> (prefix p u \<or> prefix u p))"
      using 1(3) by (auto simp: unrelated_def list_all_iff)
    ultimately have "sublist p (str_replace pat rep (drop (length pat) s))" using sublist_append_cases by blast
    from 1(1) [OF 2 1(3,4) this] show ?thesis
      using sublist_drop sublist_order.order_trans by blast
  next
    case 3
    have "prefix p (hd s # str_replace pat rep (tl s)) \<or> sublist p (str_replace pat rep (tl s))"
      using 1(5) unfolding str_replace_step(3) [OF 3] sublist_Cons_right .
    then show ?thesis
    proof
      assume "prefix p (hd s # str_replace pat rep (tl s))"
      then have "prefix p (str_replace pat rep s)" unfolding str_replace_step(3) [OF 3] .
      then have "prefix p s" using replace_prefix [OF 1(3) _ 1(4)] by blast
      then show ?thesis using 3(2) 1(4) by auto
    next
      assume "sublist p (str_replace pat rep (tl s))"
      from 1(2) [OF 3 1(3,4) this] show ?thesis using 3(1) by (cases s) (auto simp: sublist_Cons_right)
    qed
  qed (use 1(4,5) in \<open>simp add: str_replace_step\<close>)
qed

lemma delimiters_unrelated: "unrelated context_start defused" "unrelated context_end defused"
  by code_simp+

lemma delimiters:
  "context_start \<noteq> []" "context_end \<noteq> []" "hd context_start = 60" "hd context_end = 60"
  "set context_start \<subseteq> {60, 62, 95} \<union> {65..90}" "set context_end \<subseteq> {60, 62, 95} \<union> {65..90}"
  by (auto simp: context_start_def context_end_def lit_def)

lemma delimiters_once:
  "occurrences context_start context_start = 1" "occurrences context_end context_end = 1"
  "occurrences context_start context_end = 0" "occurrences context_end context_start = 0"
  by code_simp+

lemma defuse_plain: "p \<in> {context_start, context_end} \<Longrightarrow> occurrences p (defuse t) = 0"
  using replace_sublist [OF delimiters_unrelated(1) delimiters(1)] replace_sublist [OF delimiters_unrelated(2) delimiters(2)]
  unfolding occurrences_0 defuse_def by blast

text \<open>The parts of a source line come from the document: they are not defused.\<close>

definition plain_source :: "context_chunk \<Rightarrow> bool" where
  "plain_source c \<longleftrightarrow>
     (\<forall>part \<in> {xc_marker c, xc_doc c} \<union> set (xc_heading c). occurrences context_start part = 0 \<and> occurrences context_end part = 0)"

lemma source_line_plain:
  assumes "plain_source c" "p \<in> {context_start, context_end}"
  shows "occurrences p (source_line c) = 0"
proof -
  have p: "p \<noteq> []" "hd p = 60" "set p \<subseteq> {60, 62, 95} \<union> {65..90}" using assms(2) delimiters by auto
  note sep = occurrences_sep [OF p(1)]
  have out: "91 \<notin> set p" "99 \<notin> set p" "58 \<notin> set p" "93 \<notin> set p" "32 \<notin> set p" "31532 \<notin> set p" "38913 \<notin> set p"
    "65288 \<notin> set p" "65289 \<notin> set p" "8250 \<notin> set p" "20358 \<notin> set p" "28304 \<notin> set p" "65306 \<notin> set p"
    using p(3) by auto
  have parts: "occurrences p part = 0" if "part \<in> {xc_marker c, xc_doc c} \<union> set (xc_heading c)" for part
    using assms that by (auto simp: plain_source_def)
  have nums: "occurrences p (int_str n) = 0" for n
    using decimal_digits [of 60 "nat n"] decimal_digits [of 60 "nat (- n)"] by (intro no_occurrence) (auto simp: p int_str_def)
  have unnamed: "occurrences p unnamed_document = 0"
    by (intro no_occurrence) (auto simp: p unnamed_document_def)
  define named where "named = (if xc_doc c = [] then unnamed_document else xc_doc c)"
  have named: "occurrences p named = 0" using parts unnamed by (simp add: named_def)
  define paged where "paged = (case xc_page c of None \<Rightarrow> named | Some n \<Rightarrow> named @ [32, 31532, 32] @ int_str n @ [32, 38913])"
  have paged: "occurrences p paged = 0"
    using named nums sep [OF out(5)] sep [OF out(6)] sep [OF out(7)] sep [OF out(7), of "[]"] sep [OF out(5), of "[]"] sep [OF out(6), of "[]"] p(1)
    by (simp add: paged_def split: option.split)
  have path: "occurrences p (join [32, 8250, 32] ls) = 0" if "\<forall>l \<in> set ls. occurrences p l = 0" for ls
    using that
  proof (induction "[32, 8250, 32 :: nat]" ls rule: join.induct)
    case (3 x y ys)
    then show ?case using sep [OF out(5)] sep [OF out(5), of "[8250]"] sep [OF out(10), of "[]"] p(1) by simp
  qed (use p(1) in auto)
  define headed where "headed = (if xc_heading c = [] then paged else paged @ [65288] @ join [32, 8250, 32] (xc_heading c) @ [65289])"
  have headed: "occurrences p headed = 0"
    using paged path [of "xc_heading c"] parts sep [OF out(8)] sep [OF out(9), of _ "[]"] p(1) by (simp add: headed_def)
  have skip: "occurrences p (z # b) = occurrences p b" if "z \<notin> set p" for z b
    using sep [OF that, of "[]" b] p(1) by simp
  have line: "source_line c = 91 # 99 # 58 # xc_marker c @ 93 # 32 # 20358 # 28304 # 65306 # headed"
    by (simp add: source_line_def Let_def named_def [symmetric] lit_def) (simp add: headed_def paged_def)
  have "occurrences p (xc_marker c) = 0" by (rule parts) simp
  then show ?thesis unfolding line using headed by (simp only: skip out sep [OF out(4)] not_False_eq_True add_0)
qed

text \<open>C18. The block of retrieved text begins with the start delimiter, ends with the end delimiter and contains each of
  them only there, whatever the text of the chunks is, as long as the names and heading paths that come from the
  documents do not contain one: no retrieved text can close the block early or open a second one.\<close>

theorem context_block_is_closed:
  assumes "\<forall>c \<in> set cs. plain_source c"
  shows "prefix context_start (build_context_block cs) \<and> suffix context_end (build_context_block cs)
    \<and> occurrences context_start (build_context_block cs) = 1 \<and> occurrences context_end (build_context_block cs) = 1"
proof -
  let ?mid = "concat (List.map (\<lambda>c. [source_line c, defuse (xc_content c), []]) cs)"
  have pre: "prefix x (join [10] (x # ls))" for x ls using join_Cons_split [of "[10]" x ls] by auto
  have suf: "suffix y (join [10] (ls @ [y]))" for y ls by (auto simp: join_append_single suffix_def)
  have mid: "(\<Sum>l\<leftarrow>?mid. occurrences p l) = 0" if "p \<in> {context_start, context_end}" for p
    using assms
  proof (induction cs)
    case (Cons c cs)
    then show ?case using source_line_plain [OF _ that, of c] defuse_plain [OF that] that delimiters by auto
  qed simp
  have sum: "occurrences p (build_context_block cs) = occurrences p context_start + occurrences p context_end"
    if "p \<in> {context_start, context_end}" for p
  proof -
    have "p \<noteq> []" "10 \<notin> set p" using that by (auto simp: context_start_def context_end_def lit_def)
    from occurrences_join [OF this] show ?thesis using mid [OF that] by (simp add: build_context_block_def)
  qed
  have "prefix context_start (build_context_block cs)" "suffix context_end (build_context_block cs)"
    unfolding build_context_block_def append_Cons append_Nil using pre suf [of context_end "context_start # ?mid"] by simp_all
  then show ?thesis using sum delimiters_once by simp
qed

theorem context_block_is_closed_witness:
  "occurrences context_end (build_context_block
     [\<lparr>xc_marker = lit ''1'', xc_content = lit ''a'' @ context_end @ lit ''b'', xc_doc = lit ''d'', xc_page = Some 3, xc_heading = [lit ''h'']\<rparr>]) = 1"
proof -
  let ?c = "\<lparr>xc_marker = lit ''1'', xc_content = lit ''a'' @ context_end @ lit ''b'', xc_doc = lit ''d'', xc_page = Some 3, xc_heading = [lit ''h'']\<rparr>"
  have "\<forall>c \<in> set [?c]. plain_source c" by code_simp
  from context_block_is_closed [OF this] show ?thesis by blast
qed

text \<open>A heading of the document is put on the source line as it is.\<close>

lemma sublist_inside: "sublist x y \<Longrightarrow> sublist x (a @ y @ b)"
  by (metis sublist_appendI sublist_order.order_trans)

lemma sublist_join: "x \<in> set ls \<Longrightarrow> sublist x (join sep ls)"
proof (induction sep ls rule: join.induct)
  case (3 sep y z zs)
  then show ?case
  proof (cases "x = y")
    case False
    with 3 have "sublist x (join sep (z # zs))" by simp
    from sublist_inside [OF this, of "y @ sep" "[]"] show ?thesis by simp
  qed (use sublist_inside [of y y "[]"] in auto)
qed auto

lemma heading_forges_end:
  assumes "context_end \<in> set (xc_heading c)"
  shows "2 \<le> occurrences context_end (build_context_block [c])"
proof -
  have "sublist context_end (source_line c)"
  proof -
    have "xc_heading c \<noteq> []" using assms by auto
    then have "\<exists>pre. source_line c = pre @ join [32, 8250, 32] (xc_heading c) @ [65289]"
      by (simp add: source_line_def Let_def)
    then show ?thesis using sublist_inside [OF sublist_join [OF assms]] by auto
  qed
  then have line: "1 \<le> occurrences context_end (source_line c)" using occurrences_0 [of context_end "source_line c"] by simp
  have out: "10 \<notin> set context_end" by (simp add: context_end_def lit_def)
  have "occurrences context_end (build_context_block [c]) =
      (\<Sum>l\<leftarrow>[context_start, source_line c, defuse (xc_content c), [], context_end]. occurrences context_end l)"
    unfolding build_context_block_def by (simp only: occurrences_join [OF delimiters(2) out]) simp
  then show ?thesis using line delimiters_once by simp
qed

subsection \<open>Which version is rendered\<close>

lemma prompt_by_key_own:
  assumes "prompt_by_key tenant key s = Some (p, r)"
  shows "(p, r) \<in> set (ps_prompts s) \<and> pr_key r = key \<and> \<not> pr_deleted r \<and> pr_tenant r \<in> {None, Some tenant}
    \<and> ((\<exists>q w. (q, w) \<in> set (ps_prompts s) \<and> pr_tenant w = Some tenant \<and> pr_key w = key \<and> \<not> pr_deleted w) \<longrightarrow> pr_tenant r = Some tenant)"
proof -
  let ?f = "\<lambda>(p, r). if pr_tenant r = None then 1 else 0 :: nat"
  let ?xs = "filter (\<lambda>(p, r). pr_key r = key) (visible_prompts tenant s)"
  obtain rest where sk: "sort_key ?f ?xs = (p, r) # rest"
    using assms by (auto simp: prompt_by_key_def split: list.splits)
  have set: "set ((p, r) # rest) = set ?xs" by (metis sk set_sort)
  have "sorted (List.map ?f ((p, r) # rest))" by (metis sk sorted_sort_key)
  then have least: "\<forall>x \<in> set ?xs. ?f (p, r) \<le> ?f x" using set by (metis (no_types, lifting) list.set_intros(1) list.simps(9) order_refl set_ConsD sorted_simps(2) imageI image_set)
  have mem: "(p, r) \<in> set ?xs" using set by auto
  have "pr_tenant r = Some tenant"
    if "(q, w) \<in> set (ps_prompts s)" "pr_tenant w = Some tenant" "pr_key w = key" "\<not> pr_deleted w" for q w
  proof -
    have "(q, w) \<in> set ?xs" using that by (simp add: visible_prompts_def)
    then have "?f (p, r) \<le> ?f (q, w)" using least by blast
    then have "pr_tenant r \<noteq> None" using that(2) by (simp split: if_splits)
    then show ?thesis using mem by (auto simp: visible_prompts_def)
  qed
  then show ?thesis using mem by (auto simp: visible_prompts_def)
qed

text \<open>A prompt is rendered from a published version of a template with the asked key that is the tenant's own or, when
  it has none, the system's, never another tenant's; without an explicit number it is the version the template names as
  active, and the number that is handed back is the one that was rendered.\<close>

theorem prompts_are_own_and_published:
  assumes "render P s tenant key variables number = Inr out"
  shows "\<exists>p r v w. (p, r) \<in> set (ps_prompts s) \<and> pr_key r = key \<and> \<not> pr_deleted r \<and> pr_tenant r \<in> {None, Some tenant}
    \<and> ((\<exists>q x. (q, x) \<in> set (ps_prompts s) \<and> pr_tenant x = Some tenant \<and> pr_key x = key \<and> \<not> pr_deleted x) \<longrightarrow> pr_tenant r = Some tenant)
    \<and> (v, w) \<in> set (ps_versions s) \<and> pv_prompt w = p \<and> pv_status w = published \<and> rp_version out = pv_number w
    \<and> (case number of None \<Rightarrow> pr_active r = Some v | Some n \<Rightarrow> pv_number w = n)
    \<and> pe_engine P (pv_template w) (or_else variables []) = Rendered (rp_system out)"
proof -
  obtain w where w: "(case number of Some n \<Rightarrow> version_for tenant key n s | None \<Rightarrow> active_version tenant key s) = Some w"
    "rp_version out = pv_number w" "render_template P (pv_template w) (or_else variables []) = Inr (rp_system out)"
    using assms by (auto simp: render_def Let_def split: option.splits sum.splits)
  have "\<exists>p r v. prompt_by_key tenant key s = Some (p, r) \<and> (v, w) \<in> set (ps_versions s) \<and> pv_prompt w = p
      \<and> pv_status w = published \<and> (case number of None \<Rightarrow> pr_active r = Some v | Some n \<Rightarrow> pv_number w = n)"
    using w(1) by (cases number) (auto simp: version_for_def active_version_def find_Some_iff split: option.splits, (metis nth_mem)+)
  moreover have "pe_engine P (pv_template w) (or_else variables []) = Rendered (rp_system out)"
    using w(3) by (simp add: render_template_def split: template_result.splits)
  ultimately show ?thesis using prompt_by_key_own w(2) by metis
qed

text \<open>A tenant with a draft of its own and the system's template: the own one is chosen, and nothing is rendered when it
  has no published version.\<close>

definition prompt_sample :: "version_row \<Rightarrow> prompt_store" where
  "prompt_sample own =
     \<lparr>ps_prompts = [(1, \<lparr>pr_tenant = None, pr_key = lit ''rag_answer'', pr_active = Some 11, pr_deleted = False\<rparr>),
                    (2, \<lparr>pr_tenant = Some 7, pr_key = lit ''rag_answer'', pr_active = Some 12, pr_deleted = False\<rparr>)],
      ps_versions = [(11, \<lparr>pv_prompt = 1, pv_number = 1, pv_status = published, pv_template = lit ''S'', pv_schema = None, pv_hint = None\<rparr>),
                     (12, own)]\<rparr>"

definition own_version :: "ustring \<Rightarrow> version_row" where
  "own_version state = \<lparr>pv_prompt = 2, pv_number = 4, pv_status = state, pv_template = lit ''T'', pv_schema = None, pv_hint = None\<rparr>"

definition echo_engine :: prompt_env where
  "echo_engine = \<lparr>pe_engine = (\<lambda>t v. Rendered t), pe_schema = (\<lambda>v s. SchemaOk)\<rparr>"

theorem prompts_are_own_and_published_witness:
  "\<exists>out. render echo_engine (prompt_sample (own_version published)) 7 (lit ''rag_answer'') None None = Inr out
    \<and> (\<exists>v w. (v, w) \<in> set (ps_versions (prompt_sample (own_version published))) \<and> rp_version out = pv_number w \<and> pv_status w = published)"
proof -
  have "\<exists>out. render echo_engine (prompt_sample (own_version published)) 7 (lit ''rag_answer'') None None = Inr out"
    by (simp add: render_def active_version_def prompt_by_key_def visible_prompts_def prompt_sample_def own_version_def
        validate_variables_def render_template_def echo_engine_def)
  then obtain out where out: "render echo_engine (prompt_sample (own_version published)) 7 (lit ''rag_answer'') None None = Inr out" ..
  from prompts_are_own_and_published [OF this] out show ?thesis by blast
qed

lemma own_draft_hides_the_system_prompt:
  "render echo_engine (prompt_sample (own_version (lit ''draft''))) 7 (lit ''rag_answer'') None None = Inl not_found"
  by (simp add: render_def active_version_def prompt_by_key_def visible_prompts_def prompt_sample_def own_version_def published_def lit_def)

end
