(* ===== verification/Retrieval.thy ===== *)
theory Retrieval
  imports Retrievers Embedding Uploads
begin

text \<open>
  The read path: \<open>backend/services/rag/retrieval.py\<close> with the record it keeps of a query (\<open>backend/rag/trace.py\<close>), and the
  two searches of \<open>backend/repositories/knowledge.py\<close> as their \<open>WHERE\<close>, \<open>ORDER BY\<close> and \<open>LIMIT\<close> clauses. Every transaction
  of a query may see another state of the tables (\<open>ve_store\<close>). Parameters: the gateway, and what the two
  indexes do (the distance of vectors, the matches of a full-text query). Times are left out. Lemmas: where the
  chunks that reach the prompt come from, what a failure of the optional stages changes, and which
  embeddings are computed.
\<close>

subsection \<open>The environment\<close>

record retrieval_env =
  ve_embed :: "nat \<Rightarrow> ustring \<Rightarrow> ustring \<Rightarrow> app_exn + embed_reply"
  ve_rerank :: "nat \<Rightarrow> ustring \<Rightarrow> ustring list \<Rightarrow> int \<Rightarrow> app_exn + (int \<times> rat) list"
  ve_store :: "nat \<Rightarrow> kstore"
  ve_nearest :: "rat list \<Rightarrow> (uuid128 \<times> rat list) list \<Rightarrow> (uuid128 \<times> rat) list"
  ve_matches :: "nat \<Rightarrow> ustring \<Rightarrow> (uuid128 \<times> ustring) list \<Rightarrow> app_exn + (uuid128 \<times> rat) list"
  ve_tenant_config :: "nat \<Rightarrow> app_exn + obj"
  ve_settings :: app_settings
  ve_default_model :: ustring
  ve_rounding :: rounding
  ve_str_of :: "json \<Rightarrow> ustring"

record embedded_query =
  eq_vector :: "rat list"
  eq_model :: ustring
  eq_tokens :: int

record kb_snapshot =
  sn_id :: uuid128
  sn_model :: ustring
  sn_version :: int
  sn_config :: obj

subsection \<open>The trace\<close>

record route_trace =
  rt_name :: string
  rt_kb :: uuid128
  rt_count :: nat
  rt_scores :: "rat list"
  rt_ids :: "uuid128 list"
  rt_abstained :: bool

record rerank_trace =
  kt_applied :: bool
  kt_candidates :: nat
  kt_kept :: nat
  kt_threshold :: rat
  kt_scores :: "rat list"

record context_trace =
  xt_chunks :: nat
  xt_candidates :: nat
  xt_tokens :: nat
  xt_candidate_tokens :: nat
  xt_budget :: int

record citation_trace =
  ct_citations :: nat
  ct_dropped :: nat

record rag_trace =
  tr_mode :: ustring
  tr_stages :: "string list"
  tr_routes :: "route_trace list"
  tr_fused :: nat
  tr_rerank :: "rerank_trace option"
  tr_context :: "context_trace option"
  tr_citations :: "citation_trace option"
  tr_degraded :: "string list"

record retrieval_outcome =
  ro_chunks :: "retrieved_chunk list"
  ro_degraded :: "string list"
  ro_trace :: "rag_trace option"

definition max_recorded_candidates :: nat where
  "max_recorded_candidates = 20"

definition trace_builder :: "ustring \<Rightarrow> rag_trace" where
  "trace_builder mode =
     \<lparr>tr_mode = mode, tr_stages = [], tr_routes = [], tr_fused = 0, tr_rerank = None, tr_context = None,
      tr_citations = None, tr_degraded = []\<rparr>"

definition stage :: "string \<Rightarrow> rag_trace \<Rightarrow> rag_trace" where
  "stage name t = t\<lparr>tr_stages := (if name \<in> set (tr_stages t) then tr_stages t else tr_stages t @ [name])\<rparr>"

definition route :: "string \<Rightarrow> uuid128 \<Rightarrow> retrieved_chunk list \<Rightarrow> bool \<Rightarrow> rag_trace \<Rightarrow> rag_trace" where
  "route name kb found abstained t =
     (let passed = take max_recorded_candidates found
      in t\<lparr>tr_routes := tr_routes t @ [\<lparr>rt_name = name, rt_kb = kb, rt_count = length found,
             rt_scores = List.map score passed, rt_ids = List.map chunk_id passed, rt_abstained = abstained\<rparr>]\<rparr>)"

definition reranked :: "bool \<Rightarrow> nat \<Rightarrow> retrieved_chunk list \<Rightarrow> rat \<Rightarrow> rag_trace \<Rightarrow> rag_trace" where
  "reranked applied candidates passed threshold t =
     t\<lparr>tr_rerank := Some \<lparr>kt_applied = applied, kt_candidates = candidates,
         kt_kept = (if applied then length passed else candidates), kt_threshold = threshold,
         kt_scores = (if applied then List.map score (take max_recorded_candidates passed) else [])\<rparr>\<rparr>"

definition tokens_of :: "retrieved_chunk list \<Rightarrow> nat" where
  "tokens_of cs = sum_list (List.map (\<lambda>c. estimate_tokens (content c)) cs)"

definition selected_trace :: "retrieved_chunk list \<Rightarrow> retrieved_chunk list \<Rightarrow> int \<Rightarrow> rag_trace \<Rightarrow> rag_trace" where
  "selected_trace selected candidates token_budget t =
     t\<lparr>tr_context := Some \<lparr>xt_chunks = length selected, xt_candidates = length candidates, xt_tokens = tokens_of selected,
         xt_candidate_tokens = tokens_of candidates, xt_budget = token_budget\<rparr>\<rparr>"

definition compression_ratio :: "context_trace \<Rightarrow> rat" where
  "compression_ratio x =
     (if xt_candidate_tokens x = 0 then 1 else of_nat (xt_tokens x) / of_nat (xt_candidate_tokens x))"

definition build_trace :: "string list \<Rightarrow> rag_trace \<Rightarrow> rag_trace" where
  "build_trace degraded t = t\<lparr>tr_degraded := degraded\<rparr>"

definition with_citations :: "nat \<Rightarrow> nat \<Rightarrow> rag_trace \<Rightarrow> rag_trace" where
  "with_citations found lost t = t\<lparr>tr_citations := Some \<lparr>ct_citations = found, ct_dropped = lost\<rparr>\<rparr>"

subsection \<open>The two searches\<close>

text \<open>The rows both queries can see: current chunks of the knowledge base, joined with their document.\<close>

definition visible_rows :: "uuid128 \<Rightarrow> kstore \<Rightarrow> chunk_row list" where
  "visible_rows kb s = filter (\<lambda>c. cr_kb c = kb \<and> \<not> cr_superseded c) (ks_chunks s)"

definition chunk_meta :: "chunk_row \<Rightarrow> obj" where
  "chunk_meta c =
     [(lit ''page'', case cpage (cr_chunk c) of None \<Rightarrow> JNull | Some n \<Rightarrow> JInt n),
      (lit ''heading_path'', JList (List.map JStr (cheading_path (cr_chunk c))))]"

definition hit_of :: "kstore \<Rightarrow> chunk_row \<Rightarrow> rat \<Rightarrow> vector_hit option" where
  "hit_of s c x =
     map_option (\<lambda>r. \<lparr>hit_chunk = cr_id c, hit_document = cr_doc c, hit_name = dr_filename r, hit_version = cr_version c,
                      hit_content = ctext (cr_chunk c), hit_meta = chunk_meta c, hit_score = x\<rparr>)
       (map_of (ks_docs s) (cr_doc c))"

definition search_vectors ::
  "retrieval_env \<Rightarrow> rat list \<Rightarrow> uuid128 \<Rightarrow> ustring \<Rightarrow> int \<Rightarrow> int \<Rightarrow> kstore \<Rightarrow> vector_hit list" where
  "search_vectors E query kb model version n s =
     (let rows = visible_rows kb s;
          vectors = filter (\<lambda>(k, v). snd k = (model, version) \<and> list_ex (\<lambda>c. cr_id c = fst k) rows) (ks_vectors s);
          ranked = ve_nearest E query (List.map (\<lambda>(k, v). (fst k, v)) vectors);
          hits = List.map_filter (\<lambda>(i, distance). Option.bind (find (\<lambda>c. cr_id c = i) rows)
                    (\<lambda>c. hit_of s c (ve_rounding E (1 - distance)))) ranked
      in slice_to n hits)"

definition search_fts ::
  "retrieval_env \<Rightarrow> nat \<Rightarrow> ustring \<Rightarrow> uuid128 \<Rightarrow> int \<Rightarrow> kstore \<Rightarrow> app_exn + vector_hit list" where
  "search_fts E tx query kb n s =
     (if strip query = [] then Inl (foreign ''ValueError'')
      else
        let rows = visible_rows kb s
        in case ve_matches E tx (strip query) (List.map (\<lambda>c. (cr_id c, ctext (cr_chunk c))) rows) of
             Inl e \<Rightarrow> Inl e
           | Inr scores \<Rightarrow>
               let found = List.map_filter (\<lambda>c. map_option (\<lambda>x. (c, x)) (map_of scores (cr_id c))) rows;
                   best = slice_to n (sort_key (\<lambda>(c, x). (- x, cr_id c)) found)
               in Inr (List.map_filter (\<lambda>(c, x). hit_of s c x) best))"

subsection \<open>The service\<close>

text \<open>The state of one query: how many transactions and calls were made, the models asked for a vector, the cache of
  vectors (none for a single query), and the trace.\<close>

record query_state =
  qs_tx :: nat
  qs_calls :: nat
  qs_asked :: "ustring list"
  qs_cache :: "(ustring \<times> embedded_query) list option"
  qs_trace :: rag_trace

definition start_state :: "bool \<Rightarrow> query_state" where
  "start_state caching =
     \<lparr>qs_tx = 0, qs_calls = 0, qs_asked = [], qs_cache = (if caching then Some [] else None), qs_trace = trace_builder []\<rparr>"

definition traced :: "(rag_trace \<Rightarrow> rag_trace) \<Rightarrow> query_state \<Rightarrow> query_state" where
  "traced f st = st\<lparr>qs_trace := f (qs_trace st)\<rparr>"

definition read_store :: "retrieval_env \<Rightarrow> query_state \<Rightarrow> kstore \<times> query_state" where
  "read_store E st = (ve_store E (qs_tx st), st\<lparr>qs_tx := qs_tx st + 1\<rparr>)"

definition kb_snapshot_of :: "uuid128 \<Rightarrow> kstore \<Rightarrow> kb_snapshot option" where
  "kb_snapshot_of kb s =
     map_option (\<lambda>k. \<lparr>sn_id = kb, sn_model = kb_model k, sn_version = kb_version k, sn_config = or_else (kb_config k) []\<rparr>)
       (find_kb kb s)"

definition find_kb_snapshot :: "retrieval_env \<Rightarrow> uuid128 \<Rightarrow> query_state \<Rightarrow> kb_snapshot option \<times> query_state" where
  "find_kb_snapshot E kb st = (case read_store E st of (s, st1) \<Rightarrow> (kb_snapshot_of kb s, st1))"

definition tenant_config :: "retrieval_env \<Rightarrow> query_state \<Rightarrow> obj \<times> query_state" where
  "tenant_config E st =
     ((case ve_tenant_config E (qs_calls st) of Inl e \<Rightarrow> [] | Inr c \<Rightarrow> c), st\<lparr>qs_calls := qs_calls st + 1\<rparr>)"

definition text_of :: "json \<Rightarrow> ustring" where
  "text_of v = (case v of JStr s \<Rightarrow> s | _ \<Rightarrow> [])"

definition number_of :: "json \<Rightarrow> rat" where
  "number_of v = or_else (to_number v) 0"

text \<open>\<open>mode or params.retrieval_mode\<close>: an empty mode counts as none.\<close>

definition effective_mode :: "ustring option \<Rightarrow> rag_params \<Rightarrow> ustring" where
  "effective_mode mode params =
     (case mode of None \<Rightarrow> text_of (retrieval_mode params)
      | Some m \<Rightarrow> if m = [] then text_of (retrieval_mode params) else m)"

definition embed_query ::
  "retrieval_env \<Rightarrow> ustring \<Rightarrow> ustring \<Rightarrow> query_state \<Rightarrow> (app_exn + embedded_query) \<times> query_state" where
  "embed_query E query model st =
     (case Option.bind (qs_cache st) (\<lambda>c. map_of c model) of
        Some e \<Rightarrow> (Inr e, st)
      | None \<Rightarrow>
          let st1 = traced (stage ''embed'') (st\<lparr>qs_calls := qs_calls st + 1, qs_asked := qs_asked st @ [model]\<rparr>)
          in case ve_embed E (qs_calls st) query model of
               Inl e \<Rightarrow> (Inl e, st1)
             | Inr reply \<Rightarrow>
                 (case ep_vectors reply of
                    [] \<Rightarrow> (Inl (foreign ''IndexError''), st1)
                  | v # _ \<Rightarrow>
                      let e = \<lparr>eq_vector = v, eq_model = ep_model reply, eq_tokens = ep_tokens reply\<rparr>
                      in (Inr e, st1\<lparr>qs_cache := map_option (AList.update model e) (qs_cache st1)\<rparr>)))"

definition search_route ::
  "retrieval_env \<Rightarrow> kb_snapshot \<Rightarrow> ustring \<Rightarrow> int \<Rightarrow> query_state \<Rightarrow> (app_exn + retrieved_chunk list) \<times> query_state" where
  "search_route E kb query n st =
     (case embed_query E query (if sn_model kb \<noteq> [] then sn_model kb else ve_default_model E) st of
        (Inl e, st1) \<Rightarrow> (Inl e, st1)
      | (Inr q, st1) \<Rightarrow>
          (case read_store E st1 of
             (s, st2) \<Rightarrow>
               let found = to_retrieved (ve_str_of E) (search_vectors E (eq_vector q) (sn_id kb) (eq_model q) (sn_version kb) n s)
               in (Inr found, traced (route ''vector'' (sn_id kb) found False) (traced (stage ''vector'') st2))))"

definition fts_route ::
  "retrieval_env \<Rightarrow> kb_snapshot \<Rightarrow> ustring \<Rightarrow> int \<Rightarrow> query_state \<Rightarrow> (retrieved_chunk list \<times> bool) \<times> query_state" where
  "fts_route E kb query n st =
     (let fts = build_fts_query query
      in if fts = [] then (([], False), traced (route ''fts'' (sn_id kb) [] True) st)
         else
           case read_store E st of
             (s, st1) \<Rightarrow>
               (case search_fts E (qs_tx st) fts (sn_id kb) n s of
                  Inl e \<Rightarrow> (([], True), traced (route ''fts'' (sn_id kb) [] False) (traced (stage ''fts'') st1))
                | Inr hits \<Rightarrow>
                    let found = to_retrieved (ve_str_of E) hits
                    in ((found, False), traced (route ''fts'' (sn_id kb) found False) (traced (stage ''fts'') st1))))"

definition retrieve ::
  "retrieval_env \<Rightarrow> kb_snapshot \<Rightarrow> ustring \<Rightarrow> rag_params \<Rightarrow> int \<Rightarrow> ustring option \<Rightarrow> query_state
   \<Rightarrow> (app_exn + retrieved_chunk list list \<times> string list) \<times> query_state" where
  "retrieve E kb query params n mode st =
     (case search_route E kb query n st of
        (Inl e, st1) \<Rightarrow> (Inl e, st1)
      | (Inr found, st1) \<Rightarrow>
          let gate = (\<lambda>cs. gate_by_score (ve_rounding E) cs (number_of (min_score_ratio params)))
          in if starts_with (lit ''hybrid'') (effective_mode mode params) then
               (case fts_route E kb query (int_value (fts_top_k params)) st1 of
                  ((keyword, failed), st2) \<Rightarrow>
                    (Inr (if keyword \<noteq> [] then [gate found, gate keyword] else [gate found], if failed then [''fts''] else []), st2))
             else (Inr ([gate found], []), st1))"

definition reorder :: "retrieved_chunk list \<Rightarrow> (int \<times> rat) list \<Rightarrow> retrieved_chunk list" where
  "reorder candidates docs =
     List.map (\<lambda>(i, x). (candidates ! nat i)\<lparr>score := x\<rparr>) (filter (\<lambda>(i, x). 0 \<le> i \<and> i < int (length candidates)) docs)"

definition rerank_stage ::
  "retrieval_env \<Rightarrow> ustring \<Rightarrow> retrieved_chunk list \<Rightarrow> rag_params \<Rightarrow> ustring option \<Rightarrow> string list \<Rightarrow> query_state
   \<Rightarrow> retrieval_outcome \<times> query_state" where
  "rerank_stage E query candidates params mode degraded st =
     (if \<not> ends_with (lit ''+rerank'') (effective_mode mode params) \<or> candidates = []
      then (\<lparr>ro_chunks = candidates, ro_degraded = degraded, ro_trace = None\<rparr>, st)
      else
        let st1 = traced (stage ''rerank'') (st\<lparr>qs_calls := qs_calls st + 1\<rparr>);
            threshold = number_of (rerank_threshold params)
        in case ve_rerank E (qs_calls st) query (List.map content candidates) (int_value (context_chunks params)) of
             Inl e \<Rightarrow>
               (\<lparr>ro_chunks = candidates, ro_degraded = dedup [] (degraded @ [''rerank'']), ro_trace = None\<rparr>,
                traced (reranked False (length candidates) [] threshold) st1)
           | Inr docs \<Rightarrow>
               let passed = gate_by_absolute_score (reorder candidates docs) threshold
               in (\<lparr>ro_chunks = passed, ro_degraded = degraded, ro_trace = None\<rparr>,
                   traced (reranked True (length candidates) passed threshold) st1))"

definition fuse_stage ::
  "retrieval_env \<Rightarrow> retrieved_chunk list list \<Rightarrow> rag_params \<Rightarrow> query_state \<Rightarrow> retrieved_chunk list \<times> query_state" where
  "fuse_stage E groups params st =
     (let found = fuse_candidates (ve_rounding E) groups (nat (int_value (rrf_k params))) (int_value (hybrid_candidates params))
      in (found, traced (\<lambda>t. t\<lparr>tr_fused := length found\<rparr>) (traced (stage ''fuse'') st)))"

definition value_error :: app_exn where
  "value_error = foreign ''ValueError''"

text \<open>\<open>/rag/query\<close>: one knowledge base, no context.\<close>

definition query_kb ::
  "retrieval_env \<Rightarrow> uuid128 \<Rightarrow> ustring \<Rightarrow> int option \<Rightarrow> ustring option \<Rightarrow> (app_exn + retrieval_outcome) \<times> query_state" where
  "query_kb E kb query n mode =
     (let wanted = normalise_query query; st = start_state False
      in if wanted = [] then (Inl value_error, st)
         else
           case find_kb_snapshot E kb st of
             (None, st1) \<Rightarrow> (Inl not_found, st1)
           | (Some sn, st1) \<Rightarrow>
               (case tenant_config E st1 of
                  (tenant, st2) \<Rightarrow>
                    let params = resolve_rag_params (ve_rounding E) (ve_settings E) (Some (sn_config sn)) (Some tenant);
                        limit = or_else n (int_value (top_k params))
                    in if limit < 1 \<or> max_top_k < limit then (Inl value_error, st2)
                       else
                         case retrieve E sn wanted params limit mode
                                (traced (\<lambda>t. t\<lparr>tr_mode := effective_mode mode params\<rparr>) st2) of
                           (Inl e, st3) \<Rightarrow> (Inl e, st3)
                         | (Inr (groups, degraded), st3) \<Rightarrow>
                             (case fuse_stage E groups params st3 of
                                (found, st4) \<Rightarrow>
                                  (case rerank_stage E wanted found params mode degraded st4 of
                                     (outcome, st5) \<Rightarrow>
                                       (Inr (outcome\<lparr>ro_trace := Some (build_trace (ro_degraded outcome) (qs_trace st5))\<rparr>), st5)))))"

fun find_kbs :: "retrieval_env \<Rightarrow> uuid128 list \<Rightarrow> query_state \<Rightarrow> kb_snapshot list \<times> query_state" where
  "find_kbs E [] st = ([], st)"
| "find_kbs E (kb # kbs) st =
     (case find_kb_snapshot E kb st of
        (found, st1) \<Rightarrow>
          (case find_kbs E kbs st1 of
             (rest, st2) \<Rightarrow> (case found of None \<Rightarrow> (rest, st2) | Some sn \<Rightarrow> (sn # rest, st2))))"

fun retrieve_all ::
  "retrieval_env \<Rightarrow> kb_snapshot list \<Rightarrow> ustring \<Rightarrow> rag_params \<Rightarrow> ustring option \<Rightarrow> retrieved_chunk list list \<Rightarrow> string list \<Rightarrow> query_state
   \<Rightarrow> (app_exn + retrieved_chunk list list \<times> string list) \<times> query_state" where
  "retrieve_all E [] query params mode groups degraded st = (Inr (groups, degraded), st)"
| "retrieve_all E (kb # kbs) query params mode groups degraded st =
     (case retrieve E kb query params (int_value (top_k params)) mode st of
        (Inl e, st1) \<Rightarrow> (Inl e, st1)
      | (Inr (gs, ds), st1) \<Rightarrow> retrieve_all E kbs query params mode (groups @ gs) (dedup [] (degraded @ ds)) st1)"

definition nothing_found :: retrieval_outcome where
  "nothing_found = \<lparr>ro_chunks = [], ro_degraded = [], ro_trace = None\<rparr>"

definition select_stage ::
  "retrieval_outcome \<Rightarrow> rag_params \<Rightarrow> query_state \<Rightarrow> retrieval_outcome \<times> query_state" where
  "select_stage outcome params st =
     (let selected = select_context (ro_chunks outcome) (int_value (context_chunks params)) (int_value (context_token_budget params));
          st1 = traced (selected_trace selected (ro_chunks outcome) (int_value (context_token_budget params)))
                  (traced (stage ''select'') st)
      in (\<lparr>ro_chunks = selected, ro_degraded = ro_degraded outcome,
           ro_trace = Some (build_trace (ro_degraded outcome) (qs_trace st1))\<rparr>, st1))"

definition retrieve_for_chat ::
  "retrieval_env \<Rightarrow> uuid128 list \<Rightarrow> ustring \<Rightarrow> ustring option \<Rightarrow> (app_exn + retrieval_outcome) \<times> query_state" where
  "retrieve_for_chat E kb_ids query mode =
     (let wanted = normalise_query query; st = start_state True
      in if wanted = [] \<or> kb_ids = [] then (Inr nothing_found, st)
         else
           case find_kbs E kb_ids st of
             ([], st1) \<Rightarrow> (Inr nothing_found, st1)
           | (sn # sns, st1) \<Rightarrow>
               (case tenant_config E st1 of
                  (tenant, st2) \<Rightarrow>
                    let params = resolve_rag_params (ve_rounding E) (ve_settings E) (Some (sn_config sn)) (Some tenant)
                    in case retrieve_all E (sn # sns) wanted params mode [] []
                              (traced (\<lambda>t. t\<lparr>tr_mode := effective_mode mode params\<rparr>) st2) of
                         (Inl e, st3) \<Rightarrow> (Inl e, st3)
                       | (Inr (groups, degraded), st3) \<Rightarrow>
                           (case fuse_stage E groups params st3 of
                              (found, st4) \<Rightarrow>
                                (case rerank_stage E wanted found params mode degraded st4 of
                                   (outcome, st5) \<Rightarrow>
                                     (case select_stage outcome params st5 of (res, st6) \<Rightarrow> (Inr res, st6))))))"

fun params_for_kbs :: "retrieval_env \<Rightarrow> obj \<Rightarrow> uuid128 list \<Rightarrow> query_state \<Rightarrow> rag_params" where
  "params_for_kbs E tenant [] st = resolve_rag_params (ve_rounding E) (ve_settings E) None (Some tenant)"
| "params_for_kbs E tenant (kb # kbs) st =
     (case find_kb_snapshot E kb st of
        (None, st1) \<Rightarrow> params_for_kbs E tenant kbs st1
      | (Some sn, st1) \<Rightarrow> resolve_rag_params (ve_rounding E) (ve_settings E) (Some (sn_config sn)) (Some tenant))"

definition params_for :: "retrieval_env \<Rightarrow> uuid128 list \<Rightarrow> rag_params" where
  "params_for E kb_ids = (case tenant_config E (start_state False) of (tenant, st) \<Rightarrow> params_for_kbs E tenant kb_ids st)"

definition default_top_k :: "retrieval_env \<Rightarrow> int" where
  "default_top_k E = int_value (top_k (resolve_rag_params (ve_rounding E) (ve_settings E) None None))"

subsection \<open>Where a chunk comes from\<close>

text \<open>A chunk of the answer, up to its score, is a row that was current in one of the given knowledge bases when it was
  read.\<close>

definition genuine :: "retrieval_env \<Rightarrow> uuid128 set \<Rightarrow> retrieved_chunk \<Rightarrow> bool" where
  "genuine E kbs c =
     (\<exists>n. \<exists>row \<in> set (ks_chunks (ve_store E n)). \<not> cr_superseded row \<and> cr_kb row \<in> kbs \<and> chunk_id c = cr_id row
        \<and> document_id c = cr_doc row \<and> doc_version c = cr_version row \<and> content c = ctext (cr_chunk row))"

lemma genuine_score [simp]: "genuine E kbs (c\<lparr>score := x\<rparr>) = genuine E kbs c"
  by (simp add: genuine_def)

lemma genuine_mono: "genuine E kbs c \<Longrightarrow> kbs \<subseteq> kbs' \<Longrightarrow> genuine E kbs' c"
  by (auto simp: genuine_def)

lemma set_map_filter: "set (List.map_filter f xs) = {y. \<exists>x \<in> set xs. f x = Some y}"
  by (force simp: List.map_filter_def image_iff)

lemma hit_genuine:
  assumes "hit_of (ve_store E n) c x = Some h" "c \<in> set (visible_rows kb (ve_store E n))"
    and "r \<in> set (to_retrieved str_of [h])"
  shows "genuine E {kb} r"
proof -
  have "c \<in> set (ks_chunks (ve_store E n)) \<and> \<not> cr_superseded c \<and> cr_kb c \<in> {kb} \<and> chunk_id r = cr_id c
      \<and> document_id r = cr_doc c \<and> doc_version r = cr_version c \<and> content r = ctext (cr_chunk c)"
    using assms by (auto simp: hit_of_def visible_rows_def to_retrieved_def)
  then show ?thesis unfolding genuine_def by blast
qed

lemma to_retrieved_each: "r \<in> set (to_retrieved str_of hits) \<Longrightarrow> \<exists>h \<in> set hits. r \<in> set (to_retrieved str_of [h])"
  by (auto simp: to_retrieved_def)

lemma search_vectors_genuine:
  assumes "r \<in> set (to_retrieved str_of (search_vectors E query kb model version n (ve_store E i)))"
  shows "genuine E {kb} r"
proof -
  obtain h where h: "h \<in> set (search_vectors E query kb model version n (ve_store E i))" "r \<in> set (to_retrieved str_of [h])"
    using to_retrieved_each [OF assms] by blast
  then obtain c x where "hit_of (ve_store E i) c x = Some h" "c \<in> set (visible_rows kb (ve_store E i))"
    using slice_to_subset by (fastforce simp: search_vectors_def Let_def set_map_filter bind_eq_Some_conv find_Some_iff)
  with h(2) show ?thesis by (rule hit_genuine [rotated 2])
qed

lemma search_fts_genuine:
  assumes "search_fts E tx query kb n (ve_store E i) = Inr hits" "r \<in> set (to_retrieved str_of hits)"
  shows "genuine E {kb} r"
proof -
  obtain h where h: "h \<in> set hits" "r \<in> set (to_retrieved str_of [h])"
    using to_retrieved_each [OF assms(2)] by blast
  then obtain c x where "hit_of (ve_store E i) c x = Some h" "c \<in> set (visible_rows kb (ve_store E i))"
    using assms(1) slice_to_subset
    by (fastforce simp: search_fts_def Let_def set_map_filter split: if_splits sum.splits)
  with h(2) show ?thesis by (rule hit_genuine [rotated 2])
qed

lemma gate_by_score_subset: "set (gate_by_score fl cs x) \<subseteq> set cs"
  by (auto simp: gate_by_score_def Let_def split: list.splits if_splits)

lemma search_route_genuine:
  "search_route E kb query n st = (Inr found, st') \<Longrightarrow> r \<in> set found \<Longrightarrow> genuine E {sn_id kb} r"
  by (auto simp: search_route_def read_store_def Let_def split: prod.splits sum.splits intro: search_vectors_genuine)

lemma fts_route_genuine:
  "fts_route E kb query n st = ((found, failed), st') \<Longrightarrow> r \<in> set found \<Longrightarrow> genuine E {sn_id kb} r"
  by (auto simp: fts_route_def read_store_def Let_def split: prod.splits sum.splits if_splits intro: search_fts_genuine)

lemma retrieve_genuine:
  assumes "retrieve E kb query params n mode st = (Inr (groups, degraded), st')" "g \<in> set groups" "c \<in> set g"
  shows "genuine E {sn_id kb} c"
proof -
  obtain found st1 where found: "search_route E kb query n st = (Inr found, st1)"
    using assms(1) by (auto simp: retrieve_def split: prod.splits sum.splits)
  obtain keyword failed st2 where fts: "fts_route E kb query (int_value (fts_top_k params)) st1 = ((keyword, failed), st2)"
    by (metis prod.collapse)
  have "set g \<subseteq> set found \<or> set g \<subseteq> set keyword"
    using assms(1,2) found fts gate_by_score_subset by (fastforce simp: retrieve_def Let_def split: if_splits)
  with assms(3) search_route_genuine [OF found] fts_route_genuine [OF fts] show ?thesis by blast
qed

lemma retrieve_all_genuine:
  assumes "retrieve_all E kbs query params mode groups degraded st = (Inr (groups', degraded'), st')"
    and "\<forall>g \<in> set groups. \<forall>c \<in> set g. genuine E A c" "sn_id ` set kbs \<subseteq> A"
  shows "\<forall>g \<in> set groups'. \<forall>c \<in> set g. genuine E A c"
  using assms
proof (induction kbs arbitrary: groups degraded st)
  case Nil
  then show ?case by simp
next
  case (Cons kb kbs)
  obtain gs ds st1 where r: "retrieve E kb query params (int_value (top_k params)) mode st = (Inr (gs, ds), st1)"
    "retrieve_all E kbs query params mode (groups @ gs) (dedup [] (degraded @ ds)) st1 = (Inr (groups', degraded'), st')"
    using Cons.prems(1) by (auto split: prod.splits sum.splits)
  have "\<forall>g \<in> set (groups @ gs). \<forall>c \<in> set g. genuine E A c"
    using Cons.prems(2,3) retrieve_genuine [OF r(1)] genuine_mono [of E "{sn_id kb}" _ A] by fastforce
  with Cons.IH [OF r(2)] Cons.prems(3) show ?case by simp
qed

text \<open>Fusion keeps the chunks of its groups, with another score.\<close>

definition chunks_from :: "retrieved_chunk set \<Rightarrow> fusion \<Rightarrow> bool" where
  "chunks_from A st = (\<forall>key c. fchunks st key = Some c \<longrightarrow> c \<in> A)"

lemma add_rank_from: "chunks_from A st \<Longrightarrow> c \<in> A \<Longrightarrow> chunks_from A (add_rank fl k index rank c st)"
  by (auto simp: chunks_from_def add_rank_def Let_def split: option.splits if_splits)

lemma fuse_group_from: "chunks_from A st \<Longrightarrow> set g \<subseteq> A \<Longrightarrow> chunks_from A (fuse_group fl k index rank seen g st)"
  by (induction fl k index rank seen g st rule: fuse_group.induct) (auto simp: add_rank_from)

lemma fuse_groups_from: "chunks_from A st \<Longrightarrow> \<Union> (set ` set gs) \<subseteq> A \<Longrightarrow> chunks_from A (fuse_groups fl k index gs st)"
  by (induction fl k index gs st rule: fuse_groups.induct) (auto simp: fuse_group_from)

lemma fuse_candidates_from:
  assumes "c \<in> set (fuse_candidates fl groups k limit)"
  obtains g c0 x where "g \<in> set groups" "c0 \<in> set g" "c = c0\<lparr>score := x\<rparr>"
proof -
  let ?st = "fused fl k groups"
  have "chunks_from (\<Union> (set ` set groups)) ?st"
    unfolding fused_def by (rule fuse_groups_from) (auto simp: chunks_from_def)
  moreover obtain key x where key: "key \<in> fst ` set (fscores ?st)" "c = (the (fchunks ?st key))\<lparr>score := x\<rparr>"
    using assms slice_to_subset by (fastforce simp: fuse_candidates_def Let_def fused_def)
  moreover have "key \<in> dom (fchunks ?st)"
    using key(1) fused_ok [of fl k groups] by (simp add: fusion_ok_def)
  then obtain c0 where "fchunks ?st key = Some c0" by blast
  ultimately show ?thesis using that by (fastforce simp: chunks_from_def)
qed

subsection \<open>What reaches the prompt\<close>

definition found_kbs :: "retrieval_env \<Rightarrow> uuid128 list \<Rightarrow> uuid128 set" where
  "found_kbs E kb_ids = {kb \<in> set kb_ids. \<exists>n. find_kb kb (ve_store E n) \<noteq> None}"

lemma find_kbs_found: "find_kbs E kb_ids st = (sns, st') \<Longrightarrow> sn_id ` set sns \<subseteq> found_kbs E kb_ids"
proof (induction kb_ids arbitrary: st sns st')
  case (Cons kb kbs)
  obtain found st1 where f: "find_kb_snapshot E kb st = (found, st1)" by (metis prod.collapse)
  obtain rest st2 where r: "find_kbs E kbs st1 = (rest, st2)" by (metis prod.collapse)
  have "found_kbs E kbs \<subseteq> found_kbs E (kb # kbs)" by (auto simp: found_kbs_def)
  moreover have "found = Some sn \<Longrightarrow> sn_id sn \<in> found_kbs E (kb # kbs)" for sn
    using f by (auto simp: find_kb_snapshot_def read_store_def kb_snapshot_of_def found_kbs_def intro: exI [of _ "qs_tx st"])
  ultimately show ?case using Cons.IH [OF r] Cons.prems f r by (fastforce split: option.splits)
qed simp

lemma fuse_stage_genuine:
  assumes "fuse_stage E groups params st = (found, st')" "\<forall>g \<in> set groups. \<forall>c \<in> set g. genuine E A c" "c \<in> set found"
  shows "genuine E A c"
proof -
  have "c \<in> set (fuse_candidates (ve_rounding E) groups (nat (int_value (rrf_k params))) (int_value (hybrid_candidates params)))"
    using assms(1,3) by (simp add: fuse_stage_def Let_def)
  then show ?thesis using assms(2) by (elim fuse_candidates_from) simp
qed

lemma reorder_genuine: "\<forall>c \<in> set candidates. genuine E A c \<Longrightarrow> c \<in> set (reorder candidates docs) \<Longrightarrow> genuine E A c"
  by (auto simp: reorder_def)

lemma gate_by_absolute_score_subset: "set (gate_by_absolute_score cs x) \<subseteq> set cs"
  by (auto simp: gate_by_absolute_score_def)

lemma rerank_genuine:
  assumes "rerank_stage E query candidates params mode degraded st = (outcome, st')" "\<forall>c \<in> set candidates. genuine E A c"
    and "c \<in> set (ro_chunks outcome)"
  shows "genuine E A c"
  using assms gate_by_absolute_score_subset reorder_genuine [OF assms(2)]
  by (fastforce simp: rerank_stage_def Let_def split: if_splits sum.splits)

lemma select_context_subset: "set (select_context cs n budget) \<subseteq> set cs"
proof -
  obtain k where "select_loop budget (slice_to n cs) [] 0 = take k (slice_to n cs)"
    using select_loop_prefix [of "slice_to n cs" budget "[]"] by (auto simp del: take_eq_Nil)
  then show ?thesis using slice_to_subset [of n cs] set_take_subset [of k "slice_to n cs"]
    by (auto simp: select_context_def)
qed

text \<open>The stages of one answer, named once for the proofs.\<close>

lemma retrieve_for_chat_cases:
  assumes "retrieve_for_chat E kb_ids query mode = (Inr out, st)"
  obtains "out = nothing_found"
  | sn sns st1 tenant st2 params groups degraded st3 found st4 outcome st5 where
      "find_kbs E kb_ids (start_state True) = (sn # sns, st1)" "tenant_config E st1 = (tenant, st2)"
      "params = resolve_rag_params (ve_rounding E) (ve_settings E) (Some (sn_config sn)) (Some tenant)"
      "retrieve_all E (sn # sns) (normalise_query query) params mode [] []
         (traced (\<lambda>t. t\<lparr>tr_mode := effective_mode mode params\<rparr>) st2) = (Inr (groups, degraded), st3)"
      "fuse_stage E groups params st3 = (found, st4)"
      "rerank_stage E (normalise_query query) found params mode degraded st4 = (outcome, st5)"
      "select_stage outcome params st5 = (out, st)"
  using assms
  by (auto simp: retrieve_for_chat_def Let_def simp del: retrieve_all.simps split: if_splits prod.splits list.splits sum.splits)

lemma chunks_genuine:
  assumes "retrieve_for_chat E kb_ids query mode = (Inr out, st)" "c \<in> set (ro_chunks out)"
  shows "genuine E (found_kbs E kb_ids) c"
  using assms(1)
proof (cases rule: retrieve_for_chat_cases)
  case 1
  with assms(2) show ?thesis by (simp add: nothing_found_def)
next
  case (2 sn sns st1 tenant st2 params groups degraded st3 found st4 outcome st5)
  have "\<forall>g \<in> set groups. \<forall>c \<in> set g. genuine E (found_kbs E kb_ids) c"
    by (rule retrieve_all_genuine [OF 2(4) _ find_kbs_found [OF 2(1)]]) simp
  then have "\<forall>c \<in> set (ro_chunks outcome). genuine E (found_kbs E kb_ids) c"
    using fuse_stage_genuine [OF 2(5)] rerank_genuine [OF 2(6)] by blast
  moreover have "c \<in> set (ro_chunks outcome)"
    using 2(7) assms(2) select_context_subset by (fastforce simp: select_stage_def Let_def)
  ultimately show ?thesis by blast
qed


subsection \<open>Without the optional stages\<close>

definition same_calls :: "query_state \<Rightarrow> query_state \<Rightarrow> bool" where
  "same_calls a b \<longleftrightarrow> qs_calls a = qs_calls b \<and> qs_cache a = qs_cache b"

lemma same_calls_traced [simp]:
  "same_calls (traced f a) b = same_calls a b" "same_calls a (traced f b) = same_calls a b"
  by (simp_all add: same_calls_def traced_def)

lemma same_calls_tx [simp]:
  "same_calls (a\<lparr>qs_tx := n\<rparr>) b = same_calls a b" "same_calls a (b\<lparr>qs_tx := n\<rparr>) = same_calls a b"
  by (simp_all add: same_calls_def)

lemma same_calls_refl [simp]: "same_calls a a"
  by (simp add: same_calls_def)

lemma embed_query_same:
  "same_calls a b \<Longrightarrow> fst (embed_query E query model a) = fst (embed_query E query model b)
     \<and> same_calls (snd (embed_query E query model a)) (snd (embed_query E query model b))"
  by (auto simp: embed_query_def same_calls_def traced_def Let_def split: option.splits sum.splits list.splits)

lemma search_route_same:
  assumes "same_calls a b" "\<forall>n. ve_store E n = s"
  shows "fst (search_route E kb query n a) = fst (search_route E kb query n b)
     \<and> same_calls (snd (search_route E kb query n a)) (snd (search_route E kb query n b))"
proof -
  let ?m = "if sn_model kb \<noteq> [] then sn_model kb else ve_default_model E"
  obtain r a1 where a1: "embed_query E query ?m a = (r, a1)" by (metis prod.collapse)
  with embed_query_same [OF assms(1), of E query ?m] obtain b1 where b1: "embed_query E query ?m b = (r, b1)" "same_calls a1 b1"
    by (metis fst_conv prod.collapse snd_conv)
  show ?thesis unfolding search_route_def a1 b1(1) using b1(2) assms(2)
    by (cases r) (simp_all add: read_store_def Let_def)
qed

definition vector_mode :: "ustring option" where
  "vector_mode = Some (lit ''vector'')"

lemma effective_vector [simp]:
  "\<not> starts_with (lit ''hybrid'') (effective_mode vector_mode params)"
  "\<not> ends_with (lit ''+rerank'') (effective_mode vector_mode params)"
  by (simp_all add: effective_mode_def vector_mode_def lit_def starts_with_def ends_with_def)

definition optional_stages_down :: "retrieval_env \<Rightarrow> bool" where
  "optional_stages_down E \<longleftrightarrow>
     (\<forall>tx query rows. \<exists>e. ve_matches E tx query rows = Inl e) \<and> (\<forall>n query texts k. \<exists>e. ve_rerank E n query texts k = Inl e)
     \<and> (\<forall>n. ve_store E n = ve_store E 0)"

lemma fts_route_down:
  assumes "optional_stages_down E" "fts_route E kb query n st = ((keyword, failed), st')"
  shows "keyword = [] \<and> same_calls st st'"
proof -
  have failing: "\<exists>e. ve_matches E tx query rows = Inl e" for tx query rows
    using assms(1) unfolding optional_stages_down_def by blast
  obtain e where "search_fts E (qs_tx st) (build_fts_query query) (sn_id kb) n (ve_store E (qs_tx st)) = Inl e"
  proof (cases "strip (build_fts_query query) = []")
    case False
    from failing obtain e where "ve_matches E (qs_tx st) (strip (build_fts_query query))
      (List.map (\<lambda>c. (cr_id c, ctext (cr_chunk c))) (visible_rows (sn_id kb) (ve_store E (qs_tx st)))) = Inl e"
      by blast
    with False that show ?thesis by (simp add: search_fts_def Let_def)
  qed (simp add: search_fts_def that)
  with assms(2) show ?thesis by (auto simp: fts_route_def read_store_def Let_def split: if_splits)
qed

lemma retrieve_down:
  assumes "optional_stages_down E" "same_calls a b"
  shows "map_sum id fst (fst (retrieve E kb query params n mode a)) = map_sum id fst (fst (retrieve E kb query params n vector_mode b))
     \<and> same_calls (snd (retrieve E kb query params n mode a)) (snd (retrieve E kb query params n vector_mode b))"
proof -
  obtain r a1 where a1: "search_route E kb query n a = (r, a1)" by (metis prod.collapse)
  obtain b1 where b1: "search_route E kb query n b = (r, b1)" "same_calls a1 b1"
    using search_route_same [OF assms(2), of E "ve_store E 0" kb query n] assms(1) a1
    by (auto simp: optional_stages_down_def prod_eq_iff)
  obtain keyword failed a2 where a2: "fts_route E kb query (int_value (fts_top_k params)) a1 = ((keyword, failed), a2)"
    by (metis prod.collapse)
  with fts_route_down [OF assms(1) a2] have "keyword = []" "same_calls a1 a2" by simp_all
  moreover from this b1(2) have "same_calls a2 b1" by (simp add: same_calls_def)
  ultimately show ?thesis using a1 b1 a2 by (cases r) (auto simp: retrieve_def Let_def)
qed

lemma retrieve_all_down:
  assumes "optional_stages_down E" "same_calls a b"
  shows "map_sum id fst (fst (retrieve_all E kbs query params mode groups d a))
       = map_sum id fst (fst (retrieve_all E kbs query params vector_mode groups d' b))
     \<and> same_calls (snd (retrieve_all E kbs query params mode groups d a))
         (snd (retrieve_all E kbs query params vector_mode groups d' b))"
  using assms(2)
proof (induction kbs arbitrary: groups d d' a b)
  case (Cons kb kbs)
  let ?n = "int_value (top_k params)"
  obtain r a1 where a1: "retrieve E kb query params ?n mode a = (r, a1)" by (metis prod.collapse)
  obtain r' b1 where b1: "retrieve E kb query params ?n vector_mode b = (r', b1)" by (metis prod.collapse)
  have same: "map_sum id fst r = map_sum id fst r'" "same_calls a1 b1"
    using retrieve_down [OF assms(1) Cons.prems, of kb query params ?n mode] a1 b1 by simp_all
  show ?case
  proof (cases r)
    case (Inl e)
    with same(1) have "r' = Inl e" by (cases r') auto
    with Inl a1 b1 same(2) show ?thesis by simp
  next
    case (Inr g)
    then obtain gs ds where g: "r = Inr (gs, ds)" by (cases g) simp
    with same(1) obtain ds' where "r' = Inr (gs, ds')" by (cases r') auto
    with g a1 b1 Cons.IH [OF same(2)] show ?thesis by simp
  qed
qed simp

lemma rerank_down:
  assumes "optional_stages_down E"
  shows "ro_chunks (fst (rerank_stage E query candidates params mode d st)) = candidates"
proof -
  obtain e where "ve_rerank E (qs_calls st) query (List.map content candidates) (int_value (context_chunks params)) = Inl e"
    using assms unfolding optional_stages_down_def by blast
  then show ?thesis by (simp add: rerank_stage_def Let_def)
qed

definition answer :: "app_exn + retrieval_outcome \<Rightarrow> app_exn + retrieved_chunk list" where
  "answer r = map_sum id ro_chunks r"

text \<open>C28. The optional stages fail softly. When every full-text query and every rerank call fails, the answer is the one that
  the plain vector mode gives, whatever mode is set: the same chunks in the same order, or the same error.\<close>

theorem optional_stages_fail_softly:
  assumes "optional_stages_down E"
  shows "answer (fst (retrieve_for_chat E kb_ids query mode)) = answer (fst (retrieve_for_chat E kb_ids query vector_mode))"
proof -
  obtain sns st1 where f: "find_kbs E kb_ids (start_state True) = (sns, st1)" by (metis prod.collapse)
  obtain tenant st2 where t: "tenant_config E st1 = (tenant, st2)" by (metis prod.collapse)
  show ?thesis
  proof (cases sns)
    case Nil
    with f show ?thesis by (simp add: retrieve_for_chat_def Let_def)
  next
    case (Cons sn sns')
    let ?p = "resolve_rag_params (ve_rounding E) (ve_settings E) (Some (sn_config sn)) (Some tenant)"
    let ?st = "\<lambda>m. traced (\<lambda>t. t\<lparr>tr_mode := effective_mode m ?p\<rparr>) st2"
    let ?all = "\<lambda>m. retrieve_all E sns (normalise_query query) ?p m [] [] (?st m)"
    have same: "map_sum id fst (fst (?all mode)) = map_sum id fst (fst (?all vector_mode))"
      using retrieve_all_down [OF assms, of "?st mode" "?st vector_mode"] by simp
    obtain r st3 where r: "?all mode = (r, st3)" by (metis prod.collapse)
    obtain r' st3' where r': "?all vector_mode = (r', st3')" by (metis prod.collapse)
    have chunks: "ro_chunks (fst (rerank_stage E query found ?p m d st)) = found" for found m d st query
      by (rule rerank_down [OF assms])
    have finish: "ro_chunks (fst (select_stage out ?p st)) = select_context (ro_chunks out) (int_value (context_chunks ?p))
        (int_value (context_token_budget ?p))" for out st
      by (simp add: select_stage_def Let_def)
    show ?thesis
    proof (cases r)
      case (Inl e)
      with same r r' have "r' = Inl e" by (cases r') auto
      with Inl f t r r' Cons show ?thesis by (simp add: retrieve_for_chat_def Let_def del: retrieve_all.simps)
    next
      case (Inr g)
      then obtain gs ds where g: "r = Inr (gs, ds)" by (cases g) simp
      with same r r' obtain ds' where g': "r' = Inr (gs, ds')" by (cases r') auto
      show ?thesis
        using f t r r' Cons g g'
        by (simp add: retrieve_for_chat_def Let_def answer_def fuse_stage_def case_prod_unfold finish chunks del: retrieve_all.simps)
    qed
  qed
qed


subsection \<open>What is asked of the gateway\<close>

definition query_models :: "retrieval_env \<Rightarrow> uuid128 list \<Rightarrow> ustring set" where
  "query_models E kb_ids =
     {if kb_model k \<noteq> [] then kb_model k else ve_default_model E |k. \<exists>kb \<in> set kb_ids. \<exists>n. find_kb kb (ve_store E n) = Some k}"

definition sn_query_model :: "retrieval_env \<Rightarrow> kb_snapshot \<Rightarrow> ustring" where
  "sn_query_model E sn = (if sn_model sn \<noteq> [] then sn_model sn else ve_default_model E)"

lemma find_kbs_models: "find_kbs E kb_ids st = (sns, st') \<Longrightarrow> sn_query_model E ` set sns \<subseteq> query_models E kb_ids"
proof (induction kb_ids arbitrary: st sns st')
  case (Cons kb kbs)
  obtain found st1 where f: "find_kb_snapshot E kb st = (found, st1)" by (metis prod.collapse)
  obtain rest st2 where r: "find_kbs E kbs st1 = (rest, st2)" by (metis prod.collapse)
  have "query_models E kbs \<subseteq> query_models E (kb # kbs)" by (auto simp: query_models_def)
  moreover have "sn_query_model E sn \<in> query_models E (kb # kbs)" if sn: "found = Some sn" for sn
  proof -
    obtain k where k: "find_kb kb (ve_store E (qs_tx st)) = Some k" "sn_model sn = kb_model k"
      using f sn by (auto simp: find_kb_snapshot_def read_store_def kb_snapshot_of_def)
    show ?thesis unfolding query_models_def sn_query_model_def mem_Collect_eq using k
      by (intro exI [of _ k] conjI bexI [of _ kb] exI [of _ "qs_tx st"]) simp_all
  qed
  ultimately show ?case using Cons.IH [OF r] Cons.prems f r by (fastforce split: option.splits)
qed simp

lemma find_kbs_kept: "find_kbs E kb_ids st = (sns, st') \<Longrightarrow> qs_asked st' = qs_asked st \<and> qs_cache st' = qs_cache st"
  by (induction kb_ids arbitrary: st sns st')
    (fastforce simp: find_kb_snapshot_def read_store_def split: prod.splits option.splits)+

definition asked_once :: "ustring set \<Rightarrow> query_state \<Rightarrow> bool" where
  "asked_once models st \<longleftrightarrow> distinct (qs_asked st) \<and> set (qs_asked st) \<subseteq> models"

definition asked_cached :: "query_state \<Rightarrow> bool" where
  "asked_cached st \<longleftrightarrow> (\<exists>c. qs_cache st = Some c \<and> set (qs_asked st) \<subseteq> fst ` set c)"

lemma asked_once_cong: "qs_asked a = qs_asked b \<Longrightarrow> asked_once models a = asked_once models b"
  by (simp add: asked_once_def)

lemma asked_cached_cong: "qs_asked a = qs_asked b \<Longrightarrow> qs_cache a = qs_cache b \<Longrightarrow> asked_cached a = asked_cached b"
  by (simp add: asked_cached_def)

lemma embed_query_once:
  assumes "embed_query E query model st = (r, st')" "asked_once models st" "asked_cached st" "model \<in> models"
  shows "asked_once models st' \<and> (isl r \<or> asked_cached st')"
proof -
  obtain c where c: "qs_cache st = Some c" "set (qs_asked st) \<subseteq> fst ` set c"
    using assms(3) by (auto simp: asked_cached_def)
  show ?thesis
  proof (cases "map_of c model")
    case None
    then have new: "model \<notin> set (qs_asked st)" using c(2) by (auto simp: map_of_eq_None_iff)
    have dom: "fst ` set (AList.update model e c) = insert model (fst ` set c)" for e
      using dom_update [of model e c] by (simp add: update_conv dom_map_of_conv_image_fst)
    show ?thesis using assms(1,2,4) c None new
      by (auto simp: embed_query_def asked_once_def asked_cached_def traced_def Let_def dom split: sum.splits list.splits)
  qed (use assms c in \<open>simp add: embed_query_def\<close>)
qed

lemma retrieve_once:
  assumes "retrieve E kb query params n mode st = (r, st')" "asked_once models st" "asked_cached st"
    and "sn_query_model E kb \<in> models"
  shows "asked_once models st' \<and> (isl r \<or> asked_cached st')"
proof -
  obtain q st1 where q: "embed_query E query (sn_query_model E kb) st = (q, st1)" by (metis prod.collapse)
  obtain f st2 where f: "search_route E kb query n st = (f, st2)" by (metis prod.collapse)
  have kept: "isl f = isl q \<and> qs_asked st2 = qs_asked st1 \<and> qs_cache st2 = qs_cache st1"
    using f q by (auto simp: search_route_def sn_query_model_def traced_def read_store_def Let_def split: sum.splits)
  obtain k st3 where k: "fts_route E kb query (int_value (fts_top_k params)) st2 = (k, st3)" by (metis prod.collapse)
  have "qs_asked st3 = qs_asked st2 \<and> qs_cache st3 = qs_cache st2"
    using k by (auto simp: fts_route_def traced_def read_store_def Let_def split: sum.splits if_splits)
  moreover have "isl r = isl f \<and> (st' = st2 \<or> st' = st3)"
    using assms(1) f k by (cases f) (auto simp: retrieve_def Let_def split: prod.splits if_splits)
  ultimately show ?thesis using embed_query_once [OF q assms(2-4)] kept
    by (metis asked_cached_cong asked_once_cong)
qed

lemma retrieve_all_once:
  assumes "retrieve_all E kbs query params mode groups degraded st = (r, st')" "asked_once models st" "asked_cached st"
    and "sn_query_model E ` set kbs \<subseteq> models"
  shows "asked_once models st'"
  using assms
proof (induction kbs arbitrary: groups degraded st)
  case (Cons kb kbs)
  obtain g st1 where g: "retrieve E kb query params (int_value (top_k params)) mode st = (g, st1)" by (metis prod.collapse)
  have ok: "asked_once models st1 \<and> (isl g \<or> asked_cached st1)"
    using retrieve_once [OF g Cons.prems(2,3)] Cons.prems(4) by simp
  show ?case
  proof (cases g)
    case (Inr p)
    then obtain gs ds where p: "g = Inr (gs, ds)" by (cases p) simp
    with ok g Cons.prems(1,4) show ?thesis by (auto intro: Cons.IH)
  qed (use ok g Cons.prems in simp)
qed simp

lemma last_stages_asked:
  "qs_asked (snd (fuse_stage E groups params st)) = qs_asked st"
  "qs_asked (snd (rerank_stage E query cs params mode d st)) = qs_asked st"
  "qs_asked (snd (select_stage out params st)) = qs_asked st"
  by (simp_all add: fuse_stage_def rerank_stage_def select_stage_def traced_def Let_def split: sum.splits)

text \<open>A query pays for one vector per embedding model: the models asked are distinct and each is the model of a
  knowledge base that was found. A blank query, and a conversation without knowledge bases, call nothing and open no
  transaction.\<close>

theorem one_embedding_per_model:
  assumes "retrieve_for_chat E kb_ids query mode = (r, st)"
  shows "distinct (qs_asked st) \<and> set (qs_asked st) \<subseteq> query_models E kb_ids
     \<and> (normalise_query query = [] \<or> kb_ids = [] \<longrightarrow> qs_calls st = 0 \<and> qs_tx st = 0)"
proof -
  obtain sns st1 where f: "find_kbs E kb_ids (start_state True) = (sns, st1)" by (metis prod.collapse)
  obtain tenant st2 where t: "tenant_config E st1 = (tenant, st2)" by (metis prod.collapse)
  have start: "asked_once (query_models E kb_ids) st1 \<and> asked_cached st1"
    using find_kbs_kept [OF f] by (simp add: asked_once_def asked_cached_def start_state_def)
  have "asked_once (query_models E kb_ids) st"
  proof (cases "normalise_query query = [] \<or> kb_ids = [] \<or> sns = []")
    case True
    then have "st = start_state True \<or> st = st1"
      using assms f by (auto simp: retrieve_for_chat_def Let_def simp del: retrieve_all.simps split: if_splits)
    moreover have "asked_once (query_models E kb_ids) (start_state True)" by (simp add: asked_once_def start_state_def)
    ultimately show ?thesis using start by blast
  next
    case False
    then obtain sn sns' where sns: "sns = sn # sns'" by (cases sns) auto
    let ?p = "resolve_rag_params (ve_rounding E) (ve_settings E) (Some (sn_config sn)) (Some tenant)"
    let ?st = "traced (\<lambda>t. t\<lparr>tr_mode := effective_mode mode ?p\<rparr>) st2"
    obtain a st3 where a: "retrieve_all E sns (normalise_query query) ?p mode [] [] ?st = (a, st3)"
      by (metis prod.collapse)
    have "asked_once (query_models E kb_ids) ?st \<and> asked_cached ?st"
      using start t by (auto simp: tenant_config_def traced_def asked_once_def asked_cached_def)
    then have "asked_once (query_models E kb_ids) st3"
      using retrieve_all_once [OF a] find_kbs_models [OF f] by blast
    moreover have "qs_asked st = qs_asked st3"
    proof (cases a)
      case (Inl e)
      then show ?thesis using assms False f t a sns by (simp add: retrieve_for_chat_def Let_def del: retrieve_all.simps)
    next
      case (Inr g)
      then show ?thesis using assms False f t a sns last_stages_asked
        by (cases g) (auto simp: retrieve_for_chat_def Let_def case_prod_unfold simp del: retrieve_all.simps)
    qed
    ultimately show ?thesis by (simp add: asked_once_def)
  qed
  moreover have "normalise_query query = [] \<or> kb_ids = [] \<longrightarrow> qs_calls st = 0 \<and> qs_tx st = 0"
    using assms by (auto simp: retrieve_for_chat_def Let_def start_state_def)
  ultimately show ?thesis by (simp add: asked_once_def)
qed

subsection \<open>How a query fails\<close>

text \<open>The ways the call for a vector fails.\<close>

definition embed_failure :: "retrieval_env \<Rightarrow> ustring \<Rightarrow> app_exn \<Rightarrow> bool" where
  "embed_failure E query e \<longleftrightarrow>
     (\<exists>n model. ve_embed E n query model = Inl e)
     \<or> e = foreign ''IndexError'' \<and> (\<exists>n model reply. ve_embed E n query model = Inr reply \<and> ep_vectors reply = [])"

lemma retrieve_failure: "retrieve E kb query params n mode st = (Inl e, st') \<Longrightarrow> embed_failure E query e"
  by (auto simp: retrieve_def search_route_def embed_query_def embed_failure_def Let_def
      split: prod.splits sum.splits option.splits list.splits if_splits)

lemma retrieve_all_failure:
  "retrieve_all E kbs query params mode groups degraded st = (Inl e, st') \<Longrightarrow> embed_failure E query e"
  by (induction kbs arbitrary: groups degraded st) (auto split: prod.splits sum.splits dest: retrieve_failure)

lemma query_kb_failure:
  assumes "query_kb E kb query n mode = (Inl e, st)"
  shows "e = value_error \<or> e = not_found \<or> embed_failure E (normalise_query query) e"
  using assms retrieve_failure
  by (fastforce simp: query_kb_def Let_def split: if_splits prod.splits option.splits sum.splits)

text \<open>A conversation's retrieval fails only when the call for the query's vector fails (or its reply holds no vector): a
  missing knowledge base, an unreadable tenant configuration, a failing full-text query and a failing reranker do not make
  it fail.\<close>

theorem retrieval_fails_only_without_a_vector:
  assumes "retrieve_for_chat E kb_ids query mode = (Inl e, st)"
  shows "embed_failure E (normalise_query query) e"
  using assms retrieve_all_failure
  by (fastforce simp: retrieve_for_chat_def Let_def simp del: retrieve_all.simps
      split: if_splits prod.splits list.splits sum.splits)


subsection \<open>What the trace says\<close>

definition route_recorded :: "route_trace \<Rightarrow> bool" where
  "route_recorded r \<longleftrightarrow> length (rt_ids r) = min max_recorded_candidates (rt_count r) \<and> length (rt_scores r) = length (rt_ids r)
     \<and> (rt_abstained r \<longrightarrow> rt_name r = ''fts'' \<and> rt_count r = 0)"

definition fts_lost :: "route_trace \<Rightarrow> bool" where
  "fts_lost r \<longleftrightarrow> rt_name r = ''fts'' \<and> rt_count r = 0 \<and> \<not> rt_abstained r"

definition trace_ok :: "string list \<Rightarrow> rag_trace \<Rightarrow> bool" where
  "trace_ok degraded t \<longleftrightarrow> (\<forall>r \<in> set (tr_routes t). route_recorded r) \<and> tr_rerank t = None \<and> set degraded \<subseteq> {''fts''}
     \<and> (''fts'' \<in> set degraded \<longrightarrow> (\<exists>r \<in> set (tr_routes t). fts_lost r))"

lemma trace_fields [simp]:
  "tr_routes (stage s t) = tr_routes t" "tr_rerank (stage s t) = tr_rerank t"
  "tr_rerank (route name kb found ab t) = tr_rerank t" "qs_trace (traced f st) = f (qs_trace st)"
  "tr_routes (build_trace d t) = tr_routes t" "tr_rerank (build_trace d t) = tr_rerank t" "tr_context (build_trace d t) = tr_context t"
  "tr_degraded (build_trace d t) = d" "tr_routes (reranked ap n cs x t) = tr_routes t"
  "tr_rerank (selected_trace sel cands c t) = tr_rerank t" "tr_routes (selected_trace sel cands c t) = tr_routes t"
  by (simp_all add: stage_def route_def traced_def build_trace_def reranked_def selected_trace_def Let_def)

definition grown :: "rag_trace \<Rightarrow> rag_trace \<Rightarrow> bool" where
  "grown t t' \<longleftrightarrow> tr_rerank t' = tr_rerank t \<and> (\<exists>new. tr_routes t' = tr_routes t @ new \<and> (\<forall>r \<in> set new. route_recorded r))"

lemma grown_refl [simp]: "grown t t"
  by (simp add: grown_def)

lemma grown_trans: "grown a b \<Longrightarrow> grown b c \<Longrightarrow> grown a c"
  by (fastforce simp: grown_def)

lemma grown_stage [simp]: "grown t (stage s t') = grown t t'"
  by (simp add: grown_def)

lemma grown_route: "grown t t' \<Longrightarrow> (ab \<Longrightarrow> name = ''fts'' \<and> found = []) \<Longrightarrow> grown t (route name kb found ab t')"
  by (auto simp: grown_def route_def route_recorded_def Let_def)

lemma embed_query_grown: "grown (qs_trace st) (qs_trace (snd (embed_query E query model st)))"
  by (auto simp: embed_query_def traced_def Let_def split: option.splits sum.splits list.splits)

lemma search_route_grown: "grown (qs_trace st) (qs_trace (snd (search_route E kb query n st)))"
  using embed_query_grown [of st E query "if sn_model kb \<noteq> [] then sn_model kb else ve_default_model E"]
  unfolding search_route_def read_store_def
  by (cases "embed_query E query (if sn_model kb \<noteq> [] then sn_model kb else ve_default_model E) st")
    (auto simp: Let_def split: sum.splits intro!: grown_route)

lemma fts_route_grown:
  assumes "fts_route E kb query n st = ((keyword, failed), st')"
  shows "grown (qs_trace st) (qs_trace st') \<and> (failed \<longrightarrow> (\<exists>r \<in> set (tr_routes (qs_trace st')). fts_lost r))"
  using assms by (auto simp: fts_route_def read_store_def fts_lost_def Let_def intro!: grown_route split: sum.splits if_splits)
    (auto simp: route_def Let_def)


lemma retrieve_trace:
  assumes "retrieve E kb query params n mode st = (Inr (groups, degraded), st')"
  shows "grown (qs_trace st) (qs_trace st') \<and> set degraded \<subseteq> {''fts''}
     \<and> (degraded \<noteq> [] \<longrightarrow> (\<exists>r \<in> set (tr_routes (qs_trace st')). fts_lost r))"
proof -
  obtain f st1 where f: "search_route E kb query n st = (f, st1)" by (metis prod.collapse)
  obtain keyword failed st2 where k: "fts_route E kb query (int_value (fts_top_k params)) st1 = ((keyword, failed), st2)"
    by (metis prod.collapse)
  have "grown (qs_trace st) (qs_trace st1)" using search_route_grown [of st E kb query n] f by simp
  then show ?thesis using assms f k fts_route_grown [OF k] grown_trans
    by (cases f) (auto simp: retrieve_def Let_def split: if_splits)
qed

lemma grown_ok:
  "grown t t' \<Longrightarrow> trace_ok d t \<Longrightarrow> set d' \<subseteq> {''fts''} \<Longrightarrow> (d' \<noteq> [] \<longrightarrow> (\<exists>r \<in> set (tr_routes t'). fts_lost r))
     \<Longrightarrow> trace_ok (dedup [] (d @ d')) t'"
  by (fastforce simp: trace_ok_def grown_def set_dedup)

lemma retrieve_all_trace:
  "retrieve_all E kbs query params mode groups d st = (Inr (groups', d'), st') \<Longrightarrow> trace_ok d (qs_trace st)
     \<Longrightarrow> trace_ok d' (qs_trace st')"
proof (induction kbs arbitrary: groups d st)
  case (Cons kb kbs)
  obtain gs ds st1 where r: "retrieve E kb query params (int_value (top_k params)) mode st = (Inr (gs, ds), st1)"
    "retrieve_all E kbs query params mode (groups @ gs) (dedup [] (d @ ds)) st1 = (Inr (groups', d'), st')"
    using Cons.prems(1) by (auto split: prod.splits sum.splits)
  from retrieve_trace [OF r(1)] Cons.prems(2) have "trace_ok (dedup [] (d @ ds)) (qs_trace st1)"
    using grown_ok by blast
  with r(2) show ?case by (rule Cons.IH)
qed simp

definition rerank_failed :: "rag_trace \<Rightarrow> bool" where
  "rerank_failed t \<longleftrightarrow> (\<exists>r. tr_rerank t = Some r \<and> \<not> kt_applied r)"

lemma rerank_trace_says:
  assumes "rerank_stage E query candidates params mode d st = (outcome, st')" "trace_ok d (qs_trace st)"
  shows "tr_routes (qs_trace st') = tr_routes (qs_trace st) \<and> set (ro_degraded outcome) \<subseteq> {''fts'', ''rerank''}
     \<and> (''rerank'' \<in> set (ro_degraded outcome) \<longleftrightarrow> rerank_failed (qs_trace st'))
     \<and> (''fts'' \<in> set (ro_degraded outcome) \<longleftrightarrow> ''fts'' \<in> set d)"
  using assms by (auto simp: rerank_stage_def Let_def trace_ok_def rerank_failed_def set_dedup split: if_splits sum.splits)
    (auto simp: reranked_def)

lemma tokens_of_prefix: "prefix xs ys \<Longrightarrow> tokens_of xs \<le> tokens_of ys"
  by (auto simp: tokens_of_def prefix_def)

lemma select_context_prefix: "prefix (select_context cs n budget) cs"
proof -
  obtain k where "select_loop budget (slice_to n cs) [] 0 = take k (slice_to n cs)"
    using select_loop_prefix [of "slice_to n cs" budget "[]"] by (auto simp del: take_eq_Nil)
  then show ?thesis using slice_to_prefix [of n cs] take_is_prefix prefix_order.order_trans
    unfolding select_context_def by metis
qed

text \<open>The trace tells what happened. It names the same degraded stages as the answer, a rerank is among them exactly
  when the trace holds a rerank that was not applied, and a lost full-text search shows as a route with no candidate that
  did not abstain. Every route keeps at most 20 candidates, ids and scores alike, and the context entry counts the chunks
  of the answer and their tokens, never more than the candidates had.\<close>

theorem trace_is_honest:
  assumes "retrieve_for_chat E kb_ids query mode = (Inr out, st)" "ro_trace out = Some t"
  shows "tr_degraded t = ro_degraded out \<and> set (ro_degraded out) \<subseteq> {''fts'', ''rerank''}
     \<and> (''rerank'' \<in> set (ro_degraded out) \<longleftrightarrow> rerank_failed t)
     \<and> (''fts'' \<in> set (ro_degraded out) \<longrightarrow> (\<exists>r \<in> set (tr_routes t). fts_lost r))
     \<and> (\<forall>r \<in> set (tr_routes t). route_recorded r)
     \<and> (\<exists>x. tr_context t = Some x \<and> xt_chunks x = length (ro_chunks out) \<and> xt_tokens x = tokens_of (ro_chunks out)
          \<and> xt_chunks x \<le> xt_candidates x \<and> xt_tokens x \<le> xt_candidate_tokens x \<and> compression_ratio x \<le> 1)"
  using assms(1)
proof (cases rule: retrieve_for_chat_cases)
  case 1
  with assms(2) show ?thesis by (simp add: nothing_found_def)
next
  case (2 sn sns st1 tenant st2 params groups degraded st3 found st4 outcome st5)
  have "qs_trace st1 = trace_builder []" if "find_kbs E kbs s0 = (sns', st1)" "qs_trace s0 = trace_builder []" for kbs s0 sns' st1
    using that by (induction kbs arbitrary: s0 sns' st1)
      (auto simp: find_kb_snapshot_def read_store_def split: prod.splits option.splits)
  from this [OF 2(1)] 2(2) have "trace_ok [] (qs_trace (traced (\<lambda>t. t\<lparr>tr_mode := effective_mode mode params\<rparr>) st2))"
    by (auto simp: start_state_def tenant_config_def trace_builder_def trace_ok_def)
  with 2(4) have "trace_ok degraded (qs_trace st3)" by (rule retrieve_all_trace)
  moreover from this 2(5) have "trace_ok degraded (qs_trace st4)"
    by (auto simp: fuse_stage_def trace_ok_def Let_def)
  moreover note rerank_trace_says [OF 2(6) this]
  ultimately have "set (ro_degraded outcome) \<subseteq> {''fts'', ''rerank''}
     \<and> (''rerank'' \<in> set (ro_degraded outcome) \<longleftrightarrow> rerank_failed (qs_trace st5))
     \<and> (''fts'' \<in> set (ro_degraded outcome) \<longrightarrow> (\<exists>r \<in> set (tr_routes (qs_trace st5)). fts_lost r))
     \<and> (\<forall>r \<in> set (tr_routes (qs_trace st5)). route_recorded r)"
    by (simp add: trace_ok_def)
  moreover obtain sel where sel: "ro_chunks out = sel" "prefix sel (ro_chunks outcome)" "ro_degraded out = ro_degraded outcome"
    "t = build_trace (ro_degraded outcome) (selected_trace sel (ro_chunks outcome)
       (int_value (context_token_budget params)) (stage ''select'' (qs_trace st5)))"
    using 2(7) assms(2) select_context_prefix by (auto simp: select_stage_def Let_def)
  moreover have "xt_tokens x \<le> xt_candidate_tokens x \<Longrightarrow> compression_ratio x \<le> 1" for x
    by (simp add: compression_ratio_def)
  ultimately show ?thesis using tokens_of_prefix [OF sel(2)] prefix_length_le [OF sel(2)]
    by (simp add: rerank_failed_def selected_trace_def)
qed

subsection \<open>Witnesses\<close>

definition query_sample_store :: kstore where
  "query_sample_store =
     \<lparr>ks_docs = [(1, \<lparr>dr_kb = 9, dr_filename = lit ''a.txt'', dr_mime = lit ''text/plain'', dr_key = [9], dr_hash = [99],
        dr_size = 11, dr_uploaded_by = None, dr_version = 2, dr_status = READY, dr_error = None,
        dr_created = 0, dr_updated = 0, dr_deleted = None\<rparr>)],
      ks_kbs = [(9, \<lparr>kb_model = lit ''m'', kb_version = 1, kb_config = None, kb_knowledge_version = 1,
        kb_indexed_version = 1, kb_deleted = None\<rparr>)],
      ks_chunks = [ingest_sample_chunk 100 1, ingest_sample_chunk 101 2],
      ks_vectors = [((100, lit ''m'', 1), [1]), ((101, lit ''m'', 1), [1])],
      ks_job_rows = [], ks_reindex = [], ks_queue = [], ks_notices = []\<rparr>"

definition query_sample_env :: retrieval_env where
  "query_sample_env =
     \<lparr>ve_embed = (\<lambda>_ _ model. Inr \<lparr>ep_vectors = [[1]], ep_model = model, ep_tokens = 2\<rparr>),
      ve_rerank = (\<lambda>_ _ _ _. Inl (foreign ''TimeoutError'')),
      ve_store = (\<lambda>_. query_sample_store),
      ve_nearest = (\<lambda>_ rows. List.map (\<lambda>(i, v). (i, 1/4)) rows),
      ve_matches = (\<lambda>_ _ _. Inl (foreign ''ProgrammingError'')),
      ve_tenant_config = (\<lambda>_. Inr []),
      ve_settings = default_settings, ve_default_model = lit ''d'', ve_rounding = id, ve_str_of = (\<lambda>_. [])\<rparr>"

definition query_sample_params :: rag_params where
  "query_sample_params =
     \<lparr>top_k = JInt 40, fts_top_k = JInt 40, rrf_k = JInt 60, hybrid_candidates = JInt 24, retrieval_mode = JStr (lit ''vector+rerank''),
      rerank_threshold = JFloat 0, context_chunks = JInt 8, context_token_budget = JInt 4500, min_score_ratio = JFloat 0,
      query_history_turns = JInt 1\<rparr>"

lemma query_sample_resolves: "resolve_rag_params id default_settings (Some []) (Some []) = query_sample_params"
  by code_simp

lemma query_sample_query: "normalise_query (lit ''F1'') = lit ''F1''"
  by code_simp

definition query_sample_snapshot :: kb_snapshot where
  "query_sample_snapshot = \<lparr>sn_id = 9, sn_model = lit ''m'', sn_version = 1, sn_config = []\<rparr>"

lemma query_sample_kbs: "find_kbs query_sample_env [8, 9] (start_state True) = ([query_sample_snapshot], (start_state True)\<lparr>qs_tx := 2\<rparr>)"
  by (simp add: query_sample_env_def query_sample_store_def find_kb_snapshot_def read_store_def kb_snapshot_of_def find_kb_def
     start_state_def query_sample_snapshot_def)

definition query_sample_found :: retrieved_chunk where
  "query_sample_found =
     \<lparr>chunk_id = 101, document_id = 1, content = lit ''old'', score = 3 / 4, rpage = None, rheading_path = [],
      document_name = lit ''a.txt'', doc_version = 2\<rparr>"

definition query_sample_mode :: "ustring option" where
  "query_sample_mode = Some (lit ''hybrid+rerank'')"

lemma query_sample_search: "to_retrieved (\<lambda>_. []) (search_vectors query_sample_env [1] 9 (lit ''m'') 1 40 query_sample_store) = [query_sample_found]"
  by code_simp

lemma query_sample_fts: "search_fts query_sample_env tx (build_fts_query (lit ''F1'')) 9 40 query_sample_store = Inl (foreign ''ProgrammingError'')"
proof -
  have "strip (build_fts_query (lit ''F1'')) \<noteq> []" by code_simp
  then show ?thesis by (simp add: search_fts_def query_sample_env_def Let_def)
qed

lemma query_sample_asks: "build_fts_query (lit ''F1'') \<noteq> []" 
  by code_simp

lemma query_sample_hybrid: "starts_with (lit ''hybrid'') (lit ''hybrid+rerank'')" "ends_with (lit ''+rerank'') (lit ''hybrid+rerank'')"
  by code_simp+

lemma query_sample_fused: "fuse_candidates id [[query_sample_found]] 60 24 = [query_sample_found\<lparr>score := 1 / 61\<rparr>]"
  by code_simp

lemma query_sample_gate: "gate_by_score id [query_sample_found] 0 = [query_sample_found]"
  by code_simp

lemma query_sample_select: "select_context [query_sample_found\<lparr>score := x\<rparr>] 8 4500 = [query_sample_found\<lparr>score := x\<rparr>]"
  by (simp add: select_context_def slice_to_def)

lemma query_sample_fields:
  "ve_embed query_sample_env n q model = Inr \<lparr>ep_vectors = [[1]], ep_model = model, ep_tokens = 2\<rparr>"
  "ve_store query_sample_env n = query_sample_store" "ve_str_of query_sample_env = (\<lambda>_. [])" "ve_rounding query_sample_env = id"
  "ve_rerank query_sample_env n q texts k = Inl (foreign ''TimeoutError'')" "ve_settings query_sample_env = default_settings"
  "ve_tenant_config query_sample_env n = Inr []"
  by (simp_all add: query_sample_env_def)

lemma query_sample_effective: "effective_mode query_sample_mode params = lit ''hybrid+rerank''"
  by (simp add: effective_mode_def query_sample_mode_def lit_def)

lemma query_sample_routes:
  "qs_cache st = Some [] \<Longrightarrow> \<exists>st'. retrieve query_sample_env query_sample_snapshot (lit ''F1'') query_sample_params 40 query_sample_mode st
     = (Inr ([[query_sample_found]], [''fts'']), st') \<and> qs_asked st' = qs_asked st @ [lit ''m'']"
  using query_sample_fts query_sample_asks query_sample_hybrid(1) query_sample_search query_sample_gate
  by (simp add: retrieve_def search_route_def fts_route_def embed_query_def traced_def read_store_def Let_def query_sample_effective
      query_sample_params_def query_sample_snapshot_def number_of_def to_number_def int_value_def query_sample_fields lit_def)

lemma query_sample_runs:
  "\<exists>out st. retrieve_for_chat query_sample_env [8, 9] (lit ''F1'') query_sample_mode = (Inr out, st)
     \<and> List.map chunk_id (ro_chunks out) = [101] \<and> ro_degraded out = [''fts'', ''rerank''] \<and> ro_trace out \<noteq> None"
proof -
  let ?st = "(start_state True)\<lparr>qs_tx := 2\<rparr>"
  let ?st2 = "traced (\<lambda>t. t\<lparr>tr_mode := lit ''hybrid+rerank''\<rparr>) (?st\<lparr>qs_calls := Suc 0\<rparr>)"
  obtain st3 where r: "retrieve query_sample_env query_sample_snapshot (lit ''F1'') query_sample_params 40 query_sample_mode ?st2
     = (Inr ([[query_sample_found]], [''fts'']), st3)"
    using query_sample_routes [of ?st2] by (auto simp: start_state_def traced_def)
  have t: "tenant_config query_sample_env ?st = ([], ?st\<lparr>qs_calls := Suc 0\<rparr>)"
    by (simp add: tenant_config_def query_sample_fields start_state_def)
  have p: "int_value (top_k query_sample_params) = 40" "nat (int_value (rrf_k query_sample_params)) = 60"
    "int_value (hybrid_candidates query_sample_params) = 24" "int_value (context_chunks query_sample_params) = 8"
    "int_value (context_token_budget query_sample_params) = 4500"
    by (simp_all add: query_sample_params_def int_value_def)
  have all: "retrieve_all query_sample_env [query_sample_snapshot] (lit ''F1'') query_sample_params query_sample_mode [] [] ?st2
     = (Inr ([[query_sample_found]], [''fts'']), st3)"
    by (simp add: p r)
  have n: "lit ''F1'' \<noteq> []" by (simp add: lit_def)
  have c: "resolve_rag_params id default_settings (Some (sn_config query_sample_snapshot)) (Some []) = query_sample_params"
    by (simp add: query_sample_snapshot_def query_sample_resolves)
  show ?thesis
    by (simp add: retrieve_for_chat_def query_sample_query n query_sample_kbs t c all p fuse_stage_def query_sample_fused
         query_sample_fields rerank_stage_def query_sample_effective query_sample_hybrid Let_def select_stage_def query_sample_select
         del: find_kbs.simps retrieve_all.simps)
       (simp add: query_sample_found_def)
qed


lemma query_sample_down: "optional_stages_down query_sample_env"
  by (simp add: optional_stages_down_def query_sample_env_def)

theorem optional_stages_fail_softly_witness:
  "answer (fst (retrieve_for_chat query_sample_env [8, 9] (lit ''F1'') query_sample_mode))
     = answer (fst (retrieve_for_chat query_sample_env [8, 9] (lit ''F1'') vector_mode))"
  by (rule optional_stages_fail_softly [OF query_sample_down])

theorem one_embedding_per_model_witness:
  "\<exists>r st. retrieve_for_chat query_sample_env [9, 9, 9] (lit ''F1'') query_sample_mode = (r, st) \<and> distinct (qs_asked st)
     \<and> set (qs_asked st) \<subseteq> {lit ''m''}"
proof -
  obtain r st where run: "retrieve_for_chat query_sample_env [9, 9, 9] (lit ''F1'') query_sample_mode = (r, st)"
    by (metis prod.collapse)
  moreover have "query_models query_sample_env [9, 9, 9] \<subseteq> {lit ''m''}"
    by (auto simp: query_models_def query_sample_env_def query_sample_store_def find_kb_def lit_def)
  ultimately show ?thesis using one_embedding_per_model [OF run] by blast
qed

definition deaf_env :: retrieval_env where
  "deaf_env = query_sample_env\<lparr>ve_embed := (\<lambda>_ _ _. Inl (foreign ''AllProvidersDownError''))\<rparr>"

theorem retrieval_fails_only_without_a_vector_witness:
  "\<exists>e st. retrieve_for_chat deaf_env [9] (lit ''F1'') query_sample_mode = (Inl e, st) \<and> e = foreign ''AllProvidersDownError''"
proof -
  have n: "lit ''F1'' \<noteq> []" by (simp add: lit_def)
  have kbs: "find_kbs deaf_env [9] (start_state True) = ([query_sample_snapshot], (start_state True)\<lparr>qs_tx := 1\<rparr>)"
    by (simp add: deaf_env_def query_sample_env_def query_sample_store_def find_kb_snapshot_def read_store_def kb_snapshot_of_def
        find_kb_def start_state_def query_sample_snapshot_def)
  have "\<exists>e st. retrieve_for_chat deaf_env [9] (lit ''F1'') query_sample_mode = (Inl e, st)"
    using kbs n query_sample_query
    by (simp add: retrieve_for_chat_def Let_def tenant_config_def retrieve_def search_route_def embed_query_def start_state_def
        traced_def deaf_env_def case_prod_unfold)
  then obtain e st where run: "retrieve_for_chat deaf_env [9] (lit ''F1'') query_sample_mode = (Inl e, st)" by blast
  from retrieval_fails_only_without_a_vector [OF run] have "e = foreign ''AllProvidersDownError''"
    by (simp add: embed_failure_def deaf_env_def)
  with run show ?thesis by blast
qed

theorem trace_is_honest_witness:
  "\<exists>out st t. retrieve_for_chat query_sample_env [8, 9] (lit ''F1'') query_sample_mode = (Inr out, st) \<and> ro_trace out = Some t
     \<and> tr_degraded t = [''fts'', ''rerank''] \<and> rerank_failed t \<and> (\<exists>r \<in> set (tr_routes t). fts_lost r)"
proof -
  obtain out st t where run: "retrieve_for_chat query_sample_env [8, 9] (lit ''F1'') query_sample_mode = (Inr out, st)"
    "ro_trace out = Some t" "ro_degraded out = [''fts'', ''rerank'']" using query_sample_runs by (metis not_None_eq)
  with trace_is_honest [OF run(1,2)] show ?thesis by auto
qed

end

