(* ===== verification/Composer.thy ===== *)
theory Composer
  imports Prompts Retrieval
begin

text \<open>
  The composition of a request: \<open>backend/services/conversation/composer.py\<close>. The system prompt, the history, the retrieved
  context and the question become the request of theory ChatTurn; the two retrieval calls see their own environment.
  Lemmas: what can influence which message, and where the sources that an answer cites come from.
\<close>

record composer_env =
  ce_prompt_env :: prompt_env
  ce_prompts :: prompt_store
  ce_params :: retrieval_env
  ce_retrieval :: retrieval_env

definition system_rag_prompt_key :: ustring where
  "system_rag_prompt_key = lit ''rag_answer''"

definition history_window_messages :: int where
  "history_window_messages = 20"

definition role_of :: "ustring \<Rightarrow> string" where
  "role_of role =
     (case find (\<lambda>name. lit name = role) [''system'', ''user'', ''assistant'', ''tool''] of Some name \<Rightarrow> name | None \<Rightarrow> ''user'')"

definition turn_history :: "uuid128 \<Rightarrow> uuid128 set \<Rightarrow> chat_store \<Rightarrow> chat_message list \<times> ustring list" where
  "turn_history c skip s =
     (let kept = filter (\<lambda>(i, m). mg_content m \<noteq> [] \<and> i \<notin> skip) (for_conversation c (Some history_window_messages) s)
      in (List.map (\<lambda>(i, m). \<lparr>m_role = role_of (mg_role m), m_content = mg_content m\<rparr>) kept,
          List.map (\<lambda>(i, m). mg_content m) (filter (\<lambda>(i, m). mg_role m = lit ''user'') kept)))"

definition retrieve_context ::
  "composer_env \<Rightarrow> ustring \<Rightarrow> uuid128 list \<Rightarrow> ustring list \<Rightarrow> app_exn + retrieval_outcome" where
  "retrieve_context E question kbs previous =
     (if kbs = [] then Inr \<lparr>ro_chunks = [], ro_degraded = [], ro_trace = None\<rparr>
      else
        let params = params_for (ce_params E) kbs;
            query = build_search_query question previous (int_value (query_history_turns params))
        in fst (retrieve_for_chat (ce_retrieval E) kbs query None))"

definition source_chunks :: "retrieved_chunk list \<Rightarrow> context_chunk list" where
  "source_chunks found =
     List.map (\<lambda>(index, c). \<lparr>xc_marker = marker_for index, xc_content = content c, xc_doc = document_name c, xc_page = rpage c,
                             xc_heading = rheading_path c\<rparr>) (enumerate 0 found)"

definition compose ::
  "composer_env \<Rightarrow> chat_store \<Rightarrow> uuid128 \<Rightarrow> uuid128 \<Rightarrow> uuid128 \<Rightarrow> uuid128 \<Rightarrow> ustring \<Rightarrow> uuid128 list \<Rightarrow> ustring
   \<Rightarrow> app_exn + prepared_turn" where
  "compose E s tenant c message user_message question kbs model =
     (case render (ce_prompt_env E) (ce_prompts E) tenant system_rag_prompt_key None None of
        Inl e \<Rightarrow> Inl e
      | Inr rendered \<Rightarrow>
          (case turn_history c {message, user_message} s of
             (history, previous) \<Rightarrow>
               (case retrieve_context E question kbs previous of
                  Inl e \<Rightarrow> Inl e
                | Inr out \<Rightarrow>
                    let ctx = (if ro_chunks out = [] then [] else build_context_block (source_chunks (ro_chunks out)));
                        messages = [\<lparr>m_role = ''system'', m_content = rp_system rendered\<rparr>] @ history
                                   @ [\<lparr>m_role = ''user'', m_content = build_user_turn question ctx\<rparr>]
                    in Inr \<lparr>p_request = \<lparr>cr_messages = messages, cr_model = model, cr_temperature = None,
                                         cr_max_output_tokens = None, cr_reasoning_effort = ''off'', cr_response_format = None\<rparr>,
                            p_chunks = ro_chunks out, p_retrieved = (kbs \<noteq> []), p_degraded = List.map lit (ro_degraded out),
                            p_traced = (ro_trace out \<noteq> None), p_prompt_version = rp_version rendered\<rparr>)))"

subsection \<open>The history\<close>

lemma sort_key_neg:
  fixes f :: "'a \<Rightarrow> int \<times> int"
  assumes "distinct (List.map f xs)"
  shows "sort_key (\<lambda>x. (- fst (f x), - snd (f x))) xs = rev (sort_key f xs)"
proof -
  let ?g = "\<lambda>x. (- fst (f x), - snd (f x))"
  have anti: "?g x \<le> ?g y \<longleftrightarrow> f y \<le> f x" for x y
    by (cases "f x"; cases "f y") (auto simp: less_eq_prod_def)
  have "sorted_wrt (\<lambda>x y. f y \<le> f x) (rev (sort_key f xs))"
    using sorted_sort_key [of f xs] by (simp add: sorted_wrt_rev sorted_map)
  then have "sorted (List.map ?g (rev (sort_key f xs)))" by (simp only: sorted_map anti)
  moreover have "inj_on ?g (set xs)"
    using assms by (auto simp: inj_on_def distinct_map prod_eq_iff)
  ultimately show ?thesis by (intro sort_key_inj_key_eq) auto
qed

lemma sorted_key_fixed: "sorted (List.map f xs) \<Longrightarrow> sort_key f xs = xs"
  by (rule sort_key_id_if_sorted)

text \<open>The history window is the end of the conversation: the newest \<open>n\<close> messages, sorted again, are exactly the last
  \<open>n\<close> of all messages in the order of time, also when messages share a time.\<close>

theorem window_is_the_end:
  assumes "ids_ok s" "0 \<le> n"
  shows "for_conversation c (Some n) s = last_n (nat n) (for_conversation c None s)"
proof -
  have "distinct (List.map fst (messages_of c s))"
    using assms(1) by (auto simp: ids_ok_def messages_of_def intro: distinct_map_filter)
  then have d: "distinct (List.map msg_key (messages_of c s))"
    by (auto simp: distinct_map inj_on_def msg_key_def)
  have "slice_to n (sort_key (\<lambda>x. (- fst (msg_key x), - snd (msg_key x))) (messages_of c s)) = rev (last_n (nat n) (msg_rows c s))"
    using assms(2) by (simp add: sort_key_neg [OF d] msg_rows_def slice_to_def last_n_def take_rev)
  moreover have "sort_key msg_key (rev (last_n (nat n) (msg_rows c s))) = last_n (nat n) (msg_rows c s)"
  proof -
    let ?ys = "last_n (nat n) (msg_rows c s)"
    have srt: "sorted_wrt (<) (List.map msg_key ?ys)"
      using sorted_wrt_drop [OF msg_rows_strict [OF assms(1), of c]] by (simp add: last_n_def drop_map)
    then have "distinct (List.map msg_key ?ys)" "sorted (List.map msg_key ?ys)" by (simp_all add: strict_sorted_iff)
    then show ?thesis by (intro sort_key_inj_key_eq) (auto simp: distinct_map)
  qed
  ultimately show ?thesis by (simp add: for_conversation_def Let_def)
qed

theorem window_is_the_end_witness:
  "for_conversation 1 (Some 1) chat_sample = last_n 1 (for_conversation 1 None chat_sample)"
  using window_is_the_end [OF chat_sample_ids(1), of 1 1] by simp

text \<open>The two rows of the running turn count in the window: at most eighteen earlier messages, nine rounds, are left.\<close>

lemma nine_rounds:
  assumes "length rows = 18 \<or> 18 \<le> length rows" "for_conversation c (Some history_window_messages) s = last_n 20 (rows @ [x, y])"
  shows "length (fst (turn_history c {fst x, fst y} s)) \<le> 18"
proof -
  have "last_n 20 (rows @ [x, y]) = last_n 18 rows @ [x, y]" using assms(1) by (auto simp: last_n_def)
  moreover have "length (filter P (last_n 18 rows)) \<le> 18" for P
    by (rule le_trans [OF length_filter_le]) (simp add: last_n_def)
  ultimately show ?thesis using assms(2) by (auto simp: turn_history_def Let_def split_beta)
qed

subsection \<open>What influences which message\<close>

lemma compose_cases:
  assumes "compose E s tenant c message user_message question kbs model = Inr p"
  obtains rendered out history previous where
    "render (ce_prompt_env E) (ce_prompts E) tenant system_rag_prompt_key None None = Inr rendered"
    "turn_history c {message, user_message} s = (history, previous)"
    "retrieve_context E question kbs previous = Inr out"
    "cr_messages (p_request p) = [\<lparr>m_role = ''system'', m_content = rp_system rendered\<rparr>] @ history
       @ [\<lparr>m_role = ''user'', m_content = build_user_turn question
             (if ro_chunks out = [] then [] else build_context_block (source_chunks (ro_chunks out)))\<rparr>]"
    "p_chunks p = ro_chunks out" "p_retrieved p = (kbs \<noteq> [])"
  using assms by (auto simp: compose_def Let_def split: sum.splits prod.splits)

lemma turn_ends_with_question: "suffix question (build_user_turn question ctx)"
  by (auto simp: build_user_turn_def suffix_def)

text \<open>C17. Retrieved text can only reach the last message, which has the role of the user and ends with the question: with
  two different states of the knowledge bases, two composed requests agree in every other message, the first of which is the
  rendered system prompt and the rest the history. No document can add an instruction with the authority of the system.\<close>

theorem documents_reach_only_the_user_message:
  assumes "compose E s tenant c message user_message question kbs model = Inr p"
    and "compose E' s tenant c message user_message question kbs' model = Inr p'"
    and "ce_prompt_env E' = ce_prompt_env E" "ce_prompts E' = ce_prompts E"
  shows "\<exists>rendered u u'. render (ce_prompt_env E) (ce_prompts E) tenant system_rag_prompt_key None None = Inr rendered
    \<and> suffix question u \<and> suffix question u'
    \<and> cr_messages (p_request p) = \<lparr>m_role = ''system'', m_content = rp_system rendered\<rparr>
        # fst (turn_history c {message, user_message} s) @ [\<lparr>m_role = ''user'', m_content = u\<rparr>]
    \<and> cr_messages (p_request p') = \<lparr>m_role = ''system'', m_content = rp_system rendered\<rparr>
        # fst (turn_history c {message, user_message} s) @ [\<lparr>m_role = ''user'', m_content = u'\<rparr>]"
  using assms(1)
proof (cases rule: compose_cases)
  case (1 rendered out history previous)
  note one = this
  from assms(2) show ?thesis
  proof (cases rule: compose_cases)
    case (1 rendered' out' history' previous')
    show ?thesis using one 1 assms(3,4) turn_ends_with_question by force
  qed
qed


subsection \<open>A concrete turn\<close>

definition compose_sample :: composer_env where
  "compose_sample =
     \<lparr>ce_prompt_env = echo_engine, ce_prompts = prompt_sample (own_version published), ce_params = query_sample_env,
      ce_retrieval = query_sample_env\<rparr>"

lemma compose_sample_render:
  "render echo_engine (prompt_sample (own_version published)) 7 system_rag_prompt_key None None =
     Inr \<lparr>rp_key = lit ''rag_answer'', rp_version = 4, rp_system = lit ''T'', rp_hint = []\<rparr>"
  by (simp add: render_def active_version_def prompt_by_key_def visible_prompts_def prompt_sample_def own_version_def
      validate_variables_def render_template_def echo_engine_def system_rag_prompt_key_def)

lemma compose_sample_query: "build_search_query (lit ''F1'') [] n = lit ''F1''"
  using query_sample_query by (simp add: build_search_query_def normalise_query_def last_n_def Let_def)

lemma compose_sample_history: "turn_history (Suc 0) {11, 13} chat_sample = ([], [])"
  by (simp add: turn_history_def history_window_messages_def for_conversation_def messages_of_def chat_sample_def
      chat_sample_msg_def slice_to_def)

lemma compose_sample_mode: "effective_mode None query_sample_params = lit ''vector+rerank''"
  by (simp add: effective_mode_def query_sample_params_def text_of_def)

lemma compose_sample_vector: "\<not> starts_with (lit ''hybrid'') (lit ''vector+rerank'')" "ends_with (lit ''+rerank'') (lit ''vector+rerank'')"
  by code_simp+

lemma compose_sample_retrieves:
  "\<exists>out st. retrieve_for_chat query_sample_env [8, 9] (lit ''F1'') None = (Inr out, st) \<and> List.map chunk_id (ro_chunks out) = [101]"
proof -
  let ?st = "(start_state True)\<lparr>qs_tx := 2\<rparr>"
  let ?st2 = "traced (\<lambda>t. t\<lparr>tr_mode := lit ''vector+rerank''\<rparr>) (?st\<lparr>qs_calls := Suc 0\<rparr>)"
  have "\<exists>st3. retrieve query_sample_env query_sample_snapshot (lit ''F1'') query_sample_params 40 None ?st2
     = (Inr ([[query_sample_found]], []), st3)"
    using query_sample_search query_sample_gate compose_sample_vector(1)
    by (simp add: retrieve_def search_route_def embed_query_def traced_def read_store_def Let_def compose_sample_mode start_state_def
        query_sample_snapshot_def query_sample_fields)
       (simp add: query_sample_params_def number_of_def to_number_def lit_def)
  then obtain st3 where r: "retrieve query_sample_env query_sample_snapshot (lit ''F1'') query_sample_params 40 None ?st2
     = (Inr ([[query_sample_found]], []), st3)" by blast
  have t: "tenant_config query_sample_env ?st = ([], ?st\<lparr>qs_calls := Suc 0\<rparr>)"
    by (simp add: tenant_config_def query_sample_fields start_state_def)
  have p: "int_value (top_k query_sample_params) = 40" "nat (int_value (rrf_k query_sample_params)) = 60"
    "int_value (hybrid_candidates query_sample_params) = 24" "int_value (context_chunks query_sample_params) = 8"
    "int_value (context_token_budget query_sample_params) = 4500"
    by (simp_all add: query_sample_params_def int_value_def)
  have all: "retrieve_all query_sample_env [query_sample_snapshot] (lit ''F1'') query_sample_params None [] [] ?st2
     = (Inr ([[query_sample_found]], []), st3)"
    by (simp add: p r)
  have n: "lit ''F1'' \<noteq> []" by (simp add: lit_def)
  have c: "resolve_rag_params id default_settings (Some (sn_config query_sample_snapshot)) (Some []) = query_sample_params"
    by (simp add: query_sample_snapshot_def query_sample_resolves)
  show ?thesis
    by (simp add: retrieve_for_chat_def query_sample_query n query_sample_kbs t c all p fuse_stage_def query_sample_fused
         query_sample_fields rerank_stage_def compose_sample_mode compose_sample_vector Let_def select_stage_def query_sample_select
         del: find_kbs.simps retrieve_all.simps)
       (simp add: query_sample_found_def)
qed

lemma compose_sample_turn:
  "\<exists>p. compose compose_sample chat_sample 7 1 11 13 (lit ''F1'') [8, 9] [] = Inr p \<and> List.map chunk_id (p_chunks p) = [101] \<and> p_retrieved p"
proof -
  obtain out st where "retrieve_for_chat query_sample_env [8, 9] (lit ''F1'') None = (Inr out, st)" "List.map chunk_id (ro_chunks out) = [101]"
    using compose_sample_retrieves by (elim exE conjE)
  then show ?thesis
    by (simp add: compose_def compose_sample_def compose_sample_render compose_sample_history retrieve_context_def Let_def compose_sample_query)
qed

theorem documents_reach_only_the_user_message_witness:
  "\<exists>p u. compose compose_sample chat_sample 7 1 11 13 (lit ''F1'') [8, 9] [] = Inr p \<and> suffix (lit ''F1'') u
    \<and> List.last (cr_messages (p_request p)) = \<lparr>m_role = ''user'', m_content = u\<rparr>"
proof -
  obtain p where p: "compose compose_sample chat_sample 7 1 11 13 (lit ''F1'') [8, 9] [] = Inr p" using compose_sample_turn by blast
  obtain p' where p': "compose compose_sample chat_sample 7 1 11 13 (lit ''F1'') [] [] = Inr p'"
    by (simp add: compose_def compose_sample_def compose_sample_render compose_sample_history retrieve_context_def Let_def)
  from documents_reach_only_the_user_message [OF p p'] p show ?thesis by (metis append_Cons last_snoc)
qed


end
