(* ===== verification/Providers.thy ===== *)
theory Providers
  imports Gateway KbConfig
begin

text \<open>
  The provider adapters: \<open>backend/ai/gateway/providers/openai_compatible.py\<close> (embeddings, the server-sent events of a
  chat, the table of vendors) and \<open>rerank.py\<close> (TEI and Jina). The HTTP client and the JSON module are parameters: an
  exchange is a timeout, a transport error, or a status with a body. A JSON number is exact, NaN and the infinities are
  left out. Lemmas: the order of the elements of a stream, which vector belongs to which input, which failures may be
  retried, what a ranking can contain.
\<close>

subsection \<open>Values read from JSON\<close>



record json_env =
  je_loads :: "ustring \<Rightarrow> string + json"
  je_str :: "json \<Rightarrow> ustring"
  je_float :: "ustring \<Rightarrow> rat option"
  je_norm :: "rat list \<Rightarrow> rat"
  je_rounding :: rounding

definition json_true :: "json \<Rightarrow> bool" where
  "json_true v =
     (case v of JNull \<Rightarrow> False | JBool b \<Rightarrow> b | JInt i \<Rightarrow> i \<noteq> 0 | JFloat r \<Rightarrow> r \<noteq> 0 | JStr t \<Rightarrow> t \<noteq> [] | JList xs \<Rightarrow> xs \<noteq> []
      | JObj kvs \<Rightarrow> kvs \<noteq> [])"

text \<open>\<open>int(value)\<close> and \<open>float(value)\<close>; \<open>Inl\<close> is the class of the exception.\<close>

definition py_int :: "json \<Rightarrow> string + int" where
  "py_int v =
     (case v of
        JBool b \<Rightarrow> Inr (if b then 1 else 0)
      | JInt i \<Rightarrow> Inr i
      | JFloat r \<Rightarrow> Inr (if 0 \<le> r then \<lfloor>r\<rfloor> else \<lceil>r\<rceil>)
      | JStr t \<Rightarrow> (case parse_int t of None \<Rightarrow> Inl ''ValueError'' | Some i \<Rightarrow> Inr i)
      | _ \<Rightarrow> Inl ''TypeError'')"

definition py_float :: "json_env \<Rightarrow> json \<Rightarrow> string + rat" where
  "py_float J v =
     (case v of
        JBool b \<Rightarrow> Inr (if b then 1 else 0)
      | JInt i \<Rightarrow> Inr (je_rounding J (of_int i))
      | JFloat r \<Rightarrow> Inr r
      | JStr t \<Rightarrow> (case je_float J t of None \<Rightarrow> Inl ''ValueError'' | Some r \<Rightarrow> Inr r)
      | _ \<Rightarrow> Inl ''TypeError'')"

text \<open>A list comprehension whose element expression may raise.\<close>

fun map_raising :: "('a \<Rightarrow> 'e + 'b) \<Rightarrow> 'a list \<Rightarrow> 'e + 'b list" where
  "map_raising f [] = Inr []"
| "map_raising f (x # xs) =
     (case f x of Inl e \<Rightarrow> Inl e | Inr y \<Rightarrow> (case map_raising f xs of Inl e \<Rightarrow> Inl e | Inr ys \<Rightarrow> Inr (y # ys)))"

subsection \<open>The vendors\<close>

record vendor_spec =
  vs_base_url :: ustring
  vs_requires_api_key :: bool
  vs_dimensions :: bool
  vs_reasoning_effort :: bool
  vs_response_format :: bool

definition vendors :: "(ustring \<times> vendor_spec) list" where
  "vendors =
     [(lit ''gemini'', \<lparr>vs_base_url = lit ''https://generativelanguage.googleapis.com/v1beta/openai'', vs_requires_api_key = True,
         vs_dimensions = True, vs_reasoning_effort = False, vs_response_format = False\<rparr>),
      (lit ''openai'', \<lparr>vs_base_url = lit ''https://api.openai.com/v1'', vs_requires_api_key = True,
         vs_dimensions = True, vs_reasoning_effort = True, vs_response_format = True\<rparr>),
      (lit ''openrouter'', \<lparr>vs_base_url = lit ''https://openrouter.ai/api/v1'', vs_requires_api_key = True,
         vs_dimensions = True, vs_reasoning_effort = False, vs_response_format = False\<rparr>),
      (lit ''nvidia'', \<lparr>vs_base_url = lit ''https://integrate.api.nvidia.com/v1'', vs_requires_api_key = True,
         vs_dimensions = False, vs_reasoning_effort = False, vs_response_format = False\<rparr>),
      (lit ''vllm'', \<lparr>vs_base_url = lit ''http://127.0.0.1:8000/v1'', vs_requires_api_key = False,
         vs_dimensions = False, vs_reasoning_effort = False, vs_response_format = False\<rparr>),
      (lit ''tei'', \<lparr>vs_base_url = lit ''http://127.0.0.1:8081/v1'', vs_requires_api_key = False,
         vs_dimensions = False, vs_reasoning_effort = False, vs_response_format = False\<rparr>)]"

record vendor_client =
  vc_name :: ustring
  vc_spec :: vendor_spec
  vc_base_url :: ustring
  vc_api_key :: "ustring option"

definition vendor_client_for :: "ustring \<Rightarrow> ustring option \<Rightarrow> ustring option \<Rightarrow> provider_failure + vendor_client" where
  "vendor_client_for vendor api_key base_url =
     (case map_of vendors vendor of
        None \<Rightarrow> Inl \<lparr>pf_type = ProviderUnavailableError, pf_message = [26410, 30693, 30340, 32, 112, 114, 111, 118, 105, 100, 101, 114, 65306] @ vendor\<rparr>
      | Some spec \<Rightarrow>
          Inr \<lparr>vc_name = vendor, vc_spec = spec,
               vc_base_url = (case base_url of None \<Rightarrow> vs_base_url spec | Some u \<Rightarrow> if u = [] then vs_base_url spec else u),
               vc_api_key = api_key\<rparr>)"

definition request_headers :: "ustring option \<Rightarrow> (ustring \<times> ustring) list" where
  "request_headers api_key =
     (lit ''Content-Type'', lit ''application/json'')
     # (case api_key of None \<Rightarrow> [] | Some k \<Rightarrow> if k = [] then [] else [(lit ''Authorization'', lit ''Bearer '' @ k)])"

subsection \<open>Failures of an exchange\<close>

datatype exchange =
    TimedOut
  | TransportError string
  | Answered nat "json option"

definition unavailable :: "ustring \<Rightarrow> ustring \<Rightarrow> provider_failure" where
  "unavailable vendor what = \<lparr>pf_type = ProviderUnavailableError, pf_message = vendor @ what\<rparr>"

definition connection_failed :: "ustring \<Rightarrow> string \<Rightarrow> provider_failure" where
  "connection_failed vendor cls = unavailable vendor ([32, 36899, 32218, 22833, 25943, 65306] @ lit cls)"

definition error_for :: "ustring \<Rightarrow> ustring \<Rightarrow> nat \<Rightarrow> provider_failure" where
  "error_for vendor model code =
     (if code = 429 then \<lparr>pf_type = ProviderRateLimitedError, pf_message = vendor @ [32, 38971, 29575, 38480, 21046]\<rparr>
      else if code \<in> {401, 403}
      then \<lparr>pf_type = ProviderAuthError, pf_message = vendor @ [32, 25298, 32085, 20102, 25105, 20497, 30340, 24977, 35657]\<rparr>
      else if code = 404 then \<lparr>pf_type = ModelNotEnabledError, pf_message = [27169, 22411, 26410, 21855, 29992, 65306] @ model\<rparr>
      else if code = 400 then \<lparr>pf_type = ModelNotEnabledError, pf_message = [27169, 22411, 26410, 21855, 29992, 65306] @ model\<rparr>
      else unavailable vendor ([32, 22238, 25033, 32] @ decimal code))"

subsection \<open>Embeddings\<close>

definition embed_payload :: "vendor_client \<Rightarrow> nat option \<Rightarrow> ustring list \<Rightarrow> ustring \<Rightarrow> obj" where
  "embed_payload c dimensions texts model =
     [(lit ''model'', JStr model), (lit ''input'', JList (List.map JStr texts))]
     @ (case dimensions of
          None \<Rightarrow> []
        | Some d \<Rightarrow> if vs_dimensions (vc_spec c) then [(lit ''dimensions'', JInt (int d))] else [])"

definition post_embeddings :: "ustring \<Rightarrow> ustring \<Rightarrow> ustring \<Rightarrow> exchange \<Rightarrow> provider_failure + obj" where
  "post_embeddings vendor model timeout x =
     (case x of
        TimedOut \<Rightarrow> Inl \<lparr>pf_type = ProviderTimeoutError, pf_message = vendor @ [32, 36926, 26178, 65288] @ timeout @ [115, 65289]\<rparr>
      | TransportError cls \<Rightarrow> Inl (connection_failed vendor cls)
      | Answered code body \<Rightarrow>
          if 400 \<le> code then Inl (error_for vendor model code)
          else (case body of
                  None \<Rightarrow> Inl (unavailable vendor [32, 22238, 25033, 19981, 26159, 32, 74, 83, 79, 78])
                | Some (JObj kvs) \<Rightarrow> Inr kvs
                | Some _ \<Rightarrow> Inl (unavailable vendor [32, 22238, 25033, 26684, 24335, 38750, 38928, 26399])))"

definition is_object :: "json \<Rightarrow> bool" where
  "is_object v = (case v of JObj _ \<Rightarrow> True | _ \<Rightarrow> False)"

definition items_of :: "json \<Rightarrow> obj" where
  "items_of v = (case v of JObj kvs \<Rightarrow> kvs | _ \<Rightarrow> [])"

text \<open>The rows in the order of the input: \<open>Inl\<close> of an own failure or of the class of an exception.\<close>

definition row_index :: "json \<Rightarrow> string + int" where
  "row_index row = py_int (or_else (jget (items_of row) ''index'') (JInt 0))"

definition ordered_rows :: "json list \<Rightarrow> (provider_failure + string) + json list" where
  "ordered_rows rows =
     (if \<not> list_all is_object rows
      then Inl (Inl \<lparr>pf_type = ProviderUnavailableError, pf_message = [22238, 25033, 30340, 21015, 19981, 26159, 29289, 20214]\<rparr>)
      else
        let explicit = list_ex (\<lambda>row. jget (items_of row) ''index'' \<noteq> None) rows
        in case map_raising row_index rows of
             Inl cls \<Rightarrow> Inl (Inr cls)
           | Inr resolved \<Rightarrow>
               if sort resolved = List.map int [0..<length rows] then Inr (List.map snd (sort_key fst (zip resolved rows)))
               else if \<not> explicit then Inr rows
               else Inl (Inl \<lparr>pf_type = ProviderUnavailableError,
                               pf_message = [22238, 25033, 30340, 32, 105, 110, 100, 101, 120, 32, 28961, 27861, 21807, 19968, 27770,
                                             23450, 38918, 24207]\<rparr>))"

definition unit_vector :: "json_env \<Rightarrow> rat list \<Rightarrow> rat list" where
  "unit_vector J v = (if je_norm J v = 0 then v else List.map (\<lambda>x. je_rounding J (x / je_norm J v)) v)"

text \<open>\<open>row["embedding"]\<close> and the iteration over it: a missing key, a value that cannot be iterated, an element that is no
  number. Iterating over a string or an object gives its characters or keys.\<close>

definition iterate_json :: "json \<Rightarrow> string + json list" where
  "iterate_json v =
     (case v of
        JList xs \<Rightarrow> Inr xs
      | JStr t \<Rightarrow> Inr (List.map (\<lambda>c. JStr [c]) t)
      | JObj kvs \<Rightarrow> Inr (List.map (\<lambda>kv. JStr (fst kv)) kvs)
      | _ \<Rightarrow> Inl ''TypeError'')"

definition row_vector :: "json_env \<Rightarrow> json \<Rightarrow> string + rat list" where
  "row_vector J row =
     (case jget (items_of row) ''embedding'' of
        None \<Rightarrow> Inl ''KeyError''
      | Some v \<Rightarrow>
          (case iterate_json v of
             Inl cls \<Rightarrow> Inl cls
           | Inr xs \<Rightarrow> map_sum id (unit_vector J) (map_raising (py_float J) xs)))"

definition usage_tokens :: "obj \<Rightarrow> ustring list \<Rightarrow> int" where
  "usage_tokens body texts =
     (let estimate = max 1 (int ((\<Sum>t\<leftarrow>texts. length t) div 4));
          reported = (case jget body ''usage'' of
                        Some (JObj u) \<Rightarrow>
                          (case jget u ''prompt_tokens'' of
                             Some p \<Rightarrow> if json_true p then Some p else jget u ''total_tokens''
                           | None \<Rightarrow> jget u ''total_tokens'')
                      | _ \<Rightarrow> None)
      in case reported of
           Some (JInt n) \<Rightarrow> if 0 < n then n else estimate
         | Some (JBool True) \<Rightarrow> 1
         | _ \<Rightarrow> estimate)"

definition model_of :: "json_env \<Rightarrow> obj \<Rightarrow> ustring \<Rightarrow> ustring" where
  "model_of J body requested =
     (case jget body ''model'' of Some m \<Rightarrow> if json_true m then je_str J m else requested | None \<Rightarrow> requested)"

definition caught :: "string \<Rightarrow> bool" where
  "caught cls \<longleftrightarrow> cls \<in> {''KeyError'', ''TypeError'', ''ValueError''}"

definition parse_embeddings ::
  "json_env \<Rightarrow> ustring \<Rightarrow> obj \<Rightarrow> ustring list \<Rightarrow> ustring \<Rightarrow> raise_kind + embedding" where
  "parse_embeddings J vendor body texts requested =
     (let wrong_count = (\<lambda>n. RaisedProvider (unavailable vendor ([32, 22238, 20659, 32] @ n @ [32, 31558, 65292, 36865, 20986, 32]
                               @ decimal (length texts) @ [32, 31558])));
          missing = RaisedProvider (unavailable vendor [32, 30340, 22238, 25033, 32570, 23569, 24517, 35201, 27396, 20301]);
          convert = (\<lambda>cls. if caught cls then missing else RaisedOther cls)
      in case jget body ''data'' of
           Some (JList rows) \<Rightarrow>
             if length rows \<noteq> length texts then Inl (wrong_count (decimal (length rows)))
             else
               (case ordered_rows rows of
                  Inl (Inl e) \<Rightarrow> Inl (RaisedProvider e)
                | Inl (Inr cls) \<Rightarrow> Inl (convert cls)
                | Inr ordered \<Rightarrow>
                    (case map_raising (row_vector J) ordered of
                       Inl cls \<Rightarrow> Inl (convert cls)
                     | Inr vectors \<Rightarrow>
                         Inr \<lparr>e_vectors = vectors, e_model = model_of J body requested, e_prompt_tokens = usage_tokens body texts\<rparr>))
         | _ \<Rightarrow> Inl (wrong_count [38750, 38928, 26399]))"

definition adapter_embed ::
  "json_env \<Rightarrow> (obj \<Rightarrow> exchange) \<Rightarrow> vendor_client \<Rightarrow> nat option \<Rightarrow> ustring \<Rightarrow> ustring list \<Rightarrow> ustring
   \<Rightarrow> raise_kind + embedding" where
  "adapter_embed J post c dimensions timeout texts model =
     (if texts = [] then Inr \<lparr>e_vectors = [], e_model = model, e_prompt_tokens = 0\<rparr>
      else
        case post_embeddings (vc_name c) model timeout (post (embed_payload c dimensions texts model)) of
          Inl e \<Rightarrow> Inl (RaisedProvider e)
        | Inr body \<Rightarrow> parse_embeddings J (vc_name c) body texts model)"


subsection \<open>The events of a chat\<close>

definition message_json :: "chat_message \<Rightarrow> json" where
  "message_json m = JObj [(lit ''role'', JStr (lit (m_role m))), (lit ''content'', JStr (m_content m))]"

definition chat_payload :: "vendor_client \<Rightarrow> chat_request \<Rightarrow> obj" where
  "chat_payload c r =
     [(lit ''model'', JStr (cr_model r)), (lit ''messages'', JList (List.map message_json (cr_messages r))), (lit ''stream'', JBool True),
      (lit ''stream_options'', JObj [(lit ''include_usage'', JBool True)])]
     @ (case cr_temperature r of None \<Rightarrow> [] | Some t \<Rightarrow> [(lit ''temperature'', JFloat t)])
     @ (case cr_max_output_tokens r of None \<Rightarrow> [] | Some n \<Rightarrow> [(lit ''max_tokens'', JInt n)])
     @ (if cr_reasoning_effort r \<noteq> ''off'' \<and> vs_reasoning_effort (vc_spec c)
        then [(lit ''reasoning_effort'', JStr (lit (cr_reasoning_effort r)))] else [])
     @ (case cr_response_format r of
          None \<Rightarrow> []
        | Some f \<Rightarrow> if vs_response_format (vc_spec c) then [(lit ''response_format'', f)] else [])"

record tool_call =
  tc_id :: ustring
  tc_name :: ustring
  tc_arguments :: ustring

record sse_state =
  sse_tools :: "(int \<times> tool_call) list"
  sse_usage :: "obj option"
  sse_finish :: "ustring option"
  sse_model :: ustring

definition json_text :: "json_env \<Rightarrow> json option \<Rightarrow> ustring option" where
  "json_text J v = (case v of None \<Rightarrow> None | Some x \<Rightarrow> if json_true x then Some (je_str J x) else None)"

definition merge_fragment :: "json_env \<Rightarrow> obj \<Rightarrow> tool_call \<Rightarrow> tool_call" where
  "merge_fragment J f c =
     (let c1 = c\<lparr>tc_id := or_else (json_text J (jget f ''id'')) (tc_id c)\<rparr>
      in case jget f ''function'' of
           Some (JObj fn) \<Rightarrow>
             let c2 = c1\<lparr>tc_name := or_else (json_text J (jget fn ''name'')) (tc_name c1)\<rparr>
             in (case jget fn ''arguments'' of Some (JStr a) \<Rightarrow> c2\<lparr>tc_arguments := tc_arguments c2 @ a\<rparr> | _ \<Rightarrow> c2)
         | _ \<Rightarrow> c1)"

fun accumulate_calls ::
  "json_env \<Rightarrow> (int \<times> tool_call) list \<Rightarrow> json list \<Rightarrow> string + (int \<times> tool_call) list" where
  "accumulate_calls J sink [] = Inr sink"
| "accumulate_calls J sink (JObj f # fs) =
     (case py_int (or_else (jget f ''index'') (JInt 0)) of
        Inl cls \<Rightarrow> Inl cls
      | Inr i \<Rightarrow>
          accumulate_calls J
            (AList.update i (merge_fragment J f (or_else (map_of sink i) \<lparr>tc_id = [], tc_name = [], tc_arguments = []\<rparr>)) sink) fs)"
| "accumulate_calls J sink (_ # fs) = accumulate_calls J sink fs"

definition tool_fragments :: "json option \<Rightarrow> json list" where
  "tool_fragments v = (case v of Some (JList fs) \<Rightarrow> fs | _ \<Rightarrow> [])"

text \<open>One event: what it yields, and the state after it unless an exception ended the generator.\<close>

definition sse_event :: "json_env \<Rightarrow> obj \<Rightarrow> sse_state \<Rightarrow> provider_delta list \<times> (string + sse_state)" where
  "sse_event J event st =
     (let st1 = st\<lparr>sse_model := or_else (json_text J (jget event ''model'')) (sse_model st),
                  sse_usage := (case jget event ''usage'' of Some (JObj u) \<Rightarrow> Some u | _ \<Rightarrow> sse_usage st)\<rparr>
      in case jget event ''choices'' of
           Some (JList (JObj choice # _)) \<Rightarrow>
             (let st2 = (case json_text J (jget choice ''finish_reason'') of None \<Rightarrow> st1 | Some f \<Rightarrow> st1\<lparr>sse_finish := Some f\<rparr>)
              in case jget choice ''delta'' of
                   Some (JObj d) \<Rightarrow>
                     (case jget d ''content'' of Some (JStr t) \<Rightarrow> if t = [] then [] else [TextDelta t] | _ \<Rightarrow> [],
                      map_sum id (\<lambda>tools. st2\<lparr>sse_tools := tools\<rparr>)
                        (accumulate_calls J (sse_tools st2) (tool_fragments (jget d ''tool_calls''))))
                 | _ \<Rightarrow> ([], Inr st2))
         | _ \<Rightarrow> ([], Inr st1))"

text \<open>The payload of a line that carries one.\<close>

definition data_of :: "ustring \<Rightarrow> ustring option" where
  "data_of raw =
     (let line = rev (dropWhile (\<lambda>c. c = 13) (rev raw))
      in if line = [] \<or> prefix (lit '':'') line then None
         else if \<not> prefix (lit ''data:'') line then None
         else Some (strip (drop 5 line)))"

definition value_errors :: "string set" where
  "value_errors = {''ValueError'', ''JSONDecodeError'', ''UnicodeDecodeError''}"

fun sse_lines ::
  "json_env \<Rightarrow> ustring list \<Rightarrow> sse_state \<Rightarrow> provider_delta list \<times> (string + bool \<times> sse_state)" where
  "sse_lines J [] st = ([], Inr (False, st))"
| "sse_lines J (raw # rest) st =
     (case data_of raw of
        None \<Rightarrow> sse_lines J rest st
      | Some payload \<Rightarrow>
          if payload = lit ''[DONE]'' then ([], Inr (True, st))
          else
            case je_loads J payload of
              Inl cls \<Rightarrow> if cls \<in> value_errors then sse_lines J rest st else ([], Inl cls)
            | Inr v \<Rightarrow>
                (case v of
                   JObj event \<Rightarrow>
                     (case sse_event J event st of
                        (ds, Inl cls) \<Rightarrow> (ds, Inl cls)
                      | (ds, Inr st1) \<Rightarrow> (case sse_lines J rest st1 of (es, r) \<Rightarrow> (ds @ es, r)))
                 | _ \<Rightarrow> sse_lines J rest st))"

text \<open>How the lines end: normally, with a timeout, with a broken connection. After \<open>[DONE]\<close> nothing more is read.\<close>

datatype line_end = LinesEnd | LinesTimeout | LinesBroken string

datatype stream_failure = OwnFailure provider_failure | LineFailure line_end | Escaped string

definition tool_delta :: "tool_call \<Rightarrow> provider_delta" where
  "tool_delta c = ToolCallDelta (tc_id c) (tc_name c) (tc_arguments c) ''done''"

definition parse_stream ::
  "json_env \<Rightarrow> ustring \<Rightarrow> ustring list \<Rightarrow> line_end \<Rightarrow> provider_delta list \<times> stream_failure option" where
  "parse_stream J vendor lines ending =
     (case sse_lines J lines \<lparr>sse_tools = [], sse_usage = None, sse_finish = None, sse_model = []\<rparr> of
        (ds, Inl cls) \<Rightarrow> (ds, Some (Escaped cls))
      | (ds, Inr (completed, st)) \<Rightarrow>
          if \<not> completed \<and> ending \<noteq> LinesEnd then (ds, Some (LineFailure ending))
          else if \<not> completed \<and> sse_finish st = None
          then (ds, Some (OwnFailure (unavailable vendor [32, 30340, 22238, 25033, 22312, 32080, 26463, 21069, 20013, 26039])))
          else
            let tools = List.map (\<lambda>(i, c). tool_delta c) (sse_tools st);
                finish = [DoneDelta (or_else (sse_finish st) (lit ''stop''))]
            in case sse_usage st of
                 None \<Rightarrow> (ds @ tools @ finish, None)
               | Some u \<Rightarrow>
                   (case (py_int (or_else (jget u ''prompt_tokens'') (JInt 0)), py_int (or_else (jget u ''completion_tokens'') (JInt 0))) of
                      (Inr p, Inr c) \<Rightarrow>
                        (ds @ tools @ [UsageDelta \<lparr>d_prompt = p, d_completion = c, d_model = sse_model st, d_provider = vendor,
                                                   d_reasoning = 0, d_estimated = False\<rparr>] @ finish, None)
                    | (Inl cls, _) \<Rightarrow> (ds @ tools, Some (Escaped cls))
                    | (Inr _, Inl cls) \<Rightarrow> (ds @ tools, Some (Escaped cls))))"

datatype connection =
    NotConnected line_end
  | Streams nat "ustring list" line_end

definition line_failure :: "ustring \<Rightarrow> line_end \<Rightarrow> provider_failure" where
  "line_failure vendor e =
     (case e of
        LinesBroken cls \<Rightarrow> connection_failed vendor cls
      | _ \<Rightarrow> \<lparr>pf_type = ProviderTimeoutError, pf_message = vendor @ [32, 36926, 26178]\<rparr>)"

definition adapter_stream ::
  "json_env \<Rightarrow> vendor_client \<Rightarrow> (obj \<Rightarrow> connection) \<Rightarrow> chat_request \<Rightarrow> provider_delta list \<times> raise_kind option" where
  "adapter_stream J c connect request =
     (case connect (chat_payload c request) of
        NotConnected e \<Rightarrow> ([], Some (RaisedProvider (line_failure (vc_name c) e)))
      | Streams code lines ending \<Rightarrow>
          if 400 \<le> code
          then ([], Some (RaisedProvider (if ending = LinesEnd then error_for (vc_name c) (cr_model request) code
                                          else line_failure (vc_name c) ending)))
          else
            (case parse_stream J (vc_name c) lines ending of
               (ds, None) \<Rightarrow> (ds, None)
             | (ds, Some (OwnFailure e)) \<Rightarrow> (ds, Some (RaisedProvider e))
             | (ds, Some (LineFailure e)) \<Rightarrow> (ds, Some (RaisedProvider (line_failure (vc_name c) e)))
             | (ds, Some (Escaped cls)) \<Rightarrow> (ds, Some (RaisedOther cls))))"

subsection \<open>Rerankers\<close>

definition rerank_error_for :: "ustring \<Rightarrow> nat \<Rightarrow> provider_failure" where
  "rerank_error_for vendor code =
     (if code = 429 then \<lparr>pf_type = ProviderRateLimitedError, pf_message = vendor @ [32, 38971, 29575, 38480, 21046]\<rparr>
      else if code \<in> {401, 403}
      then \<lparr>pf_type = ProviderAuthError, pf_message = vendor @ [32, 25298, 32085, 20102, 25105, 20497, 30340, 24977, 35657]\<rparr>
      else if code \<in> {400, 413, 422}
      then \<lparr>pf_type = ProviderRequestRejectedError, pf_message = vendor @ [32, 36864, 22238, 20102, 36889, 27425, 35531, 27714]\<rparr>
      else unavailable vendor ([32, 22238, 25033, 32] @ decimal code))"

definition post_rerank :: "ustring \<Rightarrow> ustring \<Rightarrow> exchange \<Rightarrow> provider_failure + json" where
  "post_rerank vendor timeout x =
     (case x of
        TimedOut \<Rightarrow> Inl \<lparr>pf_type = ProviderTimeoutError, pf_message = vendor @ [32, 36926, 26178, 65288] @ timeout @ [115, 65289]\<rparr>
      | TransportError cls \<Rightarrow> Inl (connection_failed vendor cls)
      | Answered code body \<Rightarrow>
          if 400 \<le> code then Inl (rerank_error_for vendor code)
          else (case body of None \<Rightarrow> Inl (unavailable vendor [32, 22238, 25033, 19981, 26159, 32, 74, 83, 79, 78]) | Some v \<Rightarrow> Inr v))"

definition ranked_row :: "json_env \<Rightarrow> string \<Rightarrow> obj \<Rightarrow> string + int \<times> rat" where
  "ranked_row J score_key row =
     (case jget row ''index'' of
        None \<Rightarrow> Inl ''KeyError''
      | Some i \<Rightarrow>
          (case py_int i of
             Inl cls \<Rightarrow> Inl cls
           | Inr n \<Rightarrow>
               (case jget row score_key of
                  None \<Rightarrow> Inl ''KeyError''
                | Some x \<Rightarrow> map_sum id (\<lambda>s. (n, s)) (py_float J x))))"

fun ranked_rows ::
  "json_env \<Rightarrow> ustring \<Rightarrow> nat \<Rightarrow> string \<Rightarrow> json list \<Rightarrow> (nat \<times> rat) list \<Rightarrow> raise_kind + (nat \<times> rat) list" where
  "ranked_rows J vendor n score_key [] docs = Inr docs"
| "ranked_rows J vendor n score_key (row # rows) docs =
     (case row of
        JObj kvs \<Rightarrow>
          (case ranked_row J score_key kvs of
             Inl cls \<Rightarrow>
               if caught cls then Inl (RaisedProvider (unavailable vendor [32, 30340, 25490, 21517, 32570, 23569, 24517, 35201, 27396, 20301]))
               else Inl (RaisedOther cls)
           | Inr (i, s) \<Rightarrow>
               if \<not> (0 \<le> i \<and> i < int n)
               then Inl (RaisedProvider (unavailable vendor ([32, 22238, 20659, 30340, 32034, 24341, 32] @ int_str i @ [32, 19981, 22312, 36865, 20986, 30340, 32]
                       @ decimal n @ [32, 31558, 20505, 36984, 20043, 20839])))
               else if nat i \<in> fst ` set docs
               then Inl (RaisedProvider (unavailable vendor ([32, 37325, 35079, 22238, 20659, 20102, 32034, 24341, 32] @ int_str i)))
               else ranked_rows J vendor n score_key rows (docs @ [(nat i, s)]))
      | _ \<Rightarrow> Inl (RaisedProvider (unavailable vendor [32, 30340, 25490, 21517, 38917, 30446, 26684, 24335, 38750, 38928, 26399])))"

definition ranked_documents :: "json_env \<Rightarrow> ustring \<Rightarrow> json \<Rightarrow> nat \<Rightarrow> string \<Rightarrow> raise_kind + (nat \<times> rat) list" where
  "ranked_documents J vendor rows n score_key =
     (case rows of
        JList xs \<Rightarrow> map_sum id (sort_key (\<lambda>(i, s). (- s, i))) (ranked_rows J vendor n score_key xs [])
      | _ \<Rightarrow> Inl (RaisedProvider (unavailable vendor [32, 30340, 25490, 21517, 19981, 26159, 19968, 20491, 38499, 21015])))"

definition tei_name :: ustring where "tei_name = lit ''tei''"
definition jina_name :: ustring where "jina_name = lit ''jina''"

definition tei_rerank ::
  "json_env \<Rightarrow> (obj \<Rightarrow> exchange) \<Rightarrow> ustring \<Rightarrow> ustring \<Rightarrow> ustring list \<Rightarrow> ustring \<Rightarrow> raise_kind + (nat \<times> rat) list \<times> ustring" where
  "tei_rerank J post timeout query documents model =
     (if documents = [] then Inr ([], model)
      else
        case post_rerank tei_name timeout (post
               [(lit ''query'', JStr query), (lit ''texts'', JList (List.map JStr documents)), (lit ''raw_scores'', JBool False),
                (lit ''return_text'', JBool False), (lit ''truncate'', JBool True)]) of
          Inl e \<Rightarrow> Inl (RaisedProvider e)
        | Inr body \<Rightarrow>
            (case body of
               JList _ \<Rightarrow> map_sum id (\<lambda>docs. (docs, model)) (ranked_documents J tei_name body (length documents) ''score'')
             | _ \<Rightarrow> Inl (RaisedProvider (unavailable tei_name [32, 30340, 22238, 25033, 19981, 26159, 25490, 21517, 38499, 21015]))))"

definition jina_rerank ::
  "json_env \<Rightarrow> (obj \<Rightarrow> exchange) \<Rightarrow> ustring \<Rightarrow> ustring \<Rightarrow> ustring list \<Rightarrow> ustring \<Rightarrow> raise_kind + (nat \<times> rat) list \<times> ustring" where
  "jina_rerank J post timeout query documents model =
     (if documents = [] then Inr ([], model)
      else
        case post_rerank jina_name timeout (post
               [(lit ''model'', JStr model), (lit ''query'', JStr query), (lit ''documents'', JList (List.map JStr documents)),
                (lit ''return_documents'', JBool False)]) of
          Inl e \<Rightarrow> Inl (RaisedProvider e)
        | Inr body \<Rightarrow>
            (case jget (items_of body) ''results'' of
               None \<Rightarrow> Inl (RaisedProvider (unavailable jina_name [32, 30340, 22238, 25033, 27794, 26377, 32, 114, 101, 115, 117, 108, 116, 115]))
             | Some results \<Rightarrow>
                 map_sum id (\<lambda>docs. (docs, model_of J (items_of body) model))
                   (ranked_documents J jina_name results (length documents) ''relevance_score'')))"

subsection \<open>The order of a stream\<close>

lemma sse_event_texts: "d \<in> set (fst (sse_event J event st)) \<Longrightarrow> \<exists>t. d = TextDelta t \<and> t \<noteq> []"
  by (auto simp: sse_event_def Let_def split: option.splits json.splits list.splits if_splits)

lemma sse_lines_texts: "d \<in> set (fst (sse_lines J ls st)) \<Longrightarrow> \<exists>t. d = TextDelta t \<and> t \<noteq> []"
proof (induction ls arbitrary: st)
  case (Cons raw ls)
  have "d \<in> set (fst (sse_lines J ls st)) \<or> (\<exists>event. d \<in> set (fst (sse_event J event st)))
      \<or> (\<exists>st1. d \<in> set (fst (sse_lines J ls st1)))"
    using Cons.prems by (auto split: option.splits if_splits sum.splits json.splits prod.splits) (metis fst_conv)+
  then show ?case using Cons.IH sse_event_texts by blast
qed simp

definition text_delta :: "provider_delta \<Rightarrow> bool" where
  "text_delta d \<longleftrightarrow> (\<exists>t. d = TextDelta t \<and> t \<noteq> [])"

definition finished_call :: "provider_delta \<Rightarrow> bool" where
  "finished_call d \<longleftrightarrow> (\<exists>i n a. d = ToolCallDelta i n a ''done'')"

definition stream_shape :: "ustring \<Rightarrow> provider_delta list \<Rightarrow> bool \<Rightarrow> bool" where
  "stream_shape vendor ds finished \<longleftrightarrow>
     (\<exists>texts tools usage finish. ds = texts @ tools @ usage @ finish
        \<and> list_all text_delta texts \<and> list_all finished_call tools
        \<and> (usage = [] \<or> (\<exists>u. usage = [UsageDelta u] \<and> d_provider u = vendor \<and> d_reasoning u = 0 \<and> \<not> d_estimated u))
        \<and> (if finished then \<exists>f. finish = [DoneDelta f] else usage = [] \<and> finish = []))"

lemma stream_shapeI:
  assumes "list_all text_delta texts" "list_all finished_call tools"
  shows "stream_shape vendor texts False" "stream_shape vendor (texts @ tools) False"
    and "stream_shape vendor (texts @ tools @ [DoneDelta f]) True"
    and "d_provider u = vendor \<Longrightarrow> d_reasoning u = 0 \<Longrightarrow> \<not> d_estimated u \<Longrightarrow> stream_shape vendor (texts @ tools @ [UsageDelta u, DoneDelta f]) True"
proof -
  show "stream_shape vendor texts False" unfolding stream_shape_def
    by (intro exI [of _ texts] exI [of _ "[]"]) (use assms in simp)
  show "stream_shape vendor (texts @ tools) False" unfolding stream_shape_def
    by (intro exI [of _ texts] exI [of _ tools] exI [of _ "[]"]) (use assms in simp)
  show "stream_shape vendor (texts @ tools @ [DoneDelta f]) True" unfolding stream_shape_def
    by (intro exI [of _ texts] exI [of _ tools] exI [of _ "[]"] exI [of _ "[DoneDelta f]"]) (use assms in simp)
  show "d_provider u = vendor \<Longrightarrow> d_reasoning u = 0 \<Longrightarrow> \<not> d_estimated u \<Longrightarrow> stream_shape vendor (texts @ tools @ [UsageDelta u, DoneDelta f]) True"
    unfolding stream_shape_def
    by (intro exI [of _ texts] exI [of _ tools] exI [of _ "[UsageDelta u]"] exI [of _ "[DoneDelta f]"]) (use assms in simp)
qed

lemma parse_stream_shape: "parse_stream J vendor ls ending = (ds, e) \<Longrightarrow> stream_shape vendor ds (e = None)"
proof -
  assume run: "parse_stream J vendor ls ending = (ds, e)"
  let ?st0 = "\<lparr>sse_tools = [], sse_usage = None, sse_finish = None, sse_model = []\<rparr>"
  obtain texts r where l: "sse_lines J ls ?st0 = (texts, r)" by fastforce
  have t: "list_all text_delta texts"
    using sse_lines_texts [of _ J ls ?st0] l by (auto simp: list_all_iff text_delta_def)
  have tools: "list_all finished_call (List.map (\<lambda>(i, c). tool_delta c) cs)" for cs
    by (auto simp: list_all_iff finished_call_def tool_delta_def)
  show ?thesis
  proof (cases r)
    case (Inl cls)
    with run l have "ds = texts" "e \<noteq> None" by (auto simp: parse_stream_def)
    then show ?thesis using stream_shapeI(1) [OF t tools] by (cases e) auto
  next
    case (Inr p)
    obtain completed st where p: "p = (completed, st)" by fastforce
    let ?tools = "List.map (\<lambda>(i, c). tool_delta c) (sse_tools st)"
    have "(e \<noteq> None \<and> (ds = texts \<or> ds = texts @ ?tools))
        \<or> (e = None \<and> (\<exists>f. ds = texts @ ?tools @ [DoneDelta f]))
        \<or> (e = None \<and> (\<exists>f u. d_provider u = vendor \<and> d_reasoning u = 0 \<and> \<not> d_estimated u \<and> ds = texts @ ?tools @ [UsageDelta u, DoneDelta f]))"
      using run l Inr p by (auto simp: parse_stream_def Let_def split: if_splits option.splits sum.splits)
    then show ?thesis using stream_shapeI [OF t tools [of "sse_tools st"]] by auto
  qed
qed

text \<open>Whatever the provider sends, an adapter's stream is text, then whole tool calls, then at most one usage report, then
  the end; the end is there exactly when no failure was raised, also when the finish reason came before the usage, and a
  connection that breaks before the end is a failure and never a complete answer.\<close>

theorem adapter_streams_are_ordered:
  assumes "adapter_stream J c connect request = (ds, failure)"
  shows "stream_shape (vc_name c) ds (failure = None)"
proof (cases "connect (chat_payload c request)")
  case (NotConnected e)
  then have "ds = []" "failure \<noteq> None" using assms by (auto simp: adapter_stream_def)
  then show ?thesis by (simp add: stream_shape_def)
next
  case (Streams code lines ending)
  show ?thesis
  proof (cases "400 \<le> code")
    case True
    then have "ds = []" "failure \<noteq> None" using assms Streams by (auto simp: adapter_stream_def)
    then show ?thesis by (simp add: stream_shape_def)
  next
    case False
    obtain es e where run: "parse_stream J (vc_name c) lines ending = (es, e)" by fastforce
    then have "es = ds" "failure = None \<longleftrightarrow> e = None"
      using assms Streams False by (auto simp: adapter_stream_def split: option.splits stream_failure.splits)
    then show ?thesis using parse_stream_shape [OF run] by simp
  qed
qed

subsection \<open>Lines that carry nothing\<close>

definition noise :: "json_env \<Rightarrow> ustring \<Rightarrow> bool" where
  "noise J raw \<longleftrightarrow>
     (case data_of raw of
        None \<Rightarrow> True
      | Some payload \<Rightarrow>
          payload \<noteq> lit ''[DONE]''
          \<and> (case je_loads J payload of Inl cls \<Rightarrow> cls \<in> value_errors | Inr v \<Rightarrow> \<not> is_object v))"

lemma sse_lines_noise: "noise J raw \<Longrightarrow> sse_lines J (raw # rest) st = sse_lines J rest st"
  by (auto simp: noise_def is_object_def split: option.splits sum.splits json.splits)

lemma sse_lines_cong:
  "(\<And>st. sse_lines J xs st = sse_lines J ys st) \<Longrightarrow> data_of raw = data_of raw' \<Longrightarrow> sse_lines J (raw # xs) st = sse_lines J (raw' # ys) st"
  by (simp split: option.split sum.split json.split)

lemma sse_lines_filter: "sse_lines J (filter (\<lambda>l. \<not> noise J l) ls) st = sse_lines J ls st"
proof (induction ls arbitrary: st)
  case (Cons raw ls)
  show ?case
  proof (cases "noise J raw")
    case True
    with Cons.IH sse_lines_noise [OF True] show ?thesis by (simp del: sse_lines.simps)
  next
    case False
    with sse_lines_cong [OF Cons.IH refl] show ?thesis by (simp del: sse_lines.simps)
  qed
qed simp

lemma data_of_crlf: "data_of (l @ [13]) = data_of l"
  by (simp add: data_of_def)

lemma sse_lines_crlf: "sse_lines J (List.map (\<lambda>l. l @ [13]) ls) st = sse_lines J ls st"
proof (induction ls arbitrary: st)
  case (Cons raw ls)
  from sse_lines_cong [OF Cons.IH data_of_crlf] show ?case by (simp del: sse_lines.simps)
qed simp

text \<open>Heartbeats, comments, blank lines, fields other than the data, lines that are no JSON and the form of the line ends
  change nothing: the stream without them is the same, failures included.\<close>

theorem noise_is_ignored:
  "parse_stream J vendor (filter (\<lambda>l. \<not> noise J l) ls) ending = parse_stream J vendor ls ending
   \<and> parse_stream J vendor (List.map (\<lambda>l. l @ [13]) ls) ending = parse_stream J vendor ls ending"
  by (simp add: parse_stream_def sse_lines_filter sse_lines_crlf)

subsection \<open>Tool calls\<close>

text \<open>The part of the arguments that a fragment carries, and whose call it belongs to.\<close>

definition fragment_arguments :: "json \<Rightarrow> ustring" where
  "fragment_arguments f =
     (case jget (items_of f) ''function'' of
        Some (JObj fn) \<Rightarrow> (case jget fn ''arguments'' of Some (JStr a) \<Rightarrow> a | _ \<Rightarrow> [])
      | _ \<Rightarrow> [])"

definition fragment_of :: "int \<Rightarrow> json \<Rightarrow> bool" where
  "fragment_of i f \<longleftrightarrow> is_object f \<and> row_index f = Inr i"

definition arguments_of :: "(int \<times> tool_call) list \<Rightarrow> int \<Rightarrow> ustring" where
  "arguments_of sink i = (case map_of sink i of None \<Rightarrow> [] | Some c \<Rightarrow> tc_arguments c)"

lemma merge_fragment_arguments: "tc_arguments (merge_fragment J f c) = tc_arguments c @ fragment_arguments (JObj f)"
  by (auto simp: merge_fragment_def Let_def fragment_arguments_def items_of_def split: option.split json.split)

text \<open>The fragments of parallel tool calls, in whatever order they are interleaved, are put together by their index: the
  arguments of each call are its fragments in their order and no other's.\<close>

theorem tool_arguments_are_reassembled:
  assumes "accumulate_calls J sink fs = Inr sink'"
  shows "arguments_of sink' i = arguments_of sink i @ concat (List.map fragment_arguments (filter (fragment_of i) fs))"
  using assms
proof (induction J sink fs rule: accumulate_calls.induct)
  case (2 J sink f fs)
  then obtain j where j: "py_int (or_else (jget f ''index'') (JInt 0)) = Inr j" by (auto split: sum.splits)
  let ?c = "or_else (map_of sink j) \<lparr>tc_id = [], tc_name = [], tc_arguments = []\<rparr>"
  let ?sink = "AList.update j (merge_fragment J f ?c) sink"
  have "accumulate_calls J ?sink fs = Inr sink'" using 2(2) j by simp
  from 2(1) [OF j this]
  have "arguments_of sink' i = arguments_of ?sink i @ concat (List.map fragment_arguments (filter (fragment_of i) fs))" .
  moreover have "arguments_of ?sink i = arguments_of sink i @ (if i = j then fragment_arguments (JObj f) else [])"
    by (auto simp: arguments_of_def update_conv merge_fragment_arguments split: option.split)
  moreover have "fragment_of i (JObj f) \<longleftrightarrow> i = j"
    using j by (auto simp: fragment_of_def is_object_def row_index_def items_of_def)
  ultimately show ?case by simp
qed (auto simp: fragment_of_def is_object_def)

text \<open>A null where a number is expected: the exception is none of the provider's.\<close>

lemma null_usage_loses_the_answer:
  assumes "sse_lines J ls \<lparr>sse_tools = [], sse_usage = None, sse_finish = None, sse_model = []\<rparr> = (ds, Inr (True, st))"
    and "sse_usage st = Some u" "jget u ''prompt_tokens'' = Some JNull"
  shows "snd (parse_stream J vendor ls LinesEnd) = Some (Escaped ''TypeError'')"
  using assms by (simp add: parse_stream_def py_int_def Let_def)

subsection \<open>Which vector belongs to which input\<close>

lemma map_raising_Inr:
  "map_raising f xs = Inr ys \<longleftrightarrow> length ys = length xs \<and> (\<forall>k < length xs. f (xs ! k) = Inr (ys ! k))"
proof (induction xs arbitrary: ys)
  case (Cons x xs)
  show ?case
  proof (cases "f x")
    case (Inl e)
    then show ?thesis by auto
  next
    case (Inr y)
    show ?thesis
    proof
      assume "map_raising f (x # xs) = Inr ys"
      then obtain zs where zs: "map_raising f xs = Inr zs" "ys = y # zs" using Inr by (auto split: sum.splits)
      with Cons.IH [of zs] Inr show "length ys = length (x # xs) \<and> (\<forall>k < length (x # xs). f ((x # xs) ! k) = Inr (ys ! k))"
        by (auto simp: nth_Cons split: nat.split)
    next
      assume *: "length ys = length (x # xs) \<and> (\<forall>k < length (x # xs). f ((x # xs) ! k) = Inr (ys ! k))"
      then obtain z zs where ys: "ys = z # zs" by (cases ys) auto
      have "z = y" using * ys Inr by force
      moreover have "map_raising f xs = Inr zs"
        using * ys Cons.IH [of zs] by force
      ultimately show "map_raising f (x # xs) = Inr ys" using Inr ys by simp
    qed
  qed
qed auto

lemma ordered_rows_position:
  assumes "ordered_rows rows = Inr ordered" "k < length rows"
  shows "length ordered = length rows \<and> ordered ! k \<in> set rows
    \<and> (if list_ex (\<lambda>row. jget (items_of row) ''index'' \<noteq> None) rows then row_index (ordered ! k) = Inr (int k) else ordered ! k = rows ! k)"
proof -
  let ?explicit = "list_ex (\<lambda>row. jget (items_of row) ''index'' \<noteq> None) rows"
  obtain resolved where res: "map_raising row_index rows = Inr resolved"
    using assms(1) by (auto simp: ordered_rows_def Let_def split: if_splits sum.splits)
  then have len: "length resolved = length rows" and each: "\<forall>k < length rows. row_index (rows ! k) = Inr (resolved ! k)"
    by (auto simp: map_raising_Inr)
  consider "sort resolved = List.map int [0..<length rows]" "ordered = List.map snd (sort_key fst (zip resolved rows))"
    | "\<not> ?explicit" "ordered = rows"
    using assms(1) res by (auto simp: ordered_rows_def Let_def split: if_splits)
  then show ?thesis
  proof cases
    case 1
    let ?p = "sort_key fst (zip resolved rows)"
    have lp: "length ?p = length rows" using len by simp
    have "List.map fst ?p = sort resolved"
    proof (rule properties_for_sort [symmetric])
      have "mset (List.map fst ?p) = mset (List.map fst (zip resolved rows))" by simp
      then show "mset (List.map fst ?p) = mset resolved" using len by (simp only: map_fst_zip)
    qed (rule sorted_sort_key)
    then have fst: "fst (?p ! k) = int k"
      using 1(1) lp assms(2) by (metis (no_types, lifting) add_0 diff_zero length_map length_upt nth_map nth_upt)
    have mem: "?p ! k \<in> set (zip resolved rows)" using lp assms(2) by (metis nth_mem set_sort)
    then obtain m where m: "m < length rows" "?p ! k = (resolved ! m, rows ! m)" using len by (auto simp: set_zip)
    have snd: "ordered ! k = rows ! m" using 1(2) lp assms(2) m by simp
    have idx: "row_index (ordered ! k) = Inr (int k)" using snd each m fst by simp
    have "ordered ! k = rows ! k" if "\<not> ?explicit"
    proof -
      have "row_index r = Inr 0" if "r \<in> set rows" for r
        using \<open>\<not> ?explicit\<close> that by (auto simp: list_ex_iff row_index_def py_int_def)
      then have "int k = 0" using idx snd m by (metis nth_mem sum.inject(2))
      moreover have "m = 0"
      proof -
        have "resolved ! j = 0" if "j < length rows" for j
          using each that \<open>\<And>r. r \<in> set rows \<Longrightarrow> row_index r = Inr 0\<close> [OF nth_mem [OF that]] by simp
        then have "resolved = replicate (length rows) 0"
          using len by (intro replicate_eqI) (auto simp: in_set_conv_nth)
        then have "List.map int [0..<length rows] = replicate (length rows) 0" using 1(1) by (metis sorted_replicate sort_key_id_if_sorted map_idI)
        then have eq: "List.map int [0..<length rows] ! 1 = replicate (length rows) 0 ! 1" by simp
        have "length rows \<le> 1"
        proof (rule ccontr)
          assume "\<not> length rows \<le> 1"
          then show False using eq by simp
        qed
        then show ?thesis using m(1) by simp
      qed
      ultimately show ?thesis using snd by simp
    qed
    then show ?thesis using idx snd m(1) 1(2) lp by auto
  next
    case 2
    then show ?thesis using assms(2) by auto
  qed
qed

text \<open>C12. A batch of embeddings is complete and in order: there is one vector per input, and the vector of an input is computed from
  the row that names its position, or, when no row names one, from the row at its position. A response in another order, with
  repeated or missing positions never gives one input another's vector.\<close>

theorem vectors_belong_to_their_inputs:
  assumes "adapter_embed J post c dimensions timeout texts model = Inr result" "texts \<noteq> []"
  shows "length (e_vectors result) = length texts
    \<and> (\<exists>body rows. post_embeddings (vc_name c) model timeout (post (embed_payload c dimensions texts model)) = Inr body
        \<and> jget body ''data'' = Some (JList rows) \<and> length rows = length texts
        \<and> (\<forall>k < length texts. \<exists>row \<in> set rows. row_vector J row = Inr (e_vectors result ! k)
              \<and> (if list_ex (\<lambda>row. jget (items_of row) ''index'' \<noteq> None) rows then row_index row = Inr (int k) else row = rows ! k)))"
proof -
  obtain body where body: "post_embeddings (vc_name c) model timeout (post (embed_payload c dimensions texts model)) = Inr body"
    "parse_embeddings J (vc_name c) body texts model = Inr result"
    using assms by (auto simp: adapter_embed_def split: sum.splits)
  obtain rows where rows: "jget body ''data'' = Some (JList rows)" "length rows = length texts"
    using body(2) by (auto simp: parse_embeddings_def Let_def split: option.splits json.splits if_splits)
  obtain ordered where ord: "ordered_rows rows = Inr ordered" "map_raising (row_vector J) ordered = Inr (e_vectors result)"
    using body(2) rows by (auto simp: parse_embeddings_def Let_def split: sum.splits)
  note pos = ordered_rows_position [OF ord(1)]
  have vec: "length (e_vectors result) = length ordered \<and> (\<forall>k < length ordered. row_vector J (ordered ! k) = Inr (e_vectors result ! k))"
    using ord(2) by (simp add: map_raising_Inr)
  have len: "length ordered = length rows" using pos [of 0] rows(2) assms(2) by (cases texts) auto
  show ?thesis using body(1) rows vec len pos by (intro conjI exI) auto
qed

subsection \<open>Failures and rankings\<close>

text \<open>A failed call is retried only where another try can help: a refused credential, an unknown model and a refused request
  are final, everything else, timeouts and broken connections included, may be tried again; a reranker's refused input is
  final too.\<close>

theorem retryable_failures:
  "(is_retryable (pf_type (error_for vendor model code)) \<longleftrightarrow> code \<notin> {400, 401, 403, 404})
   \<and> (is_retryable (pf_type (rerank_error_for vendor code)) \<longleftrightarrow> code \<notin> {400, 401, 403, 413, 422})
   \<and> is_retryable (pf_type (line_failure vendor e)) \<and> is_retryable (pf_type (connection_failed vendor cls))"
  by (auto simp: error_for_def rerank_error_for_def unavailable_def line_failure_def connection_failed_def split: line_end.split)

lemma ranked_rows_safe:
  "ranked_rows J vendor n score_key rows docs = Inr out \<Longrightarrow> distinct (List.map fst docs) \<Longrightarrow> (\<forall>d \<in> set docs. fst d < n)
     \<Longrightarrow> distinct (List.map fst out) \<and> (\<forall>d \<in> set out. fst d < n) \<and> length out = length docs + length rows"
proof (induction J vendor n score_key rows docs rule: ranked_rows.induct)
  case (2 J vendor n score_key row rows docs)
  from 2(2) obtain kvs i s where r: "row = JObj kvs" "ranked_row J score_key kvs = Inr (i, s)" "0 \<le> i" "i < int n" "nat i \<notin> fst ` set docs"
    "ranked_rows J vendor n score_key rows (docs @ [(nat i, s)]) = Inr out"
    by (auto split: json.splits sum.splits if_splits)
  have fresh: "\<not> nat i \<in> fst ` set docs" "\<not> \<not> (0 \<le> i \<and> i < int n)" using r by auto
  have "distinct (List.map fst out) \<and> (\<forall>d \<in> set out. fst d < n) \<and> length out = length (docs @ [(nat i, s)]) + length rows"
    by (rule 2(1) [OF r(1) r(2) refl fresh(2) fresh(1) r(6)]) (use 2(3,4) r in auto)
  then show ?case by simp
qed auto

definition safe_ranking :: "nat \<Rightarrow> (nat \<times> rat) list \<Rightarrow> bool" where
  "safe_ranking n docs \<longleftrightarrow>
     distinct (List.map fst docs) \<and> (\<forall>d \<in> set docs. fst d < n) \<and> sorted_wrt (\<lambda>a b. snd b < snd a \<or> snd b = snd a \<and> fst a < fst b) docs"

lemma map_sum_Inr: "map_sum f g x = Inr y \<longleftrightarrow> (\<exists>z. x = Inr z \<and> y = g z)"
  by (cases x) auto

lemma ranked_documents_safe:
  assumes "ranked_documents J vendor rows n score_key = Inr docs"
  shows "safe_ranking n docs"
proof -
  obtain xs out where out: "rows = JList xs" "ranked_rows J vendor n score_key xs [] = Inr out" "docs = sort_key (\<lambda>(i, s). (- s, i)) out"
    using assms by (auto simp: ranked_documents_def map_sum_Inr split: json.splits)
  have d: "distinct (List.map fst out)" "\<forall>d \<in> set out. fst d < n" using ranked_rows_safe [OF out(2)] by auto
  have "distinct (List.map fst docs)"
  proof -
    have "mset (List.map fst docs) = mset (List.map fst out)" by (simp add: out(3))
    then show ?thesis using d(1) mset_eq_imp_distinct_iff by blast
  qed
  moreover have "sorted_wrt (\<lambda>a b. snd b < snd a \<or> snd b = snd a \<and> fst a < fst b) docs"
  proof -
    have "sorted_wrt (\<lambda>a b. (case a of (i, s) \<Rightarrow> (- s, i)) \<le> (case b of (i, s) \<Rightarrow> (- s, i))) docs"
      using sorted_sort_key [of "\<lambda>(i, s). (- s, i)" out] unfolding out(3) by (simp add: sorted_map)
    moreover have "sorted_wrt (\<lambda>a b. fst a \<noteq> fst b) docs"
      using \<open>distinct (List.map fst docs)\<close> by (simp add: distinct_conv_nth sorted_wrt_iff_nth_less)
    ultimately have "sorted_wrt (\<lambda>a b. (case a of (i, s) \<Rightarrow> (- s, i)) \<le> (case b of (i, s) \<Rightarrow> (- s, i)) \<and> fst a \<noteq> fst b) docs"
      unfolding sorted_wrt_iff_nth_less by blast
    then show ?thesis by (rule sorted_wrt_mono_rel [rotated]) (auto simp: less_eq_prod_def)
  qed
  ultimately show ?thesis using d(2) by (auto simp: safe_ranking_def out(3))
qed


subsection \<open>Concrete exchanges\<close>

lemma lit_inject [simp]: "lit a = lit b \<longleftrightarrow> a = b"
  by (simp add: lit_def inj_map_eq_map [OF inj_of_char])

lemma jget_steps:
  "jget [] b = None" "jget ((lit a, v) # kv) b = (if a = b then Some v else jget kv b)"
  by (auto simp: jget_def)

lemma lit_nonempty [simp]: "lit s = [] \<longleftrightarrow> s = []"
  by (simp add: lit_def)


definition provider_sample_event :: obj where
  "provider_sample_event = [(lit ''choices'', JList [JObj [(lit ''delta'', JObj [(lit ''content'', JStr (lit ''hi''))])]])]"

definition provider_sample_json :: json_env where
  "provider_sample_json =
     \<lparr>je_loads = (\<lambda>t. if t = lit ''a'' then Inr (JObj provider_sample_event) else Inl ''JSONDecodeError''),
      je_str = (\<lambda>v. case v of JStr t \<Rightarrow> t | _ \<Rightarrow> []), je_float = (\<lambda>_. None), je_norm = (\<lambda>_. 2), je_rounding = id\<rparr>"

definition provider_sample_client :: vendor_client where
  "provider_sample_client =
     \<lparr>vc_name = lit ''tei'', vc_spec = \<lparr>vs_base_url = [], vs_requires_api_key = False, vs_dimensions = False, vs_reasoning_effort = False,
      vs_response_format = False\<rparr>, vc_base_url = [], vc_api_key = None\<rparr>"

definition provider_sample_request :: chat_request where
  "provider_sample_request =
     \<lparr>cr_messages = [], cr_model = lit ''m'', cr_temperature = None, cr_max_output_tokens = None, cr_reasoning_effort = ''off'',
      cr_response_format = None\<rparr>"

lemma provider_sample_stream:
  "adapter_stream provider_sample_json provider_sample_client
     (\<lambda>_. Streams 200 [lit '': beat'', lit ''data: a'', lit ''data: [DONE]''] LinesEnd) provider_sample_request
   = ([TextDelta (lit ''hi''), DoneDelta (lit ''stop'')], None)"
proof -
  have d: "data_of (lit '': beat'') = None" "data_of (lit ''data: a'') = Some (lit ''a'')" "data_of (lit ''data: [DONE]'') = Some (lit ''[DONE]'')"
    by (simp_all add: data_of_def Let_def lit_def strip_def lstrip_def rstrip_def is_space_def)
  have e: "sse_event provider_sample_json provider_sample_event st = ([TextDelta (lit ''hi'')], Inr st)" for st
    by (simp add: sse_event_def provider_sample_event_def jget_steps json_text_def tool_fragments_def or_else_def)
  have l: "je_loads provider_sample_json (lit ''a'') = Inr (JObj provider_sample_event)" by (simp add: provider_sample_json_def)
  show ?thesis by (simp add: adapter_stream_def parse_stream_def d e l)
qed

theorem adapter_streams_are_ordered_witness:
  "stream_shape (lit ''tei'') [TextDelta (lit ''hi''), DoneDelta (lit ''stop'')] True"
  using adapter_streams_are_ordered [OF provider_sample_stream] by (simp add: provider_sample_client_def)

definition sample_fragment :: "int \<Rightarrow> string \<Rightarrow> json" where
  "sample_fragment i a =
     JObj [(lit ''index'', JInt i), (lit ''function'', JObj [(lit ''arguments'', JStr (lit a))])]"

theorem tool_arguments_are_reassembled_witness:
  "\<exists>sink. accumulate_calls provider_sample_json [] [sample_fragment 0 ''x'', sample_fragment 1 ''y'', sample_fragment 0 ''z''] = Inr sink
     \<and> arguments_of sink 0 = lit ''xz''"
proof -
  let ?fs = "[sample_fragment 0 ''x'', sample_fragment 1 ''y'', sample_fragment 0 ''z'']"
  have "\<exists>sink. accumulate_calls provider_sample_json [] ?fs = Inr sink"
    by (simp add: sample_fragment_def jget_steps py_int_def)
  then obtain sink where sink: "accumulate_calls provider_sample_json [] ?fs = Inr sink" ..
  have "filter (fragment_of 0) ?fs = [sample_fragment 0 ''x'', sample_fragment 0 ''z'']"
    by (simp add: fragment_of_def sample_fragment_def is_object_def row_index_def items_of_def jget_steps py_int_def)
  moreover have "fragment_arguments (sample_fragment i a) = lit a" for i a
    by (simp add: fragment_arguments_def sample_fragment_def items_of_def jget_steps)
  ultimately have "arguments_of sink 0 = lit ''xz''"
    using tool_arguments_are_reassembled [OF sink, of 0] by (simp add: arguments_of_def lit_def)
  with sink show ?thesis by blast
qed

definition sample_vectors :: obj where
  "sample_vectors =
     [(lit ''data'', JList [JObj [(lit ''index'', JInt 1), (lit ''embedding'', JList [JInt 6])],
                          JObj [(lit ''index'', JInt 0), (lit ''embedding'', JList [JInt 4])]])]"

theorem vectors_belong_to_their_inputs_witness:
  "\<exists>result. adapter_embed provider_sample_json (\<lambda>_. Answered 200 (Some (JObj sample_vectors))) provider_sample_client None [] [[97], [98]] (lit ''m'') = Inr result
     \<and> length (e_vectors result) = 2"
proof -
  let ?rows = "[JObj [(lit ''index'', JInt 1), (lit ''embedding'', JList [JInt 6])], JObj [(lit ''index'', JInt 0), (lit ''embedding'', JList [JInt 4])]]"
  have i: "row_index (JObj [(lit ''index'', JInt i), kv]) = Inr i" for i kv by (simp add: row_index_def items_of_def jget_steps py_int_def)
  have v: "\<exists>x. row_vector provider_sample_json (JObj [(lit ''index'', JInt i), (lit ''embedding'', JList [JInt n])]) = Inr x" for i n
    by (simp add: row_vector_def items_of_def jget_steps iterate_json_def py_float_def)
  have "\<exists>ordered. ordered_rows ?rows = Inr ordered \<and> (\<exists>vs. map_raising (row_vector provider_sample_json) ordered = Inr vs)"
    using v [of 0 4] v [of 1 6] by (auto simp: ordered_rows_def Let_def i is_object_def upt_rec [of 0 2] upt_rec [of 1 2])
  then obtain ordered vs where ordered: "ordered_rows ?rows = Inr ordered" "map_raising (row_vector provider_sample_json) ordered = Inr vs" by blast
  have "jget sample_vectors ''data'' = Some (JList ?rows)" by (simp add: sample_vectors_def jget_steps)
  then have "\<exists>result. parse_embeddings provider_sample_json (lit ''tei'') sample_vectors [[97], [98]] (lit ''m'') = Inr result"
    using ordered by (simp add: parse_embeddings_def)
  then obtain result where r: "adapter_embed provider_sample_json (\<lambda>_. Answered 200 (Some (JObj sample_vectors))) provider_sample_client None [] [[97], [98]] (lit ''m'') = Inr result"
    by (auto simp: adapter_embed_def post_embeddings_def provider_sample_client_def)
  from vectors_belong_to_their_inputs [OF r] have "length (e_vectors result) = 2" by simp
  with r show ?thesis by blast
qed


end
