(* ===== verification/Streams.thy ===== *)
theory Streams
  imports ChatTurn KbConfig Ingestion "HOL-Library.Countable"
begin

text \<open>
  The event buffer of a generation, \<open>backend/core/streams.py\<close>, its frames, \<open>backend/api/sse.py\<close>, and the readers of
  \<open>backend/api/v1/conversations.py\<close> (stream, resume, stop). A Redis stream with its expiry and the stop flag are a
  record; the moment of every command is an argument. Lemmas: the numbering of the events, what a reader that connects or
  reconnects at any point receives, and that a second writer is refused.
\<close>

subsection \<open>The buffer\<close>

definition buffer_ttl_seconds :: int where
  "buffer_ttl_seconds = 300"

record stream_event =
  se_seq :: nat
  se_type :: string
  se_data :: obj

record stream_codec =
  sc_dumps :: "obj \<Rightarrow> ustring"
  sc_loads :: "ustring \<Rightarrow> obj"

record stream_redis =
  sr_entries :: "(nat \<times> string \<times> ustring) list"
  sr_until :: "int option"
  sr_stop :: "int option"

definition empty_redis :: stream_redis where
  "empty_redis = \<lparr>sr_entries = [], sr_until = None, sr_stop = None\<rparr>"

definition lapsed :: "int \<Rightarrow> int option \<Rightarrow> bool" where
  "lapsed now until = (case until of None \<Rightarrow> False | Some t \<Rightarrow> t \<le> now)"

text \<open>Redis forgets a key at the end of its life.\<close>

definition tidy :: "int \<Rightarrow> stream_redis \<Rightarrow> stream_redis" where
  "tidy now s =
     (let s1 = (if lapsed now (sr_until s) then s\<lparr>sr_entries := [], sr_until := None\<rparr> else s)
      in if lapsed now (sr_stop s1) then s1\<lparr>sr_stop := None\<rparr> else s1)"

definition stream_key :: "uuid128 \<Rightarrow> uuid128 \<Rightarrow> ustring" where
  "stream_key tenant message = tenant_key tenant [lit ''sse'', uuid_text message]"

definition stop_key :: "uuid128 \<Rightarrow> uuid128 \<Rightarrow> ustring" where
  "stop_key tenant message = stream_key tenant message @ lit '':stop''"

text \<open>The writer counts for itself. The two commands travel together without a transaction: an entry that is refused,
  because its number is not above the last one, still renews the life of the key.\<close>

definition append_event ::
  "stream_codec \<Rightarrow> int \<Rightarrow> string \<Rightarrow> obj \<Rightarrow> nat \<times> stream_redis \<Rightarrow> (string + stream_event) \<times> nat \<times> stream_redis" where
  "append_event C now ty data st =
     (case st of (n, s) \<Rightarrow>
        let i = n + 1; s1 = tidy now s
        in if sr_entries s1 \<noteq> [] \<and> i \<le> fst (last (sr_entries s1))
           then (Inl ''ResponseError'', i, s1\<lparr>sr_until := Some (now + buffer_ttl_seconds)\<rparr>)
           else (Inr \<lparr>se_seq = i, se_type = ty, se_data = data\<rparr>, i,
                 s1\<lparr>sr_entries := sr_entries s1 @ [(i, ty, sc_dumps C data)], sr_until := Some (now + buffer_ttl_seconds)\<rparr>))"

definition decode_entry :: "stream_codec \<Rightarrow> nat \<times> string \<times> ustring \<Rightarrow> stream_event" where
  "decode_entry C e = (case e of (i, ty, d) \<Rightarrow> \<lparr>se_seq = i, se_type = ty, se_data = sc_loads C d\<rparr>)"

definition event_history :: "stream_codec \<Rightarrow> int \<Rightarrow> nat \<Rightarrow> stream_redis \<Rightarrow> stream_event list" where
  "event_history C now after s = List.map (decode_entry C) (filter (\<lambda>e. after < fst e) (sr_entries (tidy now s)))"

text \<open>The state is the one at the moment the blocking read returns.\<close>

definition follow :: "stream_codec \<Rightarrow> int \<Rightarrow> nat \<Rightarrow> stream_redis \<Rightarrow> stream_event list" where
  "follow C now after s =
     (case filter (\<lambda>e. after < fst e) (sr_entries (tidy now s)) of
        [] \<Rightarrow> []
      | rows \<Rightarrow> List.map (decode_entry C) rows)"

definition buffer_exists :: "int \<Rightarrow> stream_redis \<Rightarrow> bool" where
  "buffer_exists now s \<longleftrightarrow> sr_until (tidy now s) \<noteq> None"

definition request_stop :: "int \<Rightarrow> stream_redis \<Rightarrow> stream_redis" where
  "request_stop now s = (tidy now s)\<lparr>sr_stop := Some (now + buffer_ttl_seconds)\<rparr>"

definition stop_requested :: "int \<Rightarrow> stream_redis \<Rightarrow> bool" where
  "stop_requested now s \<longleftrightarrow> sr_stop (tidy now s) \<noteq> None"

definition settle :: "int \<Rightarrow> int \<Rightarrow> stream_redis \<Rightarrow> stream_redis" where
  "settle ttl now s =
     (let s1 = tidy now s
      in tidy now (s1\<lparr>sr_until := map_option (\<lambda>_. now + ttl) (sr_until s1), sr_stop := map_option (\<lambda>_. now + ttl) (sr_stop s1)\<rparr>))"

definition drop_buffer :: "int \<Rightarrow> stream_redis \<Rightarrow> stream_redis" where
  "drop_buffer now s = (tidy now s)\<lparr>sr_entries := [], sr_until := None\<rparr>"

subsection \<open>Frames\<close>

definition format_event :: "stream_codec \<Rightarrow> stream_event \<Rightarrow> ustring" where
  "format_event C e =
     lit ''id: '' @ decimal (se_seq e) @ [10] @ lit ''event: '' @ lit (se_type e) @ [10] @ lit ''data: '' @ sc_dumps C (se_data e) @ [10, 10]"

definition format_heartbeat :: ustring where
  "format_heartbeat = lit '': heartbeat'' @ [10, 10]"

subsection \<open>The reader\<close>

text \<open>\<open>str.isdigit\<close> on the characters of a header, which are Latin-1: the ten digits and the three superscripts.\<close>

definition header_digit :: "codepoint \<Rightarrow> bool" where
  "header_digit c \<longleftrightarrow> 48 \<le> c \<and> c \<le> 57 \<or> c \<in> {178, 179, 185}"

definition parse_last_event_id :: "ustring option \<Rightarrow> app_exn + int" where
  "parse_last_event_id raw =
     (case raw of
        None \<Rightarrow> Inr 0
      | Some t \<Rightarrow>
          if t = [] \<or> \<not> list_all header_digit t
          then Inl \<lparr>ax_domain = True, ax_os_error = False, ax_class = ''ValidationFailedError'', ax_cause = '''', ax_message = []\<rparr>
          else (case parse_int t of None \<Rightarrow> Inl (foreign ''ValueError'') | Some n \<Rightarrow> Inr n))"

definition resume_expired :: app_exn where
  "resume_expired = \<lparr>ax_domain = True, ax_os_error = False, ax_class = ''ResumeExpiredError'', ax_cause = '''', ax_message = []\<rparr>"

definition stream_gate :: "int \<Rightarrow> stream_redis \<Rightarrow> nat \<Rightarrow> string \<Rightarrow> app_exn option" where
  "stream_gate now s after state =
     (if \<not> buffer_exists now s \<and> (0 < after \<or> state \<noteq> ''streaming'') then Some resume_expired else None)"

definition terminal_events :: "string set" where
  "terminal_events = {''done'', ''error''}"

definition misses_before_giving_up :: nat where
  "misses_before_giving_up = 2"

definition interrupted_event :: "nat \<Rightarrow> stream_event" where
  "interrupted_event i =
     \<lparr>se_seq = i, se_type = ''error'',
      se_data = [(lit ''code'', JStr (lit ''STREAM_INTERRUPTED'')),
                 (lit ''title'', JStr [29983, 25104, 24050, 20013, 26039, 65292, 35531, 37325, 26032, 36617, 20837, 36889, 21063, 35338, 24687]),
                 (lit ''retryable'', JBool True)]\<rparr>"

datatype frame = Relayed stream_event | Heartbeat | GaveUp stream_event

text \<open>The events of one read, up to the first terminal one; the flag says that it was reached.\<close>

fun relay :: "stream_event list \<Rightarrow> nat \<Rightarrow> frame list \<times> nat \<times> bool" where
  "relay [] i = ([], i, False)"
| "relay (e # es) i =
     (if se_type e \<in> terminal_events then ([Relayed e], se_seq e, True)
      else case relay es (se_seq e) of (fs, j, ended) \<Rightarrow> (Relayed e # fs, j, ended))"

text \<open>One element of the list per turn of the loop: the moment and state when the read returns and when the existence is
  asked. A reader whose list is used up is still connected.\<close>

fun sse :: "stream_codec \<Rightarrow> ((int \<times> stream_redis) \<times> (int \<times> stream_redis)) list \<Rightarrow> nat \<Rightarrow> nat \<Rightarrow> frame list \<times> bool" where
  "sse C [] i misses = ([], False)"
| "sse C (((t, s), (t', s')) # turns) i misses =
     (let events = follow C t i s
      in if events = [] then
           (let m = (if buffer_exists t' s' then 0 else misses + 1)
            in if misses_before_giving_up \<le> m then ([GaveUp (interrupted_event i)], True)
               else case sse C turns i m of (fs, ended) \<Rightarrow> (Heartbeat # fs, ended))
         else
           (case relay events i of
              (fs, j, True) \<Rightarrow> (fs, True)
            | (fs, j, False) \<Rightarrow> (case sse C turns j 0 of (gs, ended) \<Rightarrow> (fs @ gs, ended))))"

subsection \<open>The numbering\<close>

definition numbered :: "(nat \<times> string \<times> ustring) list \<Rightarrow> bool" where
  "numbered es \<longleftrightarrow> List.map fst es = [1..<length es + 1]"

text \<open>A writer's run: the events with the moments at which they are appended.\<close>

fun write_all :: "stream_codec \<Rightarrow> (int \<times> string \<times> obj) list \<Rightarrow> nat \<times> stream_redis \<Rightarrow> bool \<times> nat \<times> stream_redis" where
  "write_all C [] st = (True, st)"
| "write_all C ((t, ty, d) # ws) st =
     (case append_event C t ty d st of
        (Inl e, st1) \<Rightarrow> (False, st1)
      | (Inr e, st1) \<Rightarrow> write_all C ws st1)"

text \<open>Less than the life of the buffer lies between two events.\<close>

fun steady_writer :: "int \<Rightarrow> (int \<times> string \<times> obj) list \<Rightarrow> bool" where
  "steady_writer t0 [] = True"
| "steady_writer t0 ((t, ty, d) # ws) \<longleftrightarrow> t0 \<le> t \<and> t < t0 + buffer_ttl_seconds \<and> steady_writer t ws"

definition log_of :: "stream_codec \<Rightarrow> nat \<Rightarrow> (int \<times> string \<times> obj) list \<Rightarrow> (nat \<times> string \<times> ustring) list" where
  "log_of C n ws = List.map (\<lambda>(k, t, ty, d). (n + 1 + k, ty, sc_dumps C d)) (enumerate 0 ws)"

lemma log_of_Cons: "log_of C n ((t, ty, d) # ws) = (n + 1, ty, sc_dumps C d) # log_of C (n + 1) ws"
proof -
  have "enumerate 1 ws = List.map (\<lambda>(k, x). (Suc k, x)) (enumerate 0 ws)"
    by (simp add: enumerate_eq_zip map_Suc_upt [symmetric] zip_map1 flip: upt_Suc)
  then show ?thesis by (simp add: log_of_def split_beta)
qed

lemma write_all_log:
  assumes "steady_writer t0 ws" "sr_until s = None \<or> sr_until s = Some (t0 + buffer_ttl_seconds)" "sr_entries s = [] \<and> n = 0 \<or> sr_entries s \<noteq> [] \<and> fst (last (sr_entries s)) = n"
  shows "\<exists>s'. write_all C ws (n, s) = (True, n + length ws, s') \<and> sr_entries s' = sr_entries s @ log_of C n ws"
  using assms
proof (induction ws arbitrary: t0 n s)
  case Nil
  then show ?case by (simp add: log_of_def)
next
  case (Cons w ws)
  obtain t ty d where w: "w = (t, ty, d)" using prod_cases3 by blast
  from Cons.prems(1) w have t: "t < t0 + buffer_ttl_seconds" "steady_writer t ws" by simp_all
  have keep: "sr_entries (tidy t s) = sr_entries s" "sr_until (tidy t s) = sr_until s"
    using t(1) Cons.prems(2) by (auto simp: tidy_def lapsed_def Let_def)
  let ?s1 = "(tidy t s)\<lparr>sr_entries := sr_entries s @ [(n + 1, ty, sc_dumps C d)], sr_until := Some (t + buffer_ttl_seconds)\<rparr>"
  have step: "append_event C t ty d (n, s) = (Inr \<lparr>se_seq = n + 1, se_type = ty, se_data = d\<rparr>, n + 1, ?s1)"
    using Cons.prems(3) keep by (auto simp: append_event_def Let_def)
  have "\<exists>s'. write_all C ws (n + 1, ?s1) = (True, n + 1 + length ws, s') \<and> sr_entries s' = sr_entries ?s1 @ log_of C (n + 1) ws"
    by (rule Cons.IH [OF t(2)]) simp_all
  then show ?case using step by (simp add: w log_of_Cons)
qed

subsection \<open>What a reader receives\<close>

definition is_terminal :: "stream_event \<Rightarrow> bool" where
  "is_terminal e \<longleftrightarrow> se_type e \<in> terminal_events"

definition until_terminal :: "stream_event list \<Rightarrow> stream_event list" where
  "until_terminal es = takeWhile (\<lambda>e. \<not> is_terminal e) es @ take 1 (dropWhile (\<lambda>e. \<not> is_terminal e) es)"

lemma until_terminal_simps [simp]:
  "until_terminal [] = []"
  "until_terminal (e # es) = (if is_terminal e then [e] else e # until_terminal es)"
  by (auto simp: until_terminal_def)

lemma until_terminal_append:
  "until_terminal (xs @ ys) = (if \<exists>e \<in> set xs. is_terminal e then until_terminal xs else xs @ until_terminal ys)"
  by (induction xs) auto

lemma until_terminal_ends: "\<exists>e \<in> set es. is_terminal e \<Longrightarrow> until_terminal es \<noteq> [] \<and> is_terminal (last (until_terminal es))"
  by (induction es) auto

lemma until_terminal_all: "\<not> (\<exists>e \<in> set es. is_terminal e) \<Longrightarrow> until_terminal es = es"
  by (induction es) auto

lemma relay_eq:
  "relay es i = (List.map Relayed (until_terminal es), (if es = [] then i else se_seq (last (until_terminal es))), (\<exists>e \<in> set es. is_terminal e))"
proof (induction es arbitrary: i)
  case (Cons e es)
  have "until_terminal es = [] \<longleftrightarrow> es = []" by (cases es) auto
  then show ?case using Cons.IH by (auto simp: is_terminal_def)
qed simp

lemma numbered_from:
  assumes "List.map fst L = [k + 1..<k + 1 + length L]"
  shows "filter (\<lambda>e. i < fst e) L = drop (i - k) L"
  using assms
proof (induction L arbitrary: k)
  case (Cons e L)
  have e: "fst e = k + 1" and L: "List.map fst L = [Suc k + 1..<Suc k + 1 + length L]"
    using Cons.prems by (auto simp: upt_rec [of "Suc k"] simp del: upt_Suc)
  show ?case
  proof (cases "i \<le> k")
    case True
    then show ?thesis using e Cons.IH [OF L] by simp
  next
    case False
    then have "i - k = Suc (i - Suc k)" by simp
    then show ?thesis using False e Cons.IH [OF L] by simp
  qed
qed simp

lemma numbered_take: "numbered L \<Longrightarrow> numbered (take m L)"
  by (simp add: numbered_def take_map [symmetric] take_upt min_def del: upt_Suc)

lemma follow_prefix:
  assumes "numbered L" "sr_entries (tidy t s) = take m L"
  shows "follow C t i s = List.map (decode_entry C) (drop i (take m L))"
proof -
  have "filter (\<lambda>e. i < fst e) (take m L) = drop i (take m L)"
    using numbered_from [of "take m L" 0 i] numbered_take [OF assms(1), of m] by (simp add: numbered_def)
  then show ?thesis unfolding follow_def assms(2) by (simp split: list.splits)
qed

lemma numbered_last:
  assumes "numbered L" "drop i (take m L) \<noteq> []"
  shows "fst (last (drop i (take m L))) = min m (length L)"
proof -
  let ?xs = "take m L"
  have ne: "?xs \<noteq> []" and i: "i < length ?xs" using assms(2) by auto
  have "fst (last (drop i ?xs)) = fst (last ?xs)" using i by (simp add: last_drop del: length_take)
  also have "\<dots> = List.map fst ?xs ! (length ?xs - 1)" using ne by (simp add: last_conv_nth del: length_take)
  also have "\<dots> = length ?xs"
    unfolding numbered_take [OF assms(1), of m, unfolded numbered_def] using i by (simp del: upt_Suc length_take)
  finally show ?thesis by (simp add: min.commute)
qed

fun relayed :: "frame list \<Rightarrow> stream_event list" where
  "relayed [] = []"
| "relayed (Relayed e # fs) = e # relayed fs"
| "relayed (f # fs) = relayed fs"

lemma relayed_append [simp]: "relayed (xs @ ys) = relayed xs @ relayed ys"
  by (induction xs rule: relayed.induct) auto

lemma relayed_map [simp]: "relayed (List.map Relayed es) = es"
  by (induction es) auto

definition closes :: "frame \<Rightarrow> bool" where
  "closes f = (case f of Relayed e \<Rightarrow> is_terminal e | Heartbeat \<Rightarrow> False | GaveUp e \<Rightarrow> True)"

text \<open>The frames of a connection close at most once, with the last one.\<close>

definition closed_once :: "frame list \<Rightarrow> bool \<Rightarrow> bool" where
  "closed_once fs ended \<longleftrightarrow>
     (if ended then fs \<noteq> [] \<and> closes (last fs) \<and> \<not> list_ex closes (butlast fs) else \<not> list_ex closes fs)"

lemma closed_once_Cons: "\<not> closes f \<Longrightarrow> closed_once fs ended \<Longrightarrow> closed_once (f # fs) ended"
  by (auto simp: closed_once_def)

lemma closed_once_append: "\<not> list_ex closes es \<Longrightarrow> closed_once fs ended \<Longrightarrow> closed_once (es @ fs) ended"
  by (induction es) (auto intro: closed_once_Cons)

lemma closed_once_relay: "closed_once (List.map Relayed (until_terminal es)) (\<exists>e \<in> set es. is_terminal e)"
proof (induction es)
  case (Cons e es)
  show ?case
  proof (cases "is_terminal e")
    case True
    then show ?thesis by (simp add: closed_once_def closes_def)
  next
    case False
    then have "closed_once (Relayed e # List.map Relayed (until_terminal es)) (\<exists>e \<in> set es. is_terminal e)"
      using Cons.IH by (intro closed_once_Cons) (simp_all add: closes_def)
    with False show ?thesis by simp
  qed
qed (simp add: closed_once_def)

text \<open>A turn of the loop sees the log as far as it is written at that moment, or nothing of it once it is forgotten.\<close>

definition sees :: "(nat \<times> string \<times> ustring) list \<Rightarrow> (int \<times> stream_redis) \<times> (int \<times> stream_redis) \<Rightarrow> bool" where
  "sees L turn \<longleftrightarrow> (\<exists>m. sr_entries (tidy (fst (fst turn)) (snd (fst turn))) = take m L)"

lemma one_read:
  assumes "numbered L" "sees L ((t, s), rest)"
  obtains m where "follow C t i s = List.map (decode_entry C) (drop i (take m L))" "m \<le> length L" "sr_entries (tidy t s) = take m L"
    "follow C t i s \<noteq> [] \<Longrightarrow> i < m" "follow C t i s \<noteq> [] \<Longrightarrow> se_seq (last (follow C t i s)) = m"
proof -
  obtain m0 where m0: "sr_entries (tidy t s) = take m0 L" using assms(2) by (auto simp: sees_def)
  define m where "m = min m0 (length L)"
  have m: "sr_entries (tidy t s) = take m L" using m0 by (simp add: m_def min_def)
  have f: "follow C t i s = List.map (decode_entry C) (drop i (take m L))" by (rule follow_prefix [OF assms(1) m])
  have le: "m \<le> length L" by (simp add: m_def)
  show ?thesis
  proof (rule that [OF f le m])
    assume ne: "follow C t i s \<noteq> []"
    then have d: "drop i (take m L) \<noteq> []" using f by simp
    then show "i < m" by (simp add: min_def split: if_splits)
    have "se_seq (last (follow C t i s)) = fst (last (drop i (take m L)))"
      unfolding f by (simp add: last_map [OF d] decode_entry_def split: prod.splits)
    also have "\<dots> = m" using numbered_last [OF assms(1) d] le by simp
    finally show "se_seq (last (follow C t i s)) = m" .
  qed
qed

lemma take_drop_split: "i \<le> m \<Longrightarrow> m \<le> length L \<Longrightarrow> drop i (take m L) @ take k (drop m L) = take (m - i + k) (drop i L)"
proof -
  assume a: "i \<le> m" "m \<le> length L"
  have "take (m - i + k) (drop i L) = take (m - i) (drop i L) @ take k (drop (m - i) (drop i L))" by (rule take_add)
  also have "\<dots> = drop i (take m L) @ take k (drop m L)" using a by (simp add: drop_take)
  finally show ?thesis by simp
qed

lemma sse_prefix:
  assumes "numbered L" "\<forall>turn \<in> set turns. sees L turn" "sse C turns i misses = (fs, ended)"
  shows "\<exists>m. relayed fs = until_terminal (take m (List.map (decode_entry C) (drop i L)))"
    and "closed_once fs ended"
  using assms(2,3)
proof (induction turns arbitrary: i misses fs ended)
  case Nil
  {
    case 1
    then show ?case by (auto intro: exI [of _ 0])
  next
    case 2
    then show ?case by (auto simp: closed_once_def)
  }
next
  case (Cons turn turns)
  obtain t s t' s' where turn: "turn = ((t, s), (t', s'))" by (metis surj_pair)
  have later: "\<forall>turn \<in> set turns. sees L turn" if "\<forall>turn \<in> set (turn # turns). sees L turn" using that by simp
  have both: "(\<exists>m. relayed fs = until_terminal (take m (List.map (decode_entry C) (drop i L)))) \<and> closed_once fs ended"
    if sees: "\<forall>turn \<in> set (turn # turns). sees L turn" and run: "sse C (turn # turns) i misses = (fs, ended)" for i misses fs ended
  proof -
    have "sees L ((t, s), (t', s'))" using sees turn by simp
    then obtain m where f: "follow C t i s = List.map (decode_entry C) (drop i (take m L))" "m \<le> length L"
      and seen: "follow C t i s \<noteq> [] \<Longrightarrow> i < m" "follow C t i s \<noteq> [] \<Longrightarrow> se_seq (last (follow C t i s)) = m"
      using one_read [OF assms(1)] by metis
    show ?thesis
    proof (cases "follow C t i s = []")
      case True
      let ?m = "if buffer_exists t' s' then 0 else misses + 1"
      show ?thesis
      proof (cases "misses_before_giving_up \<le> ?m")
        case give: True
        then have "fs = [GaveUp (interrupted_event i)]" "ended" using run True by (auto simp: turn Let_def)
        then show ?thesis by (auto simp: closed_once_def closes_def intro: exI [of _ 0])
      next
        case False
        then obtain gs where gs: "sse C turns i ?m = (gs, ended)" "fs = Heartbeat # gs"
          using run True by (auto simp: turn Let_def split: prod.splits if_splits)
        with Cons.IH [OF later [OF sees] gs(1)] show ?thesis by (auto simp: closes_def intro: closed_once_Cons)
      qed
    next
      case False
      let ?es = "follow C t i s"
      show ?thesis
      proof (cases "\<exists>e \<in> set ?es. is_terminal e")
        case over: True
        then have fs: "fs = List.map Relayed (until_terminal ?es)" "ended" using run False by (auto simp: turn Let_def relay_eq)
        have es: "?es = take (m - i) (List.map (decode_entry C) (drop i L))" by (simp add: f(1) drop_take take_map)
        have "closed_once fs ended" using closed_once_relay [of ?es] over fs by simp
        moreover have "relayed fs = until_terminal ?es" by (simp add: fs(1))
        ultimately show ?thesis unfolding es by blast
      next
        case no: False
        then have u: "until_terminal ?es = ?es" by (rule until_terminal_all)
        then obtain gs where gs: "sse C turns m 0 = (gs, ended)" "fs = List.map Relayed ?es @ gs"
          using run False no seen(2) by (auto simp: turn Let_def relay_eq split: prod.splits)
        obtain k where k: "relayed gs = until_terminal (take k (List.map (decode_entry C) (drop m L)))" and c: "closed_once gs ended"
          using Cons.IH [OF later [OF sees] gs(1)] by blast
        have "?es @ take k (List.map (decode_entry C) (drop m L)) = take (m - i + k) (List.map (decode_entry C) (drop i L))"
          using take_drop_split [of i m L k] seen(1) [OF False] f(2) by (simp add: f(1) take_map flip: map_append)
        then have "relayed fs = until_terminal (take (m - i + k) (List.map (decode_entry C) (drop i L)))"
          using until_terminal_append [of ?es "take k (List.map (decode_entry C) (drop m L))"] no by (simp add: gs(2) k)
        moreover have "\<not> list_ex closes (List.map Relayed ?es)" using no by (auto simp: list_ex_iff closes_def)
        ultimately show ?thesis using closed_once_append [OF _ c] gs(2) by blast
      qed
    qed
  qed
  {
    case 1
    then show ?case using both by blast
  next
    case 2
    then show ?case using both by blast
  }
qed

text \<open>C8. A reader that connects, or reconnects with the number of the last event it has, receives what follows that event in
  the log of the writer, in order, with nothing missing, repeated or after the first terminal event, however the reads fall
  between the writes and even when the buffer is forgotten meanwhile; the connection closes at most once, with its last frame.\<close>

theorem readers_miss_and_repeat_nothing:
  assumes "numbered L" "\<forall>turn \<in> set turns. sees L turn" "sse C turns last_id misses = (frames, ended)"
  shows "\<exists>m. relayed frames = until_terminal (take m (List.map (decode_entry C) (drop last_id L))) \<and> closed_once frames ended"
  using sse_prefix [OF assms] by blast

lemma sse_completes:
  assumes "numbered L" "\<forall>turn \<in> set turns. sees L turn \<and> (case snd turn of (t, s) \<Rightarrow> buffer_exists t s)"
    "turns \<noteq> []" "\<exists>turn \<in> set turns. case fst turn of (t, s) \<Rightarrow> sr_entries (tidy t s) = L" "\<exists>e \<in> set (drop i L). is_terminal (decode_entry C e)"
  shows "\<exists>frames. sse C turns i misses = (frames, True) \<and> relayed frames = until_terminal (List.map (decode_entry C) (drop i L))"
  using assms(2-)
proof (induction turns arbitrary: i misses)
  case (Cons turn turns)
  obtain t s t' s' where turn: "turn = ((t, s), (t', s'))" by (metis surj_pair)
  have "sees L ((t, s), (t', s'))" and live: "buffer_exists t' s'" using Cons.prems(1) turn by simp_all
  then obtain m where f: "follow C t i s = List.map (decode_entry C) (drop i (take m L))" "m \<le> length L" "sr_entries (tidy t s) = take m L"
    and seen: "follow C t i s \<noteq> [] \<Longrightarrow> i < m" "follow C t i s \<noteq> [] \<Longrightarrow> se_seq (last (follow C t i s)) = m"
    using one_read [OF assms(1)] by metis
  let ?es = "follow C t i s"
  have later: "\<forall>turn \<in> set turns. sees L turn \<and> (case snd turn of (t, s) \<Rightarrow> buffer_exists t s)" using Cons.prems(1) by simp
  have whole: "\<exists>e \<in> set ?es. is_terminal e" if "sr_entries (tidy t s) = L"
  proof -
    have "?es = List.map (decode_entry C) (drop i L)" using follow_prefix [OF assms(1), of t s "length L" C i] that by simp
    then show ?thesis using Cons.prems(4) by auto
  qed
  have rest: "\<exists>turn \<in> set turns. case fst turn of (t, s) \<Rightarrow> sr_entries (tidy t s) = L" if "\<not> (\<exists>e \<in> set ?es. is_terminal e)"
    using Cons.prems(3) whole that by (auto simp: turn)
  have split: "List.map (decode_entry C) (drop i L) = ?es @ List.map (decode_entry C) (drop m L)" if "?es \<noteq> []"
  proof -
    have "drop i L = drop i (take m L) @ drop m L" using take_drop_split [of i m L "length L"] seen(1) [OF that] f(2) by simp
    then show ?thesis by (simp add: f(1))
  qed
  show ?case
  proof (cases "?es = []")
    case True
    then have "turns \<noteq> []" using rest by auto
    from Cons.IH [OF later this rest Cons.prems(4)] True
    obtain gs where "sse C turns i 0 = (gs, True)" "relayed gs = until_terminal (List.map (decode_entry C) (drop i L))" by auto
    then show ?thesis using True live by (simp add: turn Let_def misses_before_giving_up_def)
  next
    case False
    show ?thesis
    proof (cases "\<exists>e \<in> set ?es. is_terminal e")
      case over: True
      then show ?thesis using False split [OF False] by (auto simp: turn Let_def relay_eq until_terminal_append)
    next
      case no: False
      then have u: "until_terminal ?es = ?es" by (rule until_terminal_all)
      have "\<exists>e \<in> set (List.map (decode_entry C) (drop i L)). is_terminal e" using Cons.prems(4) by simp
      then have "\<exists>e \<in> set (drop m L). is_terminal (decode_entry C e)" using no unfolding split [OF False] by auto
      moreover have "turns \<noteq> []" using rest [OF no] by auto
      ultimately obtain gs where gs: "sse C turns m 0 = (gs, True)" "relayed gs = until_terminal (List.map (decode_entry C) (drop m L))"
        using Cons.IH [OF later _ rest [OF no]] by blast
      then have "sse C (turn # turns) i misses = (List.map Relayed ?es @ gs, True)"
        using False no u seen(2) by (simp add: turn Let_def relay_eq)
      moreover have "relayed (List.map Relayed ?es @ gs) = until_terminal (List.map (decode_entry C) (drop i L))"
        unfolding split [OF False] using until_terminal_append [of ?es "List.map (decode_entry C) (drop m L)"] no gs(2) by simp
      ultimately show ?thesis by blast
    qed
  qed
qed simp

lemma numbered_log_of: "numbered (log_of C 0 ws)"
proof -
  have "List.map fst (log_of C 0 ws) = List.map Suc (List.map fst (enumerate 0 ws))"
    unfolding log_of_def by (simp only: List.map_map) (rule map_cong, simp_all add: split_beta)
  also have "\<dots> = List.map Suc [0..<length ws]" by simp
  also have "\<dots> = [1..<length ws + 1]" by (simp add: map_Suc_upt del: upt_Suc)
  finally show ?thesis by (simp add: numbered_def log_of_def del: upt_Suc)
qed

definition written_event :: "nat \<times> int \<times> string \<times> obj \<Rightarrow> stream_event" where
  "written_event w = (case w of (k, t, ty, d) \<Rightarrow> \<lparr>se_seq = k + 1, se_type = ty, se_data = d\<rparr>)"

lemma decode_log:
  assumes "\<forall>d. sc_loads C (sc_dumps C d) = d"
  shows "List.map (decode_entry C) (log_of C 0 ws) = List.map written_event (enumerate 0 ws)"
  using assms by (auto simp: log_of_def decode_entry_def written_event_def)

text \<open>C9. A generation whose events follow each other within the life of the buffer is written whole and numbered from one;
  a reader that has the first events and stays connected until the log is complete receives exactly the others up to the first
  terminal event, as they were written, and its connection closes there.\<close>

theorem generations_reach_their_readers:
  assumes "steady_writer t0 ws" "\<forall>d. sc_loads C (sc_dumps C d) = d"
    "\<forall>turn \<in> set turns. sees (log_of C 0 ws) turn \<and> (case snd turn of (t, s) \<Rightarrow> buffer_exists t s)" "turns \<noteq> []"
    "\<exists>turn \<in> set turns. case fst turn of (t, s) \<Rightarrow> sr_entries (tidy t s) = log_of C 0 ws"
    "\<exists>e \<in> set (List.map written_event (drop last_id (enumerate 0 ws))). is_terminal e"
  shows "(\<exists>s. write_all C ws (0, empty_redis) = (True, length ws, s) \<and> sr_entries s = log_of C 0 ws)
    \<and> (\<exists>frames. sse C turns last_id misses = (frames, True)
          \<and> relayed frames = until_terminal (List.map written_event (drop last_id (enumerate 0 ws))))"
proof -
  have d: "List.map (decode_entry C) (drop last_id (log_of C 0 ws)) = List.map written_event (drop last_id (enumerate 0 ws))"
    using decode_log [OF assms(2), of ws] by (simp flip: drop_map)
  then have "\<exists>e \<in> set (drop last_id (log_of C 0 ws)). is_terminal (decode_entry C e)"
    using assms(6) by (metis (no_types, lifting) image_iff image_set)
  with sse_completes [OF numbered_log_of assms(3-5)] d
  have "\<exists>frames. sse C turns last_id misses = (frames, True) \<and> relayed frames = until_terminal (List.map written_event (drop last_id (enumerate 0 ws)))"
    by metis
  moreover have "\<exists>s. write_all C ws (0, empty_redis) = (True, 0 + length ws, s) \<and> sr_entries s = sr_entries empty_redis @ log_of C 0 ws"
    by (rule write_all_log [OF assms(1)]) (simp_all add: empty_redis_def)
  ultimately show ?thesis by (simp add: empty_redis_def)
qed

text \<open>A second writer starts at one again: while the buffer lives all its events are refused, and the entries stay.\<close>

lemma second_writer_refused:
  assumes "numbered (sr_entries (tidy now s))" "sr_entries (tidy now s) \<noteq> []"
  shows "\<exists>s'. append_event C now ty d (0, s) = (Inl ''ResponseError'', 1, s') \<and> sr_entries s' = sr_entries (tidy now s)"
proof -
  let ?es = "sr_entries (tidy now s)"
  have "fst (last ?es) = List.map fst ?es ! (length ?es - 1)" using assms(2) by (simp add: last_conv_nth)
  also have "\<dots> = length ?es" unfolding assms(1) [unfolded numbered_def] using assms(2) by (simp del: upt_Suc)
  finally have "1 \<le> fst (last ?es)" using assms(2) by (simp add: Suc_le_eq)
  then show ?thesis using assms(2) by (simp add: append_event_def Let_def)
qed

text \<open>A superscript digit passes \<open>str.isdigit\<close>, and \<open>int\<close> refuses it: the request ends in an error of the server.\<close>

lemma superscript_header_escapes: "parse_last_event_id (Some [178]) = Inl (foreign ''ValueError'')"
  by (simp add: parse_last_event_id_def header_digit_def parse_int_def strip_def lstrip_def rstrip_def is_space_def)

subsection \<open>A generation of two events\<close>

instance json :: countable
  by countable_datatype

definition sample_codec :: stream_codec where
  "sample_codec = \<lparr>sc_dumps = (\<lambda>d. [to_nat d]), sc_loads = (\<lambda>t. from_nat (hd t))\<rparr>"

definition sample_writes :: "(int \<times> string \<times> obj) list" where
  "sample_writes = [(0, ''token'', []), (5, ''done'', [])]"

definition sample_log :: "(nat \<times> string \<times> ustring) list" where
  "sample_log = [(1, ''token'', [to_nat ([] :: obj)]), (2, ''done'', [to_nat ([] :: obj)])]"

definition sample_stream :: "nat \<Rightarrow> int \<Rightarrow> stream_redis" where
  "sample_stream k t = \<lparr>sr_entries = take k sample_log, sr_until = Some t, sr_stop = None\<rparr>"

definition sample_turns :: "((int \<times> stream_redis) \<times> (int \<times> stream_redis)) list" where
  "sample_turns = [((1, sample_stream 1 300), (2, sample_stream 1 300)), ((6, sample_stream 2 305), (6, sample_stream 2 305))]"

lemma sample_log_of: "log_of sample_codec 0 sample_writes = sample_log"
  by (simp add: log_of_Cons sample_writes_def sample_codec_def sample_log_def) (simp add: log_of_def)

lemma sample_tidy: "t < u \<Longrightarrow> tidy t (sample_stream k u) = sample_stream k u"
  by (simp add: tidy_def sample_stream_def lapsed_def Let_def)

lemma sample_sees: "t < u \<Longrightarrow> sees sample_log ((t, sample_stream k u), rest)"
  by (auto simp: sees_def sample_tidy) (auto simp: sample_stream_def)

lemma sample_exists: "t < u \<Longrightarrow> buffer_exists t (sample_stream k u)"
  by (simp add: buffer_exists_def sample_tidy) (simp add: sample_stream_def)

theorem generations_reach_their_readers_witness:
  "(\<exists>s. write_all sample_codec sample_writes (0, empty_redis) = (True, 2, s))
   \<and> (\<exists>frames. sse sample_codec sample_turns 0 0 = (frames, True)
        \<and> relayed frames = [\<lparr>se_seq = 1, se_type = ''token'', se_data = []\<rparr>, \<lparr>se_seq = 2, se_type = ''done'', se_data = []\<rparr>])"
proof -
  have events: "List.map written_event (drop 0 (enumerate 0 sample_writes))
      = [\<lparr>se_seq = 1, se_type = ''token'', se_data = []\<rparr>, \<lparr>se_seq = 2, se_type = ''done'', se_data = []\<rparr>]"
    by (simp add: written_event_def sample_writes_def)
  have over: "is_terminal \<lparr>se_seq = 2, se_type = ''done'', se_data = []\<rparr>" "\<not> is_terminal \<lparr>se_seq = 1, se_type = ''token'', se_data = []\<rparr>"
    by (simp_all add: is_terminal_def terminal_events_def)
  have "sr_entries (tidy 6 (sample_stream 2 305)) = sample_log" by (simp add: sample_tidy) (simp add: sample_stream_def sample_log_def)
  then have "(\<exists>s. write_all sample_codec sample_writes (0, empty_redis) = (True, length sample_writes, s)
        \<and> sr_entries s = log_of sample_codec 0 sample_writes)
     \<and> (\<exists>frames. sse sample_codec sample_turns 0 0 = (frames, True)
          \<and> relayed frames = until_terminal (List.map written_event (drop 0 (enumerate 0 sample_writes))))"
    using over
    by (intro generations_reach_their_readers [of 0])
      (auto simp: sample_turns_def sample_log_of sample_sees sample_exists events,
       simp_all add: sample_writes_def sample_codec_def buffer_ttl_seconds_def written_event_def is_terminal_def terminal_events_def)
  then show ?thesis using over unfolding events by (auto simp: sample_writes_def)
qed

theorem readers_miss_and_repeat_nothing_witness:
  "\<exists>frames. sse sample_codec [((6, sample_stream 2 305), (6, sample_stream 2 305))] 1 0 = (frames, True)
     \<and> relayed frames = [\<lparr>se_seq = 2, se_type = ''done'', se_data = []\<rparr>] \<and> closed_once frames True"
proof -
  let ?last = "\<lparr>se_seq = 2, se_type = ''done'', se_data = []\<rparr> :: stream_event"
  have over: "is_terminal ?last" by (simp add: is_terminal_def terminal_events_def)
  have n: "numbered sample_log" by (metis numbered_log_of sample_log_of)
  have "follow sample_codec 6 1 (sample_stream 2 305) = [?last]"
    by (simp add: follow_def sample_tidy) (simp add: sample_stream_def sample_log_def decode_entry_def sample_codec_def)
  then have run: "sse sample_codec [((6, sample_stream 2 305), (6, sample_stream 2 305))] 1 0 = ([Relayed ?last], True)"
    using over by (simp add: is_terminal_def)
  from readers_miss_and_repeat_nothing [OF n _ run] have "closed_once [Relayed ?last] True" by (simp add: sample_sees)
  then show ?thesis using run by simp
qed

end
