(* ===== verification/Notifications.thy ===== *)
theory Notifications
  imports Conversations Providers Quota
begin

text \<open>
  Notifications: \<open>backend/services/platform/notifications.py\<close> with \<open>NotificationRepository\<close> and
  \<open>UserRepository.active_with_roles\<close>. The table of one tenant and the queue of the e-mail task are the state; a body under one
  \<open>unit_of_work\<close> is one transaction, and an exception in it leaves the state as it was. Between the two statements of a
  delivery other transactions may commit: what they do to the table is an argument. New identifiers, the clock and whether
  the broker takes a task are arguments. Lemmas: one notification per key, collapsing, the inbox of a user, the channels.
\<close>

subsection \<open>Settings, events and channels\<close>

record notice_settings =
  nc_email :: bool
  nc_thresholds :: ustring
  nc_window_minutes :: int

definition default_inbox_size :: int where "default_inbox_size = 20"
definition channel_in_app :: ustring where "channel_in_app = lit ''in_app''"
definition channel_email :: ustring where "channel_email = lit ''email''"
definition type_document_failed :: ustring where "type_document_failed = lit ''document.failed''"
definition type_document_ready :: ustring where "type_document_ready = lit ''document.ready''"
definition type_quota_threshold :: ustring where "type_quota_threshold = lit ''quota.threshold''"
definition type_evaluation_completed :: ustring where "type_evaluation_completed = lit ''evaluation.completed''"

definition channels_by_type :: "(ustring \<times> ustring list) list" where
  "channels_by_type =
     [(type_document_failed, [channel_in_app, channel_email]), (type_quota_threshold, [channel_in_app, channel_email]),
      (type_document_ready, [channel_in_app]), (type_evaluation_completed, [channel_in_app])]"

definition quota_roles :: "ustring list" where
  "quota_roles = [lit ''owner'', lit ''admin'']"

definition resource_labels :: "(ustring \<times> ustring) list" where
  "resource_labels =
     [(lit ''tokens_month'', [26412, 26376, 32, 116, 111, 107, 101, 110]), (lit ''messages_day'', [20170, 26085, 35338, 24687, 25976]),
      (lit ''documents'', [25991, 20214, 25976]), (lit ''storage_bytes'', [20786, 23384, 31354, 38291]),
      (lit ''streams'', [21516, 26178, 20018, 27969, 25976])]"

definition channels_for :: "notice_settings \<Rightarrow> ustring \<Rightarrow> ustring list" where
  "channels_for cfg event_type =
     (let declared = or_else (map_of channels_by_type event_type) [channel_in_app]
      in if nc_email cfg then declared else filter (\<lambda>c. c \<noteq> channel_email) declared)"

text \<open>The bucket of a moment, given in whole seconds (the times of the rows are microseconds).\<close>

definition collapse_bucket :: "notice_settings \<Rightarrow> uuid128 \<Rightarrow> int \<Rightarrow> ustring" where
  "collapse_bucket cfg kb seconds =
     type_document_ready @ lit '':'' @ uuid_text kb @ lit '':'' @ int_str (seconds div (max (nc_window_minutes cfg) 1 * 60))"

subsection \<open>Tables and repositories\<close>

record member =
  md_id :: uuid128
  md_status :: string
  md_roles :: "ustring list"
  md_email :: ustring

record notice_row =
  nt_user :: uuid128
  nt_type :: ustring
  nt_title :: ustring
  nt_body :: ustring
  nt_channels :: "ustring list"
  nt_meta :: obj
  nt_dedupe :: "ustring option"
  nt_read :: "int option"
  nt_created :: int
  nt_updated :: int

type_synonym notice_table = "(uuid128 \<times> notice_row) list"

record notice_state =
  ns_rows :: notice_table
  ns_queue :: "uuid128 list"

text \<open>What a delivery writes, the recipient apart.\<close>

record notice_draft =
  nd_type :: ustring
  nd_title :: ustring
  nd_body :: ustring
  nd_meta :: obj
  nd_channels :: "ustring list"
  nd_dedupe :: "ustring option"

definition active_with_roles :: "ustring list \<Rightarrow> member list \<Rightarrow> member list" where
  "active_with_roles role_names ms = filter (\<lambda>u. md_status u = ''active'' \<and> (\<exists>r \<in> set (md_roles u). r \<in> set role_names)) ms"

definition row_of :: "int \<Rightarrow> uuid128 \<Rightarrow> notice_draft \<Rightarrow> notice_row" where
  "row_of now user d =
     \<lparr>nt_user = user, nt_type = nd_type d, nt_title = nd_title d, nt_body = nd_body d, nt_channels = nd_channels d, nt_meta = nd_meta d,
      nt_dedupe = nd_dedupe d, nt_read = None, nt_created = now, nt_updated = now\<rparr>"

definition has_key :: "uuid128 \<Rightarrow> ustring \<Rightarrow> uuid128 \<times> notice_row \<Rightarrow> bool" where
  "has_key user key x \<longleftrightarrow> nt_user (snd x) = user \<and> nt_dedupe (snd x) = Some key"

text \<open>\<open>Inl\<close> names the violated constraint.\<close>

definition create_notice :: "uuid128 \<Rightarrow> int \<Rightarrow> uuid128 \<Rightarrow> notice_draft \<Rightarrow> notice_table \<Rightarrow> string + notice_table" where
  "create_notice i now user d rows =
     (if i \<in> fst ` set rows then Inl ''platform_notification_pkey''
      else if (case nd_dedupe d of None \<Rightarrow> False | Some key \<Rightarrow> list_ex (has_key user key) rows) then Inl ''uq_notification_dedupe''
      else Inr (rows @ [(i, row_of now user d)]))"

definition create_if_absent ::
  "uuid128 \<Rightarrow> int \<Rightarrow> uuid128 \<Rightarrow> notice_draft \<Rightarrow> notice_table \<Rightarrow> string + uuid128 option \<times> notice_table" where
  "create_if_absent i now user d rows =
     (case create_notice i now user d rows of
        Inl violated \<Rightarrow> if violated = ''uq_notification_dedupe'' then Inr (None, rows) else Inl ''IntegrityError''
      | Inr rows1 \<Rightarrow> Inr (Some i, rows1))"

definition get_by_dedupe :: "uuid128 \<Rightarrow> ustring \<Rightarrow> notice_table \<Rightarrow> (uuid128 \<times> notice_row) option" where
  "get_by_dedupe user key rows = find (has_key user key) rows"

definition update_notice :: "uuid128 \<Rightarrow> (notice_row \<Rightarrow> notice_row) \<Rightarrow> notice_table \<Rightarrow> notice_table" where
  "update_notice i f rows = List.map (\<lambda>(j, r). (j, if j = i then f r else r)) rows"

definition collapse_notice :: "int \<Rightarrow> uuid128 \<Rightarrow> ustring \<Rightarrow> ustring \<Rightarrow> obj \<Rightarrow> notice_table \<Rightarrow> notice_table" where
  "collapse_notice now i title body meta rows =
     update_notice i (\<lambda>r. r\<lparr>nt_title := title, nt_body := body, nt_meta := meta, nt_read := None, nt_updated := now\<rparr>) rows"

definition inbox_key :: "uuid128 \<times> notice_row \<Rightarrow> int \<times> int" where
  "inbox_key x = (- nt_updated (snd x), - int (fst x))"

definition inbox_rows :: "uuid128 \<Rightarrow> bool \<Rightarrow> notice_table \<Rightarrow> (uuid128 \<times> notice_row) list" where
  "inbox_rows user unread_only rows =
     sort_key inbox_key (filter (\<lambda>(i, r). nt_user r = user \<and> (unread_only \<longrightarrow> nt_read r = None)) rows)"

definition inbox_page ::
  "uuid128 \<Rightarrow> bool \<Rightarrow> int \<Rightarrow> (int \<times> uuid128) option \<Rightarrow> notice_table \<Rightarrow> (uuid128 \<times> notice_row) list \<times> (int \<times> uuid128) option" where
  "inbox_page user unread_only limit cursor rows =
     (let xs = (case cursor of
                  None \<Rightarrow> inbox_rows user unread_only rows
                | Some (k, last_id) \<Rightarrow>
                    filter (\<lambda>(i, r). nt_updated r < k \<or> nt_updated r = k \<and> i < last_id) (inbox_rows user unread_only rows))
      in split_page limit (\<lambda>(i, r). (nt_updated r, i)) (slice_to (limit + 1) xs))"

definition unread_count :: "uuid128 \<Rightarrow> notice_table \<Rightarrow> nat" where
  "unread_count user rows = length (filter (\<lambda>(i, r). nt_user r = user \<and> nt_read r = None) rows)"

definition mark_read_row :: "int \<Rightarrow> uuid128 \<Rightarrow> uuid128 \<Rightarrow> notice_table \<Rightarrow> bool \<times> notice_table" where
  "mark_read_row now user i rows =
     (if \<not> list_ex (\<lambda>(j, r). j = i \<and> nt_user r = user) rows then (False, rows)
      else (True, List.map (\<lambda>(j, r). (j, if j = i \<and> nt_user r = user \<and> nt_read r = None then r\<lparr>nt_read := Some now\<rparr> else r)) rows))"

subsection \<open>The inbox\<close>

record notice_page =
  np_items :: "(uuid128 \<times> notice_row) list"
  np_next :: "ustring option"
  np_unread :: nat

definition inbox ::
  "cursor_env \<Rightarrow> uuid128 \<Rightarrow> int \<Rightarrow> ustring option \<Rightarrow> bool \<Rightarrow> notice_table \<Rightarrow> app_exn + notice_page" where
  "inbox E user limit cursor unread_only rows =
     (case decode_opt E cursor of
        Inl e \<Rightarrow> Inl e
      | Inr payload \<Rightarrow>
          (case read_key E payload of
             Inl e \<Rightarrow> Inl (if ax_class e = ''CursorError'' then validation_failed else e)
           | Inr key \<Rightarrow>
               (case inbox_page user unread_only limit key rows of
                  (items, nxt) \<Rightarrow> Inr \<lparr>np_items = items, np_next = next_cursor E nxt, np_unread = unread_count user rows\<rparr>)))"

definition mark_read :: "int \<Rightarrow> uuid128 \<Rightarrow> uuid128 \<Rightarrow> notice_state \<Rightarrow> (app_exn + uuid128 \<times> notice_row) \<times> notice_state" where
  "mark_read now user i s =
     (case mark_read_row now user i (ns_rows s) of
        (False, rows) \<Rightarrow> (Inl not_found, s)
      | (True, rows) \<Rightarrow>
          (case map_of rows i of
             None \<Rightarrow> (Inl not_found, s)
           | Some r \<Rightarrow> (Inr (i, r), s\<lparr>ns_rows := rows\<rparr>)))"

subsection \<open>Delivery\<close>

text \<open>The work of the other transactions at the points where a delivery looks at the table a second time, per recipient.\<close>

record rivals =
  rv_between :: "uuid128 \<Rightarrow> notice_table \<Rightarrow> notice_table"
  rv_after :: "uuid128 \<Rightarrow> notice_table \<Rightarrow> notice_table"

fun deliver ::
  "rivals \<Rightarrow> (uuid128 \<Rightarrow> uuid128) \<Rightarrow> int \<Rightarrow> notice_draft \<Rightarrow> uuid128 list \<Rightarrow> notice_table \<Rightarrow> string + uuid128 list \<times> notice_table" where
  "deliver V fresh now d [] rows = Inr ([], rows)"
| "deliver V fresh now d (user # users) rows =
     (case nd_dedupe d of
        None \<Rightarrow>
          (case create_notice (fresh user) now user d rows of
             Inl violated \<Rightarrow> Inl ''IntegrityError''
           | Inr rows1 \<Rightarrow>
               map_sum id (\<lambda>(pending, out). (if channel_email \<in> set (nd_channels d) then fresh user # pending else pending, out))
                 (deliver V fresh now d users rows1))
      | Some key \<Rightarrow>
          if get_by_dedupe user key rows \<noteq> None then deliver V fresh now d users rows
          else
            (case create_if_absent (fresh user) now user d (rv_between V user rows) of
               Inl cls \<Rightarrow> Inl cls
             | Inr (None, rows1) \<Rightarrow> deliver V fresh now d users rows1
             | Inr (Some i, rows1) \<Rightarrow>
                 map_sum id (\<lambda>(pending, out). (if channel_email \<in> set (nd_channels d) then i # pending else pending, out))
                   (deliver V fresh now d users rows1)))"

definition dict_update :: "obj \<Rightarrow> (ustring \<times> json) list \<Rightarrow> obj" where
  "dict_update meta kvs = foldl (\<lambda>m (k, v). AList.update k v m) meta kvs"

definition ready_draft :: "notice_settings \<Rightarrow> ustring \<Rightarrow> ustring \<Rightarrow> uuid128 \<Rightarrow> uuid128 \<Rightarrow> notice_draft" where
  "ready_draft cfg key filename kb doc =
     \<lparr>nd_type = type_document_ready, nd_title = filename @ [32, 24050, 23436, 25104],
      nd_body = [21487, 20197, 38283, 22987, 21839, 31572, 20102, 12290],
      nd_meta = [(lit ''kb_id'', JStr (uuid_text kb)), (lit ''count'', JInt 1), (lit ''document_ids'', JList [JStr (uuid_text doc)]),
                 (lit ''filename'', JStr filename)],
      nd_channels = channels_for cfg type_document_ready, nd_dedupe = Some key\<rparr>"

text \<open>The row \<open>i\<close> of the bucket, locked, takes one more document.\<close>

definition fold_in :: "int \<Rightarrow> ustring \<Rightarrow> uuid128 \<Rightarrow> uuid128 \<times> notice_row \<Rightarrow> notice_table \<Rightarrow> string + notice_table" where
  "fold_in now filename doc existing rows =
     (case py_int (or_else (jget (nt_meta (snd existing)) ''count'') (JInt 1)) of
        Inl cls \<Rightarrow> Inl cls
      | Inr n \<Rightarrow>
          (case iterate_json (or_else (jget (nt_meta (snd existing)) ''document_ids'') (JList [])) of
             Inl cls \<Rightarrow> Inl cls
           | Inr old \<Rightarrow>
               Inr (collapse_notice now (fst existing) (int_str (n + 1) @ [32, 20221, 25991, 20214, 24050, 23436, 25104])
                 (filename @ [32, 31561, 32] @ int_str (n + 1) @ [32, 20221, 25991, 20214, 21487, 20197, 38283, 22987, 21839, 31572, 20102, 12290])
                 (dict_update (nt_meta (snd existing))
                    [(lit ''count'', JInt (n + 1)), (lit ''document_ids'', JList (take 9 old @ [JStr (uuid_text doc)]))])
                 rows)))"

definition deliver_ready ::
  "notice_settings \<Rightarrow> rivals \<Rightarrow> (uuid128 \<Rightarrow> uuid128) \<Rightarrow> int \<Rightarrow> ustring \<Rightarrow> ustring \<Rightarrow> uuid128 \<Rightarrow> uuid128 \<Rightarrow> uuid128 \<Rightarrow> notice_table
   \<Rightarrow> string + uuid128 list \<times> notice_table" where
  "deliver_ready cfg V fresh now key filename kb doc user rows =
     (case get_by_dedupe user key rows of
        Some existing \<Rightarrow> map_sum id (\<lambda>out. ([], out)) (fold_in now filename doc existing rows)
      | None \<Rightarrow>
          (case create_if_absent (fresh user) now user (ready_draft cfg key filename kb doc) (rv_between V user rows) of
             Inl cls \<Rightarrow> Inl cls
           | Inr (Some i, rows1) \<Rightarrow>
               Inr (if channel_email \<in> set (channels_for cfg type_document_ready) then [i] else [], rows1)
           | Inr (None, rows1) \<Rightarrow>
               (let rows2 = rv_after V user rows1
                in case get_by_dedupe user key rows2 of
                     None \<Rightarrow> Inr ([], rows2)
                   | Some existing \<Rightarrow> map_sum id (\<lambda>out. ([], out)) (fold_in now filename doc existing rows2))))"

fun deliver_ready_all ::
  "notice_settings \<Rightarrow> rivals \<Rightarrow> (uuid128 \<Rightarrow> uuid128) \<Rightarrow> int \<Rightarrow> ustring \<Rightarrow> ustring \<Rightarrow> uuid128 \<Rightarrow> uuid128 \<Rightarrow> uuid128 list \<Rightarrow> notice_table
   \<Rightarrow> string + uuid128 list \<times> notice_table" where
  "deliver_ready_all cfg V fresh now key filename kb doc [] rows = Inr ([], rows)"
| "deliver_ready_all cfg V fresh now key filename kb doc (user # users) rows =
     (case deliver_ready cfg V fresh now key filename kb doc user rows of
        Inl cls \<Rightarrow> Inl cls
      | Inr (pending, rows1) \<Rightarrow>
          map_sum id (\<lambda>(more, out). (pending @ more, out)) (deliver_ready_all cfg V fresh now key filename kb doc users rows1))"

definition recipients_for :: "member list \<Rightarrow> uuid128 option \<Rightarrow> uuid128 list" where
  "recipients_for ms uploaded_by =
     (case uploaded_by of Some user \<Rightarrow> [user] | None \<Rightarrow> List.map md_id (active_with_roles quota_roles ms))"

text \<open>After the commit: a task that the broker does not take is lost, the others are sent.\<close>

definition flush_emails :: "(uuid128 \<Rightarrow> bool) \<Rightarrow> uuid128 list \<Rightarrow> notice_state \<Rightarrow> notice_state" where
  "flush_emails accepts pending s = s\<lparr>ns_queue := ns_queue s @ filter accepts pending\<rparr>"

text \<open>The frame of the three events: an exception in the transaction is swallowed.\<close>

definition committed :: "(uuid128 \<Rightarrow> bool) \<Rightarrow> (notice_table \<Rightarrow> string + uuid128 list \<times> notice_table) \<Rightarrow> notice_state \<Rightarrow> notice_state" where
  "committed accepts body s =
     (case body (ns_rows s) of Inl cls \<Rightarrow> s | Inr (pending, rows) \<Rightarrow> flush_emails accepts pending (s\<lparr>ns_rows := rows\<rparr>))"

definition failed_draft :: "notice_settings \<Rightarrow> uuid128 \<Rightarrow> doc_row \<Rightarrow> failure_note \<Rightarrow> notice_draft" where
  "failed_draft cfg doc r e =
     \<lparr>nd_type = type_document_failed, nd_title = dr_filename r @ [32, 34389, 29702, 22833, 25943],
      nd_body = (if fn_retryable e
                 then [36889, 20221, 25991, 20214, 22312, 34389, 29702, 36942, 31243, 20013, 22833, 25943, 20102, 65292, 21487, 20197, 22312, 30693, 35672, 24235, 35041, 37325, 36305, 12290]
                 else [36889, 20221, 25991, 20214, 28961, 27861, 35299, 26512, 65292, 25563, 19968, 20491, 26684, 24335, 25110, 37325, 26032, 21295, 20986, 24460, 20877, 19978, 20659, 12290]),
      nd_meta = [(lit ''document_id'', JStr (uuid_text doc)), (lit ''kb_id'', JStr (uuid_text (dr_kb r))),
                 (lit ''filename'', JStr (dr_filename r)), (lit ''stage'', JStr (lit (fn_stage e))),
                 (lit ''retryable'', JBool (fn_retryable e)), (lit ''cause'', JStr (lit (fn_cause e)))],
      nd_channels = channels_for cfg type_document_failed, nd_dedupe = None\<rparr>"

definition notify_document_failed ::
  "notice_settings \<Rightarrow> rivals \<Rightarrow> (uuid128 \<Rightarrow> uuid128) \<Rightarrow> (uuid128 \<Rightarrow> bool) \<Rightarrow> int \<Rightarrow> member list \<Rightarrow> kstore \<Rightarrow> uuid128 \<Rightarrow> failure_note
   \<Rightarrow> notice_state \<Rightarrow> notice_state" where
  "notify_document_failed cfg V fresh accepts now ms ks doc e s =
     (case find_doc doc ks of
        None \<Rightarrow> s
      | Some r \<Rightarrow>
          committed accepts (deliver V fresh now (failed_draft cfg doc r e) (recipients_for ms (dr_uploaded_by r))) s)"

definition notify_document_ready ::
  "notice_settings \<Rightarrow> rivals \<Rightarrow> (uuid128 \<Rightarrow> uuid128) \<Rightarrow> (uuid128 \<Rightarrow> bool) \<Rightarrow> int \<Rightarrow> member list \<Rightarrow> kstore \<Rightarrow> uuid128
   \<Rightarrow> notice_state \<Rightarrow> notice_state" where
  "notify_document_ready cfg V fresh accepts now ms ks doc s =
     (case find_doc doc ks of
        None \<Rightarrow> s
      | Some r \<Rightarrow>
          committed accepts
            (deliver_ready_all cfg V fresh now (collapse_bucket cfg (dr_kb r) (now div 1000000)) (dr_filename r) (dr_kb r) doc
               (recipients_for ms (dr_uploaded_by r))) s)"

definition threshold_key :: "ustring \<Rightarrow> ustring \<Rightarrow> int \<Rightarrow> ustring" where
  "threshold_key resource period threshold =
     type_quota_threshold @ lit '':'' @ resource @ lit '':'' @ period @ lit '':'' @ int_str threshold"

definition threshold_draft :: "notice_settings \<Rightarrow> ustring \<Rightarrow> int \<Rightarrow> int \<Rightarrow> ustring \<Rightarrow> int \<Rightarrow> notice_draft" where
  "threshold_draft cfg resource used cap period threshold =
     (let name = or_else (map_of resource_labels resource) resource
      in \<lparr>nd_type = type_quota_threshold,
          nd_title = (if 100 \<le> threshold then name @ [24050, 29992, 30433] else name @ [24050, 29992, 25481, 32] @ int_str threshold @ lit ''%''),
          nd_body = [30446, 21069, 29992, 37327, 32] @ int_str used @ lit '' / '' @ int_str cap @ [12290]
            @ (if 100 \<le> threshold then [36229, 36942, 30340, 35531, 27714, 26371, 34987, 25803, 19979, 12290] else []),
          nd_meta = [(lit ''resource'', JStr resource), (lit ''threshold'', JInt threshold), (lit ''used'', JInt used), (lit ''limit'', JInt cap)],
          nd_channels = channels_for cfg type_quota_threshold, nd_dedupe = Some (threshold_key resource period threshold)\<rparr>)"

fun deliver_thresholds ::
  "notice_settings \<Rightarrow> (int \<Rightarrow> rivals) \<Rightarrow> (int \<Rightarrow> uuid128 \<Rightarrow> uuid128) \<Rightarrow> int \<Rightarrow> uuid128 list \<Rightarrow> ustring \<Rightarrow> int \<Rightarrow> int \<Rightarrow> ustring
   \<Rightarrow> int list \<Rightarrow> notice_table \<Rightarrow> string + uuid128 list \<times> notice_table" where
  "deliver_thresholds cfg V fresh now users resource used cap period [] rows = Inr ([], rows)"
| "deliver_thresholds cfg V fresh now users resource used cap period (t # ts) rows =
     (if used * 100 div cap < t then deliver_thresholds cfg V fresh now users resource used cap period ts rows
      else
        (case deliver (V t) (fresh t) now (threshold_draft cfg resource used cap period t) users rows of
           Inl cls \<Rightarrow> Inl cls
         | Inr (pending, rows1) \<Rightarrow>
             map_sum id (\<lambda>(more, out). (pending @ more, out))
               (deliver_thresholds cfg V fresh now users resource used cap period ts rows1)))"

definition notify_quota_threshold ::
  "notice_settings \<Rightarrow> (int \<Rightarrow> rivals) \<Rightarrow> (int \<Rightarrow> uuid128 \<Rightarrow> uuid128) \<Rightarrow> (uuid128 \<Rightarrow> bool) \<Rightarrow> int \<Rightarrow> member list
   \<Rightarrow> ustring \<Rightarrow> int \<Rightarrow> int \<Rightarrow> ustring \<Rightarrow> notice_state \<Rightarrow> notice_state" where
  "notify_quota_threshold cfg V fresh accepts now ms resource used cap period s =
     (if cap \<le> 0 then s
      else committed accepts
             (deliver_thresholds cfg V fresh now (List.map md_id (active_with_roles quota_roles ms)) resource used cap period
                (quota_thresholds (nc_thresholds cfg))) s)"

text \<open>What the worker of the queue sends: recipient, subject and text, or nothing.\<close>

definition send_email :: "member list \<Rightarrow> uuid128 \<Rightarrow> notice_table \<Rightarrow> (ustring \<times> ustring \<times> ustring) option" where
  "send_email ms i rows =
     (case map_of rows i of
        None \<Rightarrow> None
      | Some r \<Rightarrow>
          (case find (\<lambda>u. md_id u = nt_user r) ms of
             None \<Rightarrow> None
           | Some u \<Rightarrow> if md_email u = [] then None else Some (md_email u, nt_title r, nt_body r)))"

subsection \<open>One notification per key\<close>

definition notice_keys :: "notice_table \<Rightarrow> (uuid128 \<times> ustring) list" where
  "notice_keys rows = List.map_filter (\<lambda>x. map_option (Pair (nt_user (snd x))) (nt_dedupe (snd x))) rows"

definition inbox_ok :: "notice_table \<Rightarrow> bool" where
  "inbox_ok rows \<longleftrightarrow> distinct (List.map fst rows) \<and> distinct (notice_keys rows)
     \<and> (\<forall>x \<in> set rows. channel_in_app \<in> set (nt_channels (snd x)))"

definition same_notice :: "uuid128 \<times> notice_row \<Rightarrow> uuid128 \<times> notice_row \<Rightarrow> bool" where
  "same_notice x y \<longleftrightarrow> fst x = fst y \<and> nt_user (snd x) = nt_user (snd y) \<and> nt_dedupe (snd x) = nt_dedupe (snd y)
     \<and> nt_channels (snd x) = nt_channels (snd y)"

definition grows :: "notice_table \<Rightarrow> notice_table \<Rightarrow> bool" where
  "grows rows rows' \<longleftrightarrow> (\<forall>x \<in> set rows. \<exists>y \<in> set rows'. same_notice x y)"

text \<open>What other transactions may do: they run the same operations.\<close>

definition rivals_ok :: "rivals \<Rightarrow> bool" where
  "rivals_ok V \<longleftrightarrow> (\<forall>user rows. inbox_ok rows \<longrightarrow> inbox_ok (rv_between V user rows) \<and> grows rows (rv_between V user rows)
     \<and> inbox_ok (rv_after V user rows) \<and> grows rows (rv_after V user rows))"

lemma grows_refl [simp]: "grows rows rows"
  by (auto simp: grows_def same_notice_def)

lemma grows_trans: "grows a b \<Longrightarrow> grows b c \<Longrightarrow> grows a c"
  unfolding grows_def same_notice_def by metis

lemma grows_ids: "grows a b \<Longrightarrow> fst ` set a \<subseteq> fst ` set b"
  unfolding grows_def same_notice_def by force

lemma notice_keys_append [simp]: "notice_keys (xs @ ys) = notice_keys xs @ notice_keys ys"
  by (simp add: notice_keys_def map_filter_def)

lemma in_notice_keys: "(user, key) \<in> set (notice_keys rows) \<longleftrightarrow> (\<exists>x \<in> set rows. has_key user key x)"
  by (force simp: notice_keys_def map_filter_def has_key_def)

lemma create_notice_effect:
  assumes "create_notice i now user d rows = Inr out" "inbox_ok rows" "channel_in_app \<in> set (nd_channels d)"
  shows "inbox_ok out" "out = rows @ [(i, row_of now user d)]" "i \<notin> fst ` set rows"
proof -
  from assms(1) have fresh: "i \<notin> fst ` set rows" "out = rows @ [(i, row_of now user d)]"
    and key: "\<forall>key. nd_dedupe d = Some key \<longrightarrow> \<not> list_ex (has_key user key) rows"
    by (auto simp: create_notice_def split: if_splits option.splits)
  have "distinct (notice_keys rows @ notice_keys [(i, row_of now user d)])"
    using assms(2) key in_notice_keys [of user _ rows]
    by (cases "nd_dedupe d") (auto simp: inbox_ok_def notice_keys_def map_filter_def row_of_def list_ex_iff)
  then show "inbox_ok out" using assms(2,3) fresh by (auto simp: inbox_ok_def row_of_def)
  show "out = rows @ [(i, row_of now user d)]" "i \<notin> fst ` set rows" by (fact fresh)+
qed

lemma grows_append: "grows rows (rows @ extra)"
  by (auto simp: grows_def same_notice_def)

lemma map_rows_keep:
  assumes "\<And>i r. nt_user (f i r) = nt_user r \<and> nt_dedupe (f i r) = nt_dedupe r \<and> nt_channels (f i r) = nt_channels r"
  shows "inbox_ok rows \<Longrightarrow> inbox_ok (List.map (\<lambda>(i, r). (i, f i r)) rows)" "grows rows (List.map (\<lambda>(i, r). (i, f i r)) rows)"
proof -
  have "List.map fst (List.map (\<lambda>(i, r). (i, f i r)) rows) = List.map fst rows" by (induction rows) auto
  moreover have "notice_keys (List.map (\<lambda>(i, r). (i, f i r)) rows) = notice_keys rows"
    by (simp add: notice_keys_def map_filter_def filter_map comp_def split_beta assms cong: filter_cong)
  moreover have "\<forall>x \<in> set rows. nt_channels (f (fst x) (snd x)) = nt_channels (snd x)" using assms by simp
  ultimately show "inbox_ok rows \<Longrightarrow> inbox_ok (List.map (\<lambda>(i, r). (i, f i r)) rows)"
    unfolding inbox_ok_def by (simp only:) (auto simp: assms)
  show "grows rows (List.map (\<lambda>(i, r). (i, f i r)) rows)"
    unfolding grows_def
  proof
    fix x assume "x \<in> set rows"
    then have "(fst x, f (fst x) (snd x)) \<in> set (List.map (\<lambda>(i, r). (i, f i r)) rows)" by force
    moreover have "same_notice x (fst x, f (fst x) (snd x))" by (simp add: same_notice_def assms)
    ultimately show "\<exists>y \<in> set (List.map (\<lambda>(i, r). (i, f i r)) rows). same_notice x y" by blast
  qed
qed

lemma collapse_keeps: "inbox_ok rows \<Longrightarrow> inbox_ok (collapse_notice now i title body meta rows)" "grows rows (collapse_notice now i title body meta rows)"
  unfolding collapse_notice_def update_notice_def
  by (rule map_rows_keep [where f = "\<lambda>j r. if j = i then r\<lparr>nt_title := title, nt_body := body, nt_meta := meta, nt_read := None, nt_updated := now\<rparr> else r"];
      simp)+

lemma mark_keeps:
  "inbox_ok rows \<Longrightarrow> inbox_ok (snd (mark_read_row now user i rows))" "grows rows (snd (mark_read_row now user i rows))"
  unfolding mark_read_row_def
  using map_rows_keep [where f = "\<lambda>j r. if j = i \<and> nt_user r = user \<and> nt_read r = None then r\<lparr>nt_read := Some now\<rparr> else r" and rows = rows]
  by auto

text \<open>What a delivery has done when it returns.\<close>

definition delivered :: "notice_table \<Rightarrow> uuid128 list \<Rightarrow> notice_table \<Rightarrow> bool" where
  "delivered rows pending out \<longleftrightarrow> inbox_ok out \<and> grows rows out
     \<and> (\<forall>i \<in> set pending. i \<notin> fst ` set rows \<and> (\<exists>y \<in> set out. fst y = i \<and> channel_email \<in> set (nt_channels (snd y))))"

lemma delivered_trans:
  assumes "delivered a p b" "delivered b q c"
  shows "delivered a (p @ q) c"
proof -
  have "i \<notin> fst ` set a" if "i \<in> set q" for i
    using assms that grows_ids [of a b] by (auto simp: delivered_def)
  moreover have "\<exists>y \<in> set c. fst y = i \<and> channel_email \<in> set (nt_channels (snd y))" if "i \<in> set p" for i
    using assms that unfolding delivered_def grows_def same_notice_def by metis
  ultimately show ?thesis using assms grows_trans [of a b c] unfolding delivered_def by auto
qed

lemma delivered_before: "grows a b \<Longrightarrow> delivered b p c \<Longrightarrow> delivered a p c"
  using grows_ids [of a b] grows_trans [of a b c] by (auto simp: delivered_def)

lemma delivered_none: "inbox_ok rows \<Longrightarrow> grows a rows \<Longrightarrow> delivered a [] rows"
  by (simp add: delivered_def)

lemma delivered_create:
  assumes "create_notice i now user d rows = Inr out" "inbox_ok rows" "channel_in_app \<in> set (nd_channels d)"
  shows "delivered rows (if channel_email \<in> set (nd_channels d) then [i] else []) out"
  using create_notice_effect [OF assms] by (auto simp: delivered_def grows_append row_of_def)

lemma create_if_absent_cases:
  assumes "create_if_absent i now user d rows = Inr (r, out)" "nd_dedupe d = Some key"
  obtains "r = None" "out = rows" "\<exists>x \<in> set rows. has_key user key x" | "r = Some i" "create_notice i now user d rows = Inr out"
  using assms by (auto simp: create_if_absent_def create_notice_def list_ex_iff split: sum.splits if_splits)

lemma deliver_effect:
  assumes "deliver V fresh now d users rows = Inr (pending, out)" "inbox_ok rows" "rivals_ok V" "channel_in_app \<in> set (nd_channels d)"
  shows "delivered rows pending out \<and> (\<forall>user \<in> set users. \<forall>key. nd_dedupe d = Some key \<longrightarrow> (\<exists>y \<in> set out. has_key user key y))
    \<and> (channel_email \<notin> set (nd_channels d) \<longrightarrow> pending = [])"
  using assms(1,2)
proof (induction users arbitrary: rows pending out)
  case Nil
  then show ?case by (simp add: delivered_none)
next
  case (Cons user users)
  let ?goal = "\<lambda>p. delivered rows p out \<and> (\<forall>u \<in> set (user # users). \<forall>key. nd_dedupe d = Some key \<longrightarrow> (\<exists>y \<in> set out. has_key u key y))
    \<and> (channel_email \<notin> set (nd_channels d) \<longrightarrow> p = [])"
  have keep: "\<exists>y \<in> set out. has_key user key y" if "grows mid out" "\<exists>x \<in> set mid. has_key user key x" for mid key
    using that unfolding grows_def same_notice_def has_key_def by metis
  let ?new = "if channel_email \<in> set (nd_channels d) then [fresh user] else []"
  have created: ?case if c: "create_notice (fresh user) now user d mid = Inr rows1" "inbox_ok mid" "grows rows mid"
    and rest: "deliver V fresh now d users rows1 = Inr (p, out)" and p: "pending = ?new @ p" for mid rows1 p
  proof -
    note e = create_notice_effect [OF c(1,2) assms(4)]
    have "delivered mid ?new rows1" by (rule delivered_create [OF c(1,2) assms(4)])
    moreover note ih = Cons.IH [OF rest e(1)]
    ultimately have "delivered mid (?new @ p) out" using delivered_trans by blast
    moreover have "grows rows1 out" using ih by (simp add: delivered_def)
    moreover have "\<exists>x \<in> set rows1. has_key user key x" if "nd_dedupe d = Some key" for key
      using that by (simp add: e(2) has_key_def row_of_def)
    ultimately show ?thesis using ih p c(3) keep delivered_before [of rows mid] by auto
  qed
  show ?case
  proof (cases "nd_dedupe d")
    case None
    then obtain rows1 p where "create_notice (fresh user) now user d rows = Inr rows1" "deliver V fresh now d users rows1 = Inr (p, out)"
      "pending = ?new @ p"
      using Cons.prems(1) by (auto simp: map_sum_Inr split: sum.splits prod.splits if_splits)
    then show ?thesis using created [of rows rows1 p] Cons.prems(2) by simp
  next
    case (Some key)
    show ?thesis
    proof (cases "get_by_dedupe user key rows")
      case found: (Some x)
      then have "deliver V fresh now d users rows = Inr (pending, out)" using Cons.prems(1) Some by simp
      note ih = Cons.IH [OF this Cons.prems(2)]
      have "\<exists>x \<in> set rows. has_key user key x" using found by (auto simp: get_by_dedupe_def find_Some_iff)
      then show ?thesis using ih keep [of rows] Some by (auto simp: delivered_def)
    next
      case none: None
      let ?mid = "rv_between V user rows"
      have mid: "inbox_ok ?mid" "grows rows ?mid" using assms(3) Cons.prems(2) by (auto simp: rivals_ok_def)
      obtain r rows1 where r: "create_if_absent (fresh user) now user d ?mid = Inr (r, rows1)"
        using Cons.prems(1) Some none by (auto split: sum.splits)
      from r Some show ?thesis
      proof (cases rule: create_if_absent_cases)
        case 1
        then have "deliver V fresh now d users ?mid = Inr (pending, out)" using Cons.prems(1) Some none r by simp
        note ih = Cons.IH [OF this mid(1)]
        have "delivered rows pending out" by (rule delivered_before [OF mid(2) conjunct1 [OF ih]])
        moreover have "\<exists>y \<in> set out. has_key user key y"
          using keep [of ?mid key, OF _ 1(3)] ih by (simp add: delivered_def)
        ultimately show ?thesis using ih Some by simp
      next
        case 2
        then obtain p where "deliver V fresh now d users rows1 = Inr (p, out)" "pending = ?new @ p"
          using Cons.prems(1) Some none r by (auto simp: map_sum_Inr split: prod.splits if_splits)
        then show ?thesis using created [OF 2(2) mid] by simp
      qed
    qed
  qed
qed

lemma fold_in_keeps:
  assumes "fold_in now filename doc x rows = Inr out" "inbox_ok rows"
  shows "inbox_ok out" "grows rows out"
proof -
  obtain title body meta where "out = collapse_notice now (fst x) title body meta rows"
    using assms(1) by (auto simp: fold_in_def split: sum.splits)
  then show "inbox_ok out" "grows rows out" using collapse_keeps assms(2) by simp_all
qed

lemma channels_for_in_app: "channel_in_app \<in> set (channels_for cfg event_type)"
proof -
  have ne: "channel_in_app \<noteq> channel_email" by (simp add: channel_in_app_def channel_email_def)
  have "\<forall>x \<in> set channels_by_type. channel_in_app \<in> set (snd x)" by (simp add: channels_by_type_def)
  then have "channel_in_app \<in> set (or_else (map_of channels_by_type event_type) [channel_in_app])"
    by (cases "map_of channels_by_type event_type") (force simp: or_else_def dest: map_of_SomeD)+
  with ne show ?thesis by (simp add: channels_for_def Let_def)
qed

lemma ready_never_mails: "channel_email \<notin> set (channels_for cfg type_document_ready)"
  by (simp add: channels_for_def channels_by_type_def type_document_ready_def type_document_failed_def type_quota_threshold_def
      channel_email_def channel_in_app_def or_else_def Let_def)

lemma deliver_ready_effect:
  assumes "deliver_ready cfg V fresh now key filename kb doc user rows = Inr (pending, out)" "inbox_ok rows" "rivals_ok V"
  shows "delivered rows pending out"
proof (cases "get_by_dedupe user key rows")
  case (Some x)
  then have "fold_in now filename doc x rows = Inr out" "pending = []" using assms(1) by (auto simp: deliver_ready_def map_sum_Inr)
  with fold_in_keeps [OF this(1) assms(2)] show ?thesis by (simp add: delivered_none)
next
  case None
  let ?d = "ready_draft cfg key filename kb doc"
  let ?mid = "rv_between V user rows"
  have mid: "inbox_ok ?mid" "grows rows ?mid" using assms(2,3) by (auto simp: rivals_ok_def)
  obtain r rows1 where r: "create_if_absent (fresh user) now user ?d ?mid = Inr (r, rows1)"
    using assms(1) None by (auto simp: deliver_ready_def split: sum.splits)
  have "nd_dedupe ?d = Some key" by (simp add: ready_draft_def)
  from r this show ?thesis
  proof (cases rule: create_if_absent_cases)
    case 1
    let ?rows2 = "rv_after V user ?mid"
    have late: "inbox_ok ?rows2" "grows ?mid ?rows2" using mid(1) assms(3) by (auto simp: rivals_ok_def)
    have g: "grows rows ?rows2" using grows_trans [OF mid(2) late(2)] .
    have p: "pending = []" using assms(1) None r 1 by (auto simp: deliver_ready_def Let_def map_sum_Inr split: option.splits)
    have "inbox_ok out \<and> grows ?rows2 out"
    proof (cases "get_by_dedupe user key ?rows2")
      case again: None
      then show ?thesis using assms(1) None r 1 late(1) by (auto simp: deliver_ready_def Let_def)
    next
      case (Some x)
      then have "fold_in now filename doc x ?rows2 = Inr out" using assms(1) None r 1 by (auto simp: deliver_ready_def Let_def map_sum_Inr)
      from fold_in_keeps [OF this late(1)] show ?thesis by simp
    qed
    then show ?thesis using p g grows_trans by (auto simp: delivered_def)
  next
    case 2
    have in_app: "channel_in_app \<in> set (nd_channels ?d)" by (simp add: ready_draft_def channels_for_in_app)
    have "out = rows1" "pending = (if channel_email \<in> set (nd_channels ?d) then [fresh user] else [])"
      using assms(1) None r 2 by (auto simp: deliver_ready_def ready_draft_def split: if_splits)
    with delivered_before [OF mid(2) delivered_create [OF 2(2) mid(1) in_app]] show ?thesis by simp
  qed
qed

lemma deliver_ready_all_effect:
  assumes "deliver_ready_all cfg V fresh now key filename kb doc users rows = Inr (pending, out)" "inbox_ok rows" "rivals_ok V"
  shows "delivered rows pending out"
  using assms(1,2)
proof (induction users arbitrary: rows pending out)
  case Nil
  then show ?case by (simp add: delivered_none)
next
  case (Cons user users)
  then obtain p rows1 q where step: "deliver_ready cfg V fresh now key filename kb doc user rows = Inr (p, rows1)"
    "deliver_ready_all cfg V fresh now key filename kb doc users rows1 = Inr (q, out)" "pending = p @ q"
    by (auto simp: map_sum_Inr split: sum.splits prod.splits)
  have "delivered rows p rows1" by (rule deliver_ready_effect [OF step(1) Cons.prems(2) assms(3)])
  moreover from this have "delivered rows1 q out" using Cons.IH [OF step(2)] by (simp add: delivered_def)
  ultimately show ?case using delivered_trans step(3) by blast
qed

lemma deliver_thresholds_effect:
  assumes "deliver_thresholds cfg V fresh now users resource used cap period ts rows = Inr (pending, out)" "inbox_ok rows" "\<forall>t. rivals_ok (V t)"
  shows "delivered rows pending out
    \<and> (\<forall>t \<in> set ts. t \<le> used * 100 div cap \<longrightarrow> (\<forall>user \<in> set users. \<exists>y \<in> set out. has_key user (threshold_key resource period t) y))"
  using assms(1,2)
proof (induction ts arbitrary: rows pending out)
  case Nil
  then show ?case by (simp add: delivered_none)
next
  case (Cons t ts)
  show ?case
  proof (cases "used * 100 div cap < t")
    case True
    then show ?thesis using Cons by auto
  next
    case False
    then obtain p rows1 q where step: "deliver (V t) (fresh t) now (threshold_draft cfg resource used cap period t) users rows = Inr (p, rows1)"
      "deliver_thresholds cfg V fresh now users resource used cap period ts rows1 = Inr (q, out)" "pending = p @ q"
      using Cons.prems(1) by (auto simp: map_sum_Inr split: sum.splits prod.splits)
    have d: "channel_in_app \<in> set (nd_channels (threshold_draft cfg resource used cap period t))"
      "nd_dedupe (threshold_draft cfg resource used cap period t) = Some (threshold_key resource period t)"
      by (simp_all add: threshold_draft_def Let_def channels_for_in_app)
    note first = deliver_effect [OF step(1) Cons.prems(2) _ d(1)]
    have "rivals_ok (V t)" using assms(3) by simp
    note first = first [OF this]
    then have "inbox_ok rows1" by (simp add: delivered_def)
    note rest = Cons.IH [OF step(2) this]
    have "delivered rows pending out" using first rest step(3) delivered_trans by blast
    moreover have "\<exists>y \<in> set out. has_key user (threshold_key resource period t) y" if "user \<in> set users" for user
      using that first rest d(2) unfolding delivered_def grows_def same_notice_def has_key_def by metis
    ultimately show ?thesis using rest by auto
  qed
qed

subsection \<open>Every event keeps the table and the queue in order\<close>

datatype notice_event =
  EvFailed rivals "uuid128 \<Rightarrow> uuid128" "uuid128 \<Rightarrow> bool" int kstore uuid128 failure_note
| EvReady rivals "uuid128 \<Rightarrow> uuid128" "uuid128 \<Rightarrow> bool" int kstore uuid128
| EvQuota "int \<Rightarrow> rivals" "int \<Rightarrow> uuid128 \<Rightarrow> uuid128" "uuid128 \<Rightarrow> bool" int ustring int int ustring
| EvRead int uuid128 uuid128

fun notice_step :: "notice_settings \<Rightarrow> member list \<Rightarrow> notice_event \<Rightarrow> notice_state \<Rightarrow> notice_state" where
  "notice_step cfg ms (EvFailed V fresh accepts now ks doc e) s = notify_document_failed cfg V fresh accepts now ms ks doc e s"
| "notice_step cfg ms (EvReady V fresh accepts now ks doc) s = notify_document_ready cfg V fresh accepts now ms ks doc s"
| "notice_step cfg ms (EvQuota V fresh accepts now resource used cap period) s =
     notify_quota_threshold cfg V fresh accepts now ms resource used cap period s"
| "notice_step cfg ms (EvRead now user i) s = snd (mark_read now user i s)"

fun event_ok :: "notice_event \<Rightarrow> bool" where
  "event_ok (EvFailed V fresh accepts now ks doc e) \<longleftrightarrow> rivals_ok V"
| "event_ok (EvReady V fresh accepts now ks doc) \<longleftrightarrow> rivals_ok V"
| "event_ok (EvQuota V fresh accepts now resource used cap period) \<longleftrightarrow> (\<forall>t. rivals_ok (V t))"
| "event_ok (EvRead now user i) \<longleftrightarrow> True"

definition notices_ok :: "notice_state \<Rightarrow> bool" where
  "notices_ok s \<longleftrightarrow> inbox_ok (ns_rows s)
     \<and> (\<forall>i \<in> set (ns_queue s). \<exists>x \<in> set (ns_rows s). fst x = i \<and> channel_email \<in> set (nt_channels (snd x)))"

lemma queue_kept:
  "grows a b \<Longrightarrow> \<exists>x \<in> set a. fst x = i \<and> channel_email \<in> set (nt_channels (snd x)) \<Longrightarrow>
    \<exists>x \<in> set b. fst x = i \<and> channel_email \<in> set (nt_channels (snd x))"
  unfolding grows_def same_notice_def by metis

lemma committed_ok:
  assumes "notices_ok s" "\<And>pending out. body (ns_rows s) = Inr (pending, out) \<Longrightarrow> delivered (ns_rows s) pending out"
  shows "notices_ok (committed accepts body s)"
proof (cases "body (ns_rows s)")
  case (Inl cls)
  then show ?thesis using assms(1) by (simp add: committed_def)
next
  case (Inr r)
  obtain pending out where r: "body (ns_rows s) = Inr (pending, out)" using Inr by (cases r) simp
  from assms(2) [OF r] have d: "inbox_ok out" "grows (ns_rows s) out"
    "\<forall>i \<in> set pending. \<exists>y \<in> set out. fst y = i \<and> channel_email \<in> set (nt_channels (snd y))" by (simp_all add: delivered_def)
  have "\<forall>i \<in> set (ns_queue s). \<exists>x \<in> set out. fst x = i \<and> channel_email \<in> set (nt_channels (snd x))"
    using assms(1) queue_kept [OF d(2)] by (simp add: notices_ok_def)
  then show ?thesis using d by (auto simp: committed_def r flush_emails_def notices_ok_def)
qed

text \<open>C10. Whatever documents fail or finish, limits are reached and notifications are read, in any order and with other
  transactions in between: no user ever has two notifications with the same key, every notification is in the inbox channel, and
  every task for an e-mail names a committed notification that goes out by e-mail.\<close>

theorem notifications_stay_consistent:
  assumes "notices_ok s" "\<forall>e \<in> set events. event_ok e"
  shows "notices_ok (fold (notice_step cfg ms) events s)"
  using assms
proof (induction events arbitrary: s)
  case (Cons e events)
  have "notices_ok (notice_step cfg ms e s)"
  proof (cases e)
    case (EvFailed V fresh accepts now ks doc e')
    have "delivered (ns_rows s) pending out"
      if "deliver V fresh now (failed_draft cfg doc r e') users (ns_rows s) = Inr (pending, out)" for r users pending out
      using deliver_effect [OF that] Cons.prems EvFailed by (simp add: notices_ok_def failed_draft_def channels_for_in_app)
    then show ?thesis using Cons.prems(1) EvFailed by (auto simp: notify_document_failed_def intro!: committed_ok split: option.splits)
  next
    case (EvReady V fresh accepts now ks doc)
    have "delivered (ns_rows s) pending out"
      if "deliver_ready_all cfg V fresh now key filename kb doc users (ns_rows s) = Inr (pending, out)" for key filename kb users pending out
      using deliver_ready_all_effect [OF that] Cons.prems EvReady by (simp add: notices_ok_def)
    then show ?thesis using Cons.prems(1) EvReady by (auto simp: notify_document_ready_def intro!: committed_ok split: option.splits)
  next
    case (EvQuota V fresh accepts now resource used cap period)
    have "delivered (ns_rows s) pending out"
      if "deliver_thresholds cfg V fresh now users resource used cap period ts (ns_rows s) = Inr (pending, out)" for users ts pending out
      using deliver_thresholds_effect [OF that] Cons.prems EvQuota by (simp add: notices_ok_def)
    then show ?thesis using Cons.prems(1) EvQuota by (auto simp: notify_quota_threshold_def intro!: committed_ok)
  next
    case (EvRead now user i)
    have "inbox_ok (snd (mark_read_row now user i (ns_rows s)))" "grows (ns_rows s) (snd (mark_read_row now user i (ns_rows s)))"
      using mark_keeps Cons.prems(1) by (simp_all add: notices_ok_def)
    then show ?thesis using Cons.prems(1) EvRead queue_kept
      by (auto simp: mark_read_def notices_ok_def split: prod.splits bool.splits option.splits)
  qed
  then show ?case using Cons by simp
qed simp

subsection \<open>Limits\<close>

lemma keys_filter: "length (filter (has_key user key) rows) = length (filter (\<lambda>p. p = (user, key)) (notice_keys rows))"
  by (induction rows) (auto simp: notice_keys_def map_filter_def has_key_def)

lemma one_per_key:
  assumes "inbox_ok rows" "\<exists>x \<in> set rows. has_key user key x"
  shows "length (filter (has_key user key) rows) = 1"
proof -
  have "length (filter (\<lambda>p. p = (user, key)) (notice_keys rows)) = card ({p. p = (user, key)} \<inter> set (notice_keys rows))"
    using assms(1) by (intro distinct_length_filter) (simp add: inbox_ok_def)
  moreover have "{p. p = (user, key)} \<inter> set (notice_keys rows) = {(user, key)}" using in_notice_keys [of user key rows] assms(2) by auto
  ultimately show ?thesis by (simp add: keys_filter)
qed

definition quiet :: "rivals \<Rightarrow> bool" where
  "quiet V \<longleftrightarrow> (\<forall>user rows. rv_between V user rows = rows \<and> rv_after V user rows = rows)"

lemma quiet_ok: "quiet V \<Longrightarrow> rivals_ok V"
  by (simp add: quiet_def rivals_ok_def)

lemma deliver_total:
  assumes "quiet V" "nd_dedupe d = Some key" "inj_on fresh (set users)" "distinct users" "fst ` set rows \<inter> fresh ` set users = {}"
  shows "\<exists>pending out. deliver V fresh now d users rows = Inr (pending, out) \<and> fst ` set out \<subseteq> fst ` set rows \<union> fresh ` set users"
  using assms(3-)
proof (induction users arbitrary: rows)
  case (Cons user users)
  have inj: "inj_on fresh (set users)" "fresh user \<notin> fresh ` set users" using Cons.prems(1,2) by (auto simp: inj_on_def)
  show ?case
  proof (cases "get_by_dedupe user key rows")
    case (Some x)
    have "fst ` set rows \<inter> fresh ` set users = {}" using Cons.prems(3) by auto
    from Cons.IH [OF inj(1) _ this] Cons.prems(2) obtain pending out
      where "deliver V fresh now d users rows = Inr (pending, out)" "fst ` set out \<subseteq> fst ` set rows \<union> fresh ` set users" by auto
    then show ?thesis using Some assms(2) by auto
  next
    case None
    let ?rows1 = "rows @ [(fresh user, row_of now user d)]"
    have "\<not> list_ex (has_key user key) rows" using None by (auto simp: get_by_dedupe_def find_None_iff list_ex_iff)
    then have c: "create_if_absent (fresh user) now user d rows = Inr (Some (fresh user), ?rows1)"
      using Cons.prems(3) assms(2) by (auto simp: create_if_absent_def create_notice_def)
    have "fst ` set ?rows1 \<inter> fresh ` set users = {}" using Cons.prems(3) inj(2) by auto
    from Cons.IH [OF inj(1) _ this] Cons.prems(2) obtain pending out
      where "deliver V fresh now d users ?rows1 = Inr (pending, out)" "fst ` set out \<subseteq> fst ` set ?rows1 \<union> fresh ` set users"
      by auto
    then show ?thesis using None c assms(1,2) by (auto simp: quiet_def)
  qed
qed simp

lemma deliver_again:
  assumes "nd_dedupe d = Some key" "\<forall>user \<in> set users. \<exists>y \<in> set rows. has_key user key y"
  shows "deliver V fresh now d users rows = Inr ([], rows)"
  using assms(2)
proof (induction users)
  case (Cons user users)
  then have "get_by_dedupe user key rows \<noteq> None" by (auto simp: get_by_dedupe_def find_None_iff)
  then show ?case using Cons assms(1) by simp
qed simp

definition due_thresholds :: "notice_settings \<Rightarrow> int \<Rightarrow> int \<Rightarrow> int list" where
  "due_thresholds cfg used cap = filter (\<lambda>t. t \<le> used * 100 div cap) (quota_thresholds (nc_thresholds cfg))"

text \<open>The identifiers of the new rows are new and different from each other.\<close>

definition new_ids :: "(int \<Rightarrow> uuid128 \<Rightarrow> uuid128) \<Rightarrow> int list \<Rightarrow> uuid128 list \<Rightarrow> notice_table \<Rightarrow> bool" where
  "new_ids fresh ts users rows \<longleftrightarrow>
     inj_on (\<lambda>(t, user). fresh t user) (set ts \<times> set users) \<and> fst ` set rows \<inter> (\<lambda>(t, user). fresh t user) ` (set ts \<times> set users) = {}"

lemma deliver_thresholds_total:
  assumes "\<forall>t. quiet (V t)" "distinct ts" "distinct users" "new_ids fresh ts users rows"
  shows "\<exists>pending out. deliver_thresholds cfg V fresh now users resource used cap period ts rows = Inr (pending, out)"
  using assms(2,4)
proof (induction ts arbitrary: rows)
  case (Cons t ts)
  let ?f = "\<lambda>(t, user). fresh t user"
  have inj: "inj_on ?f (set ts \<times> set users)"
    using Cons.prems(2) by (auto simp: new_ids_def intro: inj_on_subset)
  have "?f ` (set ts \<times> set users) \<subseteq> ?f ` (set (t # ts) \<times> set users)" by (rule image_mono) auto
  then have later: "new_ids fresh ts users rows" using Cons.prems(2) inj unfolding new_ids_def by blast
  show ?case
  proof (cases "used * 100 div cap < t")
    case True
    then show ?thesis using Cons.IH [OF _ later] Cons.prems(1) by simp
  next
    case False
    let ?d = "threshold_draft cfg resource used cap period t"
    have d: "nd_dedupe ?d = Some (threshold_key resource period t)" by (simp add: threshold_draft_def Let_def)
    have "fresh t ` set users \<subseteq> ?f ` (set (t # ts) \<times> set users)" by force
    then have disj: "fst ` set rows \<inter> fresh t ` set users = {}" using Cons.prems(2) unfolding new_ids_def by blast
    have "inj_on (fresh t) (set users)" using Cons.prems(2) by (simp add: new_ids_def inj_on_def)
    from deliver_total [OF _ d this assms(3) disj] assms(1) obtain pending out
      where o: "deliver (V t) (fresh t) now ?d users rows = Inr (pending, out)" "fst ` set out \<subseteq> fst ` set rows \<union> fresh t ` set users"
      by metis
    have "fresh t u \<noteq> fresh t' u'" if "t' \<in> set ts" "u \<in> set users" "u' \<in> set users" for u t' u'
    proof
      assume "fresh t u = fresh t' u'"
      then have "(t, u) = (t', u')"
        using Cons.prems(2) that unfolding new_ids_def inj_on_def by (metis (mono_tags, lifting) SigmaI case_prod_conv list.set_intros(1,2))
      then show False using that Cons.prems(1) by simp
    qed
    note apart = this
    have "fresh t' u' \<notin> fst ` set out" if "t' \<in> set ts" "u' \<in> set users" for t' u'
    proof
      assume "fresh t' u' \<in> fst ` set out"
      then consider "fresh t' u' \<in> fst ` set rows" | u where "u \<in> set users" "fresh t' u' = fresh t u" using o(2) by blast
      then show False
      proof cases
        case 1
        moreover have "fresh t' u' \<in> ?f ` (set ts \<times> set users)" using that by force
        ultimately show False using later unfolding new_ids_def by blast
      next
        case 2
        then show False using apart that by metis
      qed
    qed
    then have "\<forall>x \<in> set ts \<times> set users. ?f x \<notin> fst ` set out" by (simp add: split_beta)
    moreover have "\<forall>x \<in> A. f x \<notin> B \<Longrightarrow> B \<inter> f ` A = {}" for f and A :: "(int \<times> uuid128) set" and B :: "uuid128 set" by auto
    ultimately have "new_ids fresh ts users out" using inj by (simp only: new_ids_def)
    from Cons.IH [OF _ this] Cons.prems(1) show ?thesis using False o(1) by auto
  qed
qed simp

lemma deliver_thresholds_again:
  assumes "\<forall>t \<in> set ts. t \<le> used * 100 div cap \<longrightarrow> (\<forall>user \<in> set users. \<exists>y \<in> set rows. has_key user (threshold_key resource period t) y)"
  shows "deliver_thresholds cfg V fresh now users resource used cap period ts rows = Inr ([], rows)"
  using assms
proof (induction ts)
  case (Cons t ts)
  have d: "nd_dedupe (threshold_draft cfg resource used cap period t) = Some (threshold_key resource period t)"
    by (simp add: threshold_draft_def Let_def)
  from Cons deliver_again [OF d, of users rows] show ?case by simp
qed simp


subsection \<open>Documents that finish together\<close>

text \<open>The identifiers that a row of the bucket keeps: the first nine and the latest.\<close>

definition kept_ids :: "uuid128 list \<Rightarrow> uuid128 list" where
  "kept_ids ds = (if length ds \<le> 10 then ds else take 9 ds @ [last ds])"

definition bucket_holds :: "uuid128 \<Rightarrow> ustring \<Rightarrow> uuid128 list \<Rightarrow> notice_table \<Rightarrow> bool" where
  "bucket_holds user key ds rows \<longleftrightarrow>
     (if ds = [] then filter (has_key user key) rows = []
      else \<exists>i r. filter (has_key user key) rows = [(i, r)] \<and> nt_read r = None
        \<and> jget (nt_meta r) ''count'' = Some (JInt (int (length ds)))
        \<and> jget (nt_meta r) ''document_ids'' = Some (JList (List.map (\<lambda>d. JStr (uuid_text d)) (kept_ids ds))))"

lemma kept_ids_snoc: "take 9 (kept_ids ds) @ [d] = kept_ids (ds @ [d])"
  by (auto simp: kept_ids_def min_def)

lemma find_filter: "find P xs = (case filter P xs of [] \<Rightarrow> None | x # _ \<Rightarrow> Some x)"
  by (induction xs) auto

lemma jget_update: "jget (AList.update (lit a) v kvs) b = (if a = b then Some v else jget kvs b)"
  by (simp add: jget_def update_conv')

lemma fold_in_holds:
  assumes "bucket_holds user key ds rows" "ds \<noteq> []" "get_by_dedupe user key rows = Some x"
  shows "\<exists>out. fold_in now filename doc x rows = Inr out \<and> bucket_holds user key (ds @ [doc]) out"
proof -
  obtain i r where r: "filter (has_key user key) rows = [(i, r)]" "jget (nt_meta r) ''count'' = Some (JInt (int (length ds)))"
    "jget (nt_meta r) ''document_ids'' = Some (JList (List.map (\<lambda>d. JStr (uuid_text d)) (kept_ids ds)))"
    using assms(1,2) by (auto simp: bucket_holds_def)
  then have x: "x = (i, r)" using assms(3) by (simp add: get_by_dedupe_def find_filter)
  let ?n = "int (length ds) + 1"
  let ?meta = "dict_update (nt_meta r)
    [(lit ''count'', JInt ?n), (lit ''document_ids'', JList (take 9 (List.map (\<lambda>d. JStr (uuid_text d)) (kept_ids ds)) @ [JStr (uuid_text doc)]))]"
  have "fold_in now filename doc x rows = Inr (collapse_notice now i (int_str ?n @ [32, 20221, 25991, 20214, 24050, 23436, 25104])
      (filename @ [32, 31561, 32] @ int_str ?n @ [32, 20221, 25991, 20214, 21487, 20197, 38283, 22987, 21839, 31572, 20102, 12290]) ?meta rows)"
    by (simp add: fold_in_def x r or_else_def py_int_def iterate_json_def)
  moreover have "bucket_holds user key (ds @ [doc]) (collapse_notice now i title body ?meta rows)" for title body
  proof -
    let ?g = "\<lambda>(j, q). (j, if j = i then q\<lparr>nt_title := title, nt_body := body, nt_meta := ?meta, nt_read := None, nt_updated := now\<rparr> else q)"
    have "filter (has_key user key) (List.map ?g rows) = List.map ?g (filter (has_key user key) rows)"
      by (simp add: filter_map comp_def has_key_def split_beta if_distrib cong: filter_cong)
    moreover have "jget ?meta ''count'' = Some (JInt (int (length (ds @ [doc]))))" by (simp add: dict_update_def jget_update)
    moreover have "jget ?meta ''document_ids'' = Some (JList (List.map (\<lambda>d. JStr (uuid_text d)) (kept_ids (ds @ [doc]))))"
      by (simp add: dict_update_def jget_update take_map flip: kept_ids_snoc)
    ultimately show ?thesis by (simp add: bucket_holds_def collapse_notice_def update_notice_def r(1))
  qed
  ultimately show ?thesis by blast
qed

text \<open>The documents of one knowledge base that finish within one time window give each recipient one unread notification,
  without an e-mail, that counts every one of them, also when another worker finishes documents of the same window between the
  look at the table and the insertion.\<close>

theorem ready_counts_every_document:
  assumes "bucket_holds user key ds rows" "rv_after V user = id"
    "ds = [] \<longrightarrow> bucket_holds user key others (rv_between V user rows) \<and> fresh user \<notin> fst ` set (rv_between V user rows)"
  shows "\<exists>out. deliver_ready cfg V fresh now key filename kb doc user rows = Inr ([], out)
    \<and> bucket_holds user key ((if ds = [] then others else ds) @ [doc]) out"
proof (cases "ds = []")
  case False
  then obtain x where x: "get_by_dedupe user key rows = Some x" using assms(1) by (auto simp: bucket_holds_def get_by_dedupe_def find_filter)
  from fold_in_holds [OF assms(1) False x, of now filename doc]
  obtain out where "fold_in now filename doc x rows = Inr out" "bucket_holds user key (ds @ [doc]) out" by blast
  then show ?thesis using False x by (simp add: deliver_ready_def)
next
  case True
  let ?mid = "rv_between V user rows" and ?d = "ready_draft cfg key filename kb doc"
  have none: "get_by_dedupe user key rows = None" using assms(1) True by (simp add: bucket_holds_def get_by_dedupe_def find_filter)
  have mid: "bucket_holds user key others ?mid" "fresh user \<notin> fst ` set ?mid" using assms(3) True by auto
  have d: "nd_dedupe ?d = Some key" by (simp add: ready_draft_def)
  show ?thesis
  proof (cases "others = []")
    case no: True
    then have empty: "filter (has_key user key) ?mid = []" using mid(1) by (simp add: bucket_holds_def)
    then have "create_if_absent (fresh user) now user ?d ?mid = Inr (Some (fresh user), ?mid @ [(fresh user, row_of now user ?d)])"
      using mid(2) d by (auto simp: create_if_absent_def create_notice_def list_ex_iff filter_empty_conv)
    moreover have "bucket_holds user key [doc] (?mid @ [(fresh user, row_of now user ?d)])"
      using empty by (simp add: bucket_holds_def has_key_def row_of_def ready_draft_def kept_ids_def jget_steps)
    ultimately show ?thesis using none True no by (simp add: deliver_ready_def ready_never_mails)
  next
    case some: False
    then obtain i r where "filter (has_key user key) ?mid = [(i, r)]" using mid(1) by (auto simp: bucket_holds_def)
    then have "(i, r) \<in> set (filter (has_key user key) ?mid)" by simp
    then have "list_ex (has_key user key) ?mid" by (auto simp: list_ex_iff)
    then have c: "create_if_absent (fresh user) now user ?d ?mid = Inr (None, ?mid)"
      using mid(2) d by (simp add: create_if_absent_def create_notice_def)
    obtain x where x: "get_by_dedupe user key ?mid = Some x" using mid(1) some by (auto simp: bucket_holds_def get_by_dedupe_def find_filter)
    from fold_in_holds [OF mid(1) some x, of now filename doc]
    obtain out where "fold_in now filename doc x ?mid = Inr out" "bucket_holds user key (others @ [doc]) out" by blast
    then show ?thesis using none c True x assms(2) by (simp add: deliver_ready_def Let_def)
  qed
qed

text \<open>The comment of the code keeps the first ten identifiers; the eleventh document replaces the tenth.\<close>

lemma eleventh_replaces_tenth:
  "length ds = 10 \<Longrightarrow> kept_ids (ds @ [doc]) = take 9 ds @ [doc]"
  by (simp add: kept_ids_def)

subsection \<open>The inbox of a user\<close>

lemma inbox_rows_strict:
  assumes "distinct (List.map fst rows)"
  shows "sorted_wrt (<) (List.map inbox_key (inbox_rows user unread rows))"
  unfolding inbox_rows_def
proof (rule strict_sort_key)
  have "distinct (List.map fst (filter (\<lambda>(i, r). nt_user r = user \<and> (unread \<longrightarrow> nt_read r = None)) rows))"
    using assms by (auto intro: distinct_map_filter)
  then show "distinct (List.map inbox_key (filter (\<lambda>(i, r). nt_user r = user \<and> (unread \<longrightarrow> nt_read r = None)) rows))"
    by (auto simp: distinct_map inj_on_def inbox_key_def)
qed

interpretation inbox_pages: keyset_paging "\<lambda>(user, unread, rows). distinct (List.map fst rows)"
  "\<lambda>(user, unread, rows). inbox_rows user unread rows" inbox_key "\<lambda>(i, r). (nt_updated r, i)"
  "\<lambda>(user, unread, rows) limit cursor. Inr (inbox_page user unread limit cursor rows)"
proof unfold_locales
  show "(case (q :: uuid128 \<times> bool \<times> notice_table) of (user, unread, rows) \<Rightarrow> distinct (List.map fst rows)) \<Longrightarrow>
      sorted_wrt (<) (List.map inbox_key (case q of (user, unread, rows) \<Rightarrow> inbox_rows user unread rows))" for q
    using inbox_rows_strict by (cases q) simp
qed (auto simp: inbox_page_def inbox_key_def split_beta intro!: arg_cong [of _ _ "\<lambda>p. split_page _ _ (slice_to _ (filter p _))"])

definition shown_page :: "notice_page \<Rightarrow> (uuid128 \<times> notice_row) page" where
  "shown_page p = \<lparr>pg_items = np_items p, pg_next = np_next p\<rparr>"

text \<open>A user who follows the cursors of the inbox, with any page size, sees exactly the own notifications (or the unread ones),
  each once, the latest changed first, and the number of unread ones that every page shows is the length of the unread inbox.\<close>

theorem inboxes_are_complete:
  assumes "cursors_lawful E" "distinct (List.map fst rows)" "\<forall>x \<in> set rows. fst x < 2 ^ 128" "1 \<le> limit" "length rows < n"
  shows "read_all n (\<lambda>cursor. page_of (map_sum id shown_page (inbox E user limit cursor unread rows))) None = Some (inbox_rows user unread rows)
    \<and> (\<forall>cursor p. inbox E user limit cursor unread rows = Inr p \<longrightarrow> np_unread p = length (inbox_rows user True rows))"
proof -
  have bound: "\<forall>x \<in> set (inbox_rows user unread rows). fst x < 2 ^ 128" using assms(3) by (auto simp: inbox_rows_def)
  have small: "snd k' < 2 ^ 128" if "snd (inbox_page user unread limit k rows) = Some k'" for k k'
    using that bound unfolding inbox_page_def Let_def
    by (fastforce dest!: split_page_cursor [OF _ assms(4)] set_mp [OF slice_to_subset] split: option.splits)
  have "read_all n (\<lambda>cursor. page_of (map_sum id shown_page (inbox E user limit cursor unread rows))) None =
      map_option (List.map id) (read_all n (\<lambda>cursor. Inr (inbox_page user unread limit cursor rows) :: unit + _) None)"
    by (rule read_all_first [OF _ small assms(1)])
      (auto simp: inbox_def page_cursor_def page_of_def shown_page_def split_beta split: sum.splits)
  moreover have "length (inbox_rows user unread rows) < n"
    using assms(5) by (auto simp: inbox_rows_def intro: le_less_trans [OF length_filter_le])
  then have "read_all n (\<lambda>cursor. Inr (inbox_page user unread limit cursor rows) :: unit + _) None = Some (inbox_rows user unread rows)"
    by (rule inbox_pages.reads_everything [of "(user, unread, rows)" limit n, simplified, rotated -1]) (use assms in auto)
  moreover have "np_unread p = length (inbox_rows user True rows)" if "inbox E user limit cursor unread rows = Inr p" for cursor p
    using that by (auto simp: inbox_def inbox_rows_def unread_count_def split: sum.splits prod.splits)
  ultimately show ?thesis by simp
qed

text \<open>Only the recipient can mark a notification as read, nobody else learns whether it exists, only that row changes, and
  the time of the first reading stays.\<close>

theorem reading_is_private_and_final:
  assumes "distinct (List.map fst (ns_rows s))"
  shows "case mark_read now user i s of
      (Inl e, s') \<Rightarrow> e = not_found \<and> s' = s \<and> (\<forall>r. (i, r) \<in> set (ns_rows s) \<longrightarrow> nt_user r \<noteq> user)
    | (Inr (j, r), s') \<Rightarrow> j = i \<and> nt_user r = user \<and> nt_read r \<noteq> None
        \<and> ns_rows s' = List.map (\<lambda>(k, q). (k, if k = i then r else q)) (ns_rows s)
        \<and> mark_read later user i s' = (Inr (i, r), s')"
proof (cases "\<exists>r. (i, r) \<in> set (ns_rows s) \<and> nt_user r = user")
  case False
  then have "mark_read_row now user i (ns_rows s) = (False, ns_rows s)" by (auto simp: mark_read_row_def list_ex_iff)
  then show ?thesis using False by (auto simp: mark_read_def)
next
  case True
  then obtain r0 where r0: "(i, r0) \<in> set (ns_rows s)" "nt_user r0 = user" by blast
  define r where "r = (if nt_read r0 = None then r0\<lparr>nt_read := Some now\<rparr> else r0)"
  have only: "q = r0" if "(i, q) \<in> set (ns_rows s)" for q using that r0(1) assms by (metis eq_key_imp_eq_value)
  let ?rows = "List.map (\<lambda>(k, q). (k, if k = i then r else q)) (ns_rows s)"
  have "(if k = i \<and> nt_user q = user \<and> nt_read q = None then q\<lparr>nt_read := Some now\<rparr> else q) = (if k = i then r else q)"
    if "(k, q) \<in> set (ns_rows s)" for k q
    using only [of q] that r0(2) by (cases "k = i") (simp_all add: r_def)
  then have "List.map (\<lambda>(k, q). (k, if k = i \<and> nt_user q = user \<and> nt_read q = None then q\<lparr>nt_read := Some now\<rparr> else q)) (ns_rows s) = ?rows"
    by (intro map_cong) auto
  moreover have "list_ex (\<lambda>(j, q). j = i \<and> nt_user q = user) (ns_rows s)" using r0 unfolding list_ex_iff by (intro bexI [of _ "(i, r0)"]) simp_all
  ultimately have step: "mark_read_row now user i (ns_rows s) = (True, ?rows)" by (simp add: mark_read_row_def)
  have ids: "List.map fst ?rows = List.map fst (ns_rows s)" by (simp add: split_beta comp_def)
  have "(i, r) \<in> set ?rows" using r0(1) by force
  note row = this
  have "distinct (List.map fst ?rows)" unfolding ids by (fact assms)
  then have found: "map_of ?rows i = Some r" using row by (rule map_of_is_SomeI)
  have m: "mark_read now user i s = (Inr (i, r), s\<lparr>ns_rows := ?rows\<rparr>)" by (simp add: mark_read_def step found)
  have read: "nt_user r = user" "nt_read r \<noteq> None" using r0(2) by (auto simp: r_def)
  have "mark_read_row later user i ?rows = (True, ?rows)"
  proof -
    have "list_ex (\<lambda>(j, q). j = i \<and> nt_user q = user) ?rows" using row read(1) unfolding list_ex_iff by (intro bexI [of _ "(i, r)"]) simp_all
    moreover have "List.map (\<lambda>(j, q). (j, if j = i \<and> nt_user q = user \<and> nt_read q = None then q\<lparr>nt_read := Some later\<rparr> else q)) ?rows = ?rows"
      by (rule map_idI) (use read(2) in \<open>auto split: if_splits\<close>)
    ultimately show ?thesis by (simp add: mark_read_row_def)
  qed
  then have "mark_read later user i (s\<lparr>ns_rows := ?rows\<rparr>) = (Inr (i, r), s\<lparr>ns_rows := ?rows\<rparr>)" by (simp add: mark_read_def found)
  then show ?thesis using m read by simp
qed

subsection \<open>Concrete notifications\<close>

definition no_rivals :: rivals where
  "no_rivals = \<lparr>rv_between = (\<lambda>_. id), rv_after = (\<lambda>_. id)\<rparr>"

definition sample_members :: "member list" where
  "sample_members =
     [\<lparr>md_id = 1, md_status = ''active'', md_roles = [lit ''owner''], md_email = lit ''a''\<rparr>,
      \<lparr>md_id = 2, md_status = ''active'', md_roles = [lit ''member''], md_email = lit ''b''\<rparr>]"

definition sample_notice_settings :: notice_settings where
  "sample_notice_settings = \<lparr>nc_email = True, nc_thresholds = lit ''80;100'', nc_window_minutes = 10\<rparr>"

definition no_notices :: notice_state where
  "no_notices = \<lparr>ns_rows = [], ns_queue = []\<rparr>"

definition sample_notices :: notice_table where
  "sample_notices =
     [(7, row_of 5 1 (ready_draft sample_notice_settings [] [120] 3 4)), (8, row_of 6 2 (ready_draft sample_notice_settings [] [121] 3 4))]"

lemma no_rivals_quiet: "quiet no_rivals"
  by (simp add: quiet_def no_rivals_def)

lemma no_notices_ok: "notices_ok no_notices"
  by (simp add: notices_ok_def no_notices_def inbox_ok_def notice_keys_def map_filter_def)

lemma sample_managers: "active_with_roles quota_roles sample_members = [hd sample_members]" "md_id (hd sample_members) = 1"
  by (simp_all add: active_with_roles_def quota_roles_def sample_members_def)

lemma sample_thresholds: "quota_thresholds (lit ''80;100'') = [80, 100]"
  by (simp add: quota_thresholds_def threshold_value_def lit_def parse_int_def strip_def lstrip_def rstrip_def is_space_def)

theorem notifications_stay_consistent_witness:
  "notices_ok (fold (notice_step sample_notice_settings sample_members)
     [EvQuota (\<lambda>_. no_rivals) (\<lambda>t user. nat t * 10 + user) (\<lambda>_. True) 5 (lit ''documents'') 90 100 (lit ''d''), EvRead 6 1 801] no_notices)"
  by (rule notifications_stay_consistent [OF no_notices_ok]) (simp add: no_rivals_quiet quiet_ok)


theorem ready_counts_every_document_witness:
  "\<exists>out. deliver_ready sample_notice_settings no_rivals (\<lambda>_. 9) 5 [107] [120] 3 4 1 [] = Inr ([], out) \<and> bucket_holds 1 [107] [4] out"
  using ready_counts_every_document [of 1 "[107]" "[]" "[]" no_rivals "[]" "\<lambda>_. 9" sample_notice_settings 5 "[120]" 3 4]
  by (simp add: bucket_holds_def no_rivals_def)

theorem inboxes_are_complete_witness:
  "read_all 3 (\<lambda>cursor. page_of (map_sum id shown_page (inbox page_env 1 1 cursor False sample_notices))) None
     = Some (inbox_rows 1 False sample_notices)"
  using inboxes_are_complete [OF page_env_lawful, of sample_notices 1 3 1 False] by (simp add: sample_notices_def)

theorem reading_is_private_and_final_witness:
  "mark_read 9 1 8 \<lparr>ns_rows = sample_notices, ns_queue = []\<rparr> = (Inl not_found, \<lparr>ns_rows = sample_notices, ns_queue = []\<rparr>)"
proof -
  have d: "distinct (List.map fst (ns_rows \<lparr>ns_rows = sample_notices, ns_queue = []\<rparr>))" by (simp add: sample_notices_def)
  have "\<not> list_ex (\<lambda>(j, r). j = 8 \<and> nt_user r = 1) sample_notices" by (simp add: sample_notices_def row_of_def)
  then have "\<exists>e s'. mark_read 9 1 8 \<lparr>ns_rows = sample_notices, ns_queue = []\<rparr> = (Inl e, s')" by (simp add: mark_read_def mark_read_row_def)
  with reading_is_private_and_final [OF d, where now = 9 and user = 1 and i = 8] show ?thesis by auto
qed

end
