(* ===== verification/TenantSettings.thy ===== *)
theory TenantSettings
  imports Notifications
begin

text \<open>
  The settings of a tenant, \<open>backend/services/platform/settings.py\<close>, and its credentials, \<open>credentials.py\<close> with the repositories of
  \<open>backend/repositories/platform.py\<close> and the envelope of \<open>backend/core/crypto.py\<close>. The cipher (AES-GCM) is a parameter whose
  law is that it opens what it sealed; the master key, the random keys and nonces, the clock and what another request did to the
  data key in between are arguments. Base 64 is the one of theory Cursors with the standard alphabet. Lemmas: a rejected
  patch changes nothing, the secrets of a patch reach only the sealed column, and a stored secret comes back.
\<close>

subsection \<open>Sealing\<close>

record cipher =
  ci_encrypt :: "byte list \<Rightarrow> byte list \<Rightarrow> byte list \<Rightarrow> byte list"
  ci_decrypt :: "byte list \<Rightarrow> byte list \<Rightarrow> byte list \<Rightarrow> byte list option"

definition key_bytes :: nat where "key_bytes = 32"
definition nonce_bytes :: nat where "nonce_bytes = 12"

definition seal :: "cipher \<Rightarrow> byte list \<Rightarrow> byte list \<Rightarrow> ustring \<Rightarrow> string + byte list" where
  "seal C nonce key plaintext =
     (if length key \<noteq> key_bytes then Inl ''MissingKekError''
      else if \<not> list_all scalar_value plaintext then Inl ''UnicodeEncodeError''
      else Inr (nonce @ ci_encrypt C key nonce (encode_utf8 plaintext)))"

definition open_sealed :: "cipher \<Rightarrow> byte list \<Rightarrow> byte list \<Rightarrow> string + ustring" where
  "open_sealed C key blob =
     (if length key \<noteq> key_bytes then Inl ''MissingKekError''
      else case ci_decrypt C key (take nonce_bytes blob) (drop nonce_bytes blob) of
             None \<Rightarrow> Inl ''InvalidTag''
           | Some bs \<Rightarrow> (case decode_utf8 bs of None \<Rightarrow> Inl ''UnicodeDecodeError'' | Some t \<Rightarrow> Inr t))"

definition b64encode :: "byte list \<Rightarrow> ustring" where
  "b64encode bs = List.map (\<lambda>c. if c = 45 then 43 else if c = 95 then 47 else c) (urlsafe_b64encode bs)"

definition b64decode :: "ustring \<Rightarrow> byte list option" where
  "b64decode s = urlsafe_b64decode (filter (\<lambda>c. c \<noteq> 45 \<and> c \<noteq> 95) s)"

subsection \<open>The state\<close>

record credential_row =
  cd_ciphertext :: "byte list"
  cd_hint :: ustring
  cd_updated :: int

record credential_view =
  ce_name :: ustring
  ce_hint :: ustring
  ce_updated :: int

text \<open>The row of the tenant with its settings, the wrapped data key, the credentials by name, and what the request has told
  the audit (before and after).\<close>

record settings_state =
  sx_tenant :: "(uuid128 \<times> obj option) option"
  sx_key :: "byte list option"
  sx_creds :: "(ustring \<times> credential_row) list"
  sx_audit :: "(obj \<times> obj) option"

text \<open>What a request meets: the master key, the randomness and the clock, for each credential whether another request stored a
  data key first, and whether the transaction of the settings fails.\<close>

record settings_env =
  sv_cipher :: cipher
  sv_kek :: "string + byte list"
  sv_new_key :: "ustring \<Rightarrow> byte list"
  sv_key_nonce :: "ustring \<Rightarrow> byte list"
  sv_nonce :: "ustring \<Rightarrow> byte list"
  sv_rival :: "ustring \<Rightarrow> byte list option"
  sv_now :: int
  sv_fault :: "string option"

subsection \<open>Credentials\<close>

definition credential_names :: "ustring list" where
  "credential_names = [lit ''openai_api_key'', lit ''gemini_api_key'', lit ''jina_api_key'']"

definition hint_chars :: nat where "hint_chars = 4"

definition wrap_key :: "settings_env \<Rightarrow> byte list \<Rightarrow> byte list \<Rightarrow> string + byte list" where
  "wrap_key V nonce dek = (case sv_kek V of Inl cls \<Rightarrow> Inl cls | Inr kek \<Rightarrow> seal (sv_cipher V) nonce kek (b64encode dek))"

definition unwrap_key :: "settings_env \<Rightarrow> byte list \<Rightarrow> string + byte list" where
  "unwrap_key V wrapped =
     (case sv_kek V of
        Inl cls \<Rightarrow> Inl cls
      | Inr kek \<Rightarrow>
          (case open_sealed (sv_cipher V) kek wrapped of
             Inl cls \<Rightarrow> Inl cls
           | Inr t \<Rightarrow> (case b64decode t of None \<Rightarrow> Inl ''Error'' | Some dek \<Rightarrow> Inr dek)))"

text \<open>The data key, created by the first use. The row that is stored wins, whoever wrote it.\<close>

definition data_key :: "settings_env \<Rightarrow> ustring \<Rightarrow> settings_state \<Rightarrow> string + byte list \<times> settings_state" where
  "data_key V name s =
     (case sx_key s of
        Some wrapped \<Rightarrow> map_sum id (\<lambda>dek. (dek, s)) (unwrap_key V wrapped)
      | None \<Rightarrow>
          (case wrap_key V (sv_key_nonce V name) (sv_new_key V name) of
             Inl cls \<Rightarrow> Inl cls
           | Inr wrapped \<Rightarrow>
               (let created = (case sv_rival V name of None \<Rightarrow> wrapped | Some theirs \<Rightarrow> theirs)
                in map_sum id (\<lambda>dek. (dek, s\<lparr>sx_key := Some created\<rparr>)) (unwrap_key V created))))"

definition hint_of :: "ustring \<Rightarrow> ustring" where
  "hint_of secret = drop (length secret - hint_chars) secret"

definition credential_view_of :: "ustring \<times> credential_row \<Rightarrow> credential_view" where
  "credential_view_of x = (case x of (name, r) \<Rightarrow> \<lparr>ce_name = name, ce_hint = cd_hint r, ce_updated = cd_updated r\<rparr>)"

definition put_credential :: "settings_env \<Rightarrow> ustring \<Rightarrow> ustring \<Rightarrow> settings_state \<Rightarrow> string + settings_state" where
  "put_credential V name secret s =
     (case data_key V name s of
        Inl cls \<Rightarrow> Inl cls
      | Inr (dek, s1) \<Rightarrow>
          (case seal (sv_cipher V) (sv_nonce V name) dek secret of
             Inl cls \<Rightarrow> Inl cls
           | Inr blob \<Rightarrow>
               Inr (s1\<lparr>sx_creds := AList.update name \<lparr>cd_ciphertext = blob, cd_hint = hint_of secret, cd_updated = sv_now V\<rparr> (sx_creds s1)\<rparr>)))"

definition get_secret :: "settings_env \<Rightarrow> ustring \<Rightarrow> settings_state \<Rightarrow> string + ustring" where
  "get_secret V name s =
     (case map_of (sx_creds s) name of
        None \<Rightarrow> Inl ''NotFoundError''
      | Some r \<Rightarrow>
          (case data_key V name s of
             Inl cls \<Rightarrow> Inl cls
           | Inr (dek, s1) \<Rightarrow> open_sealed (sv_cipher V) dek (cd_ciphertext r)))"

definition describe_credentials :: "settings_state \<Rightarrow> credential_view list" where
  "describe_credentials s = List.map credential_view_of (sort_key fst (sx_creds s))"

definition delete_credential :: "ustring \<Rightarrow> settings_state \<Rightarrow> string + settings_state" where
  "delete_credential name s =
     (if map_of (sx_creds s) name = None then Inl ''NotFoundError''
      else Inr (s\<lparr>sx_creds := filter (\<lambda>x. fst x \<noteq> name) (sx_creds s)\<rparr>))"

text \<open>A credential that is not there any more is what the patch asks for.\<close>

definition revoke_credential :: "ustring \<Rightarrow> settings_state \<Rightarrow> settings_state" where
  "revoke_credential name s = (case delete_credential name s of Inl cls \<Rightarrow> s | Inr s1 \<Rightarrow> s1)"

subsection \<open>Validation\<close>

datatype settings_reason =
    Declared reject_reason | NoSuchQuota | QuotaNotInteger | QuotaNegative | NoSuchCredential | SecretMissing

type_synonym settings_errors = "(ustring list \<times> settings_reason) list"

definition settings_field :: ustring where "settings_field = lit ''settings''"
definition quota_section :: ustring where "quota_section = lit ''quota''"
definition credentials_section :: ustring where "credentials_section = lit ''credentials''"

definition quota_item_errors :: "ustring \<times> json \<Rightarrow> settings_errors" where
  "quota_item_errors item =
     (case item of (key, v) \<Rightarrow>
        let place = [settings_field, quota_section, key]
        in if key \<notin> set resources then [(place, NoSuchQuota)]
           else (case v of
                   JNull \<Rightarrow> []
                 | JInt i \<Rightarrow> if i < 0 then [(place, QuotaNegative)] else []
                 | _ \<Rightarrow> [(place, QuotaNotInteger)]))"

definition validate_quota :: "json \<Rightarrow> settings_errors" where
  "validate_quota raw =
     (case raw of
        JObj items \<Rightarrow> concat (List.map quota_item_errors items)
      | _ \<Rightarrow> [([settings_field, quota_section], Declared NotAnObject)])"

definition credential_item_errors :: "ustring \<times> json \<Rightarrow> settings_errors" where
  "credential_item_errors item =
     (case item of (key, v) \<Rightarrow>
        let place = [settings_field, credentials_section, key]
        in if key \<notin> set credential_names then [(place, NoSuchCredential)]
           else (case v of
                   JNull \<Rightarrow> []
                 | JStr t \<Rightarrow> if strip t = [] then [(place, SecretMissing)] else []
                 | _ \<Rightarrow> [(place, SecretMissing)]))"

definition validate_credentials :: "json \<Rightarrow> settings_errors" where
  "validate_credentials raw =
     (case raw of
        JObj items \<Rightarrow> concat (List.map credential_item_errors items)
      | _ \<Rightarrow> [([settings_field, credentials_section], Declared NotAnObject)])"

definition items_or_empty :: "json option \<Rightarrow> obj" where
  "items_or_empty v = (case v of Some (JObj kvs) \<Rightarrow> kvs | _ \<Rightarrow> [])"

definition validate_settings :: "app_settings \<Rightarrow> json \<Rightarrow> settings_errors + obj \<times> obj" where
  "validate_settings settings patch =
     (case patch of
        JNull \<Rightarrow> Inr ([], [])
      | JObj items \<Rightarrow>
          (let quota = map_of items quota_section;
               credentials = map_of items credentials_section;
               rest = filter (\<lambda>(name, v). name \<noteq> quota_section \<and> name \<noteq> credentials_section) items;
               params = validate_param_sections settings settings_field (JObj rest);
               errors = (case params of Inl es \<Rightarrow> List.map (\<lambda>(f, r). (f, Declared r)) es | Inr c \<Rightarrow> [])
                 @ (case quota of None \<Rightarrow> [] | Some q \<Rightarrow> validate_quota q)
                 @ (case credentials of None \<Rightarrow> [] | Some c \<Rightarrow> validate_credentials c);
               cleaned = (case params of Inl es \<Rightarrow> [] | Inr c \<Rightarrow> c)
                 @ (case quota of None \<Rightarrow> [] | Some q \<Rightarrow> [(quota_section, JObj (items_or_empty (Some q)))])
           in if errors \<noteq> [] then Inl errors else Inr (cleaned, items_or_empty credentials))
      | _ \<Rightarrow> Inl [([settings_field], Declared NotAnObject)])"

subsection \<open>The service\<close>

record settings_view =
  sw_settings :: obj
  sw_credentials :: "credential_view list"

datatype settings_failure = InvalidSettings settings_errors | RaisedClass string

definition require_tenant :: "uuid128 \<Rightarrow> settings_state \<Rightarrow> settings_failure + obj" where
  "require_tenant t s =
     (case sx_tenant s of
        None \<Rightarrow> Inl (RaisedClass ''NotFoundError'')
      | Some (i, cfg) \<Rightarrow> if i \<noteq> t then Inl (RaisedClass ''NotFoundError'') else Inr (or_else cfg []))"

definition get_settings :: "uuid128 \<Rightarrow> settings_state \<Rightarrow> settings_failure + settings_view" where
  "get_settings t s =
     map_sum id (\<lambda>cfg. \<lparr>sw_settings = cfg, sw_credentials = describe_credentials s\<rparr>) (require_tenant t s)"

definition param_config :: "uuid128 \<Rightarrow> settings_state \<Rightarrow> settings_failure + obj" where
  "param_config t s =
     map_sum id (\<lambda>v. filter (\<lambda>(name, x). name \<in> fst ` set param_sections) (sw_settings v)) (get_settings t s)"

text \<open>Each credential is a transaction of its own.\<close>

fun store_credentials :: "settings_env \<Rightarrow> obj \<Rightarrow> settings_state \<Rightarrow> string option \<times> settings_state" where
  "store_credentials V [] s = (None, s)"
| "store_credentials V ((name, v) # cs) s =
     (case v of
        JNull \<Rightarrow> store_credentials V cs (revoke_credential name s)
      | JStr secret \<Rightarrow>
          (case put_credential V name (strip secret) s of
             Inl cls \<Rightarrow> (Some cls, s)
           | Inr s1 \<Rightarrow> store_credentials V cs s1)
      | _ \<Rightarrow> (Some ''AttributeError'', s))"

definition credential_audit :: "obj \<Rightarrow> obj" where
  "credential_audit credentials =
     (if credentials = [] then []
      else [(credentials_section,
             JObj (List.map (\<lambda>(name, v). (name, JStr (if v = JNull then lit ''revoked'' else lit ''updated''))) credentials))])"

definition update_settings_of :: "uuid128 \<Rightarrow> obj \<Rightarrow> settings_state \<Rightarrow> settings_state" where
  "update_settings_of t merged s = s\<lparr>sx_tenant := map_option (\<lambda>(i, cfg). (i, if i = t then Some merged else cfg)) (sx_tenant s)\<rparr>"

definition update_settings ::
  "app_settings \<Rightarrow> settings_env \<Rightarrow> uuid128 \<Rightarrow> json \<Rightarrow> settings_state \<Rightarrow> (settings_failure + settings_view) \<times> settings_state" where
  "update_settings settings V t patch s =
     (case validate_settings settings patch of
        Inl errors \<Rightarrow> (Inl (InvalidSettings errors), s)
      | Inr (validated, credentials) \<Rightarrow>
          (case store_credentials V credentials s of
             (Some cls, s1) \<Rightarrow> (Inl (RaisedClass cls), s1)
           | (None, s1) \<Rightarrow>
               (case require_tenant t s1 of
                  Inl e \<Rightarrow> (Inl e, s1)
                | Inr before \<Rightarrow>
                    (let merged = dict_update before validated;
                         s2 = s1\<lparr>sx_audit := Some (before, dict_update merged (credential_audit credentials))\<rparr>
                     in case sv_fault V of
                          Some cls \<Rightarrow> (Inl (RaisedClass cls), s2)
                        | None \<Rightarrow>
                            (let s3 = update_settings_of t merged s2
                             in (Inr \<lparr>sw_settings = merged, sw_credentials = describe_credentials s3\<rparr>, s3))))))"

subsection \<open>What the service keeps from whom\<close>

lemma revoke_keeps:
  "sx_tenant (revoke_credential name s) = sx_tenant s" "sx_audit (revoke_credential name s) = sx_audit s"
  "sx_key (revoke_credential name s) = sx_key s"
  "List.map fst (sx_creds (revoke_credential name s)) = filter (\<lambda>n. n \<noteq> name) (List.map fst (sx_creds s))"
proof -
  have "name \<notin> set (List.map fst (sx_creds s))" if "map_of (sx_creds s) name = None" using that by (simp add: map_of_eq_None_iff)
  then have none: "filter (\<lambda>n. n \<noteq> name) (List.map fst (sx_creds s)) = List.map fst (sx_creds s)" if "map_of (sx_creds s) name = None"
    using that by (intro filter_True) auto
  show "List.map fst (sx_creds (revoke_credential name s)) = filter (\<lambda>n. n \<noteq> name) (List.map fst (sx_creds s))"
    using none by (simp add: revoke_credential_def delete_credential_def filter_map comp_def)
qed (simp_all add: revoke_credential_def delete_credential_def)

lemma data_key_keeps:
  assumes "data_key V name s = Inr (dek, s1)"
  shows "sx_tenant s1 = sx_tenant s" "sx_audit s1 = sx_audit s" "sx_creds s1 = sx_creds s" "sx_key s \<noteq> None \<Longrightarrow> s1 = s"
    "\<exists>wrapped. sx_key s1 = Some wrapped \<and> unwrap_key V wrapped = Inr dek"
  using assms by (auto simp: data_key_def map_sum_Inr Let_def split: option.splits sum.splits)

lemma put_keeps:
  assumes "put_credential V name secret s = Inr s1"
  shows "sx_tenant s1 = sx_tenant s" "sx_audit s1 = sx_audit s" "sx_key s \<noteq> None \<Longrightarrow> sx_key s1 = sx_key s"
    "List.map fst (sx_creds s1) = (if name \<in> fst ` set (sx_creds s) then List.map fst (sx_creds s) else List.map fst (sx_creds s) @ [name])"
proof -
  obtain dek m blob where k: "data_key V name s = Inr (dek, m)"
    and o: "s1 = m\<lparr>sx_creds := AList.update name \<lparr>cd_ciphertext = blob, cd_hint = hint_of secret, cd_updated = sv_now V\<rparr> (sx_creds m)\<rparr>"
    using assms by (auto simp: put_credential_def split: sum.splits)
  note keep = data_key_keeps [OF k]
  show "sx_tenant s1 = sx_tenant s" "sx_audit s1 = sx_audit s" by (simp_all add: o keep)
  show "sx_key s \<noteq> None \<Longrightarrow> sx_key s1 = sx_key s" using keep(4) by (simp add: o)
  show "List.map fst (sx_creds s1) = (if name \<in> fst ` set (sx_creds s) then List.map fst (sx_creds s) else List.map fst (sx_creds s) @ [name])"
    by (simp add: o keep update_keys)
qed

text \<open>What of a patch's credentials may be seen: which are set, which are revoked.\<close>

definition obscured :: "obj \<Rightarrow> (ustring \<times> bool) list" where
  "obscured cs = List.map (\<lambda>(name, v). (name, v = JNull)) cs"

definition secret_or_null :: "obj \<Rightarrow> bool" where
  "secret_or_null cs \<longleftrightarrow> (\<forall>x \<in> set cs. snd x = JNull \<or> (\<exists>t. snd x = JStr t))"

lemma store_credentials_same:
  assumes "obscured cs = obscured cs'" "secret_or_null cs" "secret_or_null cs'" "List.map fst (sx_creds s) = List.map fst (sx_creds s')"
    "store_credentials V cs s = (None, out)" "store_credentials V cs' s' = (None, out')"
  shows "sx_tenant out = sx_tenant s \<and> sx_audit out = sx_audit s \<and> sx_tenant out' = sx_tenant s' \<and> sx_audit out' = sx_audit s'
    \<and> List.map fst (sx_creds out) = List.map fst (sx_creds out')"
  using assms
proof (induction cs arbitrary: cs' s s')
  case Nil
  then show ?case by (simp add: obscured_def)
next
  case (Cons c cs)
  obtain name v where c: "c = (name, v)" by (cases c)
  from Cons.prems(1) c obtain v' ds where cs': "cs' = (name, v') # ds" "(v = JNull) = (v' = JNull)" "obscured cs = obscured ds"
    by (cases cs') (auto simp: obscured_def)
  have rest: "secret_or_null cs" "secret_or_null ds" using Cons.prems(2,3) cs' by (auto simp: secret_or_null_def)
  have ids: "fst ` set (sx_creds s) = fst ` set (sx_creds s')" using Cons.prems(4) by (metis list.set_map)
  show ?case
  proof (cases "v = JNull")
    case True
    let ?m = "revoke_credential name s" and ?m' = "revoke_credential name s'"
    have "List.map fst (sx_creds ?m) = List.map fst (sx_creds ?m')" by (simp only: revoke_keeps Cons.prems(4))
    from Cons.IH [OF cs'(3) rest this] Cons.prems(5,6) True c cs' show ?thesis by (simp add: revoke_keeps)
  next
    case False
    then obtain t t' where t: "v = JStr t" "v' = JStr t'" using Cons.prems(2,3) c cs' by (auto simp: secret_or_null_def)
    then obtain m m' where m: "put_credential V name (strip t) s = Inr m" "put_credential V name (strip t') s' = Inr m'"
      "store_credentials V cs m = (None, out)" "store_credentials V ds m' = (None, out')"
      using Cons.prems(5,6) c cs' by (auto split: sum.splits)
    have "List.map fst (sx_creds m) = List.map fst (sx_creds m')"
      unfolding put_keeps(4) [OF m(1)] put_keeps(4) [OF m(2)] using Cons.prems(4) ids by simp
    from Cons.IH [OF cs'(3) rest this m(3,4)] put_keeps [OF m(1)] put_keeps [OF m(2)] show ?thesis by simp
  qed
qed

lemma credential_audit_same: "obscured cs = obscured cs' \<Longrightarrow> credential_audit cs = credential_audit cs'"
proof -
  assume "obscured cs = obscured cs'"
  then have "List.map (\<lambda>(name, b). (name, JStr (if b then lit ''revoked'' else lit ''updated''))) (obscured cs)
      = List.map (\<lambda>(name, b). (name, JStr (if b then lit ''revoked'' else lit ''updated''))) (obscured cs')" by simp
  moreover have "cs = [] \<longleftrightarrow> cs' = []" using \<open>obscured cs = obscured cs'\<close> by (auto simp: obscured_def)
  ultimately show ?thesis by (simp add: credential_audit_def obscured_def comp_def case_prod_unfold)
qed

lemma valid_secrets:
  assumes "validate_settings settings patch = Inr (validated, credentials)"
  shows "secret_or_null credentials"
proof (cases patch)
  case (JObj items)
  have e: "(case map_of items credentials_section of None \<Rightarrow> [] | Some c \<Rightarrow> validate_credentials c) = []"
    and c: "credentials = items_or_empty (map_of items credentials_section)"
    using assms JObj by (auto simp: validate_settings_def Let_def split: if_splits)
  have "\<exists>t. v = JStr t" if "(name, v) \<in> set kvs" "map_of items credentials_section = Some (JObj kvs)" "v \<noteq> JNull" for name v kvs
  proof -
    have "credential_item_errors (name, v) = []" using e that by (auto simp: validate_credentials_def)
    then show ?thesis using that(3) by (auto simp: credential_item_errors_def Let_def split: if_splits json.splits)
  qed
  then show ?thesis unfolding c secret_or_null_def items_or_empty_def
    by (cases "map_of items credentials_section") (auto split: json.splits)
qed (use assms in \<open>auto simp: validate_settings_def secret_or_null_def\<close>)

lemma view_names: "List.map ce_name (describe_credentials s) = sort (List.map fst (sx_creds s))"
proof -
  have "List.map fst (sort_key fst xs) = sort (List.map fst xs)" for xs :: "(ustring \<times> credential_row) list"
    by (rule properties_for_sort [symmetric]) simp_all
  then show ?thesis by (simp add: describe_credentials_def credential_view_of_def comp_def split_beta)
qed


subsection \<open>What a patch changes\<close>

lemma dict_update_lookup: "map_of (dict_update kvs new) = map_of kvs ++ map_of (rev new)"
proof (induction new arbitrary: kvs)
  case (Cons x new)
  obtain k v where x: "x = (k, v)" by (cases x)
  have "map_of (dict_update kvs (x # new)) = map_of (AList.update k v kvs) ++ map_of (rev new)"
    using Cons.IH [of "AList.update k v kvs"] by (simp add: dict_update_def x)
  then show ?case by (simp add: x update_conv' fun_eq_iff map_add_def split: option.splits)
qed (simp add: dict_update_def)

lemma validate_items_out:
  "validate_items settings pre items es out = (es', out') \<Longrightarrow>
    \<exists>more'. out' = out @ more' \<and> (es' = [] \<longrightarrow> more' = items) \<and> (\<exists>extra. es' = es @ extra)"
proof (induction items arbitrary: es out)
  case (Cons x items)
  obtain name raw where x: "x = (name, raw)" by (cases x)
  from Cons.prems x obtain es1 out1 where step: "validate_items settings pre items es1 out1 = (es', out')"
    and "(\<exists>e extra. es1 = es @ e # extra) \<and> out1 = out \<or> (\<exists>extra. es1 = es @ extra) \<and> out1 = out @ [(name, raw)]"
    by (auto split: option.splits json.splits)
  with Cons.IH [OF step] x show ?case by fastforce
qed simp

lemma errors_not_empty: "validate_param_sections settings pre cfg \<noteq> Inl []"
  by (auto simp: validate_param_sections_def split: json.splits prod.splits)

lemma params_as_sent:
  "validate_param_sections settings pre (JObj items) = Inr out \<Longrightarrow> out = items"
  by (auto simp: validate_param_sections_def split: prod.splits if_splits dest!: validate_items_out)

definition sent_sections :: "json \<Rightarrow> obj" where
  "sent_sections patch = filter (\<lambda>(name, v). name \<noteq> credentials_section) (items_or_empty (Some patch))"

lemma map_of_filter_keys: "map_of (filter (\<lambda>(n, v). P n) xs) k = (if P k then map_of xs k else None)"
  by (induction xs) auto

lemma valid_sections:
  assumes "validate_settings settings patch = Inr (validated, cs)" "distinct (List.map fst (items_or_empty (Some patch)))"
  shows "map_of (rev validated) = map_of (sent_sections patch)"
proof (cases patch)
  case (JObj items)
  have ne: "quota_section \<noteq> credentials_section" by (simp add: quota_section_def credentials_section_def)
  let ?rest = "filter (\<lambda>(name, v). name \<noteq> quota_section \<and> name \<noteq> credentials_section) items"
  obtain c where c: "validate_param_sections settings settings_field (JObj ?rest) = Inr c"
    and q: "(case map_of items quota_section of None \<Rightarrow> [] | Some q \<Rightarrow> validate_quota q) = []"
    and v: "validated = c @ (case map_of items quota_section of None \<Rightarrow> [] | Some q \<Rightarrow> [(quota_section, JObj (items_or_empty (Some q)))])"
    using assms(1) JObj errors_not_empty [of settings settings_field "JObj ?rest"]
    by (auto simp: validate_settings_def Let_def split: sum.splits if_splits)
  have "c = ?rest" by (rule params_as_sent [OF c])
  have d: "distinct (List.map fst items)" using assms(2) JObj by (simp add: items_or_empty_def)
  have quota: "JObj (items_or_empty (Some x)) = x" if "map_of items quota_section = Some x" for x
    using q that by (cases x) (auto simp: validate_quota_def items_or_empty_def)
  have rest: "map_of (rev ?rest) = map_of ?rest" using d
    by (subst map_of_inject_set) (simp_all add: rev_map [symmetric] distinct_map_filter)
  show ?thesis
  proof
    fix name
    have sent: "map_of (sent_sections patch) name = (if name = credentials_section then None else map_of items name)"
      using JObj by (simp add: sent_sections_def items_or_empty_def map_of_filter_keys)
    show "map_of (rev validated) name = map_of (sent_sections patch) name"
      using quota rest unfolding sent v \<open>c = ?rest\<close>
      by (auto simp: map_of_filter_keys [of "\<lambda>name. name \<noteq> quota_section \<and> name \<noteq> credentials_section"] ne map_add_def split: option.splits)
  qed
qed (use assms(1) in \<open>auto simp: validate_settings_def sent_sections_def items_or_empty_def\<close>)

lemma store_keeps:
  "sx_tenant (snd (store_credentials V cs s)) = sx_tenant s \<and> sx_audit (snd (store_credentials V cs s)) = sx_audit s
    \<and> (sx_key s \<noteq> None \<longrightarrow> sx_key (snd (store_credentials V cs s)) = sx_key s)
    \<and> (name \<notin> fst ` set cs \<longrightarrow> map_of (sx_creds (snd (store_credentials V cs s))) name = map_of (sx_creds s) name)"
proof (induction cs arbitrary: s)
  case (Cons c cs)
  obtain n v where c: "c = (n, v)" by (cases c)
  have revoked: "map_of (sx_creds (revoke_credential n s)) name = map_of (sx_creds s) name" if "name \<noteq> n"
    using that by (auto simp: revoke_credential_def delete_credential_def map_of_filter_keys [of "\<lambda>m. m \<noteq> n", unfolded split_def])
  show ?case
  proof (cases "\<exists>t. v = JStr t")
    case True
    then obtain t where v: "v = JStr t" ..
    show ?thesis
    proof (cases "put_credential V n (strip t) s")
      case (Inl cls)
      then show ?thesis by (simp add: c v)
    next
      case (Inr s1)
      have other: "map_of (sx_creds s1) name = map_of (sx_creds s) name" if "n \<noteq> name"
        using Inr that data_key_keeps(3) by (auto simp: put_credential_def update_conv' split: sum.splits)
      show ?thesis using Cons.IH [of s1] Inr put_keeps [OF Inr] other by (auto simp: c v)
    qed
  next
    case False
    show ?thesis
    proof (cases "v = JNull")
      case True
      with Cons.IH [of "revoke_credential n s"] show ?thesis using revoked by (simp add: c revoke_keeps)
    next
      case other: False
      then have "store_credentials V ((n, v) # cs) s = (Some ''AttributeError'', s)" using False by (cases v) auto
      then show ?thesis by (simp add: c)
    qed
  qed
qed simp

lemma rejected_has_errors: "validate_settings settings patch = Inl errors \<Longrightarrow> errors \<noteq> []"
  by (auto simp: validate_settings_def Let_def split: json.splits if_splits)

text \<open>A patch that is rejected changes neither settings nor credentials; one that is accepted puts every section it sends in
  place exactly as it was sent, leaves every other section as it was, and never stores the section of the credentials; when
  anything fails on the way, the settings stay as they were.\<close>

theorem patches_apply_by_section:
  assumes "distinct (List.map fst (items_or_empty (Some patch)))" "sx_tenant s = Some (t, before)"
  shows "case update_settings settings V t patch s of
      (Inl (InvalidSettings errors), out) \<Rightarrow> out = s \<and> errors \<noteq> []
    | (Inl (RaisedClass cls), out) \<Rightarrow> sx_tenant out = sx_tenant s
    | (Inr w, out) \<Rightarrow> sx_tenant out = Some (t, Some (sw_settings w))
        \<and> map_of (sw_settings w) = map_of (or_else before []) ++ map_of (sent_sections patch)"
proof (cases "validate_settings settings patch")
  case (Inl errors)
  then show ?thesis using rejected_has_errors by (simp add: update_settings_def)
next
  case (Inr r)
  obtain validated cs where v: "validate_settings settings patch = Inr (validated, cs)" using Inr by (cases r) simp
  obtain e s1 where s1: "store_credentials V cs s = (e, s1)" by fastforce
  have tenant: "sx_tenant s1 = Some (t, before)" using store_keeps [of V cs s] s1 assms(2) by simp
  then have before: "require_tenant t s1 = Inr (or_else before [])" by (simp add: require_tenant_def)
  show ?thesis
  proof (cases e)
    case (Some cls)
    then show ?thesis using v s1 tenant assms(2) by (simp add: update_settings_def)
  next
    case None
    show ?thesis
    proof (cases "sv_fault V")
      case (Some cls)
      then show ?thesis using v s1 tenant before None assms(2) by (simp add: update_settings_def Let_def)
    next
      case fine: None
      then show ?thesis using v s1 tenant before None valid_sections [OF v assms(1)]
        by (simp add: update_settings_def Let_def update_settings_of_def dict_update_lookup)
    qed
  qed
qed

subsection \<open>Quotas\<close>

definition quota_value :: "json \<Rightarrow> int option" where
  "quota_value v = (case v of JInt i \<Rightarrow> Some i | _ \<Rightarrow> None)"

lemma valid_overrides:
  assumes "concat (List.map quota_item_errors qs) = []"
  shows "fold apply_override qs caps k = (case map_of (rev qs) k of None \<Rightarrow> caps k | Some v \<Rightarrow> quota_value v)"
  using assms
proof (induction qs arbitrary: caps)
  case (Cons q qs)
  obtain n v where q: "q = (n, v)" by (cases q)
  have "quota_item_errors (n, v) = []" using Cons.prems q by simp
  then have "apply_override (n, v) caps = caps(n := quota_value v)"
    by (auto simp: quota_item_errors_def apply_override_def quota_value_def Let_def split: json.splits if_splits)
  then show ?case using Cons by (auto simp: q map_add_def split: option.splits)
qed simp

lemma valid_quota:
  assumes "validate_settings settings patch = Inr r" "map_of (items_or_empty (Some patch)) quota_section = Some q"
  shows "\<exists>qs. q = JObj qs \<and> concat (List.map quota_item_errors qs) = []"
proof (cases patch)
  case (JObj items)
  have "validate_quota q = []" using assms JObj by (auto simp: validate_settings_def items_or_empty_def Let_def split: if_splits)
  then show ?thesis by (cases q) (auto simp: validate_quota_def)
qed (use assms in \<open>auto simp: items_or_empty_def\<close>)

text \<open>A quota that is accepted takes effect: the limits that every check of a quota reads afterwards are the numbers that were
  sent, null meaning no limit, whatever the plan says.\<close>

theorem accepted_quota_takes_effect:
  assumes "update_settings settings V t patch s = (Inr w, out)" "sx_tenant s = Some (t, before)"
    "distinct (List.map fst (items_or_empty (Some patch)))" "map_of (items_or_empty (Some patch)) quota_section = Some (JObj qs)"
    "distinct (List.map fst qs)" "(k, v) \<in> set qs" "tenant_settings env t = Some (sw_settings w)"
  shows "limits_of env t k = quota_value v"
proof -
  obtain validated cs where v: "validate_settings settings patch = Inr (validated, cs)"
    using assms(1) by (auto simp: update_settings_def split: sum.splits)
  have ok: "concat (List.map quota_item_errors qs) = []" using valid_quota [OF v assms(4)] by auto
  obtain s1 where s1: "store_credentials V cs s = (None, s1)" using assms(1) v by (auto simp: update_settings_def split: option.splits prod.splits)
  have tenant: "require_tenant t s1 = Inr (or_else before [])" using store_keeps [of V cs s] s1 assms(2) by (simp add: require_tenant_def)
  have w: "sw_settings w = dict_update (or_else before []) validated"
    using assms(1) v s1 tenant by (auto simp: update_settings_def Let_def split: option.splits)
  have "quota_section \<noteq> credentials_section" by (simp add: quota_section_def credentials_section_def)
  then have "map_of (sent_sections patch) quota_section = Some (JObj qs)"
    using assms(4) by (simp add: sent_sections_def map_of_filter_keys [of "\<lambda>n. n \<noteq> credentials_section"])
  then have "map_of (sw_settings w) quota_section = Some (JObj qs)"
    by (simp add: w dict_update_lookup valid_sections [OF v assms(3)])
  then have "jget (sw_settings w) ''quota'' = Some (JObj qs)" by (simp add: jget_def quota_section_def)
  moreover have "map_of (rev qs) k = Some v" using assms(5,6) by (simp add: rev_map [symmetric])
  ultimately show ?thesis using assms(7) valid_overrides [OF ok] by (simp add: limits_of_def resolve_limits_def)
qed

subsection \<open>A stored secret\<close>

definition cipher_ok :: "cipher \<Rightarrow> bool" where
  "cipher_ok C \<longleftrightarrow> (\<forall>key nonce plain. length key = key_bytes \<longrightarrow> length nonce = nonce_bytes \<longrightarrow>
     ci_decrypt C key nonce (ci_encrypt C key nonce plain) = Some plain)"

lemma open_seal:
  assumes "cipher_ok C" "length nonce = nonce_bytes" "seal C nonce key t = Inr blob"
  shows "open_sealed C key blob = Inr t"
  using assms by (auto simp: seal_def open_sealed_def cipher_ok_def decode_encoded split: if_splits)

lemma scan_same:
  assumes "\<And>c. b64_value (g c) = b64_value c" "\<And>c. g c = b64_pad \<longleftrightarrow> c = b64_pad"
  shows "b64_scan (List.map g xs) quad left pads out = b64_scan xs quad left pads out"
  by (induction xs arbitrary: quad left pads out) (simp_all add: b64_scan.simps assms split: option.splits)

lemma b64_standard: "b64decode (b64encode bs) = Some bs"
proof -
  let ?g = "\<lambda>c :: codepoint. if c = 45 then 43 else if c = 95 then 47 else c"
  have g: "b64_value (?g c) = b64_value c" "?g c = b64_pad \<longleftrightarrow> c = b64_pad" "(?g c < 128) = (c < 128)" for c
    by (auto simp: b64_value_def b64_pad_def)
  have "filter (\<lambda>c. c \<noteq> 45 \<and> c \<noteq> 95) (List.map ?g xs) = List.map ?g xs" for xs by (induction xs) auto
  moreover have "urlsafe_b64decode (List.map ?g xs) = urlsafe_b64decode xs" for xs
    by (simp only: urlsafe_b64decode_def scan_same [where g = ?g, OF g(1,2)] list_all_iff) (auto simp: g(3))
  ultimately have "b64decode (b64encode bs) = urlsafe_b64decode (urlsafe_b64encode bs)"
    by (simp only: b64decode_def b64encode_def)
  then show ?thesis using b64_round_trip [of bs] by (simp add: urlsafe_b64encode_def)
qed

lemma b64_scalar: "list_all scalar_value (b64encode bs)"
proof -
  have "list_all (\<lambda>v. v < 64) (sextets (List.map unat bs))" by (rule sextets_range [OF bytes_small])
  then have "\<forall>c \<in> set (urlsafe_b64encode bs). c < 128"
    by (auto simp: urlsafe_b64encode_def list_all_iff b64_char_ascii b64_pad_def)
  then show ?thesis by (auto simp: b64encode_def list_all_iff scalar_value_def)
qed

definition good_key :: "settings_env \<Rightarrow> byte list \<Rightarrow> bool" where
  "good_key V wrapped \<longleftrightarrow> (\<exists>dek. unwrap_key V wrapped = Inr dek \<and> length dek = key_bytes)"

text \<open>What a request needs: a cipher that keeps its law, keys and nonces of their lengths, and that the data key that is
  stored, or stored by another request in between, is a good one.\<close>

definition well_equipped :: "settings_env \<Rightarrow> ustring \<Rightarrow> settings_state \<Rightarrow> bool" where
  "well_equipped V name s \<longleftrightarrow> cipher_ok (sv_cipher V) \<and> (\<exists>kek. sv_kek V = Inr kek \<and> length kek = key_bytes)
     \<and> length (sv_new_key V name) = key_bytes \<and> length (sv_key_nonce V name) = nonce_bytes \<and> length (sv_nonce V name) = nonce_bytes
     \<and> (\<forall>wrapped. sx_key s = Some wrapped \<or> sv_rival V name = Some wrapped \<longrightarrow> good_key V wrapped)"

lemma new_key_good:
  assumes "cipher_ok (sv_cipher V)" "sv_kek V = Inr kek" "length kek = key_bytes" "length nonce = nonce_bytes" "length dek = key_bytes"
  shows "\<exists>wrapped. wrap_key V nonce dek = Inr wrapped \<and> good_key V wrapped"
proof -
  have "seal (sv_cipher V) nonce kek (b64encode dek) = Inr (nonce @ ci_encrypt (sv_cipher V) kek nonce (encode_utf8 (b64encode dek)))"
    using assms(3) b64_scalar by (simp add: seal_def)
  with open_seal [OF assms(1,4) this] show ?thesis using assms by (simp add: wrap_key_def good_key_def unwrap_key_def b64_standard)
qed

lemma data_key_good:
  assumes "well_equipped V name s"
  obtains dek s1 where "data_key V name s = Inr (dek, s1)" "length dek = key_bytes"
proof (cases "sx_key s")
  case (Some wrapped)
  then obtain dek where "unwrap_key V wrapped = Inr dek" "length dek = key_bytes" using assms by (auto simp: well_equipped_def good_key_def)
  then show ?thesis using that Some by (simp add: data_key_def)
next
  case None
  obtain kek where "cipher_ok (sv_cipher V)" "sv_kek V = Inr kek" "length kek = key_bytes" "length (sv_key_nonce V name) = nonce_bytes"
    "length (sv_new_key V name) = key_bytes" using assms by (auto simp: well_equipped_def)
  from new_key_good [OF this] obtain wrapped
    where w: "wrap_key V (sv_key_nonce V name) (sv_new_key V name) = Inr wrapped" "good_key V wrapped" by blast
  have "good_key V (case sv_rival V name of None \<Rightarrow> wrapped | Some theirs \<Rightarrow> theirs)"
    using w(2) assms by (auto simp: well_equipped_def split: option.splits)
  then show ?thesis using that None w(1) by (auto simp: data_key_def Let_def good_key_def)
qed

text \<open>C20. A stored credential comes back as it was entered: the first use of a tenant creates its data key, also when another
  request creates one at the same moment, and storing or revoking other credentials later, with a key of the tenant that
  exists by then, does not touch it.\<close>

theorem stored_secret_comes_back:
  assumes "well_equipped V name s" "list_all scalar_value secret" "name \<notin> fst ` set cs" "sv_kek W = sv_kek V" "sv_cipher W = sv_cipher V"
  shows "\<exists>s1. put_credential V name secret s = Inr s1 \<and> get_secret W name (snd (store_credentials W cs s1)) = Inr secret"
proof -
  obtain dek m where m: "data_key V name s = Inr (dek, m)" "length dek = key_bytes" using data_key_good [OF assms(1)] .
  obtain wrapped where k: "sx_key m = Some wrapped" "unwrap_key V wrapped = Inr dek" using data_key_keeps(5) [OF m(1)] by blast
  let ?blob = "sv_nonce V name @ ci_encrypt (sv_cipher V) dek (sv_nonce V name) (encode_utf8 secret)"
  let ?row = "\<lparr>cd_ciphertext = ?blob, cd_hint = hint_of secret, cd_updated = sv_now V\<rparr>"
  let ?s1 = "m\<lparr>sx_creds := AList.update name ?row (sx_creds m)\<rparr>"
  have sealed: "seal (sv_cipher V) (sv_nonce V name) dek secret = Inr ?blob" using m(2) assms(2) by (simp add: seal_def)
  have put: "put_credential V name secret s = Inr ?s1" by (simp add: put_credential_def m(1) sealed)
  let ?s2 = "snd (store_credentials W cs ?s1)"
  have kept: "sx_key ?s2 = Some wrapped" "map_of (sx_creds ?s2) name = Some ?row"
    using store_keeps [of W cs ?s1 name] assms(3) k(1) by (simp_all add: update_conv')
  have "unwrap_key W wrapped = Inr dek" using k(2) unfolding unwrap_key_def assms(4,5) .
  then have "data_key W name ?s2 = Inr (dek, ?s2)" using kept(1) by (simp add: data_key_def)
  moreover have "open_sealed (sv_cipher W) dek ?blob = Inr secret"
    using open_seal [OF _ _ sealed] assms(1,5) by (simp add: well_equipped_def)
  ultimately have "get_secret W name ?s2 = Inr secret" using kept(2) by (simp add: get_secret_def)
  with put show ?thesis by blast
qed

text \<open>Two gaps: the credentials of a patch stay changed when the transaction of the settings fails, and a secret of at most four
  characters is shown in full.\<close>

lemma credentials_outlive_a_failure:
  assumes "validate_settings settings patch = Inr (validated, cs)" "store_credentials V cs s = (None, s1)" "sx_tenant s = Some (t, before)"
    "sv_fault V = Some cls"
  shows "\<exists>out. update_settings settings V t patch s = (Inl (RaisedClass cls), out) \<and> sx_creds out = sx_creds s1 \<and> sx_tenant out = sx_tenant s"
  using assms store_keeps [of V cs s] by (simp add: update_settings_def require_tenant_def Let_def)

lemma short_secret_is_shown: "length secret \<le> 4 \<Longrightarrow> hint_of secret = secret"
  by (simp add: hint_of_def hint_chars_def)

subsection \<open>A concrete tenant\<close>

lemma put_succeeds:
  assumes "well_equipped V name s" "list_all scalar_value secret"
  shows "\<exists>s1. put_credential V name secret s = Inr s1"
proof -
  obtain dek m where "data_key V name s = Inr (dek, m)" "length dek = key_bytes" using data_key_good [OF assms(1)] .
  then show ?thesis using assms(2) by (simp add: put_credential_def seal_def)
qed

definition sample_settings_env :: settings_env where
  "sample_settings_env =
     \<lparr>sv_cipher = \<lparr>ci_encrypt = (\<lambda>key nonce plain. plain), ci_decrypt = (\<lambda>key nonce blob. Some blob)\<rparr>,
      sv_kek = Inr (replicate 32 1), sv_new_key = (\<lambda>_. replicate 32 2), sv_key_nonce = (\<lambda>_. replicate 12 3),
      sv_nonce = (\<lambda>_. replicate 12 4), sv_rival = (\<lambda>_. None), sv_now = 5, sv_fault = None\<rparr>"

definition sample_tenant :: settings_state where
  "sample_tenant = \<lparr>sx_tenant = Some (1, None), sx_key = None, sx_creds = [], sx_audit = None\<rparr>"

definition sample_quota :: obj where
  "sample_quota = [(quota_section, JObj [(tokens_month, JInt 5)])]"

definition sample_patch :: "ustring \<Rightarrow> json" where
  "sample_patch t = JObj (sample_quota @ [(credentials_section, JObj [(lit ''openai_api_key'', JStr t)])])"

lemma section_names [simp]: "quota_section \<noteq> credentials_section" "credentials_section \<noteq> quota_section"
  by (simp_all add: quota_section_def credentials_section_def)

lemma sample_equipped: "well_equipped sample_settings_env name sample_tenant"
  by (simp add: well_equipped_def cipher_ok_def sample_settings_env_def sample_tenant_def key_bytes_def nonce_bytes_def)

lemma sample_patch_valid:
  "strip t \<noteq> [] \<Longrightarrow> validate_settings settings (sample_patch t) = Inr (sample_quota, [(lit ''openai_api_key'', JStr t)])"
  by (simp add: validate_settings_def sample_patch_def sample_quota_def validate_param_sections_def validate_quota_def quota_item_errors_def
      validate_credentials_def credential_item_errors_def items_or_empty_def resources_def credential_names_def Let_def)

lemma sample_update:
  assumes "strip t \<noteq> []" "list_all scalar_value (strip t)"
  shows "\<exists>w out. update_settings settings sample_settings_env 1 (sample_patch t) sample_tenant = (Inr w, out)"
proof -
  obtain s1 where s1: "put_credential sample_settings_env (lit ''openai_api_key'') (strip t) sample_tenant = Inr s1"
    using put_succeeds [OF sample_equipped assms(2)] by blast
  have "require_tenant 1 s1 = Inr []" using put_keeps(1) [OF s1] by (simp add: require_tenant_def sample_tenant_def or_else_def)
  moreover have "sv_fault sample_settings_env = None" by (simp add: sample_settings_env_def)
  ultimately show ?thesis using s1 assms(1) by (simp add: update_settings_def sample_patch_valid Let_def)
qed


theorem patches_apply_by_section_witness:
  "case update_settings (\<lambda>_. JNull) sample_settings_env 1 (sample_patch [97]) sample_tenant of
      (Inl (InvalidSettings errors), out) \<Rightarrow> out = sample_tenant \<and> errors \<noteq> []
    | (Inl (RaisedClass cls), out) \<Rightarrow> sx_tenant out = sx_tenant sample_tenant
    | (Inr w, out) \<Rightarrow> sx_tenant out = Some (1, Some (sw_settings w))
        \<and> map_of (sw_settings w) = map_of (or_else None []) ++ map_of (sent_sections (sample_patch [97]))"
  by (rule patches_apply_by_section) (simp_all add: sample_patch_def sample_quota_def items_or_empty_def sample_tenant_def)

theorem accepted_quota_takes_effect_witness:
  "\<exists>w out. update_settings (\<lambda>_. JNull) sample_settings_env 1 (sample_patch [97]) sample_tenant = (Inr w, out)
     \<and> limits_of \<lparr>plan_text = [], tenant_settings = (\<lambda>_. Some (sw_settings w)), active_count = (\<lambda>_. 0), active_size_bytes = (\<lambda>_. 0),
          thresholds_text = []\<rparr> 1 tokens_month = Some 5"
proof -
  have t: "strip [97] \<noteq> []" "list_all scalar_value (strip [97])"
    by (simp_all add: strip_def lstrip_def rstrip_def is_space_def scalar_value_def)
  obtain w out where a: "update_settings (\<lambda>_. JNull) sample_settings_env 1 (sample_patch [97]) sample_tenant = (Inr w, out)"
    using sample_update [OF t] by blast
  have "limits_of \<lparr>plan_text = [], tenant_settings = (\<lambda>_. Some (sw_settings w)), active_count = (\<lambda>_. 0), active_size_bytes = (\<lambda>_. 0),
          thresholds_text = []\<rparr> 1 tokens_month = quota_value (JInt 5)"
    by (rule accepted_quota_takes_effect [OF a, where qs = "[(tokens_month, JInt 5)]"])
      (simp_all add: sample_tenant_def sample_patch_def sample_quota_def items_or_empty_def)
  with a show ?thesis by (auto simp: quota_value_def)
qed

theorem stored_secret_comes_back_witness:
  "\<exists>s1. put_credential sample_settings_env (lit ''openai_api_key'') [97, 98] sample_tenant = Inr s1
     \<and> get_secret sample_settings_env (lit ''openai_api_key'') (snd (store_credentials sample_settings_env [(lit ''jina_api_key'', JStr [99])] s1))
       = Inr [97, 98]"
  by (rule stored_secret_comes_back [OF sample_equipped]) (simp_all add: scalar_value_def)

end
